(* ===== verification/Prelude.thy ===== *)
theory Prelude
  imports Main "HOL-Library.Word"
begin

text \<open>
  Shared vocabulary of the development: the fixed-width integers of the Rust
  sources, Rust's \<open>Result\<close> as a sum type with the \<open>?\<close> operator as
  \<open>rbind\<close>, checked and saturating \<open>usize\<close> arithmetic, little- and
  big-endian byte conversions, and the three interface locales the components
  instantiate (a value codec, a chunked stream consumer, and a machine driven
  by events).

  A Rust \<open>String\<close> or \<open>str\<close> is modelled by its UTF-8 bytes, a list of
  \<open>u8\<close>; a \<open>usize\<close> is a \<open>nat\<close> below \<open>2 ^ 64\<close>.
\<close>

unbundle bit_operations_syntax

type_synonym u8 = "8 word"
type_synonym u16 = "16 word"
type_synonym u32 = "32 word"
type_synonym u64 = "64 word"

named_theorems codec_simps "equations that evaluate the byte-level readers"
named_theorems inv_intros "an operation keeps its component's invariant"

lemma unat_u8: "unat (b :: u8) < 256"
  using unsigned_less [where ?'a = nat, of b] by simp

lemma nibble_less [simp]: "unat (b :: u8) div 16 < 16"
  using unat_u8 [of b] by simp

lemma unat_u16: "unat (b :: u16) < 65536"
  using unsigned_less [where ?'a = nat, of b] by simp

lemma unat_u32: "unat (b :: u32) < 4294967296"
  using unsigned_less [where ?'a = nat, of b] by simp

lemma unat_u64: "unat (b :: u64) < 18446744073709551616"
  using unsigned_less [where ?'a = nat, of b] by simp

subsection \<open>Results\<close>

definition rbind :: "'e + 'a \<Rightarrow> ('a \<Rightarrow> 'e + 'b) \<Rightarrow> 'e + 'b" where
  "rbind r f = (case r of Inl e \<Rightarrow> Inl e | Inr x \<Rightarrow> f x)"

lemma rbind_simps [simp]:
  "rbind (Inl e) f = Inl e"
  "rbind (Inr x) f = f x"
  by (simp_all add: rbind_def)

lemma rbind_Inr_iff: "rbind r f = Inr y \<longleftrightarrow> (\<exists>x. r = Inr x \<and> f x = Inr y)"
  by (cases r) simp_all

lemma rbind_InrE [elim!]:
  assumes "rbind r f = Inr y"
  obtains x where "r = Inr x" and "f x = Inr y"
  using assms by (auto simp: rbind_Inr_iff)

lemma rbind_cong [fundef_cong]:
  "r = r' \<Longrightarrow> (\<And>x. r' = Inr x \<Longrightarrow> f x = g x) \<Longrightarrow> rbind r f = rbind r' g"
  by (cases r') simp_all

definition ok_or :: "'e \<Rightarrow> 'a option \<Rightarrow> 'e + 'a" where
  "ok_or e r = (case r of None \<Rightarrow> Inl e | Some x \<Rightarrow> Inr x)"

lemma ok_or_simps [simp]:
  "ok_or e None = Inl e"
  "ok_or e (Some x) = Inr x"
  by (simp_all add: ok_or_def)

lemma ok_or_Inr_iff [simp]: "ok_or e r = Inr x \<longleftrightarrow> r = Some x"
  by (cases r) simp_all

subsection \<open>usize arithmetic\<close>

definition usize_max :: nat where
  "usize_max = 18446744073709551615"

definition sat_add :: "nat \<Rightarrow> nat \<Rightarrow> nat" where
  "sat_add a b = min (a + b) usize_max"

definition sat_mul :: "nat \<Rightarrow> nat \<Rightarrow> nat" where
  "sat_mul a b = min (a * b) usize_max"

definition chk_add :: "nat \<Rightarrow> nat \<Rightarrow> nat option" where
  "chk_add a b = (if a + b \<le> usize_max then Some (a + b) else None)"

definition chk_mul :: "nat \<Rightarrow> nat \<Rightarrow> nat option" where
  "chk_mul a b = (if a * b \<le> usize_max then Some (a * b) else None)"

definition sub_usize :: "nat \<Rightarrow> nat \<Rightarrow> nat option" where
  "sub_usize a b = (if b \<le> a then Some (a - b) else None)"

lemma chk_add_Some [simp]: "chk_add a b = Some c \<longleftrightarrow> c = a + b \<and> a + b \<le> usize_max"
  by (auto simp: chk_add_def)

lemma chk_mul_Some [simp]: "chk_mul a b = Some c \<longleftrightarrow> c = a * b \<and> a * b \<le> usize_max"
  by (auto simp: chk_mul_def)

lemma sat_add_le: "sat_add a b \<le> a + b"
  by (simp add: sat_add_def)

lemma sat_add_exact: "a + b \<le> usize_max \<Longrightarrow> sat_add a b = a + b"
  by (simp add: sat_add_def)

text \<open>\<open>clamp(lo, hi)\<close> of a number (Rust panics when \<open>hi < lo\<close>; every use has constants in order).\<close>

definition clamp :: "'a::linorder \<Rightarrow> 'a \<Rightarrow> 'a \<Rightarrow> 'a" where
  "clamp lo hi x = (if x < lo then lo else if hi < x then hi else x)"

lemma clamp_bounds: "lo \<le> hi \<Longrightarrow> lo \<le> clamp lo hi x \<and> clamp lo hi x \<le> hi"
  by (auto simp: clamp_def)

lemma clamp_id: "lo \<le> x \<Longrightarrow> x \<le> hi \<Longrightarrow> clamp lo hi x = x"
  by (auto simp: clamp_def)

subsection \<open>Byte order\<close>

text \<open>\<open>to_le_bytes\<close>/\<open>from_le_bytes\<close>, and the big-endian pair as their reversal.\<close>

fun le_bytes :: "nat \<Rightarrow> 'a::len word \<Rightarrow> u8 list" where
  "le_bytes 0 w = []"
| "le_bytes (Suc n) w = ucast w # le_bytes n (drop_bit 8 w)"

fun le_val :: "u8 list \<Rightarrow> 'a::len word" where
  "le_val [] = 0"
| "le_val (b # bs) = ucast b OR push_bit 8 (le_val bs)"

definition be_bytes :: "nat \<Rightarrow> 'a::len word \<Rightarrow> u8 list" where
  "be_bytes n w = rev (le_bytes n w)"

definition be_val :: "u8 list \<Rightarrow> 'a::len word" where
  "be_val bs = le_val (rev bs)"

lemma length_le_bytes [simp]: "length (le_bytes n w) = n"
  by (induction n arbitrary: w) simp_all

lemma length_be_bytes [simp]: "length (be_bytes n w) = n"
  by (simp add: be_bytes_def)

lemma le_val_le_bytes_take: "le_val (le_bytes n w) = take_bit (8 * n) w"
proof (induction n arbitrary: w)
  case 0
  then show ?case by simp
next
  case (Suc n)
  show ?case
  proof (rule bit_word_eqI)
    fix i assume "i < LENGTH('a)"
    then show "bit (le_val (le_bytes (Suc n) w) :: 'a word) i = bit (take_bit (8 * Suc n) w) i"
      by (cases "i < 8")
        (auto simp: Suc.IH bit_or_iff bit_ucast_iff bit_push_bit_iff bit_take_bit_iff bit_drop_bit_eq
          dest: bit_imp_le_length)
  qed
qed

lemma le_val_le_bytes: "LENGTH('a) = 8 * n \<Longrightarrow> le_val (le_bytes n w) = (w :: 'a::len word)"
  by (simp add: le_val_le_bytes_take take_bit_word_eq_self)

lemma le_val_16 [simp]: "le_val (le_bytes 2 w) = (w :: u16)"
  by (rule le_val_le_bytes) simp

lemma le_val_32 [simp]: "le_val (le_bytes 4 w) = (w :: u32)"
  by (rule le_val_le_bytes) simp

lemma le_val_64 [simp]: "le_val (le_bytes 8 w) = (w :: u64)"
  by (rule le_val_le_bytes) simp

lemma be_val_32 [simp]: "be_val (be_bytes 4 w) = (w :: u32)"
  by (simp add: be_val_def be_bytes_def)

lemma be_val_64 [simp]: "be_val (be_bytes 8 w) = (w :: u64)"
  by (simp add: be_val_def be_bytes_def)

subsection \<open>Interfaces\<close>

text \<open>
  A value codec: what \<open>enc\<close> writes, \<open>dec\<close> reads back, for every value the
  encoder accepts (\<open>ok\<close>). Clients need no more than that to conclude that two
  different values never share an encoding.
\<close>

locale value_codec =
  fixes enc :: "'a \<Rightarrow> 'c"
    and dec :: "'c \<Rightarrow> 'e + 'a"
    and ok :: "'a \<Rightarrow> bool"
  assumes roundtrip: "ok x \<Longrightarrow> dec (enc x) = Inr x"
begin

lemma enc_inj:
  assumes "ok x" and "ok y" and "enc x = enc y"
  shows "x = y"
proof -
  have "Inr x = dec (enc x)" using roundtrip [OF assms(1)] by (rule sym)
  also have "\<dots> = dec (enc y)" by (simp only: assms(3))
  also have "\<dots> = Inr y" by (rule roundtrip [OF assms(2)])
  finally show ?thesis by simp
qed

lemma enc_inj_on: "inj_on enc {x. ok x}"
  by (rule inj_onI) (rule enc_inj, simp_all)

end

text \<open>
  A stream consumer: a state, and a \<open>feed\<close> that takes the next chunk of input and
  emits output. The law says that cutting a chunk in two changes nothing; the
  consequence is that no segmentation of the input is observable.
\<close>

primrec feed_chunks :: "('s \<Rightarrow> 'i list \<Rightarrow> 's \<times> 'o list) \<Rightarrow> 's \<Rightarrow> 'i list list \<Rightarrow> 's \<times> 'o list" where
  "feed_chunks f s [] = (s, [])"
| "feed_chunks f s (c # cs) =
     (let (s1, o1) = f s c; (s2, o2) = feed_chunks f s1 cs in (s2, o1 @ o2))"

locale stream_consumer =
  fixes feed :: "'s \<Rightarrow> 'i list \<Rightarrow> 's \<times> 'o list"
    and ok :: "'s \<Rightarrow> bool"
  assumes feed_nil: "ok s \<Longrightarrow> feed s [] = (s, [])"
    and feed_ok: "ok s \<Longrightarrow> ok (fst (feed s xs))"
    and feed_append: "ok s \<Longrightarrow>
      feed s (xs @ ys) =
        (let (s1, o1) = feed s xs; (s2, o2) = feed s1 ys in (s2, o1 @ o2))"
begin

lemma feed_chunks_concat: "ok s \<Longrightarrow> feed_chunks feed s cs = feed s (concat cs)"
proof (induction cs arbitrary: s)
  case Nil
  then show ?case by (simp add: feed_nil)
next
  case (Cons c cs)
  obtain s1 o1 where c: "feed s c = (s1, o1)" by (cases "feed s c")
  with Cons.prems feed_ok [of s c] have "ok s1" by simp
  then have "feed_chunks feed s1 cs = feed s1 (concat cs)" by (rule Cons.IH)
  with c show ?case by (simp add: feed_append [OF Cons.prems, of c "concat cs"])
qed

lemma chunking_irrelevant:
  "ok s \<Longrightarrow> concat cs = concat ds \<Longrightarrow> feed_chunks feed s cs = feed_chunks feed s ds"
  by (simp add: feed_chunks_concat)

end

text \<open>
  A component driven by events: if every event keeps the invariant, so does every
  sequence of events.
\<close>

locale event_machine =
  fixes step :: "'s \<Rightarrow> 'e \<Rightarrow> 's"
    and inv :: "'s \<Rightarrow> bool"
  assumes step_inv: "inv s \<Longrightarrow> inv (step s e)"
begin

lemma run_inv: "inv s \<Longrightarrow> inv (foldl step s es)"
  by (induction es arbitrary: s) (auto intro: step_inv)

end

text \<open>The number a byte string denotes, least significant byte first.\<close>

fun le_nat :: "u8 list \<Rightarrow> nat" where
  "le_nat [] = 0"
| "le_nat (b # bs) = unat b + 2 ^ 8 * le_nat bs"

lemma le_nat_less: "le_nat bs < 2 ^ (8 * length bs)"
proof (induction bs)
  case (Cons b bs)
  have "unat b < 256" by (rule unat_u8)
  with Cons show ?case by (simp add: power_add)
qed simp

lemma unat_le_val: "8 * length bs \<le> LENGTH('a) \<Longrightarrow> unat (le_val bs :: 'a::len word) = le_nat bs"
proof (induction bs)
  case (Cons b bs)
  then have ih: "unat (le_val bs :: 'a word) = le_nat bs" by simp
  have less: "2 ^ 8 * le_nat bs < 2 ^ LENGTH('a)"
  proof -
    have "2 ^ 8 * le_nat bs < 2 ^ 8 * 2 ^ (8 * length bs)" using le_nat_less [of bs] by simp
    also have "\<dots> = 2 ^ (8 * length (b # bs))" by (simp add: power_add)
    also have "\<dots> \<le> (2 :: nat) ^ LENGTH('a)" using Cons.prems by (intro power_increasing) simp_all
    finally show ?thesis .
  qed
  have "ucast b OR push_bit 8 (le_val bs :: 'a word) = ucast b + push_bit 8 (le_val bs)"
    by (rule disjunctive_add [symmetric]) (auto simp: bit_simps dest: bit_imp_le_length)
  moreover have "unat (push_bit 8 (le_val bs :: 'a word)) = 2 ^ 8 * le_nat bs"
    unfolding unsigned_push_bit_eq ih push_bit_nat_def using less by (simp add: take_bit_nat_eq_self mult.commute)
  moreover have "unat (ucast b :: 'a word) = unat b"
    using Cons.prems power_increasing [of 8 "LENGTH('a)" "2 :: nat"] unat_u8 [of b]
    by (simp add: unsigned_ucast_eq take_bit_nat_eq_self)
  moreover have "unat b + 2 ^ 8 * le_nat bs < 2 ^ LENGTH('a)"
  proof -
    have "unat b + 2 ^ 8 * le_nat bs < 2 ^ (8 * length (b # bs))" using le_nat_less [of "b # bs"] by simp
    also have "\<dots> \<le> (2 :: nat) ^ LENGTH('a)" using Cons.prems by (intro power_increasing) simp_all
    finally show ?thesis .
  qed
  ultimately show ?case by (simp add: unat_word_ariths)
qed simp

end
