(* ===== verification/Utf8_Text.thy ===== *)
theory Utf8_Text
  imports Prelude
begin

text \<open>
  Rust's \<open>str\<close>: a byte list that is well-formed UTF-8 (the table of
  \<open>core::str::from_utf8\<close>), \<open>is_char_boundary\<close>, and slicing at
  boundaries.
\<close>

subsection \<open>Well-formed UTF-8\<close>

definition is_cont :: "u8 \<Rightarrow> bool" where
  "is_cont b \<longleftrightarrow> 0x80 \<le> b \<and> b \<le> 0xBF"

text \<open>The well-formed two-, three- and four-byte sequences.\<close>

definition utf8_2 :: "u8 \<Rightarrow> u8 \<Rightarrow> bool" where
  "utf8_2 b0 b1 \<longleftrightarrow> 0xC2 \<le> b0 \<and> b0 \<le> 0xDF \<and> is_cont b1"

definition utf8_3 :: "u8 \<Rightarrow> u8 \<Rightarrow> u8 \<Rightarrow> bool" where
  "utf8_3 b0 b1 b2 \<longleftrightarrow> 0xE0 \<le> b0 \<and> b0 \<le> 0xEF \<and> is_cont b1 \<and> is_cont b2
     \<and> (b0 = 0xE0 \<longrightarrow> 0xA0 \<le> b1) \<and> (b0 = 0xED \<longrightarrow> b1 \<le> 0x9F)"

definition utf8_4 :: "u8 \<Rightarrow> u8 \<Rightarrow> u8 \<Rightarrow> u8 \<Rightarrow> bool" where
  "utf8_4 b0 b1 b2 b3 \<longleftrightarrow> 0xF0 \<le> b0 \<and> b0 \<le> 0xF4 \<and> is_cont b1 \<and> is_cont b2 \<and> is_cont b3
     \<and> (b0 = 0xF0 \<longrightarrow> 0x90 \<le> b1) \<and> (b0 = 0xF4 \<longrightarrow> b1 \<le> 0x8F)"

text \<open>Length of the well-formed character at the front, 0 when there is none.\<close>

definition utf8_char_len :: "u8 list \<Rightarrow> nat" where
  "utf8_char_len bs = (case bs of
     [] \<Rightarrow> 0
   | b0 # r0 \<Rightarrow> if b0 \<le> 0x7F then 1 else (case r0 of
       [] \<Rightarrow> 0
     | b1 # r1 \<Rightarrow> if utf8_2 b0 b1 then 2 else (case r1 of
         [] \<Rightarrow> 0
       | b2 # r2 \<Rightarrow> if utf8_3 b0 b1 b2 then 3 else (case r2 of
           [] \<Rightarrow> 0
         | b3 # _ \<Rightarrow> if utf8_4 b0 b1 b2 b3 then 4 else 0))))"

function utf8_valid :: "u8 list \<Rightarrow> bool" where
  "utf8_valid bs =
     (if bs = [] then True
      else if utf8_char_len bs = 0 then False
      else utf8_valid (drop (utf8_char_len bs) bs))"
  by pat_completeness auto
termination
  by (relation "measure length") auto

declare utf8_valid.simps [simp del]

lemma utf8_valid_Nil [simp]: "utf8_valid []"
  by (simp add: utf8_valid.simps)

text \<open>\<open>str::is_char_boundary\<close>.\<close>

definition is_char_boundary :: "u8 list \<Rightarrow> nat \<Rightarrow> bool" where
  "is_char_boundary s i \<longleftrightarrow>
     i = 0 \<or> i = length s \<or> (i < length s \<and> \<not> is_cont (s ! i))"

lemma lead_not_cont: "0xC2 \<le> b \<Longrightarrow> \<not> is_cont b" "b \<le> 0x7F \<Longrightarrow> \<not> is_cont b"
  by (auto simp: is_cont_def word_le_nat_alt)

lemma utf8_2D: "utf8_2 b c \<Longrightarrow> \<not> is_cont b \<and> is_cont c"
  by (auto simp: utf8_2_def dest: lead_not_cont)

lemma utf8_3D: "utf8_3 b c d \<Longrightarrow> \<not> is_cont b \<and> is_cont c \<and> is_cont d"
  by (auto simp: utf8_3_def is_cont_def word_le_nat_alt)

lemma utf8_4D: "utf8_4 b c d e \<Longrightarrow> \<not> is_cont b \<and> is_cont c \<and> is_cont d \<and> is_cont e"
  by (auto simp: utf8_4_def is_cont_def word_le_nat_alt)

lemma utf8_char_len_bound: "utf8_char_len bs \<le> length bs"
  by (auto simp: utf8_char_len_def split: list.split)

lemma utf8_char_len_lead: "0 < utf8_char_len bs \<Longrightarrow> bs \<noteq> [] \<and> \<not> is_cont (bs ! 0)"
  by (auto simp: utf8_char_len_def lead_not_cont dest: utf8_2D utf8_3D utf8_4D
      split: list.split_asm if_split_asm)

lemma utf8_char_len_cont: "0 < i \<Longrightarrow> i < utf8_char_len bs \<Longrightarrow> is_cont (bs ! i)"
  by (auto simp: utf8_char_len_def less_Suc_eq numeral_eq_Suc dest: utf8_2D utf8_3D utf8_4D
      split: list.split_asm if_split_asm)

lemma utf8_char_len_append: "0 < utf8_char_len bs \<Longrightarrow> utf8_char_len (bs @ cs) = utf8_char_len bs"
  by (auto simp: utf8_char_len_def split: list.split_asm if_split_asm)

lemma utf8_char_len_take:
  "0 < utf8_char_len bs \<Longrightarrow> utf8_char_len bs \<le> n \<Longrightarrow> utf8_char_len (take n bs) = utf8_char_len bs"
  by (auto simp: utf8_char_len_def take_Cons' split: list.split_asm if_split_asm)

lemma utf8_valid_step:
  assumes "0 < utf8_char_len bs"
  shows "utf8_valid bs \<longleftrightarrow> utf8_valid (drop (utf8_char_len bs) bs)"
  using assms utf8_char_len_lead [OF assms] by (simp add: utf8_valid.simps [of bs])

lemma utf8_valid_char: "utf8_valid bs \<Longrightarrow> bs \<noteq> [] \<Longrightarrow> 0 < utf8_char_len bs"
  by (simp add: utf8_valid.simps [of bs] split: if_split_asm)

lemma utf8_valid_append: "utf8_valid xs \<Longrightarrow> utf8_valid (xs @ ys) \<longleftrightarrow> utf8_valid ys"
proof (induction xs rule: utf8_valid.induct)
  case (1 xs)
  show ?case
  proof (cases "xs = []")
    case False
    with "1.prems" have n: "0 < utf8_char_len xs" by (rule utf8_valid_char)
    moreover have "utf8_valid (drop (utf8_char_len xs) xs)"
      using "1.prems" n by (simp add: utf8_valid_step)
    ultimately have "utf8_valid (drop (utf8_char_len xs) xs @ ys) \<longleftrightarrow> utf8_valid ys"
      using "1.IH" False by simp
    moreover have "utf8_valid (xs @ ys) \<longleftrightarrow> utf8_valid (drop (utf8_char_len xs) (xs @ ys))"
      using utf8_valid_step [of "xs @ ys"] utf8_char_len_append [OF n, of ys] n by simp
    ultimately show ?thesis using utf8_char_len_bound [of xs] by simp
  qed simp
qed

lemma utf8_valid_ascii: "(\<And>b. b \<in> set bs \<Longrightarrow> b \<le> 0x7F) \<Longrightarrow> utf8_valid bs"
proof (induction bs)
  case (Cons b bs)
  then have "utf8_char_len (b # bs) = 1" by (simp add: utf8_char_len_def)
  with Cons show ?case using utf8_valid_step [of "b # bs"] by simp
qed simp

text \<open>Cutting a string at a character boundary leaves two strings.\<close>

lemma utf8_valid_split:
  "utf8_valid s \<Longrightarrow> is_char_boundary s i \<Longrightarrow> utf8_valid (take i s) \<and> utf8_valid (drop i s)"
proof (induction s arbitrary: i rule: utf8_valid.induct)
  case (1 s)
  show ?case
  proof (cases "s = [] \<or> i = 0")
    case True
    then show ?thesis using "1.prems"(1) by auto
  next
    case False
    define n where "n = utf8_char_len s"
    have n: "0 < n" "n \<le> length s"
      using utf8_valid_char [OF "1.prems"(1)] False utf8_char_len_bound [of s] by (auto simp: n_def)
    have ni: "n \<le> i"
    proof (rule ccontr)
      assume "\<not> n \<le> i"
      with False have "is_cont (s ! i)" by (simp add: n_def utf8_char_len_cont)
      with "1.prems"(2) False \<open>\<not> n \<le> i\<close> n show False by (auto simp: is_char_boundary_def)
    qed
    have "is_char_boundary (drop n s) (i - n)"
      using "1.prems"(2) ni False by (auto simp: is_char_boundary_def)
    moreover have "utf8_valid (drop n s)"
      using "1.prems"(1) n(1) utf8_valid_step [of s] by (simp add: n_def)
    ultimately have IH: "utf8_valid (take (i - n) (drop n s)) \<and> utf8_valid (drop (i - n) (drop n s))"
      using "1.IH" [of "i - n"] False n(1) by (simp add: n_def)
    have "utf8_char_len (take i s) = n"
      using n(1) ni by (simp add: n_def utf8_char_len_take)
    then have "utf8_valid (take i s) \<longleftrightarrow> utf8_valid (take (i - n) (drop n s))"
      using utf8_valid_step [of "take i s"] n(1) by (simp add: drop_take)
    with IH ni show ?thesis by simp
  qed
qed

lemma is_char_boundary_ends [simp]: "is_char_boundary s 0" "is_char_boundary s (length s)"
  by (simp_all add: is_char_boundary_def)

lemma is_char_boundary_le: "is_char_boundary s i \<Longrightarrow> i \<le> length s"
  by (auto simp: is_char_boundary_def)

lemma is_char_boundary_drop:
  "is_char_boundary s i \<Longrightarrow> j \<le> length s - i \<Longrightarrow>
   is_char_boundary (drop i s) j \<longleftrightarrow> j = 0 \<or> is_char_boundary s (i + j)"
  by (auto simp: is_char_boundary_def)

text \<open>The next boundary after a boundary is at most four bytes away.\<close>

lemma next_boundary:
  assumes "utf8_valid s" and "is_char_boundary s i" and "i < length s"
  obtains j where "i < j" and "j \<le> i + 4" and "j \<le> length s" and "is_char_boundary s j"
proof -
  have v: "utf8_valid (drop i s)" using utf8_valid_split [OF assms(1,2)] by simp
  define n where "n = utf8_char_len (drop i s)"
  have n: "0 < n" using v assms(3) by (simp add: n_def utf8_valid_char)
  have le: "n \<le> length s - i" using utf8_char_len_bound [of "drop i s"] by (simp add: n_def)
  have n4: "n \<le> 4" by (auto simp: n_def utf8_char_len_def split: list.split)
  have rest: "utf8_valid (drop n (drop i s))"
    using v n utf8_valid_step [of "drop i s"] by (simp add: n_def)
  have "is_char_boundary s (i + n)"
  proof (cases "i + n = length s")
    case False
    with le assms(3) have lt: "i + n < length s" by simp
    with rest have "0 < utf8_char_len (drop n (drop i s))" by (simp add: utf8_valid_char)
    then have "\<not> is_cont (drop n (drop i s) ! 0)" by (blast dest: utf8_char_len_lead)
    with lt show ?thesis by (simp add: is_char_boundary_def add.commute)
  qed simp
  with n n4 le show thesis using assms(3) by (intro that [of "i + n"]) auto
qed

end
