(* ===== verification/Str_Ops.thy ===== *)
theory Str_Ops
  imports Utf8_Text
begin

text \<open>
  The \<open>str\<close> operations the sources use, on UTF-8 bytes: ASCII literals,
  \<open>strip_prefix\<close>, \<open>split_once\<close> and \<open>split\<close> at an ASCII character,
  \<open>to_string\<close> and \<open>parse\<close> of unsigned integers, and the two-digit
  hexadecimal forms (\<open>{b:02X}\<close>, \<open>u8::from_str_radix(_, 16)\<close>).
\<close>

definition ascii :: "string \<Rightarrow> u8 list" where
  "ascii s = map (\<lambda>c. word_of_nat (of_char c)) s"

subsection \<open>Prefixes and separators\<close>

fun strip_prefix :: "u8 list \<Rightarrow> u8 list \<Rightarrow> u8 list option" where
  "strip_prefix [] s = Some s"
| "strip_prefix (p # ps) [] = None"
| "strip_prefix (p # ps) (b # bs) = (if p = b then strip_prefix ps bs else None)"

fun split_once :: "u8 \<Rightarrow> u8 list \<Rightarrow> (u8 list \<times> u8 list) option" where
  "split_once c [] = None"
| "split_once c (b # bs) =
     (if b = c then Some ([], bs)
      else (case split_once c bs of None \<Rightarrow> None | Some (l, r) \<Rightarrow> Some (b # l, r)))"

fun split_on :: "u8 \<Rightarrow> u8 list \<Rightarrow> u8 list list" where
  "split_on c [] = [[]]"
| "split_on c (b # bs) =
     (if b = c then [] # split_on c bs
      else (case split_on c bs of [] \<Rightarrow> [[b]] | p # ps \<Rightarrow> (b # p) # ps))"

lemma strip_prefix_append [simp]: "strip_prefix p (p @ s) = Some s"
  by (induction p) simp_all

lemma strip_prefix_Some: "strip_prefix p s = Some r \<Longrightarrow> s = p @ r"
  by (induction p s rule: strip_prefix.induct) (auto split: if_splits)

lemma split_once_append: "c \<notin> set l \<Longrightarrow> split_once c (l @ c # r) = Some (l, r)"
  by (induction l) auto

lemma split_once_None: "c \<notin> set s \<Longrightarrow> split_once c s = None"
  by (induction s) auto

lemma split_once_Some: "split_once c s = Some (l, r) \<Longrightarrow> s = l @ c # r \<and> c \<notin> set l"
proof (induction s arbitrary: l)
  case (Cons b s)
  then show ?case by (cases "b = c") (auto split: option.split_asm)
qed simp

lemma split_on_no_sep: "c \<notin> set s \<Longrightarrow> split_on c s = [s]"
  by (induction s) auto

lemma split_on_append: "c \<notin> set l \<Longrightarrow> split_on c (l @ c # r) = l # split_on c r"
  by (induction l) auto

subsection \<open>Decimal numbers\<close>

definition digit_byte :: "nat \<Rightarrow> u8" where
  "digit_byte d = word_of_nat (48 + d)"

fun to_decimal :: "nat \<Rightarrow> u8 list" where
  "to_decimal n = (if n < 10 then [digit_byte n] else to_decimal (n div 10) @ [digit_byte (n mod 10)])"

declare to_decimal.simps [simp del]

fun parse_digits :: "nat \<Rightarrow> nat \<Rightarrow> u8 list \<Rightarrow> nat option" where
  "parse_digits m acc [] = Some acc"
| "parse_digits m acc (b # bs) =
     (if 0x30 \<le> b \<and> b \<le> 0x39 then
        (let v = acc * 10 + unat (b - 0x30) in if v \<le> m then parse_digits m v bs else None)
      else None)"

text \<open>
  \<open>str::parse\<close> for an unsigned type whose largest value is \<open>m\<close>: the empty string and
  a lone sign are errors, one leading \<open>+\<close> is skipped, every other byte is a digit, and
  a value above \<open>m\<close> is an error.
\<close>

definition parse_uint :: "nat \<Rightarrow> u8 list \<Rightarrow> nat option" where
  "parse_uint m s = (case s of
     [] \<Rightarrow> None
   | b # r \<Rightarrow> if b = 0x2B \<and> r \<noteq> [] then parse_digits m 0 r else parse_digits m 0 s)"

lemma digit_byte_props:
  assumes "d < 10"
  shows "0x30 \<le> digit_byte d" and "digit_byte d \<le> 0x39" and "unat (digit_byte d - 0x30) = d"
proof -
  have u: "unat (digit_byte d) = 48 + d"
    unfolding digit_byte_def using assms by (subst unat_of_nat) simp
  show le: "0x30 \<le> digit_byte d" by (simp add: word_le_nat_alt u)
  show "digit_byte d \<le> 0x39" using assms by (simp add: word_le_nat_alt u)
  show "unat (digit_byte d - 0x30) = d" using le by (simp add: unat_sub u)
qed

lemma parse_digits_append:
  "parse_digits m acc (xs @ ys) =
     (case parse_digits m acc xs of None \<Rightarrow> None | Some a \<Rightarrow> parse_digits m a ys)"
  by (induction xs arbitrary: acc) (auto simp: Let_def)

lemma parse_digits_to_decimal: "n \<le> m \<Longrightarrow> parse_digits m 0 (to_decimal n) = Some n"
proof (induction n rule: to_decimal.induct)
  case (1 n)
  show ?case
  proof (cases "n < 10")
    case True
    with "1.prems" show ?thesis by (simp add: to_decimal.simps [of n] digit_byte_props)
  next
    case False
    have "parse_digits m 0 (to_decimal (n div 10)) = Some (n div 10)"
      using "1.IH" False "1.prems" by simp
    then show ?thesis
      using False "1.prems"
      by (simp add: to_decimal.simps [of n] parse_digits_append digit_byte_props)
  qed
qed

lemma to_decimal_bytes: "b \<in> set (to_decimal n) \<Longrightarrow> 0x30 \<le> b \<and> b \<le> 0x39"
proof (induction n rule: to_decimal.induct)
  case (1 n)
  then show ?case
    by (cases "n < 10") (auto simp: to_decimal.simps [of n] digit_byte_props)
qed

lemma to_decimal_not_Nil [simp]: "to_decimal n \<noteq> []"
  by (simp add: to_decimal.simps)

theorem parse_to_decimal: "n \<le> m \<Longrightarrow> parse_uint m (to_decimal n) = Some n"
proof -
  assume n: "n \<le> m"
  obtain b r where br: "to_decimal n = b # r" by (cases "to_decimal n") simp_all
  with to_decimal_bytes [of b n] have "b \<noteq> 0x2B" by auto
  with br parse_digits_to_decimal [OF n] show ?thesis by (simp add: parse_uint_def)
qed

subsection \<open>Hexadecimal digits\<close>

definition hex_val :: "u8 \<Rightarrow> nat option" where
  "hex_val b =
     (if 0x30 \<le> b \<and> b \<le> 0x39 then Some (unat (b - 0x30))
      else if 0x41 \<le> b \<and> b \<le> 0x46 then Some (unat (b - 0x41) + 10)
      else if 0x61 \<le> b \<and> b \<le> 0x66 then Some (unat (b - 0x61) + 10)
      else None)"

text \<open>\<open>u8::from_str_radix(s, 16)\<close> on a two-byte string: a leading \<open>+\<close> is a sign.\<close>

definition parse_hex2 :: "u8 \<Rightarrow> u8 \<Rightarrow> u8 option" where
  "parse_hex2 a b =
     (case hex_val b of None \<Rightarrow> None
      | Some y \<Rightarrow> if a = 0x2B then Some (word_of_nat y)
        else (case hex_val a of None \<Rightarrow> None | Some x \<Rightarrow> Some (word_of_nat (16 * x + y))))"

definition hex_upper :: "nat \<Rightarrow> u8" where
  "hex_upper n = (if n < 10 then word_of_nat (48 + n) else word_of_nat (55 + n))"

definition hex_lower :: "nat \<Rightarrow> u8" where
  "hex_lower n = (if n < 10 then word_of_nat (48 + n) else word_of_nat (87 + n))"

lemma upt16: "[0..<16] = [0, 1, 2, 3, 4, 5, 6, 7, 8, 9, 10, 11, 12, 13, 14, 15 :: nat]"
  by (simp add: upt_conv_Cons)

lemma less16_cases: "list_all P [0..<16] \<Longrightarrow> n < 16 \<Longrightarrow> P n"
  by (simp add: list_all_iff)

lemma hex_val_digit:
  assumes "n < 16"
  shows "hex_val (hex_upper n) = Some n" and "hex_val (hex_lower n) = Some n"
    and "hex_upper n \<noteq> 0x2B" and "hex_lower n \<noteq> 0x2B"
proof -
  have "list_all (\<lambda>n. hex_val (hex_upper n) = Some n \<and> hex_val (hex_lower n) = Some n
      \<and> hex_upper n \<noteq> 0x2B \<and> hex_lower n \<noteq> 0x2B) [0..<16]"
    by (simp add: upt16 hex_val_def hex_upper_def hex_lower_def)
  with assms show "hex_val (hex_upper n) = Some n" and "hex_val (hex_lower n) = Some n"
    and "hex_upper n \<noteq> 0x2B" and "hex_lower n \<noteq> 0x2B"
    by (simp_all add: list_all_iff)
qed

lemma parse_hex2_digits:
  fixes b :: u8
  shows "parse_hex2 (hex_upper (unat b div 16)) (hex_upper (unat b mod 16)) = Some b"
    and "parse_hex2 (hex_lower (unat b div 16)) (hex_lower (unat b mod 16)) = Some b"
proof -
  have "unat b div 16 < 16" and "unat b mod 16 < 16" using unat_u8 [of b] by simp_all
  then show "parse_hex2 (hex_upper (unat b div 16)) (hex_upper (unat b mod 16)) = Some b"
    and "parse_hex2 (hex_lower (unat b div 16)) (hex_lower (unat b mod 16)) = Some b"
    by (simp_all add: parse_hex2_def hex_val_digit)
qed

end
