(* ===== verification/Otp_Encoding.thy ===== *)
theory Otp_Encoding
  imports Str_Ops
begin

text \<open>
  The text encodings of the one-time-password crate
  (\<open>crates/nyaterm-otp/src/encoding\<close>): \<open>base32.rs\<close>, \<open>hex.rs\<close> and
  \<open>url.rs\<close>. The base32 loops keep a \<open>u16\<close>/\<open>u32\<close> shift register as the
  code does; they are related to a reference definition on bit strings (RFC 4648
  groups of five bits), from which the round trip follows. Every encoding is an
  instance of the codec interface.
\<close>

subsection \<open>Bit strings, most significant bit first\<close>

definition msb_bits :: "nat \<Rightarrow> 'a::semiring_bits \<Rightarrow> bool list" where
  "msb_bits n v = rev (map (bit v) [0..<n])"

fun group :: "nat \<Rightarrow> bool list \<Rightarrow> bool list list" where
  "group n bs = (if 0 < n \<and> n \<le> length bs then take n bs # group n (drop n bs) else [])"

declare group.simps [simp del]

lemma length_msb_bits [simp]: "length (msb_bits n v) = n"
  by (simp add: msb_bits_def)

lemma msb_bits_0 [simp]: "msb_bits 0 v = []"
  by (simp add: msb_bits_def)

lemma msb_bits_nth: "i < n \<Longrightarrow> msb_bits n v ! i = bit v (n - Suc i)"
  by (simp add: msb_bits_def rev_nth)

lemma msb_bits_take: "k \<le> n \<Longrightarrow> take k (msb_bits n v) = msb_bits k (drop_bit (n - k) v)"
  by (rule nth_equalityI) (auto simp: msb_bits_nth bit_drop_bit_eq algebra_simps)

lemma msb_bits_drop: "k \<le> n \<Longrightarrow> drop k (msb_bits n v) = msb_bits (n - k) v"
  by (rule nth_equalityI) (auto simp: msb_bits_nth)

lemma msb_bits_cong: "(\<And>i. i < n \<Longrightarrow> bit v i = bit w i) \<Longrightarrow> msb_bits n v = msb_bits n w"
  by (simp add: msb_bits_def)

lemma msb_bits_shift:
  fixes buf :: "'a::len word" and x :: "'b::len word"
  assumes "k + m \<le> LENGTH('a)" and "\<And>i. m \<le> i \<Longrightarrow> \<not> bit x i"
  shows "msb_bits (k + m) (push_bit m buf OR ucast x) = msb_bits k buf @ msb_bits m x"
proof (rule nth_equalityI)
  fix i assume i: "i < length (msb_bits (k + m) (push_bit m buf OR ucast x))"
  show "msb_bits (k + m) (push_bit m buf OR ucast x) ! i = (msb_bits k buf @ msb_bits m x) ! i"
  proof (cases "i < k")
    case True
    then show ?thesis using i assms
      by (auto simp: msb_bits_nth nth_append bit_or_iff bit_push_bit_iff bit_ucast_iff algebra_simps)
  next
    case False
    then show ?thesis using i assms
      by (auto simp: msb_bits_nth nth_append bit_or_iff bit_push_bit_iff bit_ucast_iff algebra_simps)
  qed
qed simp

lemma group_append:
  "0 < n \<Longrightarrow> length xs = n * m \<Longrightarrow> group n (xs @ ys) = group n xs @ group n ys"
proof (induction m arbitrary: xs)
  case (Suc m)
  then have "n \<le> length xs" and "length (drop n xs) = n * m" by simp_all
  with Suc show ?case by (simp add: group.simps [of n "xs @ ys"] group.simps [of n xs])
qed (simp add: group.simps [of _ "[]"])

lemma group_one: "0 < n \<Longrightarrow> length xs = n \<Longrightarrow> group n (xs @ ys) = xs # group n ys"
  by (simp add: group.simps [of n "xs @ ys"])

lemma group_short: "length xs < n \<Longrightarrow> group n xs = []"
  by (simp add: group.simps)

lemma concat_group: "0 < n \<Longrightarrow> n dvd length xs \<Longrightarrow> concat (group n xs) = xs"
proof (induction n xs rule: group.induct)
  case (1 n xs)
  show ?case
  proof (cases "n \<le> length xs")
    case True
    with 1 have "concat (group n (drop n xs)) = drop n xs" by (simp add: dvd_diff_nat)
    with True 1 show ?thesis by (simp add: group.simps [of n xs])
  next
    case False
    with "1.prems" have "xs = []" by (auto dest: dvd_imp_le)
    with False show ?thesis by (simp add: group.simps)
  qed
qed

lemma group_concat_map:
  "0 < n \<Longrightarrow> length ys < n \<Longrightarrow> group n (concat (map (msb_bits n) xs) @ ys) = map (msb_bits n) xs"
  by (induction xs) (simp_all add: group_short group_one)

lemma group_length: "g \<in> set (group n xs) \<Longrightarrow> length g = n"
proof (induction n xs rule: group.induct)
  case (1 n xs)
  then show ?case by (auto simp: group.simps [of n xs] split: if_split_asm)
qed

subsection \<open>base32.rs\<close>

definition BASE32_ALPHABET :: "u8 list" where
  "BASE32_ALPHABET = ascii ''ABCDEFGHIJKLMNOPQRSTUVWXYZ234567''"

text \<open>The inner \<open>while bits_left >= 5\<close> loop: the characters it emits and \<open>bits_left\<close> after it.\<close>

fun base32_drain :: "u16 \<Rightarrow> nat \<Rightarrow> u8 list \<times> nat" where
  "base32_drain buffer bits_left =
     (if 5 \<le> bits_left then
        (let index = drop_bit (bits_left - 5) buffer AND 0x1F;
             (out, left) = base32_drain buffer (bits_left - 5)
         in (BASE32_ALPHABET ! unat index # out, left))
      else ([], bits_left))"

declare base32_drain.simps [simp del]

fun base32_encode_loop :: "u16 \<Rightarrow> nat \<Rightarrow> u8 list \<Rightarrow> u8 list" where
  "base32_encode_loop buffer bits_left [] =
     (if 0 < bits_left
      then [BASE32_ALPHABET ! unat (push_bit (5 - bits_left) buffer AND 0x1F)]
      else [])"
| "base32_encode_loop buffer bits_left (byte # data) =
     (let buffer' = push_bit 8 buffer OR ucast byte;
          (out, left) = base32_drain buffer' (bits_left + 8)
      in out @ base32_encode_loop buffer' left data)"

definition base32_encode :: "u8 list \<Rightarrow> u8 list" where
  "base32_encode data = base32_encode_loop 0 0 data"

datatype DecodeBase32Error = InvalidChar u8

definition base32_symbol :: "u8 \<Rightarrow> DecodeBase32Error + u8" where
  "base32_symbol b =
     (if 0x41 \<le> b \<and> b \<le> 0x5A then Inr (b - 0x41)
      else if 0x61 \<le> b \<and> b \<le> 0x7A then Inr (b - 0x61)
      else if 0x32 \<le> b \<and> b \<le> 0x37 then Inr (b - 0x32 + 26)
      else Inl (InvalidChar b))"

fun base32_decode_loop :: "u32 \<Rightarrow> nat \<Rightarrow> u8 list \<Rightarrow> DecodeBase32Error + u8 list" where
  "base32_decode_loop buffer bits_left [] = Inr []"
| "base32_decode_loop buffer bits_left (b # data) =
     rbind (base32_symbol b) (\<lambda>val.
       let buffer' = push_bit 5 buffer OR ucast val; bits' = bits_left + 5
       in if 8 \<le> bits' then
            rbind (base32_decode_loop buffer' (bits' - 8) data) (\<lambda>output.
              Inr (ucast (drop_bit (bits' - 8) buffer') # output))
          else base32_decode_loop buffer' bits' data)"

definition base32_decode :: "u8 list \<Rightarrow> DecodeBase32Error + u8 list" where
  "base32_decode data = base32_decode_loop 0 0 data"

text \<open>
  The reference: the bits of the data, zero-padded to a multiple of five, five at a
  time, each group naming a letter of the alphabet.
\<close>

definition bits_val :: "bool list \<Rightarrow> nat" where
  "bits_val bs = horner_sum of_bool 2 (rev bs)"

definition base32_pad :: "bool list \<Rightarrow> bool list" where
  "base32_pad bs = bs @ replicate ((5 - length bs mod 5) mod 5) False"

definition base32_spec :: "u8 list \<Rightarrow> u8 list" where
  "base32_spec data =
     map (\<lambda>g. BASE32_ALPHABET ! bits_val g) (group 5 (base32_pad (concat (map (msb_bits 8) data))))"

lemma bits_val_msb: "bits_val (msb_bits n v) = take_bit n (v :: nat)"
  by (simp add: bits_val_def msb_bits_def horner_sum_bit_eq_take_bit)

lemma bits_val_word: "bits_val (msb_bits n w) = unat (take_bit n (w :: 'a::len word))"
proof -
  have "msb_bits n w = msb_bits n (unat w)"
    by (rule msb_bits_cong) (simp add: bit_unsigned_iff)
  then show ?thesis by (simp add: bits_val_msb unsigned_take_bit_eq)
qed

lemma mask5: "x AND 0x1F = take_bit 5 (x :: 'a::len word)"
proof -
  have "(0x1F :: 'a word) = mask 5" by (simp add: mask_eq_exp_minus_1)
  then show ?thesis by (simp add: take_bit_eq_mask)
qed

lemma base32_drain_spec:
  "base32_drain buf n =
     (map (\<lambda>g. BASE32_ALPHABET ! bits_val g) (group 5 (msb_bits n buf)), n mod 5)"
proof (induction buf n rule: base32_drain.induct)
  case (1 buf n)
  show ?case
  proof (cases "5 \<le> n")
    case True
    then have "n mod 5 = (n - 5) mod 5" by (simp add: le_mod_geq)
    with True 1 show ?thesis
      by (simp add: base32_drain.simps [of buf n] group.simps [of 5 "msb_bits n buf"]
          msb_bits_take msb_bits_drop bits_val_word mask5)
  next
    case False
    then show ?thesis by (simp add: base32_drain.simps group_short)
  qed
qed

lemma group5_split:
  "group 5 (msb_bits n buf @ ys) = group 5 (msb_bits n buf) @ group 5 (msb_bits (n mod 5) buf @ ys)"
proof -
  define m where "m = 5 * (n div 5)"
  have m: "m \<le> n" "n - m = n mod 5" by (simp_all add: m_def minus_mult_div_eq_mod)
  define xs where "xs = take m (msb_bits n buf)"
  have "msb_bits n buf = xs @ msb_bits (n mod 5) buf"
    using m msb_bits_drop [of m n buf] append_take_drop_id [of m "msb_bits n buf"] by (simp add: xs_def)
  moreover have "length xs = 5 * (n div 5)" using m by (simp add: xs_def m_def)
  moreover have "group 5 (msb_bits (n mod 5) buf) = []" by (rule group_short) simp
  ultimately show ?thesis by (simp add: group_append)
qed

lemma base32_last_group:
  assumes "0 < k" and "k < 5"
  shows "msb_bits k buf @ replicate (5 - k) False = msb_bits 5 (push_bit (5 - k) (buf :: u16))"
  using assms by (intro nth_equalityI) (auto simp: msb_bits_nth nth_append bit_push_bit_iff)

lemma base32_encode_loop_spec:
  "k < 5 \<Longrightarrow> base32_encode_loop buf k data =
     map (\<lambda>g. BASE32_ALPHABET ! bits_val g)
       (group 5 (base32_pad (msb_bits k buf @ concat (map (msb_bits 8) data))))"
proof (induction data arbitrary: buf k)
  case Nil
  show ?case
  proof (cases "k = 0")
    case False
    with Nil have "group 5 (base32_pad (msb_bits k buf)) = [msb_bits 5 (push_bit (5 - k) buf)]"
      using group_one [of 5 "msb_bits 5 (push_bit (5 - k) buf)" "[]"]
      by (simp add: base32_pad_def base32_last_group group_short)
    with False Nil show ?thesis by (simp add: bits_val_word mask5)
  qed (simp add: base32_pad_def group_short)
next
  case (Cons b data)
  define buf' where "buf' = push_bit 8 buf OR ucast b"
  have sh: "msb_bits (k + 8) buf' = msb_bits k buf @ msb_bits 8 b"
    unfolding buf'_def using Cons.prems by (intro msb_bits_shift) (auto dest: bit_imp_le_length)
  define rest where "rest = concat (map (msb_bits 8) data)"
  have pad: "base32_pad (msb_bits k buf @ msb_bits 8 b @ rest) =
      msb_bits (k + 8) buf' @ drop (length (msb_bits ((k + 8) mod 5) buf'))
        (base32_pad (msb_bits ((k + 8) mod 5) buf' @ rest))"
    using sh by (simp add: base32_pad_def mod_add_left_eq add.assoc)
  have "base32_pad (msb_bits ((k + 8) mod 5) buf' @ rest) =
      msb_bits ((k + 8) mod 5) buf' @ drop (length (msb_bits ((k + 8) mod 5) buf'))
        (base32_pad (msb_bits ((k + 8) mod 5) buf' @ rest))"
    by (simp add: base32_pad_def)
  with pad have "group 5 (base32_pad (msb_bits k buf @ msb_bits 8 b @ rest)) =
      group 5 (msb_bits (k + 8) buf') @ group 5 (base32_pad (msb_bits ((k + 8) mod 5) buf' @ rest))"
    using group5_split [of "k + 8" buf'] by metis
  moreover have "base32_encode_loop buf' ((k + 8) mod 5) data =
      map (\<lambda>g. BASE32_ALPHABET ! bits_val g) (group 5 (base32_pad (msb_bits ((k + 8) mod 5) buf' @ rest)))"
    unfolding rest_def by (rule Cons.IH) simp
  ultimately show ?case
    by (simp add: base32_drain_spec rest_def flip: buf'_def)
qed

lemma base32_encode_spec: "base32_encode data = base32_spec data"
  by (simp add: base32_encode_def base32_spec_def base32_encode_loop_spec)

lemma base32_alphabet_symbol:
  assumes "i < 32"
  shows "base32_symbol (BASE32_ALPHABET ! i) = Inr (word_of_nat i)"
proof -
  have "[0..<32] = [0, 1, 2, 3, 4, 5, 6, 7, 8, 9, 10, 11, 12, 13, 14, 15, 16, 17, 18, 19, 20, 21, 22, 23,
      24, 25, 26, 27, 28, 29, 30, 31 :: nat]"
    by (simp add: upt_conv_Cons)
  then have "list_all (\<lambda>i. base32_symbol (BASE32_ALPHABET ! i) = Inr (word_of_nat i)) [0..<32]"
    by (simp add: BASE32_ALPHABET_def ascii_def base32_symbol_def)
  with assms show ?thesis by (simp add: list_all_iff)
qed

lemma bits_val_bound: "bits_val g < 2 ^ length g"
proof -
  have "bits_val g = take_bit (length g) (bits_val g)"
    by (simp add: bits_val_def bit_eq_iff bit_take_bit_iff bit_horner_sum_bit_iff)
  then show ?thesis using take_bit_nat_less_exp [of "length g" "bits_val g"] by simp
qed

lemma msb_bits_bits_val:
  assumes "length g = n" and "n \<le> LENGTH('a)"
  shows "msb_bits n (word_of_nat (bits_val g) :: 'a::len word) = g"
  using assms
  by (intro nth_equalityI)
    (auto simp: msb_bits_nth bit_of_nat_iff bits_val_def bit_horner_sum_bit_iff rev_nth)

lemma base32_decode_loop_spec:
  assumes "n < 8" and "\<And>g. g \<in> set gs \<Longrightarrow> length g = 5"
  shows "base32_decode_loop buf n (map (\<lambda>g. BASE32_ALPHABET ! bits_val g) gs) =
     Inr (map (\<lambda>g. word_of_nat (bits_val g)) (group 8 (msb_bits n buf @ concat gs)))"
  using assms
proof (induction gs arbitrary: buf n)
  case Nil
  then show ?case by (simp add: group_short)
next
  case (Cons g gs)
  then have g5: "length g = 5" by simp
  define v :: u8 where "v = word_of_nat (bits_val g)"
  define buf' :: u32 where "buf' = push_bit 5 buf OR ucast v"
  have sym: "base32_symbol (BASE32_ALPHABET ! bits_val g) = Inr v"
    unfolding v_def using bits_val_bound [of g] g5 by (intro base32_alphabet_symbol) simp
  have gv: "msb_bits 5 v = g" unfolding v_def by (rule msb_bits_bits_val) (simp_all add: g5)
  have hi: "\<not> bit v i" if "5 \<le> i" for i
  proof -
    have "bits_val g < 2 ^ 5" using bits_val_bound [of g] g5 by simp
    then have "bits_val g = take_bit 5 (bits_val g)" by (simp add: take_bit_nat_eq_self)
    then show ?thesis using that by (metis v_def bit_take_bit_iff bit_of_nat_iff not_le)
  qed
  have sh: "msb_bits (n + 5) buf' = msb_bits n buf @ g"
    unfolding buf'_def gv [symmetric] using Cons.prems hi by (intro msb_bits_shift) auto
  show ?case
  proof (cases "8 \<le> n + 5")
    case True
    have out: "ucast (drop_bit (n + 5 - 8) buf') = (word_of_nat (bits_val (take 8 (msb_bits (n + 5) buf'))) :: u8)"
      using True
      by (intro bit_word_eqI)
        (auto simp: msb_bits_take bits_val_word bit_ucast_iff bit_of_nat_iff bit_unsigned_iff bit_take_bit_iff)
    have "msb_bits n buf @ concat (g # gs) = msb_bits (n + 5) buf' @ concat gs"
      by (simp add: sh)
    also have "\<dots> = take 8 (msb_bits (n + 5) buf') @ msb_bits (n + 5 - 8) buf' @ concat gs"
      using True msb_bits_drop [of 8 "n + 5" buf'] append_take_drop_id [of 8 "msb_bits (n + 5) buf'"]
      by (metis append_assoc)
    finally have split: "msb_bits n buf @ concat (g # gs) =
        take 8 (msb_bits (n + 5) buf') @ msb_bits (n + 5 - 8) buf' @ concat gs" .
    have "group 8 (msb_bits n buf @ concat (g # gs)) =
        take 8 (msb_bits (n + 5) buf') # group 8 (msb_bits (n + 5 - 8) buf' @ concat gs)"
      unfolding split using True by (intro group_one) simp_all
    then show ?thesis
      using Cons.IH [of "n + 5 - 8" buf'] Cons.prems True out
      by (simp add: sym del: drop_bit_or flip: buf'_def)
  next
    case False
    then show ?thesis
      using Cons.IH [of "n + 5" buf'] Cons.prems sh by (simp add: sym flip: buf'_def)
  qed
qed

lemma dvd_pad5: "5 dvd l + (5 - l mod 5) mod (5 :: nat)"
proof -
  define q r where "q = l div 5" and "r = l mod 5"
  have l: "l = 5 * q + r" and r: "r < 5" by (simp_all add: q_def r_def)
  show ?thesis
  proof (cases "r = 0")
    case True
    with l show ?thesis by simp
  next
    case False
    with r have "l + (5 - r) mod 5 = 5 * (q + 1)" by (simp add: l)
    moreover have "5 * (q + 1) = l + (5 - l mod 5) mod 5"
      by (simp only: calculation r_def [symmetric])
    ultimately show ?thesis by (metis dvd_triv_left)
  qed
qed

lemma base32_roundtrip: "base32_decode (base32_encode data) = Inr data"
proof -
  define bs where "bs = concat (map (msb_bits 8) data)"
  define k where "k = (5 - length bs mod 5) mod 5"
  have "5 dvd length (base32_pad bs)"
    by (simp add: base32_pad_def dvd_pad5)
  then have c: "concat (group 5 (base32_pad bs)) = bs @ replicate k False"
    by (simp add: concat_group base32_pad_def k_def)
  have "base32_decode (base32_encode data) =
      Inr (map (\<lambda>g. word_of_nat (bits_val g)) (group 8 (bs @ replicate k False)))"
    using base32_decode_loop_spec [of 0 "group 5 (base32_pad bs)" 0]
    by (simp add: base32_decode_def base32_encode_spec base32_spec_def group_length c flip: bs_def)
  also have "group 8 (bs @ replicate k False) = map (msb_bits 8) data"
    unfolding bs_def by (rule group_concat_map) (simp_all add: k_def less_imp_le)
  finally show ?thesis
    by (simp add: bits_val_word comp_def take_bit_word_eq_self)
qed

lemma base32_encode_chars: "b \<in> set (base32_encode data) \<Longrightarrow> b \<in> set BASE32_ALPHABET"
proof -
  assume "b \<in> set (base32_encode data)"
  then obtain g where "length g = 5" and b: "b = BASE32_ALPHABET ! bits_val g"
    by (auto simp: base32_encode_spec base32_spec_def dest: group_length)
  then have "bits_val g < 32" using bits_val_bound [of g] by simp
  moreover have "length BASE32_ALPHABET = 32" by (simp add: BASE32_ALPHABET_def ascii_def)
  ultimately show ?thesis by (simp add: b)
qed

interpretation base32: value_codec base32_encode base32_decode "\<lambda>_. True"
  by unfold_locales (rule base32_roundtrip)

subsection \<open>hex.rs\<close>

definition HEX_BYTES :: "u8 list" where
  "HEX_BYTES = ascii
     (''000102030405060708090a0b0c0d0e0f101112131415161718191a1b1c1d1e1f'' @
      ''202122232425262728292a2b2c2d2e2f303132333435363738393a3b3c3d3e3f'' @
      ''404142434445464748494a4b4c4d4e4f505152535455565758595a5b5c5d5e5f'' @
      ''606162636465666768696a6b6c6d6e6f707172737475767778797a7b7c7d7e7f'' @
      ''808182838485868788898a8b8c8d8e8f909192939495969798999a9b9c9d9e9f'' @
      ''a0a1a2a3a4a5a6a7a8a9aaabacadaeafb0b1b2b3b4b5b6b7b8b9babbbcbdbebf'' @
      ''c0c1c2c3c4c5c6c7c8c9cacbcccdcecfd0d1d2d3d4d5d6d7d8d9dadbdcdddedf'' @
      ''e0e1e2e3e4e5e6e7e8e9eaebecedeeeff0f1f2f3f4f5f6f7f8f9fafbfcfdfeff'')"

definition hex_encode :: "u8 list \<Rightarrow> u8 list" where
  "hex_encode data = concat (map (\<lambda>b. take 2 (drop (2 * unat b) HEX_BYTES)) data)"

datatype DecodeHexError = InvalidLength | ParseInt

text \<open>
  \<open>hex::decode\<close>. \<open>None\<close> is the panic of slicing \<open>data[i..i + 2]\<close> inside a
  multi-byte character; \<open>collect\<close> stops at the first \<open>ParseInt\<close>.
\<close>

fun hex_decode_pairs :: "u8 list \<Rightarrow> nat \<Rightarrow> u8 list \<Rightarrow> (DecodeHexError + u8 list) option" where
  "hex_decode_pairs data i (a # b # rest) =
     (if is_char_boundary data i \<and> is_char_boundary data (i + 2) then
        (case parse_hex2 a b of
           None \<Rightarrow> Some (Inl ParseInt)
         | Some v \<Rightarrow> map_option (\<lambda>r. rbind r (\<lambda>vs. Inr (v # vs))) (hex_decode_pairs data (i + 2) rest))
      else None)"
| "hex_decode_pairs data i _ = Some (Inr [])"

definition hex_decode :: "u8 list \<Rightarrow> (DecodeHexError + u8 list) option" where
  "hex_decode data =
     (if odd (length data) then Some (Inl InvalidLength) else hex_decode_pairs data 0 data)"

lemma hex_digits_nth: "n < 16 \<Longrightarrow> ascii ''0123456789abcdef'' ! n = hex_lower n"
  by (erule less16_cases [rotated]) (simp add: upt16 ascii_def hex_lower_def)

lemma HEX_BYTES_product:
  "HEX_BYTES = concat (map (\<lambda>(h, l). [h, l])
     (List.product (ascii ''0123456789abcdef'') (ascii ''0123456789abcdef'')))"
  by (simp add: HEX_BYTES_def ascii_def)

lemma take_drop_concat_pairs:
  "n < length xs \<Longrightarrow> take 2 (drop (2 * n) (concat (map (\<lambda>(h, l). [h, l]) xs))) = [fst (xs ! n), snd (xs ! n)]"
proof (induction xs arbitrary: n)
  case (Cons x xs)
  then show ?case by (cases n) (simp_all split: prod.split)
qed simp

lemma hex_encode_digits:
  "hex_encode data = concat (map (\<lambda>b. [hex_lower (unat b div 16), hex_lower (unat b mod 16)]) data)"
proof -
  have "take 2 (drop (2 * unat b) HEX_BYTES) = [hex_lower (unat b div 16), hex_lower (unat b mod 16)]"
    for b :: u8
  proof -
    have len: "length (ascii ''0123456789abcdef'') = 16" by (simp add: ascii_def)
    then have n: "unat b < length (ascii ''0123456789abcdef'') * length (ascii ''0123456789abcdef'')"
      using unat_u8 [of b] by simp
    then have "take 2 (drop (2 * unat b) HEX_BYTES) =
        [ascii ''0123456789abcdef'' ! (unat b div 16), ascii ''0123456789abcdef'' ! (unat b mod 16)]"
      unfolding HEX_BYTES_product by (subst take_drop_concat_pairs) (simp_all add: product_nth len)
    then show ?thesis by (simp add: hex_digits_nth)
  qed
  then show ?thesis by (simp add: hex_encode_def)
qed

lemma hex_lower_not_cont: "n < 16 \<Longrightarrow> \<not> is_cont (hex_lower n)"
  by (erule less16_cases [rotated]) (simp add: upt16 hex_lower_def is_cont_def)

lemma hex_encode_not_cont: "b \<in> set (hex_encode data) \<Longrightarrow> \<not> is_cont b"
  by (auto simp: hex_encode_digits hex_lower_not_cont)

lemma ascii_boundary: "(\<And>b. b \<in> set s \<Longrightarrow> \<not> is_cont b) \<Longrightarrow> i \<le> length s \<Longrightarrow> is_char_boundary s i"
  by (auto simp: is_char_boundary_def)

lemma hex_decode_pairs_encode:
  assumes "\<And>b. b \<in> set full \<Longrightarrow> \<not> is_cont b" and "i + length (hex_encode data) \<le> length full"
  shows "hex_decode_pairs full i (hex_encode data) = Some (Inr data)"
  using assms(2)
proof (induction data arbitrary: i)
  case (Cons b data)
  have "hex_encode (b # data) =
      hex_lower (unat b div 16) # hex_lower (unat b mod 16) # hex_encode data"
    by (simp add: hex_encode_digits)
  with Cons show ?case
    by (simp add: parse_hex2_digits ascii_boundary [OF assms(1)])
qed (simp add: hex_encode_digits)

lemma length_hex_encode: "length (hex_encode data) = 2 * length data"
  by (induction data) (simp_all add: hex_encode_digits)

lemma hex_roundtrip: "hex_decode (hex_encode data) = Some (Inr data)"
  using hex_decode_pairs_encode [of "hex_encode data" 0 data] hex_encode_not_cont
  by (simp add: hex_decode_def length_hex_encode)

interpretation hex: value_codec hex_encode "\<lambda>s. the (hex_decode s)" "\<lambda>_. True"
  by unfold_locales (simp add: hex_roundtrip)

subsection \<open>url.rs\<close>

definition SAFE_CHARS :: "u8 list" where
  "SAFE_CHARS = ascii ''ABCDEFGHIJKLMNOPQRSTUVWXYZabcdefghijklmnopqrstuvwxyz0123456789-_.~''"

definition url_escape :: "u8 \<Rightarrow> u8 list" where
  "url_escape b = (if b \<in> set SAFE_CHARS then [b]
     else [0x25, hex_upper (unat b div 16), hex_upper (unat b mod 16)])"

definition url_encode :: "u8 list \<Rightarrow> u8 list" where
  "url_encode data = concat (map url_escape data)"

datatype DecodeUrlError = InvalidHex "u8 list" | UnexpectedEnd | InvalidUtf8

fun url_decode_bytes :: "u8 list \<Rightarrow> DecodeUrlError + u8 list" where
  "url_decode_bytes [] = Inr []"
| "url_decode_bytes (b # rest) =
     (if b = 0x25 then
        (case rest of
           h # l # rest' \<Rightarrow>
             (case (if utf8_valid [h, l] then parse_hex2 h l else None) of
                None \<Rightarrow> Inl (InvalidHex (if utf8_valid [h, l] then [h, l] else []))
              | Some v \<Rightarrow> rbind (url_decode_bytes rest') (\<lambda>bs. Inr (v # bs)))
         | _ \<Rightarrow> Inl UnexpectedEnd)
      else rbind (url_decode_bytes rest) (\<lambda>bs. Inr (b # bs)))"

definition url_decode :: "u8 list \<Rightarrow> DecodeUrlError + u8 list" where
  "url_decode data =
     rbind (url_decode_bytes data) (\<lambda>bytes. if utf8_valid bytes then Inr bytes else Inl InvalidUtf8)"

lemma hex_upper_ascii: "n < 16 \<Longrightarrow> hex_upper n \<le> 0x7F \<and> hex_upper n \<in> set SAFE_CHARS"
  by (erule less16_cases [rotated]) (simp add: upt16 hex_upper_def SAFE_CHARS_def ascii_def)

lemma url_decode_bytes_escape:
  "url_decode_bytes (url_escape b @ rest) = rbind (url_decode_bytes rest) (\<lambda>bs. Inr (b # bs))"
proof (cases "b \<in> set SAFE_CHARS")
  case True
  moreover have "0x25 \<notin> set SAFE_CHARS" by (simp add: SAFE_CHARS_def ascii_def)
  ultimately have "b \<noteq> 0x25" by blast
  with True show ?thesis by (simp add: url_escape_def)
next
  case False
  have "utf8_valid [hex_upper (unat b div 16), hex_upper (unat b mod 16)]"
    using hex_upper_ascii by (intro utf8_valid_ascii) auto
  with False show ?thesis by (simp add: url_escape_def parse_hex2_digits)
qed

lemma url_decode_bytes_encode: "url_decode_bytes (url_encode data) = Inr data"
  by (induction data) (simp_all add: url_encode_def url_decode_bytes_escape)

lemma url_roundtrip:
  "url_decode (url_encode data) = (if utf8_valid data then Inr data else Inl InvalidUtf8)"
  by (simp add: url_decode_def url_decode_bytes_encode)

lemma url_encode_chars: "b \<in> set (url_encode data) \<Longrightarrow> b = 0x25 \<or> b \<in> set SAFE_CHARS"
  by (auto simp: url_encode_def url_escape_def hex_upper_ascii split: if_split_asm)

lemma url_encode_Nil_iff [simp]: "url_encode data = [] \<longleftrightarrow> data = []"
  by (cases data) (simp_all add: url_encode_def url_escape_def)

interpretation url: value_codec url_encode url_decode utf8_valid
  by unfold_locales (simp add: url_roundtrip)

subsection \<open>Properties\<close>

text \<open>Base32 is RFC 4648 without padding characters: the encoder's 16-bit buffer computes the five-bit
  groups of the bit string of the data, only letters of the alphabet appear, and the
  decoder returns the data.\<close>

theorem base32_rfc4648:
  "base32_encode data = base32_spec data \<and> set (base32_encode data) \<subseteq> set BASE32_ALPHABET \<and>
    base32_decode (base32_encode data) = Inr data"
  using base32_encode_spec base32_roundtrip base32_encode_chars by blast

text \<open>Hexadecimal and URL encoding are lossless: \<open>hex::decode\<close> of \<open>hex::encode\<close> never
  panics and gives the bytes back, and \<open>url::decode\<close> of \<open>url::encode\<close> gives the bytes back
  exactly when they are UTF-8 and reports \<open>InvalidUtf8\<close> otherwise.\<close>

theorem hex_url_roundtrip:
  "hex_decode (hex_encode data) = Some (Inr data) \<and> length (hex_encode data) = 2 * length data \<and>
    url_decode (url_encode data) = (if utf8_valid data then Inr data else Inl InvalidUtf8)"
  using hex_roundtrip length_hex_encode url_roundtrip by blast

end
