(* ===== verification/Fips_Hash.thy ===== *)
theory Fips_Hash
  imports Complex_Main Prelude
begin

text \<open>
  The hash functions of FIPS 180-4 as the standard defines them, independent of any
  implementation: the constants as the leading bits of the fractional parts of roots of primes,
  the message schedule by its recurrence, the working variables after \<open>t\<close> rounds, and the
  padding. The hashes of the one-time-password crate are proved against it.
\<close>

section \<open>Constants\<close>

definition is_prime :: "nat \<Rightarrow> bool" where
  "is_prime p \<longleftrightarrow> 1 < p \<and> list_all (\<lambda>d. \<not> d dvd p) [2..<p]"

definition first_primes :: "nat \<Rightarrow> nat list" where
  "first_primes n = take n (filter is_prime [2..<410])"

text \<open>As many bits of the fractional part of the \<open>k\<close>-th root of \<open>n\<close> as the word has.\<close>

definition root_bits :: "nat \<Rightarrow> nat \<Rightarrow> 'a::len word" where
  "root_bits k n = word_of_int \<lfloor>2 ^ LENGTH('a) * frac (root k (real n))\<rfloor>"

definition fips_K256 :: "32 word list" where "fips_K256 = map (root_bits 3) (first_primes 64)"
definition fips_K512 :: "64 word list" where "fips_K512 = map (root_bits 3) (first_primes 80)"
definition fips_H256 :: "32 word list" where "fips_H256 = map (root_bits 2) (first_primes 8)"
definition fips_H512 :: "64 word list" where "fips_H512 = map (root_bits 2) (first_primes 8)"

text \<open>The constants of SHA-1 are thirty bits of square roots after the point; its initial value
  is a pattern of bytes, read in little-endian order.\<close>

definition fips_K1 :: "nat \<Rightarrow> 32 word" where
  "fips_K1 t = word_of_int \<lfloor>2 ^ 30 * sqrt (if t < 20 then 2 else if t < 40 then 3 else if t < 60 then 5 else 10)\<rfloor>"

definition fips_H1 :: "32 word list" where
  "fips_H1 = map (\<lambda>bs. word_of_nat (le_nat bs))
     [[0x01, 0x23, 0x45, 0x67], [0x89, 0xAB, 0xCD, 0xEF], [0xFE, 0xDC, 0xBA, 0x98], [0x76, 0x54, 0x32, 0x10],
      [0xF0, 0xE1, 0xD2, 0xC3]]"

section \<open>Functions\<close>

definition Ch :: "'a::len word \<Rightarrow> 'a word \<Rightarrow> 'a word \<Rightarrow> 'a word" where
  "Ch x y z = (x AND y) XOR (NOT x AND z)"

definition Parity :: "'a::len word \<Rightarrow> 'a word \<Rightarrow> 'a word \<Rightarrow> 'a word" where
  "Parity x y z = x XOR y XOR z"

definition Maj :: "'a::len word \<Rightarrow> 'a word \<Rightarrow> 'a word \<Rightarrow> 'a word" where
  "Maj x y z = (x AND y) XOR (x AND z) XOR (y AND z)"

definition sha1_f :: "nat \<Rightarrow> 32 word \<Rightarrow> 32 word \<Rightarrow> 32 word \<Rightarrow> 32 word" where
  "sha1_f t = (if t < 20 then Ch else if t < 40 then Parity else if t < 60 then Maj else Parity)"

text \<open>The four functions of a member of the SHA-2 family, by their rotations and shifts.\<close>

definition rot3 :: "nat \<Rightarrow> nat \<Rightarrow> nat \<Rightarrow> 'a::len word \<Rightarrow> 'a word" where
  "rot3 a b c x = word_rotr a x XOR word_rotr b x XOR word_rotr c x"

definition rot2_shift :: "nat \<Rightarrow> nat \<Rightarrow> nat \<Rightarrow> 'a::len word \<Rightarrow> 'a word" where
  "rot2_shift a b c x = word_rotr a x XOR word_rotr b x XOR drop_bit c x"

record 'w sha2 =
  Sigma0 :: "'w \<Rightarrow> 'w"
  Sigma1 :: "'w \<Rightarrow> 'w"
  sigma0 :: "'w \<Rightarrow> 'w"
  sigma1 :: "'w \<Rightarrow> 'w"
  constants :: "'w list"

definition fips_sha256 :: "32 word sha2" where
  "fips_sha256 = \<lparr>Sigma0 = rot3 2 13 22, Sigma1 = rot3 6 11 25, sigma0 = rot2_shift 7 18 3, sigma1 = rot2_shift 17 19 10,
     constants = fips_K256\<rparr>"

definition fips_sha512 :: "64 word sha2" where
  "fips_sha512 = \<lparr>Sigma0 = rot3 28 34 39, Sigma1 = rot3 14 18 41, sigma0 = rot2_shift 1 8 7, sigma1 = rot2_shift 19 61 6,
     constants = fips_K512\<rparr>"

section \<open>Hash computation\<close>

text \<open>The message schedules of a block of sixteen words.\<close>

fun W1 :: "(nat \<Rightarrow> 32 word) \<Rightarrow> nat \<Rightarrow> 32 word" where
  "W1 M t = (if t < 16 then M t
     else word_rotl 1 (W1 M (t - 3) XOR W1 M (t - 8) XOR W1 M (t - 14) XOR W1 M (t - 16)))"

fun W2 :: "'a::len word sha2 \<Rightarrow> (nat \<Rightarrow> 'a word) \<Rightarrow> nat \<Rightarrow> 'a word" where
  "W2 F M t = (if t < 16 then M t
     else sigma1 F (W2 F M (t - 2)) + W2 F M (t - 7) + sigma0 F (W2 F M (t - 15)) + W2 F M (t - 16))"

declare W1.simps [simp del] W2.simps [simp del]

text \<open>The working variables after \<open>t\<close> rounds.\<close>

primrec vars1 :: "32 word list \<Rightarrow> (nat \<Rightarrow> 32 word) \<Rightarrow> nat \<Rightarrow> 32 word list" where
  "vars1 H M 0 = H"
| "vars1 H M (Suc t) = (case vars1 H M t of
     [a, b, c, d, e] \<Rightarrow> [word_rotl 5 a + sha1_f t b c d + e + fips_K1 t + W1 M t, a, word_rotl 30 b, c, d]
   | v \<Rightarrow> v)"

primrec vars2 :: "'a::len word sha2 \<Rightarrow> 'a word list \<Rightarrow> (nat \<Rightarrow> 'a word) \<Rightarrow> nat \<Rightarrow> 'a word list" where
  "vars2 F H M 0 = H"
| "vars2 F H M (Suc t) = (case vars2 F H M t of
     [a, b, c, d, e, f, g, h] \<Rightarrow>
       (let T1 = h + Sigma1 F e + Ch e f g + constants F ! t + W2 F M t;
            T2 = Sigma0 F a + Maj a b c
        in [T1 + T2, a, b, c, d + T1, e, f, g])
   | v \<Rightarrow> v)"

text \<open>The padding: the message, the marker bit, the least number of zero bytes that leaves room for
  the length field at the end of a block.\<close>

definition fips_pad :: "nat \<Rightarrow> u8 list \<Rightarrow> u8 list \<Rightarrow> u8 list" where
  "fips_pad B len_field msg =
     msg @ 0x80 # replicate ((B - (length msg + 1 + length len_field) mod B) mod B) 0 @ len_field"

definition fips_pad64 :: "u8 list \<Rightarrow> u8 list" where
  "fips_pad64 msg = fips_pad 64 (be_bytes 8 (word_of_nat (8 * length msg) :: u64)) msg"

definition fips_pad128 :: "u8 list \<Rightarrow> u8 list" where
  "fips_pad128 msg = fips_pad 128 (be_bytes 16 (word_of_nat (8 * length msg) :: 128 word)) msg"

text \<open>Word \<open>t\<close> of block \<open>i\<close>, for words of \<open>k\<close> bytes, most significant byte first; and a digest.\<close>

definition block_word :: "nat \<Rightarrow> u8 list \<Rightarrow> nat \<Rightarrow> nat \<Rightarrow> 'a::len word" where
  "block_word k bytes i t = word_of_nat (le_nat (rev (take k (drop (k * (16 * i + t)) bytes))))"

definition blocks :: "nat \<Rightarrow> u8 list \<Rightarrow> (nat \<Rightarrow> 'a::len word) list" where
  "blocks k bytes = map (block_word k bytes) [0..<length bytes div (16 * k)]"

definition fips_sha1 :: "u8 list \<Rightarrow> u8 list" where
  "fips_sha1 m = concat (map (be_bytes 4)
     (foldl (\<lambda>H M. map2 (+) H (vars1 H M 80)) fips_H1 (blocks 4 (fips_pad64 m))))"

definition fips_sha2 :: "nat \<Rightarrow> 'a::len word sha2 \<Rightarrow> 'a word list \<Rightarrow> u8 list \<Rightarrow> u8 list" where
  "fips_sha2 k F H0 padded = concat (map (be_bytes k)
     (foldl (\<lambda>H M. map2 (+) H (vars2 F H M (length (constants F)))) H0 (blocks k padded)))"

section \<open>The constants computed\<close>

lemma floor_root:
  assumes "0 < k" and "N ^ k \<le> p * 2 ^ (b * k)" and "p * 2 ^ (b * k) < (N + 1) ^ k"
  shows "\<lfloor>2 ^ b * root k (real p)\<rfloor> = int N"
proof -
  have r: "2 ^ b * root k (real p) = root k (real (p * 2 ^ (b * k)))"
    using assms(1) by (simp add: real_root_mult real_root_power_cancel power_mult)
  have "root k (real (N ^ k)) \<le> root k (real (p * 2 ^ (b * k)))"
    using assms(1,2) by (intro real_root_le_mono) (simp_all del: of_nat_mult of_nat_power)
  moreover have "root k (real (p * 2 ^ (b * k))) < root k (real ((N + 1) ^ k))"
    using assms(1,3) by (intro real_root_less_mono) (simp_all del: of_nat_mult of_nat_power)
  ultimately show ?thesis
    unfolding r using assms(1) by (intro floor_unique) (simp_all add: real_root_power_cancel add.commute)
qed

lemma root_bits_word:
  assumes "0 < k" and "N ^ k \<le> p * 2 ^ (LENGTH('a) * k)" and "p * 2 ^ (LENGTH('a) * k) < (N + 1) ^ k"
  shows "(root_bits k p :: 'a::len word) = word_of_nat N"
proof -
  let ?x = "root k (real p)"
  have "2 ^ LENGTH('a) * frac ?x = 2 ^ LENGTH('a) * ?x - real_of_int (2 ^ LENGTH('a) * \<lfloor>?x\<rfloor>)"
    by (simp add: frac_def algebra_simps)
  then have "\<lfloor>2 ^ LENGTH('a) * frac ?x\<rfloor> = int N - 2 ^ LENGTH('a) * \<lfloor>?x\<rfloor>"
    using floor_root [OF assms] by (simp only: floor_diff_of_int)
  moreover have "(2 :: 'a word) ^ LENGTH('a) = 0" by (simp add: exp_eq_zero_iff)
  ultimately show ?thesis
    unfolding root_bits_def by simp
qed

definition small_primes :: "nat set" where
  "small_primes = {2, 3, 5, 7, 11, 13, 17, 19}"

lemma small_factor:
  assumes "1 < d" and "d < (441 :: nat)" and "d dvd p" and "d < p" and "p < 441"
  shows "\<exists>q \<in> small_primes. q dvd p \<and> q < p"
proof -
  have small: "\<exists>q \<in> small_primes. q dvd d" if "1 < d" "d < 21" for d :: nat
  proof -
    have "d \<in> {2..<21}" using that by simp
    also have "{2..<21} = {2, 3, 4, 5, 6, 7, 8, 9, 10, 11, 12, 13, 14, 15, 16, 17, 18, 19, 20 :: nat}"
      by (simp add: atLeastLessThan_eq_iff set_eq_iff) presburger
    finally show ?thesis unfolding small_primes_def by (elim insertE; simp)
  qed
  obtain e where e: "p = d * e" using assms(3) by (auto elim: dvdE)
  have "1 < e" using e assms(4) by (cases e; cases "e - 1") auto
  have "d < 21 \<or> e < 21"
  proof (rule ccontr)
    assume "\<not> (d < 21 \<or> e < 21)"
    then have "21 * 21 \<le> d * e" by (intro mult_le_mono) simp_all
    with e assms(5) show False by simp
  qed
  then obtain c where c: "c dvd p" "c < p" "1 < c" "c < 21"
  proof
    assume "d < 21"
    with assms that show thesis by blast
  next
    assume "e < 21"
    moreover have "e dvd p" "e < p" using e \<open>1 < e\<close> assms(1) by simp_all
    ultimately show thesis using that \<open>1 < e\<close> by blast
  qed
  from small [OF c(3,4)] obtain q where q: "q \<in> small_primes" "q dvd c" by blast
  with c have "q dvd p" "q < p" by (auto intro: dvd_trans dest: dvd_imp_le)
  with q(1) show ?thesis by blast
qed

lemma is_prime_small:
  assumes "p < 441"
  shows "is_prime p \<longleftrightarrow> 1 < p \<and> (\<forall>q \<in> small_primes. q dvd p \<longrightarrow> p \<le> q)"
proof
  assume prime: "is_prime p"
  have "p \<le> q" if "q \<in> small_primes" "q dvd p" for q
  proof (rule ccontr)
    assume "\<not> p \<le> q"
    moreover have "2 \<le> q" using that(1) by (auto simp: small_primes_def)
    ultimately have "q \<in> set [2..<p]" by simp
    with prime that(2) show False unfolding is_prime_def list_all_iff by blast
  qed
  with prime show "1 < p \<and> (\<forall>q \<in> small_primes. q dvd p \<longrightarrow> p \<le> q)"
    unfolding is_prime_def by blast
next
  assume r: "1 < p \<and> (\<forall>q \<in> small_primes. q dvd p \<longrightarrow> p \<le> q)"
  have "\<not> d dvd p" if "2 \<le> d" "d < p" for d
  proof
    assume "d dvd p"
    with small_factor [of d p] that assms obtain q where "q \<in> small_primes" "q dvd p" "q < p" by auto
    with r have "p \<le> q" by blast
    with \<open>q < p\<close> show False by simp
  qed
  with r show "is_prime p" by (auto simp: is_prime_def list_all_iff)
qed

lemma primes_below:
  "filter is_prime [2..<102] =
    [2, 3, 5, 7, 11, 13, 17, 19, 23, 29, 31, 37, 41, 43, 47, 53, 59, 61, 67, 71, 73, 79, 83, 89, 97, 101]"
  "filter is_prime [102..<202] =
    [103, 107, 109, 113, 127, 131, 137, 139, 149, 151, 157, 163, 167, 173, 179, 181, 191, 193, 197, 199]"
  "filter is_prime [202..<302] =
    [211, 223, 227, 229, 233, 239, 241, 251, 257, 263, 269, 271, 277, 281, 283, 293]"
  "filter is_prime [302..<410] =
    [307, 311, 313, 317, 331, 337, 347, 349, 353, 359, 367, 373, 379, 383, 389, 397, 401, 409]"
  by (simp_all add: upt_rec_numeral is_prime_small small_primes_def)

end
