(* ===== verification/Otp_Hash.thy ===== *)
theory Otp_Hash
  imports Otp_Encoding Fips_Hash
begin

text \<open>
  The hash functions and HMAC of the one-time-password crate
  (\<open>crates/nyaterm-otp/src/alg\<close> and \<open>hmac.rs\<close>), on machine words. Each hash is
  the padding, the message schedule, the compression rounds and the digest of the
  source, in the order of the source. They are proved equal to the hashes of FIPS 180-4
  (\<open>Fips_Hash\<close>) where the padding of the source fits; HMAC is related to the RFC 2104 formula
  over any hash with the right output length.
\<close>

subsection \<open>Shared pieces\<close>

text \<open>\<open>Vec::resize(n, 0)\<close>: truncates or extends.\<close>

definition resize0 :: "nat \<Rightarrow> u8 list \<Rightarrow> u8 list" where
  "resize0 n xs = take n xs @ replicate (n - length xs) 0"

fun chunks :: "nat \<Rightarrow> 'a list \<Rightarrow> 'a list list" where
  "chunks n xs = (if xs = [] \<or> n = 0 then [] else take n xs # chunks n (drop n xs))"

declare chunks.simps [simp del]

text \<open>\<open>n & !m\<close> on a \<open>usize\<close>.\<close>

definition and_not :: "nat \<Rightarrow> nat \<Rightarrow> nat" where
  "and_not n m = unat ((word_of_nat n :: u64) AND NOT (word_of_nat m))"

text \<open>\<open>rotate_left\<close> and \<open>rotate_right\<close> by less than the width.\<close>

definition rotate_left :: "nat \<Rightarrow> 'a::len word \<Rightarrow> 'a word" where
  "rotate_left n w = push_bit n w OR drop_bit (LENGTH('a) - n) w"

definition rotate_right :: "nat \<Rightarrow> 'a::len word \<Rightarrow> 'a word" where
  "rotate_right n w = drop_bit n w OR push_bit (LENGTH('a) - n) w"

subsection \<open>sha1.rs\<close>

definition sha1_init :: "u32 list" where
  "sha1_init = [0x67452301, 0xEFCDAB89, 0x98BADCFE, 0x10325476, 0xC3D2E1F0]"

text \<open>The padding of SHA-1 and SHA-256 is the same code.\<close>

definition sha_pad64 :: "u8 list \<Rightarrow> u8 list" where
  "sha_pad64 input =
     (let bit_len = (word_of_nat (length input) :: u64) * 8;
          padded = input @ [0x80];
          padded = resize0 (and_not (length padded + 64) 63 - 8) padded
      in padded @ be_bytes 8 bit_len)"

definition prep_words :: "nat \<Rightarrow> u8 list \<Rightarrow> 'a::len word list" where
  "prep_words k chunk = map (\<lambda>i. be_val (take k (drop (i * k) chunk))) [0..<16]"

fun sha1_extend :: "nat \<Rightarrow> u32 list \<Rightarrow> u32 list" where
  "sha1_extend 0 w = w"
| "sha1_extend (Suc k) w =
     (let i = length w
      in sha1_extend k (w @ [rotate_left 1 (w ! (i - 3) XOR w ! (i - 8) XOR w ! (i - 14) XOR w ! (i - 16))]))"

type_synonym sha1_regs = "u32 \<times> u32 \<times> u32 \<times> u32 \<times> u32"

fun sha1_round :: "sha1_regs \<Rightarrow> nat \<times> u32 \<Rightarrow> sha1_regs" where
  "sha1_round (a, b, c, d, e) (i, w) =
     (let (f, k) =
            (if i < 20 then ((b AND c) OR (NOT b AND d), 0x5A827999)
             else if i < 40 then (b XOR c XOR d, 0x6ED9EBA1)
             else if i < 60 then ((b AND c) OR (b AND d) OR (c AND d), 0x8F1BBCDC)
             else (b XOR c XOR d, 0xCA62C1D6));
          temp = rotate_left 5 a + f + e + k + w
      in (temp, a, rotate_left 30 b, c, d))"

definition sha1_block :: "u32 list \<Rightarrow> u8 list \<Rightarrow> u32 list" where
  "sha1_block state chunk =
     (let words = sha1_extend 64 (prep_words 4 chunk);
          (a, b, c, d, e) =
            foldl sha1_round (state ! 0, state ! 1, state ! 2, state ! 3, state ! 4)
              (zip [0..<80] words)
      in [state ! 0 + a, state ! 1 + b, state ! 2 + c, state ! 3 + d, state ! 4 + e])"

definition sha1 :: "u8 list \<Rightarrow> u8 list" where
  "sha1 input = concat (map (be_bytes 4) (foldl sha1_block sha1_init (chunks 64 (sha_pad64 input))))"

subsection \<open>sha256.rs\<close>

text \<open>The round constants, in the rows of the source.\<close>

definition K256 :: "u32 list" where
  "K256 = concat [
     [0x428a2f98, 0x71374491, 0xb5c0fbcf, 0xe9b5dba5, 0x3956c25b, 0x59f111f1, 0x923f82a4],
     [0xab1c5ed5, 0xd807aa98, 0x12835b01, 0x243185be, 0x550c7dc3, 0x72be5d74, 0x80deb1fe],
     [0x9bdc06a7, 0xc19bf174, 0xe49b69c1, 0xefbe4786, 0x0fc19dc6, 0x240ca1cc, 0x2de92c6f],
     [0x4a7484aa, 0x5cb0a9dc, 0x76f988da, 0x983e5152, 0xa831c66d, 0xb00327c8, 0xbf597fc7],
     [0xc6e00bf3, 0xd5a79147, 0x06ca6351, 0x14292967, 0x27b70a85, 0x2e1b2138, 0x4d2c6dfc],
     [0x53380d13, 0x650a7354, 0x766a0abb, 0x81c2c92e, 0x92722c85, 0xa2bfe8a1, 0xa81a664b],
     [0xc24b8b70, 0xc76c51a3, 0xd192e819, 0xd6990624, 0xf40e3585, 0x106aa070, 0x19a4c116],
     [0x1e376c08, 0x2748774c, 0x34b0bcb5, 0x391c0cb3, 0x4ed8aa4a, 0x5b9cca4f, 0x682e6ff3],
     [0x748f82ee, 0x78a5636f, 0x84c87814, 0x8cc70208, 0x90befffa, 0xa4506ceb, 0xbef9a3f7],
     [0xc67178f2]]"

definition sha256_init :: "u32 list" where
  "sha256_init = [0x6a09e667, 0xbb67ae85, 0x3c6ef372, 0xa54ff53a,
     0x510e527f, 0x9b05688c, 0x1f83d9ab, 0x5be0cd19]"

fun sha256_extend :: "nat \<Rightarrow> u32 list \<Rightarrow> u32 list" where
  "sha256_extend 0 w = w"
| "sha256_extend (Suc k) w =
     (let i = length w;
          s0 = rotate_right 7 (w ! (i - 15)) XOR rotate_right 18 (w ! (i - 15)) XOR drop_bit 3 (w ! (i - 15));
          s1 = rotate_right 17 (w ! (i - 2)) XOR rotate_right 19 (w ! (i - 2)) XOR drop_bit 10 (w ! (i - 2))
      in sha256_extend k (w @ [w ! (i - 16) + s0 + w ! (i - 7) + s1]))"

type_synonym 'w sha2_regs = "'w \<times> 'w \<times> 'w \<times> 'w \<times> 'w \<times> 'w \<times> 'w \<times> 'w"

fun sha256_round :: "u32 sha2_regs \<Rightarrow> u32 \<times> u32 \<Rightarrow> u32 sha2_regs" where
  "sha256_round (a, b, c, d, e, f, g, h) (k, w) =
     (let s1 = rotate_right 6 e XOR rotate_right 11 e XOR rotate_right 25 e;
          ch = (e AND f) XOR (NOT e AND g);
          temp1 = h + s1 + ch + k + w;
          s0 = rotate_right 2 a XOR rotate_right 13 a XOR rotate_right 22 a;
          maj = (a AND b) XOR (a AND c) XOR (b AND c);
          temp2 = s0 + maj
      in (temp1 + temp2, a, b, c, d + temp1, e, f, g))"

fun sha2_regs :: "'a list \<Rightarrow> 'a sha2_regs" where
  "sha2_regs s = (s ! 0, s ! 1, s ! 2, s ! 3, s ! 4, s ! 5, s ! 6, s ! 7)"

fun sha2_add :: "'a::plus list \<Rightarrow> 'a sha2_regs \<Rightarrow> 'a list" where
  "sha2_add s (a, b, c, d, e, f, g, h) =
     [s ! 0 + a, s ! 1 + b, s ! 2 + c, s ! 3 + d, s ! 4 + e, s ! 5 + f, s ! 6 + g, s ! 7 + h]"

definition sha256_block :: "u32 list \<Rightarrow> u8 list \<Rightarrow> u32 list" where
  "sha256_block state chunk =
     (let words = sha256_extend 48 (prep_words 4 chunk)
      in sha2_add state (foldl sha256_round (sha2_regs state) (zip K256 words)))"

definition sha256 :: "u8 list \<Rightarrow> u8 list" where
  "sha256 input = concat (map (be_bytes 4) (foldl sha256_block sha256_init (chunks 64 (sha_pad64 input))))"

subsection \<open>sha512.rs\<close>

definition K512 :: "u64 list" where
  "K512 = concat [
     [0x428a2f98d728ae22, 0x7137449123ef65cd, 0xb5c0fbcfec4d3b2f],
     [0xe9b5dba58189dbbc, 0x3956c25bf348b538, 0x59f111f1b605d019],
     [0x923f82a4af194f9b, 0xab1c5ed5da6d8118, 0xd807aa98a3030242],
     [0x12835b0145706fbe, 0x243185be4ee4b28c, 0x550c7dc3d5ffb4e2],
     [0x72be5d74f27b896f, 0x80deb1fe3b1696b1, 0x9bdc06a725c71235],
     [0xc19bf174cf692694, 0xe49b69c19ef14ad2, 0xefbe4786384f25e3],
     [0x0fc19dc68b8cd5b5, 0x240ca1cc77ac9c65, 0x2de92c6f592b0275],
     [0x4a7484aa6ea6e483, 0x5cb0a9dcbd41fbd4, 0x76f988da831153b5],
     [0x983e5152ee66dfab, 0xa831c66d2db43210, 0xb00327c898fb213f],
     [0xbf597fc7beef0ee4, 0xc6e00bf33da88fc2, 0xd5a79147930aa725],
     [0x06ca6351e003826f, 0x142929670a0e6e70, 0x27b70a8546d22ffc],
     [0x2e1b21385c26c926, 0x4d2c6dfc5ac42aed, 0x53380d139d95b3df],
     [0x650a73548baf63de, 0x766a0abb3c77b2a8, 0x81c2c92e47edaee6],
     [0x92722c851482353b, 0xa2bfe8a14cf10364, 0xa81a664bbc423001],
     [0xc24b8b70d0f89791, 0xc76c51a30654be30, 0xd192e819d6ef5218],
     [0xd69906245565a910, 0xf40e35855771202a, 0x106aa07032bbd1b8],
     [0x19a4c116b8d2d0c8, 0x1e376c085141ab53, 0x2748774cdf8eeb99],
     [0x34b0bcb5e19b48a8, 0x391c0cb3c5c95a63, 0x4ed8aa4ae3418acb],
     [0x5b9cca4f7763e373, 0x682e6ff3d6b2b8a3, 0x748f82ee5defb2fc],
     [0x78a5636f43172f60, 0x84c87814a1f0ab72, 0x8cc702081a6439ec],
     [0x90befffa23631e28, 0xa4506cebde82bde9, 0xbef9a3f7b2c67915],
     [0xc67178f2e372532b, 0xca273eceea26619c, 0xd186b8c721c0c207],
     [0xeada7dd6cde0eb1e, 0xf57d4f7fee6ed178, 0x06f067aa72176fba],
     [0x0a637dc5a2c898a6, 0x113f9804bef90dae, 0x1b710b35131c471b],
     [0x28db77f523047d84, 0x32caab7b40c72493, 0x3c9ebe0a15c9bebc],
     [0x431d67c49c100d4c, 0x4cc5d4becb3e42b6, 0x597f299cfc657e2a],
     [0x5fcb6fab3ad6faec, 0x6c44198c4a475817]]"

definition sha512_init :: "u64 list" where
  "sha512_init = [
     0x6a09e667f3bcc908, 0xbb67ae8584caa73b, 0x3c6ef372fe94f82b, 0xa54ff53a5f1d36f1,
     0x510e527fade682d1, 0x9b05688c2b3e6c1f, 0x1f83d9abfb41bd6b, 0x5be0cd19137e2179]"

definition sha_pad128 :: "u8 list \<Rightarrow> u8 list" where
  "sha_pad128 input =
     (let bit_len = (word_of_nat (length input) :: 128 word) * 8;
          padded = input @ [0x80];
          padded = resize0 (and_not (length padded + 128) 127 - 16) padded
      in padded @ be_bytes 16 bit_len)"

fun sha512_extend :: "nat \<Rightarrow> u64 list \<Rightarrow> u64 list" where
  "sha512_extend 0 w = w"
| "sha512_extend (Suc k) w =
     (let i = length w;
          s0 = rotate_right 1 (w ! (i - 15)) XOR rotate_right 8 (w ! (i - 15)) XOR drop_bit 7 (w ! (i - 15));
          s1 = rotate_right 19 (w ! (i - 2)) XOR rotate_right 61 (w ! (i - 2)) XOR drop_bit 6 (w ! (i - 2))
      in sha512_extend k (w @ [w ! (i - 16) + s0 + w ! (i - 7) + s1]))"

fun sha512_round :: "u64 sha2_regs \<Rightarrow> u64 \<times> u64 \<Rightarrow> u64 sha2_regs" where
  "sha512_round (a, b, c, d, e, f, g, h) (k, w) =
     (let s1 = rotate_right 14 e XOR rotate_right 18 e XOR rotate_right 41 e;
          ch = (e AND f) XOR (NOT e AND g);
          temp1 = h + s1 + ch + k + w;
          s0 = rotate_right 28 a XOR rotate_right 34 a XOR rotate_right 39 a;
          maj = (a AND b) XOR (a AND c) XOR (b AND c);
          temp2 = s0 + maj
      in (temp1 + temp2, a, b, c, d + temp1, e, f, g))"

definition sha512_block :: "u64 list \<Rightarrow> u8 list \<Rightarrow> u64 list" where
  "sha512_block state chunk =
     (let words = sha512_extend 64 (prep_words 8 chunk)
      in sha2_add state (foldl sha512_round (sha2_regs state) (zip K512 words)))"

definition sha512 :: "u8 list \<Rightarrow> u8 list" where
  "sha512 input = concat (map (be_bytes 8) (foldl sha512_block sha512_init (chunks 128 (sha_pad128 input))))"

subsection \<open>mod.rs and hmac.rs\<close>

datatype Algorithm = SHA1 | SHA256 | SHA512

fun hash_bytes :: "Algorithm \<Rightarrow> u8 list \<Rightarrow> u8 list" where
  "hash_bytes SHA1 data = sha1 data"
| "hash_bytes SHA256 data = sha256 data"
| "hash_bytes SHA512 data = sha512 data"

definition hash_hex :: "Algorithm \<Rightarrow> u8 list \<Rightarrow> u8 list" where
  "hash_hex alg data = hex_encode (hash_bytes alg data)"

fun alg_name :: "Algorithm \<Rightarrow> u8 list" where
  "alg_name SHA1 = ascii ''SHA1''"
| "alg_name SHA256 = ascii ''SHA256''"
| "alg_name SHA512 = ascii ''SHA512''"

definition HMAC_INNER_PAD :: u8 where "HMAC_INNER_PAD = 0x36"
definition HMAC_OUTER_PAD :: u8 where "HMAC_OUTER_PAD = 0x5c"

fun block_size :: "Algorithm \<Rightarrow> nat" where
  "block_size SHA1 = 64"
| "block_size SHA256 = 64"
| "block_size SHA512 = 128"

text \<open>\<open>buf[..src.len()].copy_from_slice(src)\<close> for a source no longer than the buffer.\<close>

definition copy_prefix :: "u8 list \<Rightarrow> u8 list \<Rightarrow> u8 list" where
  "copy_prefix buf src = src @ drop (length src) buf"

definition hmac :: "Algorithm \<Rightarrow> u8 list \<Rightarrow> u8 list \<Rightarrow> u8 list" where
  "hmac alg key message =
     (let bs = block_size alg;
          key_block = replicate bs 0;
          key_block = (if bs < length key then copy_prefix key_block (hash_bytes alg key)
                       else copy_prefix key_block key);
          inner_key_pad = map (\<lambda>b. b XOR HMAC_INNER_PAD) key_block;
          outer_key_pad = map (\<lambda>b. b XOR HMAC_OUTER_PAD) key_block;
          inner_hash = hash_bytes alg (inner_key_pad @ message)
      in hash_bytes alg (outer_key_pad @ inner_hash))"

subsection \<open>Reference definitions: FIPS 180-4 and RFC 2104\<close>

fun hash_spec :: "Algorithm \<Rightarrow> u8 list \<Rightarrow> u8 list" where
  "hash_spec SHA1 m = fips_sha1 m"
| "hash_spec SHA256 m = fips_sha2 4 fips_sha256 fips_H256 (fips_pad64 m)"
| "hash_spec SHA512 m = fips_sha2 8 fips_sha512 fips_H512 (fips_pad128 m)"

definition hmac_key_block :: "(u8 list \<Rightarrow> u8 list) \<Rightarrow> nat \<Rightarrow> u8 list \<Rightarrow> u8 list" where
  "hmac_key_block H B key =
     (let k = (if length key \<le> B then key else H key) in k @ replicate (B - length k) 0)"

definition hmac_spec :: "(u8 list \<Rightarrow> u8 list) \<Rightarrow> nat \<Rightarrow> u8 list \<Rightarrow> u8 list \<Rightarrow> u8 list" where
  "hmac_spec H B key msg =
     (let k0 = hmac_key_block H B key
      in H (map2 (XOR) k0 (replicate B 0x5c) @ H (map2 (XOR) k0 (replicate B 0x36) @ msg)))"

text \<open>The message lengths for which the padding of the source is the one of the
  standard: the marker and the length field fit the block in which the message ends.\<close>

definition pad_fits :: "Algorithm \<Rightarrow> nat \<Rightarrow> bool" where
  "pad_fits alg n = ((n + 1) mod block_size alg \<le> block_size alg - block_size alg div 8)"

fun digest_len :: "Algorithm \<Rightarrow> nat" where
  "digest_len SHA1 = 20"
| "digest_len SHA256 = 32"
| "digest_len SHA512 = 64"

subsection \<open>Lengths\<close>

lemma length_sha1_block [simp]: "length (sha1_block s c) = 5"
  by (simp add: sha1_block_def Let_def split: prod.split)

lemma length_sha2_add [simp]: "length (sha2_add s r) = 8"
  by (rule sha2_add.cases [of "(s, r)"]) simp_all

lemma length_foldl_block:
  "length s = n \<Longrightarrow> (\<And>s c. length (f s c) = n) \<Longrightarrow> length (foldl f s cs) = n"
  by (induction cs arbitrary: s) simp_all

lemma length_concat_be: "length (concat (map (be_bytes k) ws)) = k * length ws"
  by (induction ws) simp_all

lemma length_hash_bytes [simp]: "length (hash_bytes alg m) = digest_len alg"
  by (cases alg)
    (simp_all add: sha1_def sha256_def sha512_def length_concat_be length_foldl_block
      sha1_init_def sha256_init_def sha512_init_def sha256_block_def sha512_block_def Let_def)

lemma digest_len_le_block: "digest_len alg \<le> block_size alg"
  by (cases alg) simp_all

subsection \<open>Padding\<close>

lemma and_not_mask:
  assumes "n < 2 ^ 64" "k < 64"
  shows "and_not n (2 ^ k - 1) = n div 2 ^ k * 2 ^ k"
proof -
  have "(word_of_nat n :: u64) AND NOT (mask k) = push_bit k (drop_bit k (word_of_nat n))"
    by (rule bit_word_eqI) (auto simp: bit_simps)
  also have "\<dots> = word_of_nat (push_bit k (drop_bit k n))"
    using assms by (intro bit_word_eqI) (auto simp: bit_simps nat_less_le)
  also have "unat \<dots> = n div 2 ^ k * 2 ^ k"
    using assms le_less_trans [OF div_times_less_eq_dividend, of n "2 ^ 64" "2 ^ k"]
    by (simp add: unat_of_nat push_bit_eq_mult drop_bit_eq_div del: of_nat_mult)
  finally show ?thesis
    by (simp add: and_not_def mask_eq_exp_minus_1 of_nat_diff)
qed

lemma and_not_63: "n < 2 ^ 64 \<Longrightarrow> and_not n 63 = n div 64 * 64"
  using and_not_mask [of n 6] by simp

lemma and_not_127: "n < 2 ^ 64 \<Longrightarrow> and_not n 127 = n div 128 * 128"
  using and_not_mask [of n 7] by simp

lemma next_block: "r < B \<Longrightarrow> (q * B + r + B) div B * B = q * B + (B :: nat)"
proof -
  assume "r < B"
  moreover have "q * B + r + B = r + (q + 1) * B"
    by simp
  ultimately show ?thesis
    by (simp only: div_mult_self1) simp
qed

lemma resize_fits:
  fixes B :: nat
  assumes "0 < L" "L \<le> B" "Suc (length m) mod B \<le> B - L"
  shows "resize0 ((Suc (length m) + B) div B * B - L) (m @ [0x80]) =
    m @ 0x80 # replicate ((B - (length m + 1 + L) mod B) mod B) 0"
proof -
  define q r where "q = Suc (length m) div B" and "r = Suc (length m) mod B"
  have len: "Suc (length m) = q * B + r" and r: "r < B" "r + L \<le> B"
    using assms by (simp_all add: q_def r_def)
  have target: "(Suc (length m) + B) div B * B - L = Suc (length m) + (B - L - r)"
    using r unfolding len next_block [OF r(1)] by simp
  have "length m + 1 + L = r + L + q * B"
    using len by simp
  then have "(length m + 1 + L) mod B = (r + L) mod B"
    by (simp only: mod_mult_self1)
  moreover have "(B - (r + L) mod B) mod B = B - L - r"
    using r assms(1) by (cases "r + L = B") simp_all
  ultimately show ?thesis
    unfolding target by (simp add: resize0_def ac_simps)
qed

lemma resize_truncates:
  fixes B :: nat
  assumes "L \<le> B" "length t = k" "B + k \<le> (length m + k) mod B + L" "0 < B"
  shows "resize0 ((length m + k + B) div B * B - L) (m @ t) =
    take (length m + k - ((length m + k) mod B + L - B)) m"
proof -
  define q r where "q = (length m + k) div B" and "r = (length m + k) mod B"
  have len: "length m + k = q * B + r" and r: "r < B"
    using assms by (simp_all add: q_def r_def)
  have "(length m + k + B) div B * B - L = length m + k - (r + L - B)"
    using r assms(1,3) unfolding len r_def [symmetric] next_block [OF r] by simp
  then show ?thesis
    using assms(2,3) unfolding r_def [symmetric] resize0_def by simp
qed

lemma sha_pad64_fits:
  assumes "length m < 2 ^ 63" "pad_fits SHA1 (length m)"
  shows "sha_pad64 m = fips_pad64 m"
  using assms resize_fits [of 8 64 m]
  by (simp add: sha_pad64_def fips_pad64_def fips_pad_def pad_fits_def and_not_63 mult.commute)

lemma sha_pad128_fits:
  assumes "length m < 2 ^ 63" "pad_fits SHA512 (length m)"
  shows "sha_pad128 m = fips_pad128 m"
  using assms resize_fits [of 16 128 m]
  by (simp add: sha_pad128_def fips_pad128_def fips_pad_def pad_fits_def and_not_127 mult.commute)

lemma fips_pad_blocks:
  assumes "0 < B"
  shows "B dvd length (fips_pad B f m)"
proof -
  define n where "n = length m + 1 + length f"
  have "(n + (B - n mod B) mod B) mod B = (n mod B + (B - n mod B)) mod B"
    by (simp only: mod_add_left_eq mod_add_right_eq)
  also have "n mod B + (B - n mod B) = B"
    using assms by (simp add: less_imp_le)
  finally have "B dvd n + (B - n mod B) mod B"
    by (simp only: dvd_eq_mod_eq_0 mod_self)
  then show ?thesis
    by (simp add: fips_pad_def n_def ac_simps)
qed

subsection \<open>The compression functions are the standard ones\<close>

lemma rotate_right_rotr: "n < LENGTH('a) \<Longrightarrow> rotate_right n (w :: 'a::len word) = word_rotr n w"
proof (rule bit_word_eqI)
  fix i
  assume n: "n < LENGTH('a)" and i: "i < LENGTH('a)"
  show "bit (rotate_right n w) i = bit (word_rotr n w) i"
  proof (cases "i + n < LENGTH('a)")
    case True
    with i show ?thesis by (auto simp: rotate_right_def bit_simps add.commute)
  next
    case False
    then have "(i + n) mod LENGTH('a) = i - (LENGTH('a) - n)" using n i by (simp add: mod_if)
    with False n i show ?thesis
      by (auto simp: rotate_right_def bit_simps dest: bit_imp_le_length)
  qed
qed

lemma rotate_left_rotl: "0 < n \<Longrightarrow> n < LENGTH('a) \<Longrightarrow> rotate_left n (w :: 'a::len word) = word_rotl n w"
proof (rule bit_word_eqI)
  fix i
  assume n: "0 < n" "n < LENGTH('a)" and i: "i < LENGTH('a)"
  show "bit (rotate_left n w) i = bit (word_rotl n w) i"
  proof (cases "i < n")
    case True
    then have "(i + (LENGTH('a) - n)) mod LENGTH('a) = i + (LENGTH('a) - n)" using n by simp
    with True n i show ?thesis by (auto simp: rotate_left_def bit_simps add.commute)
  next
    case False
    then have "(i + (LENGTH('a) - n)) mod LENGTH('a) = i - n" using n i by (simp add: mod_if)
    with False n i show ?thesis
      by (auto simp: rotate_left_def bit_simps dest: bit_imp_le_length)
  qed
qed

lemmas rotate_std [simp] = rotate_right_rotr rotate_left_rotl

lemma be_val_nat: "8 * length bs \<le> LENGTH('a) \<Longrightarrow> (be_val bs :: 'a::len word) = word_of_nat (le_nat (rev bs))"
proof -
  assume "8 * length bs \<le> LENGTH('a)"
  then have "unat (be_val bs :: 'a word) = le_nat (rev bs)" by (simp add: be_val_def unat_le_val)
  then have "word_of_nat (unat (be_val bs :: 'a word)) = (word_of_nat (le_nat (rev bs)) :: 'a word)" by simp
  then show ?thesis by simp
qed

lemma extend_std:
  assumes step: "\<And>k w. ext (Suc k) w = ext k (w @ [g w])" and zero: "\<And>w. ext 0 w = w"
    and g: "\<And>t. 16 \<le> t \<Longrightarrow> g (map W [0..<t]) = W t"
  shows "ext k (map W [0..<16]) = map W [0..<16 + k]"
proof -
  have "16 \<le> t \<Longrightarrow> ext k (map W [0..<t]) = map W [0..<t + k]" for t
  proof (induction k arbitrary: t)
    case (Suc k)
    have "ext (Suc k) (map W [0..<t]) = ext k (map W [0..<Suc t])" using Suc.prems by (simp add: step g)
    also have "\<dots> = map W [0..<Suc t + k]" by (rule Suc.IH) (use Suc.prems in simp)
    finally show ?case by simp
  qed (simp add: zero)
  then show ?thesis by simp
qed

lemma sha1_extend_std: "sha1_extend k (map (W1 M) [0..<16]) = map (W1 M) [0..<16 + k]"
proof (rule extend_std [where g = "\<lambda>w. let i = length w in
    rotate_left 1 (w ! (i - 3) XOR w ! (i - 8) XOR w ! (i - 14) XOR w ! (i - 16))"], goal_cases)
  case (3 t)
  then show ?case by (subst W1.simps) (simp add: Let_def)
qed (simp_all add: Let_def)

lemma fips_sha256_sel [simp]:
  "Sigma0 fips_sha256 = rot3 2 13 22" "Sigma1 fips_sha256 = rot3 6 11 25" "sigma0 fips_sha256 = rot2_shift 7 18 3"
  "sigma1 fips_sha256 = rot2_shift 17 19 10" "constants fips_sha256 = fips_K256"
  by (simp_all add: fips_sha256_def)

lemma fips_sha512_sel [simp]:
  "Sigma0 fips_sha512 = rot3 28 34 39" "Sigma1 fips_sha512 = rot3 14 18 41" "sigma0 fips_sha512 = rot2_shift 1 8 7"
  "sigma1 fips_sha512 = rot2_shift 19 61 6" "constants fips_sha512 = fips_K512"
  by (simp_all add: fips_sha512_def)

lemma sha256_extend_std: "sha256_extend k (map (W2 fips_sha256 M) [0..<16]) = map (W2 fips_sha256 M) [0..<16 + k]"
proof (rule extend_std [where g = "\<lambda>w. let i = length w;
    s0 = rotate_right 7 (w ! (i - 15)) XOR rotate_right 18 (w ! (i - 15)) XOR drop_bit 3 (w ! (i - 15));
    s1 = rotate_right 17 (w ! (i - 2)) XOR rotate_right 19 (w ! (i - 2)) XOR drop_bit 10 (w ! (i - 2))
    in w ! (i - 16) + s0 + w ! (i - 7) + s1"], goal_cases)
  case (3 t)
  then show ?case
    by (simp add: W2.simps [of fips_sha256 M t] rot2_shift_def Let_def add.commute add.left_commute)
qed (simp_all add: Let_def)

lemma sha512_extend_std: "sha512_extend k (map (W2 fips_sha512 M) [0..<16]) = map (W2 fips_sha512 M) [0..<16 + k]"
proof (rule extend_std [where g = "\<lambda>w. let i = length w;
    s0 = rotate_right 1 (w ! (i - 15)) XOR rotate_right 8 (w ! (i - 15)) XOR drop_bit 7 (w ! (i - 15));
    s1 = rotate_right 19 (w ! (i - 2)) XOR rotate_right 61 (w ! (i - 2)) XOR drop_bit 6 (w ! (i - 2))
    in w ! (i - 16) + s0 + w ! (i - 7) + s1"], goal_cases)
  case (3 t)
  then show ?case
    by (simp add: W2.simps [of fips_sha512 M t] rot2_shift_def Let_def add.commute add.left_commute)
qed (simp_all add: Let_def)

lemma Ch_or: "(x AND y) OR (NOT x AND z) = Ch x y (z :: 'a::len word)"
  unfolding Ch_def by (rule bit_word_eqI) (auto simp: bit_simps)

lemma Maj_or: "(x AND y) OR (x AND z) OR (y AND z) = Maj x y (z :: 'a::len word)"
  unfolding Maj_def by (rule bit_word_eqI) (auto simp: bit_simps)

lemma fips_K1_values:
  "fips_K1 t = (if t < 20 then 0x5A827999 else if t < 40 then 0x6ED9EBA1 else if t < 60 then 0x8F1BBCDC else 0xCA62C1D6)"
proof -
  have "\<lfloor>2 ^ 30 * root 2 (real 2)\<rfloor> = int 0x5A827999" "\<lfloor>2 ^ 30 * root 2 (real 3)\<rfloor> = int 0x6ED9EBA1"
    "\<lfloor>2 ^ 30 * root 2 (real 5)\<rfloor> = int 0x8F1BBCDC" "\<lfloor>2 ^ 30 * root 2 (real 10)\<rfloor> = int 0xCA62C1D6"
    by (rule floor_root; simp)+
  then show ?thesis by (simp add: fips_K1_def sqrt_def)
qed

lemma sha1_rounds_std:
  "(case foldl sha1_round (a, b, c, d, e) (map (\<lambda>i. (i, W1 M i)) [0..<t]) of (a, b, c, d, e) \<Rightarrow> [a, b, c, d, e]) =
    vars1 [a, b, c, d, e] M t"
proof (induction t)
  case (Suc t)
  obtain a' b' c' d' e' where s: "foldl sha1_round (a, b, c, d, e) (map (\<lambda>i. (i, W1 M i)) [0..<t]) = (a', b', c', d', e')"
    by (rule prod_cases5)
  with Suc have v: "vars1 [a, b, c, d, e] M t = [a', b', c', d', e']" by simp
  show ?case
    by (simp add: s v fips_K1_values sha1_f_def Ch_or Maj_or Parity_def Let_def)
qed simp

lemma prod_cases8:
  obtains a b c d e f g h where "x = (a, b, c, d, e, f, g, h)"
  by (cases x; cases "snd (snd (snd (snd (snd (snd x)))))") auto

lemma sha256_rounds_std:
  assumes "t \<le> length K256" and "K256 = fips_K256"
  shows "(case foldl sha256_round (a, b, c, d, e, f, g, h) (map (\<lambda>i. (K256 ! i, W2 fips_sha256 M i)) [0..<t]) of
      (a, b, c, d, e, f, g, h) \<Rightarrow> [a, b, c, d, e, f, g, h]) = vars2 fips_sha256 [a, b, c, d, e, f, g, h] M t"
  using assms(1)
proof (induction t)
  case (Suc t)
  obtain a' b' c' d' e' f' g' h' where s: "foldl sha256_round (a, b, c, d, e, f, g, h)
      (map (\<lambda>i. (K256 ! i, W2 fips_sha256 M i)) [0..<t]) = (a', b', c', d', e', f', g', h')"
    by (rule prod_cases8)
  with Suc have v: "vars2 fips_sha256 [a, b, c, d, e, f, g, h] M t = [a', b', c', d', e', f', g', h']" by simp
  show ?case
    by (simp add: s v Let_def Ch_def Maj_def) (simp add: rot3_def assms(2) add.commute add.left_commute)
qed simp

lemma sha512_rounds_std:
  assumes "t \<le> length K512" and "K512 = fips_K512"
  shows "(case foldl sha512_round (a, b, c, d, e, f, g, h) (map (\<lambda>i. (K512 ! i, W2 fips_sha512 M i)) [0..<t]) of
      (a, b, c, d, e, f, g, h) \<Rightarrow> [a, b, c, d, e, f, g, h]) = vars2 fips_sha512 [a, b, c, d, e, f, g, h] M t"
  using assms(1)
proof (induction t)
  case (Suc t)
  obtain a' b' c' d' e' f' g' h' where s: "foldl sha512_round (a, b, c, d, e, f, g, h)
      (map (\<lambda>i. (K512 ! i, W2 fips_sha512 M i)) [0..<t]) = (a', b', c', d', e', f', g', h')"
    by (rule prod_cases8)
  with Suc have v: "vars2 fips_sha512 [a, b, c, d, e, f, g, h] M t = [a', b', c', d', e', f', g', h']" by simp
  show ?case
    by (simp add: s v Let_def Ch_def Maj_def) (simp add: rot3_def assms(2) add.commute add.left_commute)
qed simp

text \<open>The tables of the source are the constants of the standard: the words are the fractional
  bits of the roots, whose integer parts are listed.\<close>

definition root_ok :: "nat \<Rightarrow> nat \<Rightarrow> nat \<Rightarrow> bool" where
  "root_ok k n N \<longleftrightarrow> N ^ k \<le> n \<and> n < (N + 1) ^ k"

fun roots_ok :: "nat \<Rightarrow> nat list \<Rightarrow> nat list \<Rightarrow> 'a::len word list \<Rightarrow> bool" where
  "roots_ok k [] [] [] = True"
| "roots_ok k (p # ps) (i # is) (w # ws) \<longleftrightarrow>
     root_ok k (p * 2 ^ (LENGTH('a) * k)) (i * 2 ^ LENGTH('a) + unat w) \<and> roots_ok k ps is ws"
| "roots_ok k _ _ _ = False"

lemma roots_ok_bits: "0 < k \<Longrightarrow> roots_ok k ps is ws \<Longrightarrow> map (root_bits k) ps = (ws :: 'a::len word list)"
proof (induction k ps "is" ws rule: roots_ok.induct)
  case (2 k p ps i "is" w ws)
  have z: "(2 :: 'a word) ^ LENGTH('a) = 0" by (simp add: exp_eq_zero_iff)
  have "(root_bits k p :: 'a word) = word_of_nat (i * 2 ^ LENGTH('a) + unat w)"
    using 2 by (intro root_bits_word) (simp_all add: root_ok_def)
  with 2 z show ?case by simp
qed simp_all

lemma root_ok_cube [simp]:
  "root_ok 3 n N \<longleftrightarrow> N * N * N \<le> n \<and> n < (N + 1) * ((N + 1) * (N + 1))"
  by (simp add: root_ok_def power3_eq_cube ac_simps)

lemma root_ok_square [simp]: "root_ok 2 n N \<longleftrightarrow> N * N \<le> n \<and> n < (N + 1) * (N + 1)"
  by (simp add: root_ok_def power2_eq_square)

lemma primes_below_410: "filter is_prime [2..<410] =
  filter is_prime [2..<102] @ filter is_prime [102..<202] @ filter is_prime [202..<302] @ filter is_prime [302..<410]"
proof -
  have *: "[i..<k] = [i..<j] @ [j..<k]" if "i \<le> j" "j \<le> k" for i j k :: nat
    using upt_add_eq_append [of i j "k - j"] that by simp
  have "[2..<410] = [2..<102] @ [102..<(410 :: nat)]" "[102..<410] = [102..<202] @ [202..<(410 :: nat)]"
    "[202..<410] = [202..<302] @ [302..<(410 :: nat)]"
    by (rule *; simp)+
  then show ?thesis by (simp only: filter_append)
qed

lemma first_primes_8: "first_primes 8 = [2, 3, 5, 7, 11, 13, 17, 19]"
  unfolding first_primes_def primes_below_410 primes_below by simp

lemma fips_H256_values: "fips_H256 = sha256_init"
  unfolding fips_H256_def sha256_init_def first_primes_8
  by (rule roots_ok_bits [of 2 _ "[1, 1, 2, 2, 3, 3, 4, 4]"]) simp_all


lemma first_primes_80: "first_primes 80 = filter is_prime [2..<102] @ filter is_prime [102..<202] @
    filter is_prime [202..<302] @ filter is_prime [302..<410]"
  unfolding first_primes_def primes_below_410 primes_below by simp

lemma first_primes_64: "first_primes 64 = filter is_prime [2..<102] @ filter is_prime [102..<202] @
    filter is_prime [202..<302] @ [307, 311]"
  unfolding first_primes_def primes_below_410 primes_below by simp

definition cube_floors :: "nat list" where
  "cube_floors = concat (map2 (\<lambda>n i. replicate n i) [4, 5, 9, 12, 17, 21, 12] [1, 2, 3, 4, 5, 6, 7])"

lemma cube_floors_rows: "cube_floors = [1, 1, 1, 1, 2, 2, 2, 2, 2, 3, 3, 3, 3, 3, 3, 3, 3, 3,
    4, 4, 4, 4, 4, 4, 4, 4, 4, 4, 4, 4, 5, 5, 5, 5, 5, 5, 5, 5, 5, 5, 5, 5, 5, 5, 5, 5, 5,
    6, 6, 6, 6, 6, 6, 6, 6, 6, 6, 6, 6, 6, 6, 6, 6, 6, 6, 6, 6, 6, 7, 7, 7, 7, 7, 7, 7, 7, 7, 7, 7, 7]"
  unfolding cube_floors_def by code_simp

lemma fips_K256_values: "fips_K256 = K256"
  unfolding fips_K256_def K256_def first_primes_64 primes_below cube_floors_rows
  by (rule roots_ok_bits [of 3 _ "take 64 cube_floors"]) (simp_all add: cube_floors_rows)

lemma fips_K512_values: "fips_K512 = K512"
  unfolding fips_K512_def K512_def first_primes_80 primes_below
  by (rule roots_ok_bits [of 3 _ "cube_floors"]) (simp_all add: cube_floors_rows)

lemma fips_H512_values: "fips_H512 = sha512_init"
  unfolding fips_H512_def sha512_init_def first_primes_8
  by (rule roots_ok_bits [of 2 _ "[1, 1, 2, 2, 3, 3, 4, 4]"]) simp_all

lemma fips_H1_values: "fips_H1 = sha1_init"
  by (simp add: fips_H1_def sha1_init_def)

text \<open>The blocks: the chunks of a padded message are read as the words of the standard.\<close>

lemma chunks_blocks: "0 < B \<Longrightarrow> length bs = n * B \<Longrightarrow> chunks B bs = map (\<lambda>i. take B (drop (i * B) bs)) [0..<n]"
proof (induction n arbitrary: bs)
  case 0
  then show ?case by (simp add: chunks.simps)
next
  case (Suc n)
  from Suc.prems have ne: "bs \<noteq> []" by auto
  have "chunks B bs = take B bs # chunks B (drop B bs)" using ne Suc.prems(1) by (subst chunks.simps) simp
  also have "chunks B (drop B bs) = map (\<lambda>i. take B (drop (i * B) (drop B bs))) [0..<n]"
    using Suc.prems by (intro Suc.IH) simp_all
  also have "\<dots> = map (\<lambda>i. take B (drop (Suc i * B) bs)) [0..<n]" by (simp add: add.commute)
  finally show ?case by (simp only: map_upt_Suc) simp
qed

lemma prep_words_std:
  assumes "8 * k \<le> LENGTH('a)"
  shows "prep_words k (take (16 * k) (drop (i * (16 * k)) bs)) = map (block_word k bs i :: nat \<Rightarrow> 'a::len word) [0..<16]"
proof -
  have "take k (drop (t * k) (take (16 * k) (drop (i * (16 * k)) bs))) = take k (drop (k * (16 * i + t)) bs)"
    if "t < 16" for t
  proof -
    have "t * k + k \<le> 16 * k" using that mult_le_mono1 [of "Suc t" 16 k] by simp
    then have "k \<le> 16 * k - t * k" by linarith
    then show ?thesis by (simp add: drop_take min_absorb1 algebra_simps)
  qed
  moreover have "(be_val (take k xs) :: 'a word) = word_of_nat (le_nat (rev (take k xs)))" for xs
    using assms by (intro be_val_nat) simp
  ultimately show ?thesis by (simp add: prep_words_def block_word_def del: upt_rec_numeral)
qed

lemma foldl_blocks:
  assumes "\<And>s i. length s = n \<Longrightarrow> f s (take B (drop (i * B) bs)) = g s (M i)"
    and "\<And>s i. length s = n \<Longrightarrow> length (g s (M i)) = n"
  shows "length s = n \<Longrightarrow> foldl f s (map (\<lambda>i. take B (drop (i * B) bs)) is) = foldl g s (map M is)"
  using assms by (induction "is" arbitrary: s) simp_all

lemma W1_start: "map M [0..<16] = map (W1 M) [0..<16]"
  by (rule map_cong) (simp_all add: W1.simps)

lemma W2_start: "map M [0..<16] = map (W2 F M) [0..<16]"
  by (rule map_cong) (simp_all add: W2.simps)

lemma zip_upt: "length ks = n \<Longrightarrow> zip ks (map W [0..<n]) = map (\<lambda>i. (ks ! i, W i)) [0..<n]"
  by (rule nth_equalityI) simp_all

lemma sha1_block_std:
  assumes "length s = 5"
  shows "sha1_block s (take 64 (drop (i * 64) bs)) = map2 (+) s (vars1 s (block_word 4 bs i) 80)"
proof -
  let ?M = "block_word 4 bs i :: nat \<Rightarrow> u32"
  obtain a b c d e where s: "s = [a, b, c, d, e]"
    using assms by (auto simp: length_Suc_conv numeral_eq_Suc)
  have "sha1_extend 64 (prep_words 4 (take 64 (drop (i * 64) bs))) = sha1_extend 64 (map (W1 ?M) [0..<16])"
    using prep_words_std [where ?'a = 32, of 4 i bs] by (simp only: W1_start [symmetric]) simp
  also have "\<dots> = map (W1 ?M) [0..<80]" using sha1_extend_std [of 64 ?M] by (simp del: upt_rec_numeral)
  finally have w: "zip [0..<80] (sha1_extend 64 (prep_words 4 (take 64 (drop (i * 64) bs)))) = map (\<lambda>i. (i, W1 ?M i)) [0..<80]"
    by (simp only: zip_upt [of "[0..<80]" 80, simplified length_upt]) (simp del: upt_rec_numeral)
  obtain a' b' c' d' e' where f: "foldl sha1_round (a, b, c, d, e) (map (\<lambda>i. (i, W1 ?M i)) [0..<80]) = (a', b', c', d', e')"
    by (rule prod_cases5)
  have "vars1 s ?M 80 = [a', b', c', d', e']" using sha1_rounds_std [of a b c d e ?M 80] unfolding f s by simp
  then show ?thesis unfolding sha1_block_def Let_def w s by (simp add: f del: upt_rec_numeral)
qed

lemma sha2_add_std:
  fixes s :: "'a::len word list"
  assumes rounds: "\<And>a b c d e f g h. (case foldl rnd (a, b, c, d, e, f, g, h) ws of
      (a, b, c, d, e, f, g, h) \<Rightarrow> [a, b, c, d, e, f, g, h]) = vars2 F [a, b, c, d, e, f, g, h] M n"
    and "length s = 8"
  shows "sha2_add s (foldl rnd (sha2_regs s) ws) = map2 (+) s (vars2 F s M n)"
proof -
  obtain a b c d e f g h where s: "s = [a, b, c, d, e, f, g, h]"
    using assms(2) by (auto simp: length_Suc_conv numeral_eq_Suc)
  obtain a' b' c' d' e' f' g' h' where r: "foldl rnd (a, b, c, d, e, f, g, h) ws = (a', b', c', d', e', f', g', h')"
    by (rule prod_cases8)
  have "vars2 F s M n = [a', b', c', d', e', f', g', h']" using rounds [of a b c d e f g h] unfolding r s by simp
  then show ?thesis by (simp add: s r)
qed

lemma sha256_block_std:
  assumes "length s = 8"
  shows "sha256_block s (take 64 (drop (i * 64) bs)) = map2 (+) s (vars2 fips_sha256 s (block_word 4 bs i) 64)"
proof -
  let ?M = "block_word 4 bs i :: nat \<Rightarrow> u32"
  have K: "length K256 = 64" by (simp add: K256_def)
  have "sha256_extend 48 (prep_words 4 (take 64 (drop (i * 64) bs))) = sha256_extend 48 (map (W2 fips_sha256 ?M) [0..<16])"
    using prep_words_std [where ?'a = 32, of 4 i bs] by (simp only: W2_start [symmetric]) simp
  also have "\<dots> = map (W2 fips_sha256 ?M) [0..<64]" using sha256_extend_std [of 48 ?M] by (simp del: upt_rec_numeral)
  finally show ?thesis
    unfolding sha256_block_def Let_def by (simp only: zip_upt [OF K]) (rule sha2_add_std
      [OF sha256_rounds_std [OF eq_refl [OF K [symmetric]] fips_K256_values [symmetric]] assms])
qed

lemma sha512_block_std:
  assumes "length s = 8"
  shows "sha512_block s (take 128 (drop (i * 128) bs)) = map2 (+) s (vars2 fips_sha512 s (block_word 8 bs i) 80)"
proof -
  let ?M = "block_word 8 bs i :: nat \<Rightarrow> u64"
  have K: "length K512 = 80" by (simp add: K512_def)
  have "sha512_extend 64 (prep_words 8 (take 128 (drop (i * 128) bs))) = sha512_extend 64 (map (W2 fips_sha512 ?M) [0..<16])"
    using prep_words_std [where ?'a = 64, of 8 i bs] by (simp only: W2_start [symmetric]) simp
  also have "\<dots> = map (W2 fips_sha512 ?M) [0..<80]" using sha512_extend_std [of 64 ?M] by (simp del: upt_rec_numeral)
  finally show ?thesis
    unfolding sha512_block_def Let_def by (simp only: zip_upt [OF K]) (rule sha2_add_std
      [OF sha512_rounds_std [OF eq_refl [OF K [symmetric]] fips_K512_values [symmetric]] assms])
qed

lemma length_vars1: "length s = 5 \<Longrightarrow> length (vars1 s M t) = 5"
  by (induction t) (auto split: list.splits)

lemma length_vars2: "length s = 8 \<Longrightarrow> length (vars2 F s M t) = 8"
  by (induction t) (auto simp: Let_def split: list.splits)

lemma sha1_blocks_std:
  assumes "length bs = n * 64"
  shows "foldl sha1_block fips_H1 (chunks 64 bs) = foldl (\<lambda>H M. map2 (+) H (vars1 H M 80)) fips_H1 (blocks 4 bs)"
proof -
  have "blocks 4 bs = map (block_word 4 bs :: nat \<Rightarrow> nat \<Rightarrow> u32) [0..<n]" using assms by (simp add: blocks_def)
  with assms show ?thesis
    by (simp only: chunks_blocks [of 64])
      (intro foldl_blocks [where n = 5]; simp add: sha1_block_std length_vars1 fips_H1_values sha1_init_def)
qed

lemma sha256_blocks_std:
  assumes "length bs = n * 64"
  shows "foldl sha256_block fips_H256 (chunks 64 bs) =
    foldl (\<lambda>H M. map2 (+) H (vars2 fips_sha256 H M 64)) fips_H256 (blocks 4 bs)"
proof -
  have "blocks 4 bs = map (block_word 4 bs :: nat \<Rightarrow> nat \<Rightarrow> u32) [0..<n]" using assms by (simp add: blocks_def)
  with assms show ?thesis
    by (simp only: chunks_blocks [of 64])
      (intro foldl_blocks [where n = 8]; simp add: sha256_block_std length_vars2 fips_H256_values sha256_init_def)
qed

lemma sha512_blocks_std:
  assumes "length bs = n * 128"
  shows "foldl sha512_block fips_H512 (chunks 128 bs) =
    foldl (\<lambda>H M. map2 (+) H (vars2 fips_sha512 H M 80)) fips_H512 (blocks 8 bs)"
proof -
  have "blocks 8 bs = map (block_word 8 bs :: nat \<Rightarrow> nat \<Rightarrow> u64) [0..<n]" using assms by (simp add: blocks_def)
  with assms show ?thesis
    by (simp only: chunks_blocks [of 128])
      (intro foldl_blocks [where n = 8]; simp add: sha512_block_std length_vars2 fips_H512_values sha512_init_def)
qed

lemma fips_pad_length:
  "length (fips_pad64 m) = length (fips_pad64 m) div 64 * 64" "length (fips_pad128 m) = length (fips_pad128 m) div 128 * 128"
  using fips_pad_blocks [of 64 _ m] fips_pad_blocks [of 128 _ m] by (simp_all add: fips_pad64_def fips_pad128_def)

lemma hash_spec_folds:
  "hash_spec SHA1 m = concat (map (be_bytes 4) (foldl sha1_block sha1_init (chunks 64 (fips_pad64 m))))"
  "hash_spec SHA256 m = concat (map (be_bytes 4) (foldl sha256_block sha256_init (chunks 64 (fips_pad64 m))))"
  "hash_spec SHA512 m = concat (map (be_bytes 8) (foldl sha512_block sha512_init (chunks 128 (fips_pad128 m))))"
proof -
  have K: "length fips_K256 = 64" "length fips_K512 = 80" by (simp_all add: fips_K256_values fips_K512_values K256_def K512_def)
  show "hash_spec SHA1 m = concat (map (be_bytes 4) (foldl sha1_block sha1_init (chunks 64 (fips_pad64 m))))"
    unfolding fips_H1_values [symmetric] sha1_blocks_std [OF fips_pad_length(1)] by (simp add: fips_sha1_def)
  show "hash_spec SHA256 m = concat (map (be_bytes 4) (foldl sha256_block sha256_init (chunks 64 (fips_pad64 m))))"
    unfolding fips_H256_values [symmetric] sha256_blocks_std [OF fips_pad_length(1)] by (simp add: fips_sha2_def K)
  show "hash_spec SHA512 m = concat (map (be_bytes 8) (foldl sha512_block sha512_init (chunks 128 (fips_pad128 m))))"
    unfolding fips_H512_values [symmetric] sha512_blocks_std [OF fips_pad_length(2)] by (simp add: fips_sha2_def K)
qed

lemma length_hash_spec [simp]: "length (hash_spec alg m) = digest_len alg"
  by (cases alg)
    (simp_all add: hash_spec_folds length_concat_be length_foldl_block
      sha1_init_def sha256_init_def sha512_init_def sha256_block_def sha512_block_def Let_def del: hash_spec.simps)

lemma hash_bytes_fits:
  assumes "length m < 2 ^ 63" "pad_fits alg (length m)"
  shows "hash_bytes alg m = hash_spec alg m"
  using assms
  by (cases alg)
    (simp_all add: sha1_def sha256_def sha512_def sha_pad64_fits sha_pad128_fits pad_fits_def
      hash_spec_folds del: hash_spec.simps)


text \<open>A message whose marker does not fit loses its tail: two messages that differ in
  the last byte alone have the same padding.\<close>

lemma sha_pad64_truncates:
  assumes "length m < 2 ^ 63" "56 \<le> length m mod 64" "length m mod 64 \<le> 61"
  shows "sha_pad64 (m @ [a]) = take (length m div 64 * 64 + 56) m @
    be_bytes 8 ((word_of_nat (Suc (length m)) :: u64) * 8)"
proof -
  have r: "(length m + 2) mod 64 = length m mod 64 + 2"
    using assms(3) by (simp add: mod_Suc)
  have "length m + 2 - ((length m + 2) mod 64 + 8 - 64) = length m div 64 * 64 + 56"
    using assms(2) unfolding r by (simp add: minus_mod_eq_div_mult [symmetric])
  moreover have "64 + 2 \<le> (length m + 2) mod 64 + 8"
    using assms(2) unfolding r by simp
  ultimately have "resize0 ((length m + 2 + 64) div 64 * 64 - 8) (m @ [a, 0x80]) = take (length m div 64 * 64 + 56) m"
    using resize_truncates [of 8 64 "[a, 0x80]" 2 m] by simp
  then show ?thesis
    using assms(1) by (simp add: sha_pad64_def and_not_63)
qed

subsection \<open>HMAC\<close>

text \<open>A hash function as HMAC uses it: a fixed digest length, at most one block.\<close>

locale mac_hash =
  fixes H :: "u8 list \<Rightarrow> u8 list" and B D :: nat
  assumes digest_length: "length (H m) = D"
    and digest_fits: "D \<le> B"
begin

lemma key_block_length: "length (hmac_key_block H B key) = B"
  using digest_length digest_fits by (simp add: hmac_key_block_def Let_def)

lemma mac_length: "length (hmac_spec H B key msg) = D"
  by (simp add: hmac_spec_def Let_def digest_length)

lemma mac_zero_padded_key:
  "length key + n \<le> B \<Longrightarrow> hmac_spec H B (key @ replicate n 0) msg = hmac_spec H B key msg"
  by (simp add: hmac_spec_def hmac_key_block_def Let_def replicate_add [symmetric])

lemma mac_long_key:
  "B < length key \<Longrightarrow> hmac_spec H B key msg = hmac_spec H B (H key) msg"
  using digest_length digest_fits by (simp add: hmac_spec_def hmac_key_block_def Let_def)

end

interpretation code_hash: mac_hash "hash_bytes alg" "block_size alg" "digest_len alg" for alg
  by unfold_locales (simp_all add: digest_len_le_block)

interpretation std_hash: mac_hash "hash_spec alg" "block_size alg" "digest_len alg" for alg
  by unfold_locales (simp_all add: digest_len_le_block)

lemma map2_replicate: "length xs = n \<Longrightarrow> map2 f xs (replicate n c) = map (\<lambda>x. f x c) xs"
  by (induction xs arbitrary: n) auto

lemma hmac_eq_spec: "hmac alg key msg = hmac_spec (hash_bytes alg) (block_size alg) key msg"
proof -
  have "(if block_size alg < length key then copy_prefix (replicate (block_size alg) 0) (hash_bytes alg key)
         else copy_prefix (replicate (block_size alg) 0) key) =
        hmac_key_block (hash_bytes alg) (block_size alg) key"
    by (simp add: copy_prefix_def hmac_key_block_def)
  then show ?thesis
    by (simp add: hmac_def hmac_spec_def Let_def map2_replicate code_hash.key_block_length
        HMAC_INNER_PAD_def HMAC_OUTER_PAD_def)
qed

lemma pad_fits_block: "pad_fits alg (block_size alg + n) = pad_fits alg n"
  by (cases alg) (simp_all add: pad_fits_def mod_add_left_eq [symmetric])

lemma pad_fits_digest: "pad_fits alg (digest_len alg)"
  by (cases alg) (simp_all add: pad_fits_def)

lemma hmac_fits:
  assumes key: "length key < 2 ^ 63" "block_size alg < length key \<Longrightarrow> pad_fits alg (length key)"
    and msg: "length msg < 2 ^ 62" "pad_fits alg (length msg)"
  shows "hmac alg key msg = hmac_spec (hash_spec alg) (block_size alg) key msg"
proof -
  have kb: "hmac_key_block (hash_bytes alg) (block_size alg) key = hmac_key_block (hash_spec alg) (block_size alg) key"
    using hash_bytes_fits [OF key(1) key(2)] by (auto simp: hmac_key_block_def not_le)
  have bs: "block_size alg \<le> 128"
    by (cases alg) simp_all
  moreover have "digest_len alg \<le> 64"
    by (cases alg) simp_all
  ultimately show ?thesis
    using msg
    by (simp add: hmac_eq_spec hmac_spec_def Let_def kb hash_bytes_fits map2_replicate
        std_hash.key_block_length pad_fits_block pad_fits_digest)
qed

subsection \<open>Properties\<close>

text \<open>(C38) The hashes are the standard ones where the padding fits. For a message whose
  marker byte and length field fit the block in which it ends, \<open>Algorithm::hash_bytes\<close> is
  the hash of FIPS 180-4 as \<open>Fips_Hash\<close> defines it apart from the source: constants from the
  roots of the primes, schedule by its recurrence, rounds and padding of the standard. The other
  lengths, where the code pads differently, are not covered.\<close>

theorem hash_bytes_standard:
  assumes "length m < 2 ^ 63" "pad_fits a (length m)"
  shows "hash_bytes a m = hash_spec a m \<and> length (hash_bytes a m) = digest_len a \<and>
    64 dvd length (fips_pad64 m) \<and> 128 dvd length (fips_pad128 m)"
  using hash_bytes_fits [OF assms] fips_pad_blocks [of 64] fips_pad_blocks [of 128]
  by (simp add: fips_pad64_def fips_pad128_def)

theorem hash_bytes_standard_witness:
  "hash_bytes SHA256 (replicate 72 0) = hash_spec SHA256 (replicate 72 0)"
  using hash_bytes_standard [of "replicate 72 0" SHA256] by (simp add: pad_fits_def)



text \<open>The padding of the source truncates the other messages. When the length of a message
  is 57 to 62 modulo 64, SHA-1 and SHA-256 do not read its last byte, so messages that differ
  there alone collide; a secret key of such a length above the block size gives the same
  HMAC for every message, whatever its last byte.\<close>

theorem hash_tail_ignored:
  assumes "length m < 2 ^ 63" "56 \<le> length m mod 64" "length m mod 64 \<le> 61"
  shows "sha1 (m @ [a]) = sha1 (m @ [b]) \<and> sha256 (m @ [a]) = sha256 (m @ [b]) \<and>
    (64 \<le> length m \<longrightarrow> hmac SHA1 (m @ [a]) msg = hmac SHA1 (m @ [b]) msg)"
  using sha_pad64_truncates [OF assms, of a] sha_pad64_truncates [OF assms, of b]
  by (simp add: sha1_def sha256_def hmac_def)

theorem hash_tail_ignored_witness:
  "sha1 (replicate 120 0 @ [1]) = sha1 (replicate 120 0 @ [2]) \<and>
   hmac SHA1 (replicate 120 0 @ [1]) [7] = hmac SHA1 (replicate 120 0 @ [2]) [7]"
  using hash_tail_ignored [of "replicate 120 0" 1 2 "[7]"] by simp

end
