(* ===== verification/Otp_Token.thy ===== *)
theory Otp_Token
  imports Otp_Hash
begin

text \<open>
  One-time passwords: \<open>secret.rs\<close>, \<open>hotp.rs\<close> and \<open>totp.rs\<close> of
  \<open>crates/nyaterm-otp/src\<close>. A token is a record with the fields of the source; code
  generation, the verification window and the \<open>otpauth\<close> URI printer and parser follow
  the source step by step. Functions that can panic return \<open>None\<close> for the panic; the
  argument \<open>chk\<close> says whether the build checks integer overflow (a debug build) or wraps
  around (a release build).
\<close>

subsection \<open>secret.rs\<close>

type_synonym Secret = "u8 list"

definition secret_from_base32 :: "u8 list \<Rightarrow> DecodeBase32Error + Secret" where
  "secret_from_base32 s = base32_decode s"

definition secret_into_base32 :: "Secret \<Rightarrow> u8 list" where
  "secret_into_base32 s = base32_encode s"

definition secret_into_hex :: "Secret \<Rightarrow> u8 list" where
  "secret_into_hex s = hex_encode s"

subsection \<open>hotp.rs: generation and verification\<close>

record Hotp =
  alg :: Algorithm
  issuer :: "u8 list"
  label :: "u8 list"
  digits :: u8
  counter :: u64
  secret :: Secret

definition hotp_default :: Hotp where
  "hotp_default = \<lparr>alg = SHA1, issuer = [], label = [], digits = 6, counter = 0, secret = []\<rparr>"

text \<open>\<open>10_u32.pow(digits)\<close>.\<close>

definition pow10_u32 :: "bool \<Rightarrow> u8 \<Rightarrow> u32 option" where
  "pow10_u32 chk d = (if chk \<and> 2 ^ 32 \<le> (10 :: nat) ^ unat d then None else Some (10 ^ unat d))"

text \<open>The dynamic truncation of RFC 4226; an index out of range panics.\<close>

definition truncate_mac :: "u8 list \<Rightarrow> u32 option" where
  "truncate_mac hmac_result =
     (if hmac_result = [] then None else
      let offset = unat (last hmac_result AND 0x0F)
      in if offset + 3 < length hmac_result then
           Some (push_bit 24 (ucast (hmac_result ! offset) AND 0x7F) OR
                 push_bit 16 (ucast (hmac_result ! (offset + 1))) OR
                 push_bit 8 (ucast (hmac_result ! (offset + 2))) OR
                 ucast (hmac_result ! (offset + 3)))
         else None)"

definition hotp_generate_at :: "bool \<Rightarrow> Hotp \<Rightarrow> u64 \<Rightarrow> u32 option" where
  "hotp_generate_at chk h c =
     (case truncate_mac (hmac (alg h) (secret h) (be_bytes 8 c)) of
        None \<Rightarrow> None
      | Some code \<Rightarrow>
          (case pow10_u32 chk (digits h) of
             None \<Rightarrow> None
           | Some p \<Rightarrow> if p = 0 then None else Some (code mod p)))"

text \<open>\<open>a + b\<close> on \<open>u64\<close>.\<close>

definition add_u64 :: "bool \<Rightarrow> u64 \<Rightarrow> u64 \<Rightarrow> u64 option" where
  "add_u64 chk a b = (if chk \<and> 2 ^ 64 \<le> unat a + unat b then None else Some (a + b))"

definition hotp_generate :: "bool \<Rightarrow> Hotp \<Rightarrow> (u32 \<times> Hotp) option" where
  "hotp_generate chk h =
     (case hotp_generate_at chk h (counter h) of
        None \<Rightarrow> None
      | Some otp \<Rightarrow>
          (case add_u64 chk (counter h) 1 of
             None \<Rightarrow> None
           | Some c \<Rightarrow> Some (otp, h\<lparr>counter := c\<rparr>)))"

text \<open>The loop \<open>for i in 1..=window\<close>, with \<open>n\<close> values of \<open>i\<close> left.\<close>

fun hotp_verify_loop :: "bool \<Rightarrow> Hotp \<Rightarrow> u32 \<Rightarrow> u64 \<Rightarrow> u64 \<Rightarrow> nat \<Rightarrow> bool option" where
  "hotp_verify_loop chk h otp c i 0 = Some False"
| "hotp_verify_loop chk h otp c i (Suc n) =
     (case (if i \<le> c then map_option (\<lambda>g. g = otp) (hotp_generate_at chk h (c - i)) else Some False) of
        None \<Rightarrow> None
      | Some True \<Rightarrow> Some True
      | Some False \<Rightarrow>
          (case add_u64 chk c i of
             None \<Rightarrow> None
           | Some c' \<Rightarrow>
               (case hotp_generate_at chk h c' of
                  None \<Rightarrow> None
                | Some g \<Rightarrow> if g = otp then Some True else hotp_verify_loop chk h otp c (i + 1) n)))"

definition hotp_verify :: "bool \<Rightarrow> Hotp \<Rightarrow> u32 \<Rightarrow> u64 \<Rightarrow> u64 \<Rightarrow> bool option" where
  "hotp_verify chk h otp c window =
     (case hotp_generate_at chk h c of
        None \<Rightarrow> None
      | Some g \<Rightarrow> if g = otp then Some True else hotp_verify_loop chk h otp c 1 (unat window))"

subsection \<open>totp.rs: generation and verification\<close>

record Totp =
  period :: u64
  hotp :: Hotp

definition totp_new :: "Algorithm \<Rightarrow> u8 list \<Rightarrow> u8 list \<Rightarrow> u8 \<Rightarrow> u64 \<Rightarrow> Secret \<Rightarrow> Totp" where
  "totp_new a i l d p s =
     \<lparr>period = p, hotp = \<lparr>alg = a, issuer = i, label = l, digits = d, counter = 0, secret = s\<rparr>\<rparr>"

definition totp_step :: "Totp \<Rightarrow> u64 \<Rightarrow> u64 option" where
  "totp_step t ts = (if period t = 0 then None else Some (ts div period t))"

definition totp_generate_at :: "bool \<Rightarrow> Totp \<Rightarrow> u64 \<Rightarrow> u32 option" where
  "totp_generate_at chk t ts =
     (case totp_step t ts of None \<Rightarrow> None | Some c \<Rightarrow> hotp_generate_at chk (hotp t) c)"

definition totp_verify :: "bool \<Rightarrow> Totp \<Rightarrow> u32 \<Rightarrow> u64 \<Rightarrow> u64 \<Rightarrow> bool option" where
  "totp_verify chk t otp ts window =
     (case totp_step t ts of None \<Rightarrow> None | Some c \<Rightarrow> hotp_verify chk (hotp t) otp c window)"

subsection \<open>The otpauth URI\<close>

definition uri_label :: "Hotp \<Rightarrow> u8 list" where
  "uri_label h =
     (if issuer h = [] then url_encode (label h) else url_encode (issuer h @ 0x3A # label h))"

definition uri_issuer :: "Hotp \<Rightarrow> u8 list" where
  "uri_issuer h = (if issuer h \<noteq> [] then ascii ''&issuer='' @ url_encode (issuer h) else [])"

definition hotp_to_uri :: "Hotp \<Rightarrow> u8 list" where
  "hotp_to_uri h = ascii ''otpauth://hotp/'' @ uri_label h @
     ascii ''?secret='' @ secret_into_base32 (secret h) @ uri_issuer h @
     ascii ''&algorithm='' @ alg_name (alg h) @
     ascii ''&digits='' @ to_decimal (unat (digits h)) @
     ascii ''&counter='' @ to_decimal (unat (counter h))"

definition totp_to_uri :: "Totp \<Rightarrow> u8 list" where
  "totp_to_uri t = ascii ''otpauth://totp/'' @ uri_label (hotp t) @
     ascii ''?secret='' @ secret_into_base32 (secret (hotp t)) @ uri_issuer (hotp t) @
     ascii ''&algorithm='' @ alg_name (alg (hotp t)) @
     ascii ''&digits='' @ to_decimal (unat (digits (hotp t))) @
     ascii ''&period='' @ to_decimal (unat (period t))"

datatype HotpUriError = HInvalidPrefix | HInvalidFormat | HInvalidLabel | HInvalidIssuer
  | HInvalidDigits | HInvalidCounter | HInvalidSecret | HInvalidAlgorithm | HIssuerMismatch
  | HMissingSecret | HMissingCounter

datatype TotpUriError = TInvalidPrefix | TInvalidFormat | TInvalidLabel | TInvalidIssuer
  | TInvalidDigits | TInvalidPeriod | TInvalidSecret | TInvalidAlgorithm | TIssuerMismatch
  | TMissingSecret

definition map_err :: "('e \<Rightarrow> 'f) \<Rightarrow> 'e + 'a \<Rightarrow> 'f + 'a" where
  "map_err f r = (case r of Inl e \<Rightarrow> Inl (f e) | Inr x \<Rightarrow> Inr x)"

text \<open>The query string as the \<open>HashMap\<close> collected from it: a later parameter of the same
  name replaces an earlier one.\<close>

definition uri_param :: "u8 list \<Rightarrow> u8 list \<times> u8 list" where
  "uri_param p = (case split_once 0x3D p of Some kv \<Rightarrow> kv | None \<Rightarrow> (p, []))"

definition uri_params :: "u8 list \<Rightarrow> u8 list \<rightharpoonup> u8 list" where
  "uri_params queries = map_of (rev (map uri_param (split_on 0x26 queries)))"

text \<open>Prefix, label and query part, with the two errors and the label error of the caller.\<close>

definition uri_split ::
  "u8 list \<Rightarrow> 'e \<Rightarrow> 'e \<Rightarrow> 'e \<Rightarrow> u8 list \<Rightarrow> 'e + (u8 list option \<times> u8 list \<times> u8 list)" where
  "uri_split prefix e_prefix e_format e_label uri =
     rbind (ok_or e_prefix (strip_prefix prefix uri)) (\<lambda>rest.
     rbind (ok_or e_format (split_once 0x3F rest)) (\<lambda>(label_encoded, queries).
     if label_encoded = [] then Inl e_label else
     rbind (map_err (\<lambda>_. e_label) (url_decode label_encoded)) (\<lambda>label_decoded.
     Inr (case split_once 0x3A label_decoded of
            Some (iss, lab) \<Rightarrow> (Some iss, lab, queries)
          | None \<Rightarrow> (None, label_decoded, queries)))))"

definition parse_default :: "nat \<Rightarrow> 'a::len word \<Rightarrow> 'e \<Rightarrow> u8 list option \<Rightarrow> 'e + 'a word" where
  "parse_default m d e v = (case v of None \<Rightarrow> Inr d
     | Some s \<Rightarrow> (case parse_uint m s of None \<Rightarrow> Inl e | Some n \<Rightarrow> Inr (word_of_nat n)))"

definition uri_secret :: "'e \<Rightarrow> 'e \<Rightarrow> (u8 list \<rightharpoonup> u8 list) \<Rightarrow> 'e + Secret" where
  "uri_secret e_missing e_invalid params =
     rbind (ok_or e_missing (params (ascii ''secret''))) (\<lambda>raw.
       map_err (\<lambda>_. e_invalid) (secret_from_base32 raw))"

definition uri_issuer_param :: "'e \<Rightarrow> (u8 list \<rightharpoonup> u8 list) \<Rightarrow> 'e + u8 list option" where
  "uri_issuer_param e params = (case params (ascii ''issuer'') of
     None \<Rightarrow> Inr None
   | Some iss \<Rightarrow> rbind (map_err (\<lambda>_. e) (url_decode iss)) (\<lambda>i. Inr (Some i)))"

fun merge_issuer :: "'e \<Rightarrow> u8 list option \<Rightarrow> u8 list option \<Rightarrow> 'e + u8 list" where
  "merge_issuer e None None = Inr []"
| "merge_issuer e None (Some p) = Inr p"
| "merge_issuer e (Some l) None = Inr l"
| "merge_issuer e (Some l) (Some p) = (if l \<noteq> p then Inl e else Inr p)"

text \<open>
  \<open>to_uppercase\<close>, as far as a comparison with \<open>SHA1\<close>, \<open>SHA256\<close> and \<open>SHA512\<close> can
  see it: ASCII letters, and U+017F, the only other character whose upper case is one of
  the letters of these names alone. Other characters stay different from these names.
\<close>

fun upper_for_alg :: "u8 list \<Rightarrow> u8 list" where
  "upper_for_alg (a # b # s) =
     (if a = 0xC5 \<and> b = 0xBF then 0x53 # upper_for_alg s
      else (if 0x61 \<le> a \<and> a \<le> 0x7A then a - 0x20 else a) # upper_for_alg (b # s))"
| "upper_for_alg [a] = [if 0x61 \<le> a \<and> a \<le> 0x7A then a - 0x20 else a]"
| "upper_for_alg [] = []"

definition uri_alg :: "'e \<Rightarrow> (u8 list \<rightharpoonup> u8 list) \<Rightarrow> 'e + Algorithm" where
  "uri_alg e params = (case params (ascii ''algorithm'') of
     None \<Rightarrow> Inr SHA1
   | Some a \<Rightarrow>
       (if upper_for_alg a = ascii ''SHA1'' then Inr SHA1
        else if upper_for_alg a = ascii ''SHA256'' then Inr SHA256
        else if upper_for_alg a = ascii ''SHA512'' then Inr SHA512
        else Inl e))"

definition hotp_from_uri :: "u8 list \<Rightarrow> HotpUriError + Hotp" where
  "hotp_from_uri uri =
     rbind (uri_split (ascii ''otpauth://hotp/'') HInvalidPrefix HInvalidFormat HInvalidLabel uri)
       (\<lambda>(issuer_from_label, lab, queries).
     let params = uri_params queries in
     rbind (parse_default 255 6 HInvalidDigits (params (ascii ''digits''))) (\<lambda>d.
     rbind (rbind (ok_or HMissingCounter (params (ascii ''counter'')))
              (\<lambda>v. parse_default (2 ^ 64 - 1) 0 HInvalidCounter (Some v))) (\<lambda>c.
     rbind (uri_secret HMissingSecret HInvalidSecret params) (\<lambda>s.
     rbind (uri_issuer_param HInvalidIssuer params) (\<lambda>issuer_from_param.
     rbind (merge_issuer HIssuerMismatch issuer_from_label issuer_from_param) (\<lambda>iss.
     rbind (uri_alg HInvalidAlgorithm params) (\<lambda>a.
     Inr \<lparr>alg = a, issuer = iss, label = lab, digits = d, counter = c, secret = s\<rparr>)))))))"

definition totp_from_uri :: "u8 list \<Rightarrow> TotpUriError + Totp" where
  "totp_from_uri uri =
     rbind (uri_split (ascii ''otpauth://totp/'') TInvalidPrefix TInvalidFormat TInvalidLabel uri)
       (\<lambda>(issuer_from_label, lab, queries).
     let params = uri_params queries in
     rbind (parse_default 255 6 TInvalidDigits (params (ascii ''digits''))) (\<lambda>d.
     rbind (parse_default (2 ^ 64 - 1) 30 TInvalidPeriod (params (ascii ''period''))) (\<lambda>p.
     rbind (uri_secret TMissingSecret TInvalidSecret params) (\<lambda>s.
     rbind (uri_issuer_param TInvalidIssuer params) (\<lambda>issuer_from_param.
     rbind (merge_issuer TIssuerMismatch issuer_from_label issuer_from_param) (\<lambda>iss.
     rbind (uri_alg TInvalidAlgorithm params) (\<lambda>a.
     Inr (totp_new a iss lab d p s))))))))"

subsection \<open>Codes\<close>

text \<open>HOTP as RFC 4226 states it, on numbers, over a hash and its block size.\<close>

definition hotp_spec :: "(u8 list \<Rightarrow> u8 list) \<Rightarrow> nat \<Rightarrow> Secret \<Rightarrow> u64 \<Rightarrow> nat \<Rightarrow> nat" where
  "hotp_spec H B key c d =
     (let mac = hmac_spec H B key (be_bytes 8 c);
          offset = unat (last mac) mod 16
      in unat (be_val (take 4 (drop offset mac)) :: u32) mod 2 ^ 31 mod 10 ^ d)"

lemma be_val_4:
  "be_val [a, b, c, d] = (push_bit 24 (ucast a) OR push_bit 16 (ucast b) OR push_bit 8 (ucast c) OR ucast d :: u32)"
  by (simp add: be_val_def push_bit_or ac_simps)

lemma take4_drop: "n + 3 < length xs \<Longrightarrow> take 4 (drop n xs) = [xs ! n, xs ! (n + 1), xs ! (n + 2), xs ! (n + 3)]"
  by (simp add: list_eq_iff_nth_eq less_Suc_eq_0_disj numeral_eq_Suc nth_Cons split: nat.split)

lemma top_byte_mask:
  "push_bit 24 (ucast (a :: u8) AND 0x7F :: u32) OR push_bit 16 (ucast (b :: u8)) OR push_bit 8 (ucast (c :: u8)) OR
     ucast (d :: u8) = take_bit 31 (be_val [a, b, c, d])"
proof -
  have m: "(0x7F :: u32) = mask 7"
    by (simp add: mask_eq_exp_minus_1)
  have *: "n - k < 8" if "bit (x :: u8) (n - k)" for x n k
    using that bit_imp_le_length [of x "n - k"] by simp
  show ?thesis
    unfolding be_val_4 m
    by (rule bit_word_eqI) (auto simp: bit_simps dest: * bit_imp_le_length)
qed

lemma truncate_mac_spec:
  assumes "19 \<le> length mac"
  shows "truncate_mac mac = Some (take_bit 31 (be_val (take 4 (drop (unat (last mac) mod 16) mac))))"
proof -
  have "last mac AND 0x0F = take_bit 4 (last mac)"
    by (simp add: take_bit_eq_mask mask_eq_exp_minus_1)
  then have off: "unat (last mac AND 0x0F) = unat (last mac) mod 16"
    by (simp add: unsigned_take_bit_eq take_bit_eq_mod unat_mod)
  have "unat (last mac) mod 16 < 16"
    by simp
  with assms have lt: "unat (last mac) mod 16 + 3 < length mac"
    by linarith
  show ?thesis
    unfolding truncate_mac_def Let_def off take4_drop [OF lt] top_byte_mask using lt by auto
qed

lemma pow10_bound: "d \<le> 9 \<Longrightarrow> (10 :: nat) ^ d < 2 ^ 32"
proof -
  assume "d \<le> 9"
  then have "(10 :: nat) ^ d \<le> 10 ^ 9" by (intro power_increasing) simp_all
  then show ?thesis by simp
qed

lemma unat_pow10: "d \<le> 9 \<Longrightarrow> unat ((10 :: u32) ^ d) = 10 ^ d"
proof -
  assume d: "d \<le> 9"
  have "(10 :: u32) ^ d = word_of_nat (10 ^ d)"
    by simp
  then show ?thesis
    using pow10_bound [OF d] by (simp only: unat_of_nat) simp
qed

lemma digest_len_19: "19 \<le> digest_len a"
  by (cases a) simp_all

lemma hotp_generate_at_code:
  assumes "digits h \<le> 9"
  shows "hotp_generate_at chk h c =
    Some (word_of_nat (hotp_spec (hash_bytes (alg h)) (block_size (alg h)) (secret h) c (unat (digits h))))"
proof -
  define d mac where "d = unat (digits h)" and "mac = hmac (alg h) (secret h) (be_bytes 8 c)"
  have d: "d \<le> 9"
    using assms by (simp add: d_def word_le_nat_alt)
  have len: "19 \<le> length mac"
    by (simp add: mac_def hmac_eq_spec code_hash.mac_length digest_len_19)
  have p: "pow10_u32 chk (digits h) = Some (10 ^ d)" "(10 :: u32) ^ d \<noteq> 0"
    using pow10_bound [OF d] unat_pow10 [OF d] by (auto simp: pow10_u32_def d_def)
  define code :: u32 where "code = take_bit 31 (be_val (take 4 (drop (unat (last mac) mod 16) mac)))"
  have u: "unat (code mod 10 ^ d) = hotp_spec (hash_bytes (alg h)) (block_size (alg h)) (secret h) c d"
    by (simp add: code_def hotp_spec_def Let_def hmac_eq_spec mac_def unat_mod unat_pow10 d
        unsigned_take_bit_eq take_bit_eq_mod)
  have "code mod 10 ^ d = word_of_nat (hotp_spec (hash_bytes (alg h)) (block_size (alg h)) (secret h) c d)"
    unfolding u [symmetric] by simp
  then show ?thesis
    using truncate_mac_spec [OF len] p
    by (simp add: hotp_generate_at_def code_def d_def mac_def)
qed

lemma hotp_spec_bound: "hotp_spec H B key c d < 10 ^ d"
  by (simp add: hotp_spec_def Let_def)

subsection \<open>Verification windows\<close>

definition word_dist :: "u64 \<Rightarrow> u64 \<Rightarrow> nat" where
  "word_dist a b = (unat a - unat b) + (unat b - unat a)"

lemma unat_word_of_nat_u64: "k < 2 ^ 64 \<Longrightarrow> unat (word_of_nat k :: u64) = k"
  by (simp add: unat_of_nat)

lemma word_dist_iff:
  assumes "1 \<le> k" "unat c + k < 2 ^ 64"
  shows "word_dist c c' = k \<longleftrightarrow> (k \<le> unat c \<and> c' = c - word_of_nat k) \<or> c' = c + word_of_nat k"
proof -
  have k: "unat (word_of_nat k :: u64) = k"
    using assms by (intro unat_word_of_nat_u64) simp
  have add: "unat (c + word_of_nat k) = unat c + k"
    using assms by (subst unat_plus_if') (simp add: k)
  have sub: "k \<le> unat c \<Longrightarrow> unat (c - word_of_nat k) = unat c - k"
    by (simp add: unat_sub word_le_nat_alt k)
  have eq: "c' = d \<longleftrightarrow> unat c' = unat d" for d
    by (simp add: word_unat_eq_iff)
  show ?thesis
    using add sub assms(1) unfolding word_dist_def eq by auto
qed

lemma hotp_verify_loop_spec:
  assumes G: "\<And>c. hotp_generate_at chk h c = Some (G c)"
  shows "1 \<le> k \<Longrightarrow> unat c + k + n \<le> 2 ^ 64 \<Longrightarrow>
    hotp_verify_loop chk h otp c (word_of_nat k) n =
      Some (\<exists>c'. G c' = otp \<and> k \<le> word_dist c c' \<and> word_dist c c' < k + n)"
proof (induction n arbitrary: k)
  case (Suc n)
  have k: "unat (word_of_nat k :: u64) = k"
    using Suc.prems by (intro unat_word_of_nat_u64) simp
  have next_k: "word_of_nat k + 1 = (word_of_nat (Suc k) :: u64)"
    by simp
  have IH: "hotp_verify_loop chk h otp c (word_of_nat k + 1) n =
      Some (\<exists>c'. G c' = otp \<and> Suc k \<le> word_dist c c' \<and> word_dist c c' < Suc k + n)"
    unfolding next_k using Suc.prems by (intro Suc.IH) simp_all
  have "(\<exists>c'. G c' = otp \<and> k \<le> word_dist c c' \<and> word_dist c c' < k + Suc n) \<longleftrightarrow>
      (\<exists>c'. G c' = otp \<and> word_dist c c' = k) \<or>
      (\<exists>c'. G c' = otp \<and> Suc k \<le> word_dist c c' \<and> word_dist c c' < Suc k + n)"
    by (auto simp: le_less Suc_le_eq)
  moreover have "(\<exists>c'. G c' = otp \<and> word_dist c c' = k) \<longleftrightarrow>
      (k \<le> unat c \<and> G (c - word_of_nat k) = otp) \<or> G (c + word_of_nat k) = otp"
    using word_dist_iff [of k c] Suc.prems by auto
  moreover have "(word_of_nat k \<le> c) = (k \<le> unat c)"
    by (simp add: word_le_nat_alt k)
  moreover have "add_u64 chk c (word_of_nat k) = Some (c + word_of_nat k)"
    using Suc.prems by (simp add: add_u64_def k)
  ultimately show ?case
    by (simp add: IH G split: bool.split)
qed simp

lemma hotp_verify_spec:
  assumes "digits h \<le> 9" "unat c + unat w < 2 ^ 64"
  shows "hotp_verify chk h otp c w = Some (\<exists>c'. hotp_generate_at chk h c' = Some otp \<and> word_dist c c' \<le> unat w)"
proof -
  obtain G where G: "\<And>c. hotp_generate_at chk h c = Some (G c)"
    by (rule that [OF hotp_generate_at_code [OF assms(1)]])
  have "word_dist c c' = 0 \<longleftrightarrow> c' = c" for c'
    by (auto simp: word_dist_def word_unat_eq_iff)
  then have split: "(\<exists>c'. G c' = otp \<and> word_dist c c' \<le> unat w) \<longleftrightarrow> G c = otp \<or>
      (\<exists>c'. G c' = otp \<and> 1 \<le> word_dist c c' \<and> word_dist c c' < 1 + unat w)"
    by (metis One_nat_def Suc_leI le0 less_Suc_eq_le not_gr_zero plus_1_eq_Suc)
  show ?thesis
    using hotp_verify_loop_spec [OF G, of 1 c "unat w" otp] assms(2)
    by (simp add: hotp_verify_def G split)
qed

subsection \<open>Time steps\<close>

lemma totp_step_drift:
  fixes p :: nat
  assumes "a \<le> b" "b \<le> a + w * p" "0 < p"
  shows "b div p \<le> a div p + w"
  using div_le_mono [OF assms(2), of p] assms(3) by simp

lemma word_dist_div:
  fixes a b p :: u64
  assumes "p \<noteq> 0" "word_dist a b \<le> unat w * unat p"
  shows "word_dist (a div p) (b div p) \<le> unat w"
proof -
  have p: "0 < unat p"
    using assms(1) by (simp add: unat_gt_0)
  have "unat a \<le> unat b \<Longrightarrow> unat b div unat p \<le> unat a div unat p + unat w"
    using assms(2) p by (intro totp_step_drift) (auto simp: word_dist_def)
  moreover have "unat b \<le> unat a \<Longrightarrow> unat a div unat p \<le> unat b div unat p + unat w"
    using assms(2) p by (intro totp_step_drift) (auto simp: word_dist_def)
  ultimately show ?thesis
    using div_le_mono [of "unat a" "unat b" "unat p"] div_le_mono [of "unat b" "unat a" "unat p"]
    by (cases "unat a \<le> unat b") (simp_all add: word_dist_def unat_div)
qed

subsection \<open>URIs\<close>

fun join_params :: "(u8 list \<times> u8 list) list \<Rightarrow> u8 list" where
  "join_params [] = []"
| "join_params [(k, v)] = k @ 0x3D # v"
| "join_params ((k, v) # kv # r) = k @ 0x3D # v @ 0x26 # join_params (kv # r)"

lemma split_on_join_params:
  "kvs \<noteq> [] \<Longrightarrow> (\<forall>(k, v) \<in> set kvs. 0x26 \<notin> set k \<and> 0x26 \<notin> set v) \<Longrightarrow>
    split_on 0x26 (join_params kvs) = map (\<lambda>(k, v). k @ 0x3D # v) kvs"
proof (induction kvs rule: join_params.induct)
  case (2 k v)
  then show ?case by (simp add: split_on_no_sep)
next
  case (3 k v kv r)
  then show ?case
    using split_on_append [where l = "k @ 0x3D # v"] by simp
qed simp

lemma uri_params_join:
  assumes "kvs \<noteq> []" "\<forall>(k, v) \<in> set kvs. 0x26 \<notin> set k \<and> 0x26 \<notin> set v \<and> 0x3D \<notin> set k"
  shows "uri_params (join_params kvs) = map_of (rev kvs)"
proof -
  have "split_on 0x26 (join_params kvs) = map (\<lambda>(k, v). k @ 0x3D # v) kvs"
    using assms by (intro split_on_join_params) auto
  moreover have "map uri_param (map (\<lambda>(k, v). k @ 0x3D # v) kvs) = kvs"
    using assms(2) by (induction kvs) (auto simp: uri_param_def split_once_append)
  ultimately show ?thesis
    by (simp only: uri_params_def)
qed

lemma url_encode_no_sep:
  "c \<noteq> 0x25 \<Longrightarrow> c \<notin> set SAFE_CHARS \<Longrightarrow> c \<notin> set (url_encode s)"
  using url_encode_chars by blast

lemma seps_unsafe: "0x26 \<notin> set SAFE_CHARS" "0x3F \<notin> set SAFE_CHARS" "0x26 \<notin> set BASE32_ALPHABET"
  by (simp_all add: SAFE_CHARS_def BASE32_ALPHABET_def ascii_def)

lemma to_decimal_no_sep: "0x26 \<notin> set (to_decimal n)"
  using to_decimal_bytes [of "0x26" n] by auto

text \<open>The tokens a URI can carry: text fields are UTF-8, the issuer has no colon, and a
  token without issuer has a label, without a colon.\<close>

definition uri_printable :: "Hotp \<Rightarrow> bool" where
  "uri_printable h \<longleftrightarrow> utf8_valid (issuer h) \<and> utf8_valid (label h) \<and> 0x3A \<notin> set (issuer h) \<and>
     (issuer h = [] \<longrightarrow> label h \<noteq> [] \<and> 0x3A \<notin> set (label h))"

definition uri_kvs :: "Hotp \<Rightarrow> u8 list \<Rightarrow> nat \<Rightarrow> (u8 list \<times> u8 list) list" where
  "uri_kvs h k n = (ascii ''secret'', base32_encode (secret h)) #
     (if issuer h \<noteq> [] then [(ascii ''issuer'', url_encode (issuer h))] else []) @
     [(ascii ''algorithm'', alg_name (alg h)), (ascii ''digits'', to_decimal (unat (digits h))),
      (k, to_decimal n)]"

lemma uri_kvs_join:
  "join_params (uri_kvs h k n) = ascii ''secret='' @ secret_into_base32 (secret h) @ uri_issuer h @
     ascii ''&algorithm='' @ alg_name (alg h) @
     ascii ''&digits='' @ to_decimal (unat (digits h)) @ 0x26 # k @ 0x3D # to_decimal n"
  by (simp add: uri_kvs_def uri_issuer_def secret_into_base32_def ascii_def)

lemma uri_params_kvs:
  assumes "0x26 \<notin> set k" "0x3D \<notin> set k"
  shows "uri_params (join_params (uri_kvs h k n)) = map_of (rev (uri_kvs h k n))"
proof (rule uri_params_join)
  have "0x26 \<notin> set (base32_encode (secret h))"
    using base32_encode_chars seps_unsafe(3) by blast
  moreover have "0x26 \<notin> set (alg_name (alg h))"
    by (cases "alg h") (simp_all add: ascii_def)
  moreover have "0x26 \<notin> set (url_encode (issuer h))"
    by (intro url_encode_no_sep seps_unsafe) simp
  ultimately show "\<forall>(k, v) \<in> set (uri_kvs h k n). 0x26 \<notin> set k \<and> 0x26 \<notin> set v \<and> 0x3D \<notin> set k"
    using assms by (auto simp: uri_kvs_def to_decimal_no_sep ascii_def)
qed (simp add: uri_kvs_def)

lemma utf8_valid_label: "utf8_valid i \<Longrightarrow> utf8_valid l \<Longrightarrow> utf8_valid (i @ 0x3A # l)"
  using utf8_valid_append [of "[0x3A]" l] utf8_valid_append [of i "0x3A # l"] utf8_valid_ascii [of "[0x3A]"]
  by simp

lemma uri_split_label:
  assumes "uri_printable h"
  shows "uri_split p e1 e2 e3 (p @ uri_label h @ 0x3F # q) =
    Inr (if issuer h = [] then None else Some (issuer h), label h, q)"
proof -
  have "0x3F \<notin> set (uri_label h)"
    by (simp add: uri_label_def url_encode_no_sep seps_unsafe)
  moreover have "uri_label h \<noteq> []"
    using assms by (auto simp: uri_label_def uri_printable_def)
  moreover have "url_decode (uri_label h) =
      Inr (if issuer h = [] then label h else issuer h @ 0x3A # label h)"
    using assms utf8_valid_label [of "issuer h" "label h"]
    by (simp add: uri_label_def uri_printable_def url_roundtrip)
  ultimately show ?thesis
    using assms
    by (simp add: uri_split_def split_once_append split_once_None map_err_def uri_printable_def)
qed

lemma parse_default_decimal:
  fixes w :: "'a::len word"
  assumes "unat w \<le> m"
  shows "parse_default m d e (Some (to_decimal (unat w))) = Inr w"
  using assms by (simp add: parse_default_def parse_to_decimal)

lemma upper_alg_name [simp]: "upper_for_alg (alg_name a) = alg_name a"
  by (cases a) (simp_all add: ascii_def)

lemma uri_alg_name: "params (ascii ''algorithm'') = Some (alg_name a) \<Longrightarrow> uri_alg e params = Inr a"
  by (cases a) (simp_all add: uri_alg_def ascii_def)

lemma uri_lookup:
  assumes "params = map_of (rev (uri_kvs h k n))" "k \<in> {ascii ''counter'', ascii ''period''}"
  shows "params k = Some (to_decimal n)" "params (ascii ''secret'') = Some (base32_encode (secret h))"
    "params (ascii ''issuer'') = (if issuer h = [] then None else Some (url_encode (issuer h)))"
    "params (ascii ''algorithm'') = Some (alg_name (alg h))"
    "params (ascii ''digits'') = Some (to_decimal (unat (digits h)))"
  using assms(2) unfolding assms(1) by (auto simp: uri_kvs_def ascii_def)

lemma uri_secret_lookup:
  "params (ascii ''secret'') = Some (base32_encode s) \<Longrightarrow> uri_secret e1 e2 params = Inr s"
  by (simp add: uri_secret_def secret_from_base32_def base32_roundtrip map_err_def)

lemma uri_issuer_lookup:
  assumes "params (ascii ''issuer'') = (if i = [] then None else Some (url_encode i))" "utf8_valid i"
  shows "uri_issuer_param e params = Inr (if i = [] then None else Some i)"
  using assms by (simp add: uri_issuer_param_def url_roundtrip map_err_def)

lemma hotp_uri_roundtrip:
  assumes "uri_printable h"
  shows "hotp_from_uri (hotp_to_uri h) = Inr h"
proof -
  define q where "q = join_params (uri_kvs h (ascii ''counter'') (unat (counter h)))"
  have uri: "hotp_to_uri h = ascii ''otpauth://hotp/'' @ uri_label h @ 0x3F # q"
    by (simp add: hotp_to_uri_def q_def uri_kvs_join ascii_def)
  have "uri_params q = map_of (rev (uri_kvs h (ascii ''counter'') (unat (counter h))))"
    unfolding q_def by (rule uri_params_kvs) (simp_all add: ascii_def)
  note lookup = uri_lookup [OF this, simplified]
  have "unat (digits h) \<le> 255" "unat (counter h) \<le> 2 ^ 64 - 1"
    using unat_u8 [of "digits h"] unat_u64 [of "counter h"] by simp_all
  then show ?thesis
    using assms unfolding hotp_from_uri_def uri uri_split_label [OF assms] uri_printable_def
    by (simp add: Let_def lookup parse_default_decimal uri_secret_lookup [where params = "uri_params q", OF lookup(2)]
        uri_issuer_lookup [where params = "uri_params q", OF lookup(3)]
        uri_alg_name [where params = "uri_params q", OF lookup(4)])
qed

lemma totp_uri_roundtrip_aux:
  assumes "uri_printable (hotp t)" "counter (hotp t) = 0"
  shows "totp_from_uri (totp_to_uri t) = Inr t"
proof -
  let ?h = "hotp t"
  define q where "q = join_params (uri_kvs ?h (ascii ''period'') (unat (period t)))"
  have uri: "totp_to_uri t = ascii ''otpauth://totp/'' @ uri_label ?h @ 0x3F # q"
    by (simp add: totp_to_uri_def q_def uri_kvs_join ascii_def)
  have "uri_params q = map_of (rev (uri_kvs ?h (ascii ''period'') (unat (period t))))"
    unfolding q_def by (rule uri_params_kvs) (simp_all add: ascii_def)
  note lookup = uri_lookup [OF this, simplified]
  have "unat (digits ?h) \<le> 255" "unat (period t) \<le> 2 ^ 64 - 1"
    using unat_u8 [of "digits ?h"] unat_u64 [of "period t"] by simp_all
  then show ?thesis
    using assms unfolding totp_from_uri_def uri uri_split_label [OF assms(1)] uri_printable_def
    by (simp add: Let_def lookup parse_default_decimal totp_new_def
        uri_secret_lookup [where params = "uri_params q", OF lookup(2)]
        uri_issuer_lookup [where params = "uri_params q", OF lookup(3)]
        uri_alg_name [where params = "uri_params q", OF lookup(4)])
qed

lemma pad_fits_counter: "pad_fits a 8"
  by (cases a) (simp_all add: pad_fits_def)

lemma hotp_spec_fits:
  assumes "length key < 2 ^ 63" "block_size a < length key \<longrightarrow> pad_fits a (length key)"
  shows "hotp_spec (hash_bytes a) (block_size a) key c d = hotp_spec (hash_spec a) (block_size a) key c d"
  using hmac_fits [of key a "be_bytes 8 c"] assms
  by (simp add: hotp_spec_def hmac_eq_spec pad_fits_counter)

lemma utf8_valid_byte: "b \<le> 0x7F \<Longrightarrow> utf8_valid [b]"
  by (intro utf8_valid_ascii) simp

lemmas uri_eval_simps = uri_params_def uri_param_def uri_secret_def uri_issuer_param_def uri_alg_def
  parse_default_def parse_uint_def secret_from_base32_def base32_decode_def base32_symbol_def
  map_err_def ascii_def Let_def

subsection \<open>Properties\<close>



text \<open>The verification window. For at most nine digits and a window that does not run
  past the last counter, \<open>Hotp::verify\<close> returns, and returns true exactly when the code is
  the one of some counter at distance at most \<open>window\<close>.\<close>

theorem hotp_verify_window:
  assumes "digits h \<le> 9" "unat c + unat window < 2 ^ 64"
  shows "hotp_verify chk h otp c window =
    Some (\<exists>c'. hotp_generate_at chk h c' = Some otp \<and> word_dist c c' \<le> unat window)"
  using hotp_verify_spec [OF assms] .

theorem hotp_verify_window_witness:
  "hotp_verify True hotp_default 123456 5 2 =
    Some (\<exists>c'. hotp_generate_at True hotp_default c' = Some 123456 \<and> word_dist 5 c' \<le> 2)"
  using hotp_verify_window [of hotp_default 5 2 True 123456] by (simp add: hotp_default_def)

text \<open>(C36) Clock drift. A TOTP code generated at one time is accepted at every time that is at
  most \<open>window\<close> periods away.\<close>

theorem totp_verify_drift:
  assumes "digits (hotp t) \<le> 9" "period t \<noteq> 0" "totp_generate_at chk t ts = Some otp"
    "word_dist ts' ts \<le> unat window * unat (period t)"
    "unat (ts' div period t) + unat window < 2 ^ 64"
  shows "totp_verify chk t otp ts' window = Some True"
proof -
  have "word_dist (ts' div period t) (ts div period t) \<le> unat window"
    by (rule word_dist_div [OF assms(2,4)])
  then show ?thesis
    using assms hotp_verify_spec [OF assms(1,5)]
    by (auto simp: totp_verify_def totp_generate_at_def totp_step_def)
qed

theorem totp_verify_drift_witness:
  "\<exists>otp. totp_generate_at True (totp_new SHA1 [] [] 6 30 []) 1000 = Some otp \<and>
    totp_verify True (totp_new SHA1 [] [] 6 30 []) otp 1029 1 = Some True"
proof -
  have "\<exists>otp. totp_generate_at True (totp_new SHA1 [] [] 6 30 []) 1000 = Some otp"
    using hotp_generate_at_code [of "hotp (totp_new SHA1 [] [] 6 30 [])" True]
    by (simp add: totp_generate_at_def totp_step_def totp_new_def)
  then show ?thesis
    using totp_verify_drift [of "totp_new SHA1 [] [] 6 30 []" True 1000 _ 1029 1]
    by (auto simp: totp_new_def word_dist_def)
qed

text \<open>(C37) Printing and parsing \<open>otpauth\<close> URIs. A HOTP or TOTP token with UTF-8 text, an
  issuer without a colon and, when there is no issuer, a non-empty label without a colon
  is read back unchanged from its own URI, whatever its secret, algorithm, digits and
  counter or period.\<close>

theorem otp_uri_roundtrip:
  "uri_printable h \<Longrightarrow> hotp_from_uri (hotp_to_uri h) = Inr h \<and>
    totp_from_uri (totp_to_uri \<lparr>period = p, hotp = h\<lparr>counter := 0\<rparr>\<rparr>) =
      Inr \<lparr>period = p, hotp = h\<lparr>counter := 0\<rparr>\<rparr>"
  using hotp_uri_roundtrip [of h] totp_uri_roundtrip_aux [of "\<lparr>period = p, hotp = h\<lparr>counter := 0\<rparr>\<rparr>"]
  by (simp add: uri_printable_def)

theorem otp_uri_roundtrip_witness:
  "hotp_from_uri (hotp_to_uri (hotp_default\<lparr>label := [0x61], issuer := [0x40], secret := [1, 2]\<rparr>)) =
    Inr (hotp_default\<lparr>label := [0x61], issuer := [0x40], secret := [1, 2]\<rparr>)"
  using otp_uri_roundtrip [of "hotp_default\<lparr>label := [0x61], issuer := [0x40], secret := [1, 2]\<rparr>"]
  by (simp add: uri_printable_def hotp_default_def utf8_valid_byte)

text \<open>A URI can carry a token that cannot be used. The parser accepts \<open>period=0\<close> and
  \<open>digits=32\<close>; generating a code from such a token panics in every build, by a division by
  zero.\<close>

theorem otp_uri_accepts_unusable:
  "(\<exists>t. totp_from_uri (ascii ''otpauth://totp/a?secret=AA&period=0'') = Inr t \<and>
      totp_generate_at chk t ts = None) \<and>
   (\<exists>h. hotp_from_uri (ascii ''otpauth://hotp/a?secret=AA&counter=0&digits=32'') = Inr h \<and>
      hotp_generate_at chk h c = None)"
proof -
  have "url_decode [0x61] = Inr [0x61]"
    using utf8_valid_byte [of "0x61"] by (simp add: url_decode_def)
  then have "totp_from_uri (ascii ''otpauth://totp/a?secret=AA&period=0'') = Inr (totp_new SHA1 [] [0x61] 6 0 [0])"
    "hotp_from_uri (ascii ''otpauth://hotp/a?secret=AA&counter=0&digits=32'') =
      Inr \<lparr>alg = SHA1, issuer = [], label = [0x61], digits = 32, counter = 0, secret = [0]\<rparr>"
    by (simp_all add: totp_from_uri_def hotp_from_uri_def uri_split_def uri_eval_simps)
  then show ?thesis
    by (simp add: totp_generate_at_def totp_step_def totp_new_def hotp_generate_at_def pow10_u32_def
        split: option.split)
qed

end
