(* ===== verification/Remote_Ipc.thy ===== *)
theory Remote_Ipc
  imports Utf8_Text
begin

text \<open>
  The helper IPC of the remote desktop client (\<open>crates/nyaterm-remote-desktop/src/ipc.rs\<close>):
  length-prefixed packets, the blocking reader, the incremental \<open>PacketReader\<close>, and the
  frame and cursor payloads. An \<open>io::Error\<close> is its kind and its message; a \<open>PixelBuffer\<close> is
  the bytes it dereferences to. JSON serialisation of control messages is a parameter.
\<close>

subsection \<open>Packets\<close>

datatype io_kind = InvalidData | InvalidInput | UnexpectedEof | OutOfMemory | OtherKind

type_synonym io_error = "io_kind \<times> string"

definition HEADER_LEN :: nat where "HEADER_LEN = 5"
definition CONTROL_PAYLOAD_LIMIT :: nat where "CONTROL_PAYLOAD_LIMIT = 1024 * 1024"
definition FRAME_PAYLOAD_LIMIT :: nat where "FRAME_PAYLOAD_LIMIT = 160 * 1024 * 1024"
definition CURSOR_PAYLOAD_LIMIT :: nat where "CURSOR_PAYLOAD_LIMIT = 4 * 1024 * 1024"

datatype PacketType = Control | Frame | Cursor

fun packet_tag :: "PacketType \<Rightarrow> u8" where
  "packet_tag Control = 1"
| "packet_tag Frame = 2"
| "packet_tag Cursor = 3"

definition packet_type_of :: "u8 \<Rightarrow> io_error + PacketType" where
  "packet_type_of v =
     (if v = 1 then Inr Control else if v = 2 then Inr Frame else if v = 3 then Inr Cursor
      else Inl (InvalidData, ''unknown helper IPC packet type''))"

record Packet =
  packet_type :: PacketType
  payload :: "u8 list"
  body :: "u8 list"

definition payload_len :: "Packet \<Rightarrow> io_error + nat" where
  "payload_len p = ok_or (InvalidInput, ''packet length overflow'') (chk_add (length (payload p)) (length (body p)))"

fun payload_limit :: "PacketType \<Rightarrow> nat" where
  "payload_limit Control = CONTROL_PAYLOAD_LIMIT"
| "payload_limit Frame = FRAME_PAYLOAD_LIMIT"
| "payload_limit Cursor = CURSOR_PAYLOAD_LIMIT"

subsection \<open>Blocking reads\<close>

text \<open>A reader is the chunks its \<open>read\<close> calls will return, at most one chunk per call; the
  empty list is the end of the stream.\<close>

type_synonym reader = "u8 list list"

fun read_some :: "nat \<Rightarrow> reader \<Rightarrow> u8 list \<times> reader" where
  "read_some n [] = ([], [])"
| "read_some n (c # cs) = (take n c, if length c \<le> n then cs else drop n c # cs)"

text \<open>The loop of \<open>read_packet_inner\<close> and of \<open>read_exact\<close>: read until \<open>n\<close> bytes are there or
  a read returns nothing.\<close>

function read_loop :: "nat \<Rightarrow> u8 list \<Rightarrow> reader \<Rightarrow> u8 list \<times> reader" where
  "read_loop n acc r =
     (if n \<le> length acc then (acc, r)
      else let (bs, r') = read_some (n - length acc) r
           in if bs = [] then (acc, r') else read_loop n (acc @ bs) r')"
  by pat_completeness auto
termination by (relation "measure (\<lambda>(n, acc, _). n - length acc)") (auto intro!: diff_less_mono2)

declare read_loop.simps [simp del]

text \<open>The budget of \<open>pixel_memory.rs\<close> as this function uses it: bytes in use and the limit.\<close>

type_synonym budget = "nat \<times> nat"

definition reserve :: "budget \<Rightarrow> nat \<Rightarrow> io_error + budget" where
  "reserve b n =
     (case chk_add (fst b) n of
        Some tot \<Rightarrow> if tot \<le> snd b then Inr (tot, snd b)
          else Inl (OutOfMemory, ''remote desktop CPU pixel memory budget exhausted'')
      | None \<Rightarrow> Inl (OutOfMemory, ''remote desktop CPU pixel memory budget exhausted''))"

text \<open>The result carries the reader after the call and the budget after the call; a lease
  taken before a failing read is given back.\<close>

definition read_packet_inner ::
  "budget option \<Rightarrow> reader \<Rightarrow> (io_error + Packet option) \<times> reader \<times> budget option" where
  "read_packet_inner budget r =
     (let (header, r1) = read_loop HEADER_LEN [] r
      in if header = [] then (Inr None, r1, budget)
         else if length header < HEADER_LEN then (Inl (UnexpectedEof, ''truncated helper IPC header''), r1, budget)
         else
           (case packet_type_of (header ! 0) of
              Inl e \<Rightarrow> (Inl e, r1, budget)
            | Inr t \<Rightarrow>
                (let len = unat (le_val (take 4 (drop 1 header)) :: u32)
                 in if payload_limit t < len then (Inl (InvalidData, ''helper IPC payload exceeds limit''), r1, budget)
                    else
                      (case (if t \<noteq> Control then (case budget of None \<Rightarrow> Inr None | Some b \<Rightarrow> rbind (reserve b len) (\<lambda>b'. Inr (Some b')))
                             else Inr budget) of
                         Inl e \<Rightarrow> (Inl e, r1, budget)
                       | Inr budget' \<Rightarrow>
                           (let (bytes, r2) = read_loop len [] r1
                            in if length bytes < len then (Inl (UnexpectedEof, ''failed to fill whole buffer''), r2, budget)
                               else (Inr (Some \<lparr>packet_type = t, payload = bytes, body = []\<rparr>), r2, budget'))))))"

definition write_packet_into :: "Packet \<Rightarrow> io_error + u8 list" where
  "write_packet_into p =
     rbind (payload_len p) (\<lambda>n.
     if payload_limit (packet_type p) < n then Inl (InvalidInput, ''helper IPC payload exceeds limit'')
     else if 2 ^ 32 \<le> n then Inl (InvalidInput, ''helper IPC payload is too large'')
     else Inr (packet_tag (packet_type p) # le_bytes 4 (word_of_nat n :: u32) @ payload p @ body p))"

subsection \<open>The incremental reader\<close>

record PacketReader =
  buffer :: "u8 list"

text \<open>The loop of \<open>push\<close> on the bytes from the current offset: the packets, and the bytes
  left behind.\<close>

function parse_packets :: "u8 list \<Rightarrow> io_error + Packet list \<times> u8 list" where
  "parse_packets buf =
     (if length buf < HEADER_LEN then Inr ([], buf)
      else
        rbind (packet_type_of (buf ! 0)) (\<lambda>t.
        let len = unat (le_val (take 4 (drop 1 buf)) :: u32)
        in if payload_limit t < len then Inl (InvalidData, ''helper IPC payload exceeds limit'')
           else
             rbind (ok_or (InvalidData, ''helper IPC length overflow'') (chk_add HEADER_LEN len)) (\<lambda>packet_len.
             if length buf < packet_len then Inr ([], buf)
             else
               (case parse_packets (drop packet_len buf) of
                  Inl e \<Rightarrow> Inl e
                | Inr (ps, rest) \<Rightarrow>
                    Inr (\<lparr>packet_type = t, payload = take len (drop HEADER_LEN buf), body = []\<rparr> # ps, rest)))))"
  by pat_completeness auto
termination by (relation "measure length") (auto simp: HEADER_LEN_def)

declare parse_packets.simps [simp del]

definition push :: "PacketReader \<Rightarrow> u8 list \<Rightarrow> (io_error + Packet list) \<times> PacketReader" where
  "push s bytes =
     (let buf = buffer s @ bytes
      in case parse_packets buf of
           Inl e \<Rightarrow> (Inl e, s\<lparr>buffer := buf\<rparr>)
         | Inr (ps, rest) \<Rightarrow> (Inr ps, s\<lparr>buffer := rest\<rparr>))"

subsection \<open>Control messages\<close>

text \<open>\<open>to_vec\<close> and \<open>from_slice\<close> are the functions of the serialisation library.\<close>

definition encode_control :: "('m \<Rightarrow> string + u8 list) \<Rightarrow> 'm \<Rightarrow> io_error + Packet" where
  "encode_control to_vec m =
     (case to_vec m of
        Inl e \<Rightarrow> Inl (OtherKind, e)
      | Inr bytes \<Rightarrow>
          if CONTROL_PAYLOAD_LIMIT < length bytes then Inl (InvalidInput, ''RDP control payload exceeds limit'')
          else Inr \<lparr>packet_type = Control, payload = bytes, body = []\<rparr>)"

definition decode_control :: "(u8 list \<Rightarrow> string + 'm) \<Rightarrow> Packet \<Rightarrow> io_error + 'm" where
  "decode_control from_slice p =
     (if packet_type p \<noteq> Control then Inl (InvalidInput, ''packet is not an RDP control packet'')
      else (case from_slice (payload p) of Inl e \<Rightarrow> Inl (InvalidData, e) | Inr m \<Rightarrow> Inr m))"

definition encode_vnc_control :: "('m \<Rightarrow> string + u8 list) \<Rightarrow> 'm \<Rightarrow> io_error + Packet" where
  "encode_vnc_control to_vec m =
     (case to_vec m of
        Inl e \<Rightarrow> Inl (OtherKind, e)
      | Inr bytes \<Rightarrow>
          if CONTROL_PAYLOAD_LIMIT < length bytes then Inl (InvalidInput, ''VNC control payload exceeds limit'')
          else Inr \<lparr>packet_type = Control, payload = bytes, body = []\<rparr>)"

definition decode_vnc_control :: "(u8 list \<Rightarrow> string + 'm) \<Rightarrow> Packet \<Rightarrow> io_error + 'm" where
  "decode_vnc_control from_slice p =
     (if packet_type p \<noteq> Control then Inl (InvalidInput, ''packet is not a control packet'')
      else (case from_slice (payload p) of Inl e \<Rightarrow> Inl (InvalidData, e) | Inr m \<Rightarrow> Inr m))"

subsection \<open>Fields of a payload\<close>

definition put_session :: "u8 list \<Rightarrow> io_error + u8 list" where
  "put_session session_id =
     (if 2 ^ 16 \<le> length session_id then Inl (InvalidInput, ''helper IPC session id is too long'')
      else Inr (le_bytes 2 (word_of_nat (length session_id) :: u16) @ session_id))"

text \<open>\<open>payload.get(a..b)\<close> and \<open>take\<close>: the bytes and the new offset.\<close>

definition get_range :: "u8 list \<Rightarrow> nat \<Rightarrow> nat \<Rightarrow> u8 list option" where
  "get_range xs a b = (if a \<le> b \<and> b \<le> length xs then Some (take (b - a) (drop a xs)) else None)"

definition take_field :: "nat \<Rightarrow> u8 list \<Rightarrow> nat \<Rightarrow> io_error + u8 list \<times> nat" where
  "take_field n xs offset =
     rbind (ok_or (InvalidData, ''helper IPC packet offset overflow'') (chk_add offset n)) (\<lambda>stop.
     rbind (ok_or (UnexpectedEof, ''truncated helper IPC packet'') (get_range xs offset stop)) (\<lambda>bytes.
     Inr (bytes, stop)))"

definition take_session :: "u8 list \<Rightarrow> nat \<Rightarrow> io_error + u8 list \<times> nat" where
  "take_session xs offset =
     rbind (take_field 2 xs offset) (\<lambda>(lb, offset).
     let n = unat (le_val lb :: u16) in
     rbind (ok_or (InvalidData, ''helper IPC session id length overflow'') (chk_add offset n)) (\<lambda>stop.
     rbind (ok_or (UnexpectedEof, ''truncated helper IPC session id'') (get_range xs offset stop)) (\<lambda>bytes.
     if utf8_valid bytes then Inr (bytes, stop)
     else Inl (InvalidData, ''helper IPC session id is not UTF-8''))))"

definition take_u32 :: "u8 list \<Rightarrow> nat \<Rightarrow> io_error + u32 \<times> nat" where
  "take_u32 xs offset = rbind (take_field 4 xs offset) (\<lambda>(b, offset). Inr (le_val b, offset))"

definition take_u64 :: "u8 list \<Rightarrow> nat \<Rightarrow> io_error + u64 \<times> nat" where
  "take_u64 xs offset = rbind (take_field 8 xs offset) (\<lambda>(b, offset). Inr (le_val b, offset))"

definition take_u8 :: "u8 list \<Rightarrow> nat \<Rightarrow> io_error + u8 \<times> nat" where
  "take_u8 xs offset = rbind (take_field 1 xs offset) (\<lambda>(b, offset). Inr (b ! 0, offset))"

subsection \<open>Frames\<close>

datatype PixelFormat = Bgra8 | Rgba8

text \<open>The fields of \<open>RemoteFrameEvent\<close> in the order of the source: epoch, full, x, y, width,
  height, stride, format, pixels.\<close>

datatype RemoteFrameEvent =
    FrameReset u64 u32 u32
  | Bitmap u64 bool u32 u32 u32 u32 u32 PixelFormat "u8 list"

fun format_byte :: "PixelFormat \<Rightarrow> u8" where
  "format_byte Bgra8 = 1"
| "format_byte Rgba8 = 2"

definition bool_byte :: "bool \<Rightarrow> u8" where
  "bool_byte b = (if b then 1 else 0)"

fun encode_frame_packet :: "u8 list \<Rightarrow> RemoteFrameEvent \<Rightarrow> io_error + Packet" where
  "encode_frame_packet session_id (Bitmap epoch full x y width height stride format pixels) =
     rbind (put_session session_id) (\<lambda>payload.
     let payload = payload @ le_bytes 8 epoch @ [bool_byte full] @ [format_byte format] @
           concat (map (le_bytes 4) [x, y, width, height, stride]) in
     if 2 ^ 32 \<le> length pixels then Inl (InvalidInput, ''frame is too large'')
     else
       let payload = payload @ le_bytes 4 (word_of_nat (length pixels) :: u32) @ pixels in
       if FRAME_PAYLOAD_LIMIT < length payload then Inl (InvalidInput, ''frame exceeds limit'')
       else Inr \<lparr>packet_type = Frame, payload = payload, body = []\<rparr>)"
| "encode_frame_packet session_id (FrameReset _ _ _) = Inl (InvalidInput, ''event is not a bitmap'')"

fun encode_frame_packet_owned :: "u8 list \<Rightarrow> RemoteFrameEvent \<Rightarrow> io_error + Packet" where
  "encode_frame_packet_owned session_id (Bitmap epoch full x y width height stride format pixels) =
     rbind (put_session session_id) (\<lambda>payload.
     let payload = payload @ le_bytes 8 epoch @ [bool_byte full] @ [format_byte format] @
           concat (map (le_bytes 4) [x, y, width, height, stride]) in
     if 2 ^ 32 \<le> length pixels then Inl (InvalidInput, ''frame is too large'')
     else
       let payload = payload @ le_bytes 4 (word_of_nat (length pixels) :: u32) in
       if FRAME_PAYLOAD_LIMIT < sat_add (length payload) (length pixels) then Inl (InvalidInput, ''frame exceeds limit'')
       else Inr \<lparr>packet_type = Frame, payload = payload, body = pixels\<rparr>)"
| "encode_frame_packet_owned session_id (FrameReset _ _ _) = Inl (InvalidInput, ''event is not a bitmap'')"

record FrameHeader =
  fh_epoch :: u64
  fh_full :: bool
  fh_x :: u32
  fh_y :: u32
  fh_width :: u32
  fh_height :: u32
  fh_stride :: u32
  fh_format :: PixelFormat

text \<open>\<open>(height - 1) * stride + width * 4\<close> in checked \<open>usize\<close> arithmetic.\<close>

definition frame_required :: "u32 \<Rightarrow> u32 \<Rightarrow> u32 \<Rightarrow> nat option" where
  "frame_required width height stride =
     (case chk_mul (unat height - 1) (unat stride) of
        None \<Rightarrow> None
      | Some base \<Rightarrow> chk_add base (unat width * 4))"

definition sat_mul_u32 :: "u32 \<Rightarrow> nat \<Rightarrow> nat" where
  "sat_mul_u32 w k = min (unat w * k) (2 ^ 32 - 1)"

definition decode_frame_header :: "Packet \<Rightarrow> io_error + u8 list \<times> FrameHeader \<times> nat" where
  "decode_frame_header p =
     (if packet_type p \<noteq> Frame then Inl (InvalidInput, ''packet is not a frame'') else
      rbind (take_session (payload p) 0) (\<lambda>(session_id, offset).
      rbind (take_u64 (payload p) offset) (\<lambda>(epoch, offset).
      rbind (take_u8 (payload p) offset) (\<lambda>(full, offset).
      rbind (take_u8 (payload p) offset) (\<lambda>(fmt, offset).
      rbind (if fmt = 1 then Inr Bgra8 else if fmt = 2 then Inr Rgba8
             else Inl (InvalidData, ''unknown pixel format'')) (\<lambda>format.
      rbind (take_u32 (payload p) offset) (\<lambda>(x, offset).
      rbind (take_u32 (payload p) offset) (\<lambda>(y, offset).
      rbind (take_u32 (payload p) offset) (\<lambda>(width, offset).
      rbind (take_u32 (payload p) offset) (\<lambda>(height, offset).
      rbind (take_u32 (payload p) offset) (\<lambda>(stride, offset).
      rbind (take_u32 (payload p) offset) (\<lambda>(data_len, offset).
      rbind (ok_or (InvalidData, ''frame dimensions overflow'') (frame_required width height stride)) (\<lambda>required.
      let inline_data_len = length (payload p) - offset in
      rbind (if body p = [] then Inr inline_data_len
             else if inline_data_len = 0 then Inr (length (body p))
             else Inl (InvalidData, ''frame pixels are split across inline and owned payloads'')) (\<lambda>actual_data_len.
      if width = 0 \<or> height = 0 \<or> unat stride < sat_mul_u32 width 4 \<or> unat data_len \<noteq> required \<or>
         actual_data_len \<noteq> unat data_len
      then Inl (InvalidData, ''invalid frame dimensions or payload length'')
      else Inr (session_id,
        \<lparr>fh_epoch = epoch, fh_full = (full \<noteq> 0), fh_x = x, fh_y = y, fh_width = width,
         fh_height = height, fh_stride = stride, fh_format = format\<rparr>, offset)))))))))))))))"

definition decode_frame_packet_owned :: "Packet \<Rightarrow> io_error + u8 list \<times> RemoteFrameEvent" where
  "decode_frame_packet_owned p =
     rbind (decode_frame_header p) (\<lambda>(session_id, h, offset).
     let pixels = (if body p = [] then drop offset (payload p) else body p)
     in Inr (session_id, Bitmap (fh_epoch h) (fh_full h) (fh_x h) (fh_y h) (fh_width h) (fh_height h)
          (fh_stride h) (fh_format h) pixels))"

subsection \<open>Cursors\<close>

record CursorShape =
  shape_id :: u64
  cs_width :: u32
  cs_height :: u32
  hotspot_x :: u32
  hotspot_y :: u32
  cs_pixels :: "u8 list"

datatype RemoteCursorEvent =
    Shape CursorShape
  | Position u32 u32
  | Visibility bool

definition cursor_fields :: "RemoteCursorEvent \<Rightarrow> io_error + u8 list" where
  "cursor_fields event = (case event of
     Shape s \<Rightarrow>
       if 2 ^ 32 \<le> length (cs_pixels s) then Inl (InvalidInput, ''cursor is too large'')
       else Inr ([1] @ le_bytes 8 (shape_id s) @
         concat (map (le_bytes 4) [cs_width s, cs_height s, hotspot_x s, hotspot_y s]) @
         le_bytes 4 (word_of_nat (length (cs_pixels s)) :: u32) @ cs_pixels s)
   | Position x y \<Rightarrow> Inr ([2] @ le_bytes 4 x @ le_bytes 4 y)
   | Visibility v \<Rightarrow> Inr [3, bool_byte v])"

definition encode_cursor_packet :: "u8 list \<Rightarrow> RemoteCursorEvent \<Rightarrow> io_error + Packet" where
  "encode_cursor_packet session_id event =
     rbind (put_session session_id) (\<lambda>payload.
     rbind (cursor_fields event) (\<lambda>fields.
     let payload = payload @ fields in
     if CURSOR_PAYLOAD_LIMIT < length payload then Inl (InvalidInput, ''cursor exceeds limit'')
     else Inr \<lparr>packet_type = Cursor, payload = payload, body = []\<rparr>))"

text \<open>\<open>width * height * 4\<close> in checked arithmetic.\<close>

definition cursor_expected :: "u32 \<Rightarrow> u32 \<Rightarrow> nat option" where
  "cursor_expected w h = (case chk_mul (unat w) (unat h) of None \<Rightarrow> None | Some n \<Rightarrow> chk_mul n 4)"

definition decode_shape :: "u8 list \<Rightarrow> nat \<Rightarrow> io_error + RemoteCursorEvent \<times> nat" where
  "decode_shape xs offset =
     rbind (take_u64 xs offset) (\<lambda>(sid, offset).
     rbind (take_u32 xs offset) (\<lambda>(w, offset).
     rbind (take_u32 xs offset) (\<lambda>(h, offset).
     rbind (take_u32 xs offset) (\<lambda>(hx, offset).
     rbind (take_u32 xs offset) (\<lambda>(hy, offset).
     rbind (take_u32 xs offset) (\<lambda>(data_len, offset).
     rbind (ok_or (InvalidData, ''cursor dimensions overflow'') (cursor_expected w h)) (\<lambda>expected.
     if unat data_len \<noteq> expected \<or> length xs - offset \<noteq> unat data_len
     then Inl (InvalidData, ''invalid cursor payload length'')
     else Inr (Shape \<lparr>shape_id = sid, cs_width = w, cs_height = h, hotspot_x = hx, hotspot_y = hy,
       cs_pixels = []\<rparr>, offset))))))))"

definition decode_cursor_payload :: "Packet \<Rightarrow> io_error + u8 list \<times> RemoteCursorEvent \<times> nat" where
  "decode_cursor_payload p =
     (if packet_type p \<noteq> Cursor then Inl (InvalidInput, ''packet is not a cursor'') else
      rbind (take_session (payload p) 0) (\<lambda>(session_id, offset).
      rbind (take_u8 (payload p) offset) (\<lambda>(kind, offset).
      rbind (if kind = 1 then decode_shape (payload p) offset
             else if kind = 2 then
               rbind (take_u32 (payload p) offset) (\<lambda>(x, offset).
               rbind (take_u32 (payload p) offset) (\<lambda>(y, offset). Inr (Position x y, offset)))
             else if kind = 3 then
               rbind (take_u8 (payload p) offset) (\<lambda>(v, offset). Inr (Visibility (v \<noteq> 0), offset))
             else Inl (InvalidData, ''unknown cursor event kind'')) (\<lambda>(event, offset).
      if (case event of Shape _ \<Rightarrow> False | _ \<Rightarrow> True) \<and> offset \<noteq> length (payload p)
      then Inl (InvalidData, ''trailing cursor event payload'')
      else Inr (session_id, event, offset)))))"

fun set_cursor_pixels :: "u8 list \<Rightarrow> RemoteCursorEvent \<Rightarrow> RemoteCursorEvent" where
  "set_cursor_pixels px (Shape s) = Shape (s\<lparr>cs_pixels := px\<rparr>)"
| "set_cursor_pixels px e = e"

definition decode_cursor_packet :: "Packet \<Rightarrow> io_error + u8 list \<times> RemoteCursorEvent" where
  "decode_cursor_packet p =
     rbind (decode_cursor_payload p) (\<lambda>(session_id, event, offset).
     Inr (session_id, set_cursor_pixels (drop offset (payload p)) event))"

definition decode_frame_packet :: "Packet \<Rightarrow> io_error + u8 list \<times> RemoteFrameEvent" where
  "decode_frame_packet p = decode_frame_packet_owned p"

definition decode_cursor_packet_owned :: "Packet \<Rightarrow> io_error + u8 list \<times> RemoteCursorEvent" where
  "decode_cursor_packet_owned p =
     (if body p \<noteq> [] then decode_cursor_packet p
      else rbind (decode_cursor_payload p) (\<lambda>(session_id, event, offset).
        Inr (session_id, set_cursor_pixels (drop offset (payload p)) event)))"

subsection \<open>The wire format\<close>

definition wire :: "Packet \<Rightarrow> u8 list" where
  "wire p = packet_tag (packet_type p) #
     le_bytes 4 (word_of_nat (length (payload p) + length (body p)) :: u32) @ payload p @ body p"

definition fits :: "Packet \<Rightarrow> bool" where
  "fits p \<longleftrightarrow> length (payload p) + length (body p) \<le> payload_limit (packet_type p)"

definition flat :: "Packet \<Rightarrow> Packet" where
  "flat p = \<lparr>packet_type = packet_type p, payload = payload p @ body p, body = []\<rparr>"

lemmas limit_defs = CONTROL_PAYLOAD_LIMIT_def FRAME_PAYLOAD_LIMIT_def CURSOR_PAYLOAD_LIMIT_def

lemma payload_limit_bound: "payload_limit t \<le> 167772160"
  by (cases t) (simp_all add: limit_defs)

lemma packet_type_of_tag [simp]: "packet_type_of (packet_tag t) = Inr t"
  by (cases t) (simp_all add: packet_type_of_def)

lemma write_packet_into_iff: "write_packet_into p = Inr w \<longleftrightarrow> fits p \<and> w = wire p"
  using payload_limit_bound [of "packet_type p"]
  by (auto simp: write_packet_into_def payload_len_def wire_def fits_def rbind_Inr_iff usize_max_def)

lemma le_bytes_4_Cons: "le_bytes 4 (w :: 'a::len word) = [ucast w, ucast (drop_bit 8 w), ucast (drop_bit 16 w), ucast (drop_bit 24 w)]"
  by (simp add: numeral_eq_Suc drop_bit_drop_bit)

lemma wire_header:
  assumes "fits p"
  shows "wire p ! 0 = packet_tag (packet_type p)"
    and "unat (le_val (take 4 (drop 1 (wire p @ rest))) :: u32) = length (payload p) + length (body p)"
    and "length (wire p) = 5 + (length (payload p) + length (body p))"
    and "drop 5 (wire p) = payload p @ body p"
proof -
  have "length (payload p) + length (body p) < 2 ^ 32"
    using assms payload_limit_bound [of "packet_type p"] by (simp add: fits_def)
  then show "unat (le_val (take 4 (drop 1 (wire p @ rest))) :: u32) = length (payload p) + length (body p)"
    by (simp add: wire_def unat_of_nat del: of_nat_add)
qed (simp_all add: wire_def)

subsection \<open>Blocking reads\<close>

lemma read_loop_spec:
  assumes "[] \<notin> set r"
  shows "fst (read_loop n acc r) = acc @ take (n - length acc) (concat r) \<and>
    concat (snd (read_loop n acc r)) = drop (n - length acc) (concat r) \<and>
    [] \<notin> set (snd (read_loop n acc r))"
  using assms
proof (induction n acc r rule: read_loop.induct)
  case (1 n acc r)
  show ?case
  proof (cases "n \<le> length acc")
    case True
    with "1.prems" show ?thesis by (simp add: read_loop.simps [of n acc r])
  next
    case False
    show ?thesis
    proof (cases r)
      case Nil
      with False show ?thesis by (simp add: read_loop.simps [of n acc "[]"])
    next
      case (Cons c cs)
      define k where "k = n - length acc"
      have "c \<noteq> []" "0 < k" "[] \<notin> set cs"
        using "1.prems" Cons False by (auto simp: k_def)
      then have step: "read_loop n acc r =
          read_loop n (acc @ take k c) (if length c \<le> k then cs else drop k c # cs)"
        using False Cons by (simp add: read_loop.simps [of n acc "c # cs"] k_def [symmetric])
      have ih: "fst (read_loop n (acc @ take k c) r') = (acc @ take k c) @ take (n - length (acc @ take k c)) (concat r') \<and>
          concat (snd (read_loop n (acc @ take k c) r')) = drop (n - length (acc @ take k c)) (concat r') \<and>
          [] \<notin> set (snd (read_loop n (acc @ take k c) r'))"
        if "r' = (if length c \<le> k then cs else drop k c # cs)" for r'
        using "1.IH" [OF False refl, of "take k c" r'] Cons \<open>c \<noteq> []\<close> \<open>0 < k\<close> \<open>[] \<notin> set cs\<close> that
        by (auto simp: k_def [symmetric])
      have "n - (length acc + m) = k - m" for m
        by (simp add: k_def)
      then show ?thesis
        using ih [OF refl] Cons unfolding step by (auto simp: k_def [symmetric] min_def)
    qed
  qed
qed

lemma read_packet_inner_wire:
  assumes r: "[] \<notin> set r" "concat r = wire p @ rest" and fits: "fits p"
    and room: "packet_type p \<noteq> Control \<Longrightarrow> fst b + (length (payload p) + length (body p)) \<le> snd b" "snd b \<le> usize_max"
  shows "\<exists>r' b'. read_packet_inner (Some b) r = (Inr (Some (flat p)), r', Some b') \<and>
    concat r' = rest \<and> [] \<notin> set r' \<and>
    b' = (if packet_type p = Control then b else (fst b + (length (payload p) + length (body p)), snd b))"
proof -
  let ?n = "length (payload p) + length (body p)"
  obtain h r1 where h: "read_loop 5 [] r = (h, r1)" by fastforce
  have hdr: "h = take 5 (wire p)" "concat r1 = payload p @ body p @ rest" "[] \<notin> set r1"
    using read_loop_spec [OF r(1), of 5 "[]"] r(2) wire_header(3,4) [OF fits]
    by (simp_all add: h)
  obtain c r2 where c: "read_loop ?n [] r1 = (c, r2)" by fastforce
  have body: "c = payload p @ body p" "concat r2 = rest" "[] \<notin> set r2"
    using read_loop_spec [OF hdr(3), of ?n "[]"] hdr(2) by (simp_all add: c)
  have "packet_type_of (h ! 0) = Inr (packet_type p)" "h \<noteq> []" "length h = 5"
    using wire_header(1,3) [OF fits] by (auto simp: hdr(1) wire_def)
  moreover have "unat (le_val (take 4 (drop 1 h)) :: u32) = ?n"
    using wire_header(2) [OF fits, of "[]"] wire_header(3) [OF fits] by (simp add: hdr(1) take_drop min_def)
  moreover have "reserve b ?n = Inr (fst b + ?n, snd b)" if "packet_type p \<noteq> Control"
    using room that by (auto simp: reserve_def chk_add_def)
  ultimately show ?thesis
    using fits
    by (cases "packet_type p = Control")
      (simp_all add: read_packet_inner_def Let_def h HEADER_LEN_def c body flat_def fits_def)
qed

subsection \<open>The incremental reader\<close>

lemma parse_packets_short: "length buf < 5 \<Longrightarrow> parse_packets buf = Inr ([], buf)"
  by (simp add: parse_packets.simps [of buf] HEADER_LEN_def)

definition header_len :: "u8 list \<Rightarrow> nat" where
  "header_len buf = unat (le_val (take 4 (drop 1 buf)) :: u32)"

lemma chk_add_header: "chk_add 5 (header_len buf) = Some (5 + header_len buf)"
  using unat_u32 [of "le_val (take 4 (drop 1 buf))"] by (simp add: header_len_def usize_max_def)

lemma header_append:
  assumes "5 \<le> length a"
  shows "header_len (a @ b) = header_len a" "(a @ b) ! 0 = a ! 0"
  using assms by (simp_all add: header_len_def nth_append) auto

lemma parse_packets_step:
  assumes "5 \<le> length buf"
  shows "parse_packets buf =
    (case packet_type_of (buf ! 0) of
       Inl e \<Rightarrow> Inl e
     | Inr t \<Rightarrow>
         if payload_limit t < header_len buf then Inl (InvalidData, ''helper IPC payload exceeds limit'')
         else if length buf < 5 + header_len buf then Inr ([], buf)
         else
           (case parse_packets (drop (5 + header_len buf) buf) of
              Inl e \<Rightarrow> Inl e
            | Inr (ps, rest) \<Rightarrow>
                Inr (\<lparr>packet_type = t, payload = take (header_len buf) (drop 5 buf), body = []\<rparr> # ps, rest)))"
  using assms
  unfolding parse_packets.simps [of buf] header_len_def [symmetric] Let_def HEADER_LEN_def
  by (cases "packet_type_of (buf ! 0)") (simp_all add: chk_add_header not_less split: sum.split)

lemma parse_packets_wire:
  assumes "fits p"
  shows "parse_packets (wire p @ rest) =
    (case parse_packets rest of Inl e \<Rightarrow> Inl e | Inr (ps, r) \<Rightarrow> Inr (flat p # ps, r))"
proof -
  have "(wire p @ rest) ! 0 = packet_tag (packet_type p)"
    by (simp add: wire_def)
  moreover have "take (length (payload p) + length (body p)) (drop 5 (wire p @ rest)) = payload p @ body p"
    using wire_header(3,4) [OF assms] by simp
  moreover have "drop (5 + (length (payload p) + length (body p))) (wire p @ rest) = rest"
    using wire_header(3) [OF assms] by simp
  ultimately show ?thesis
    using assms wire_header(2,3) [OF assms] parse_packets_step [of "wire p @ rest"]
    by (simp add: header_len_def flat_def fits_def split: sum.split)
qed

lemma parse_packets_split:
  "parse_packets (a @ b) = Inr (ps, rest) \<Longrightarrow>
    \<exists>p1 r1 p2. parse_packets a = Inr (p1, r1) \<and> parse_packets (r1 @ b) = Inr (p2, rest) \<and> ps = p1 @ p2"
proof (induction "length a" arbitrary: a ps rule: less_induct)
  case less
  show ?case
  proof (cases "length a < 5")
    case True
    with less.prems show ?thesis by (simp add: parse_packets_short)
  next
    case False
    then have l5: "5 \<le> length a" "5 \<le> length (a @ b)" by simp_all
    note hdr = header_append [OF l5(1), of b]
    obtain t where t: "packet_type_of (a ! 0) = Inr t" "header_len a \<le> payload_limit t"
      using less.prems unfolding parse_packets_step [OF l5(2)] hdr
      by (auto simp: not_less split: sum.split_asm if_split_asm)
    show ?thesis
    proof (cases "length a < 5 + header_len a")
      case True
      with less.prems t show ?thesis by (simp add: parse_packets_step [OF l5(1)])
    next
      case long: False
      define p where "p = \<lparr>packet_type = t, payload = take (header_len a) (drop 5 a), body = []\<rparr>"
      define a' where "a' = drop (5 + header_len a) a"
      have ab: "parse_packets (a @ b) =
          (case parse_packets (a' @ b) of Inl e \<Rightarrow> Inl e | Inr (ps, r) \<Rightarrow> Inr (p # ps, r))"
        using long t l5(1) unfolding parse_packets_step [OF l5(2)] hdr
        by (simp add: p_def a'_def split: sum.split)
      have a: "parse_packets a =
          (case parse_packets a' of Inl e \<Rightarrow> Inl e | Inr (ps, r) \<Rightarrow> Inr (p # ps, r))"
        using long t unfolding parse_packets_step [OF l5(1)]
        by (simp add: p_def a'_def split: sum.split)
      from less.prems ab obtain qs where qs: "parse_packets (a' @ b) = Inr (qs, rest)" "ps = p # qs"
        by (auto split: sum.split_asm)
      moreover have "length a' < length a"
        using l5(1) by (simp add: a'_def)
      ultimately obtain p1 r1 p2 where
        "parse_packets a' = Inr (p1, r1)" "parse_packets (r1 @ b) = Inr (p2, rest)" "qs = p1 @ p2"
        using less.hyps by blast
      then show ?thesis
        using a qs(2) by auto
    qed
  qed
qed

lemma parse_packets_rest: "parse_packets a = Inr (ps, rest) \<Longrightarrow> parse_packets rest = Inr ([], rest)"
proof (induction "length a" arbitrary: a ps rule: less_induct)
  case less
  show ?case
  proof (cases "length a < 5")
    case True
    with less.prems show ?thesis by (simp add: parse_packets_short)
  next
    case False
    then have l5: "5 \<le> length a" by simp
    show ?thesis
    proof (cases "length a < 5 + header_len a")
      case True
      with less.prems have "ps = [] \<and> rest = a"
        by (auto simp: parse_packets_step [OF l5] split: sum.split_asm if_split_asm)
      with less.prems show ?thesis by simp
    next
      case False
      with less.prems show ?thesis
        using less.hyps [of "drop (5 + header_len a) a"] l5
        by (auto simp: parse_packets_step [OF l5] split: sum.split_asm if_split_asm)
    qed
  qed
qed

text \<open>Successive pushes, stopping at the first error.\<close>

fun push_all :: "PacketReader \<Rightarrow> u8 list list \<Rightarrow> (io_error + Packet list) \<times> PacketReader" where
  "push_all s [] = (Inr [], s)"
| "push_all s (c # cs) =
     (case push s c of
        (Inl e, s') \<Rightarrow> (Inl e, s')
      | (Inr ps, s') \<Rightarrow>
          (case push_all s' cs of
             (Inl e, s'') \<Rightarrow> (Inl e, s'')
           | (Inr qs, s'') \<Rightarrow> (Inr (ps @ qs), s'')))"

lemma push_all_parse:
  assumes "parse_packets (buffer s) = Inr ([], buffer s)"
  shows "parse_packets (buffer s @ concat cs) = Inr (ps, rest) \<Longrightarrow> push_all s cs = (Inr ps, s\<lparr>buffer := rest\<rparr>)"
  using assms
proof (induction cs arbitrary: s ps)
  case (Cons c cs)
  have "parse_packets ((buffer s @ c) @ concat cs) = Inr (ps, rest)"
    using Cons.prems(1) by simp
  then obtain p1 r1 p2 where p: "parse_packets (buffer s @ c) = Inr (p1, r1)"
      "parse_packets (r1 @ concat cs) = Inr (p2, rest)" "ps = p1 @ p2"
    using parse_packets_split by blast
  then have "push_all (s\<lparr>buffer := r1\<rparr>) cs = (Inr p2, s\<lparr>buffer := rest\<rparr>)"
    using Cons.IH [of "s\<lparr>buffer := r1\<rparr>" p2] parse_packets_rest [OF p(1)] by simp
  then show ?case
    using p by (simp add: push_def)
qed simp

lemma parse_packets_wires: "list_all fits ps \<Longrightarrow> length t < 5 \<Longrightarrow> parse_packets (concat (map wire ps) @ t) = Inr (map flat ps, t)"
  by (induction ps) (simp_all add: parse_packets_short parse_packets_wire)

lemma written_wires: "map write_packet_into ps = map Inr ws \<Longrightarrow> list_all fits ps \<and> concat ws = concat (map wire ps)"
proof (induction ps arbitrary: ws)
  case (Cons p ps)
  then obtain w ws' where "ws = w # ws'" by (cases ws) auto
  with Cons show ?case by (simp add: write_packet_into_iff)
qed simp

lemma wire_length_bytes:
  assumes "fits p"
  shows "unat (wire p ! 1) + 2 ^ 8 * unat (wire p ! 2) + 2 ^ 16 * unat (wire p ! 3) + 2 ^ 24 * unat (wire p ! 4) =
    length (payload p) + length (body p)"
proof -
  have "unat (le_val (take 4 (drop 1 (wire p @ []))) :: u32) = length (payload p) + length (body p)"
    by (rule wire_header(2) [OF assms])
  moreover have "take 4 (drop 1 (wire p)) = [wire p ! 1, wire p ! 2, wire p ! 3, wire p ! 4]"
    by (simp add: wire_def le_bytes_4_Cons)
  ultimately show ?thesis by (simp add: unat_le_val)
qed

subsection \<open>Fields\<close>

text \<open>Reading a field that starts the rest of the payload consumes exactly that field.\<close>

lemma take_field_at:
  assumes "drop off xs = b @ c" "length b = n" "0 < n" "length xs \<le> usize_max"
  shows "take_field n xs off = Inr (b, off + n) \<and> drop (off + n) xs = c"
proof -
  have "length xs - off = n + length c"
    using assms(1,2) by (metis length_append length_drop)
  with assms(3) have "off + n \<le> length xs" by linarith
  moreover have "drop (off + n) xs = c"
    using assms(1,2) by (metis append_eq_conv_conj drop_drop add.commute)
  ultimately show ?thesis
    using assms by (simp add: take_field_def get_range_def chk_add_def)
qed

lemma take_u32_at:
  assumes "drop off xs = le_bytes 4 (w :: u32) @ c" "length xs \<le> usize_max"
  shows "take_u32 xs off = Inr (w, off + 4)" "drop (off + 4) xs = c"
  using take_field_at [OF assms(1) _ _ assms(2), of 4] by (simp_all add: take_u32_def)

lemma take_u64_at:
  assumes "drop off xs = le_bytes 8 (w :: u64) @ c" "length xs \<le> usize_max"
  shows "take_u64 xs off = Inr (w, off + 8)" "drop (off + 8) xs = c"
  using take_field_at [OF assms(1) _ _ assms(2), of 8] by (simp_all add: take_u64_def)

lemma take_u8_at:
  assumes "drop off xs = w # c" "length xs \<le> usize_max"
  shows "take_u8 xs off = Inr (w, off + 1)" "drop (off + 1) xs = c"
  using take_field_at [of off xs "[w]" c 1] assms by (simp_all add: take_u8_def)

lemma take_session_at:
  assumes "put_session sid = Inr pre" "xs = pre @ c" "utf8_valid sid" "length xs \<le> usize_max"
  shows "take_session xs 0 = Inr (sid, length pre)" "drop (length pre) xs = c"
proof -
  have pre: "pre = le_bytes 2 (word_of_nat (length sid) :: u16) @ sid" "length sid < 2 ^ 16"
    using assms(1) by (auto simp: put_session_def split: if_split_asm)
  then have "unat (word_of_nat (length sid) :: u16) = length sid"
    by (simp add: unat_of_nat)
  then show "take_session xs 0 = Inr (sid, length pre)"
    using take_field_at [of 0 xs "le_bytes 2 (word_of_nat (length sid) :: u16)" "sid @ c" 2] assms pre
    by (simp add: take_session_def get_range_def chk_add_def)
  show "drop (length pre) xs = c"
    using assms(2) by simp
qed

subsection \<open>Frames\<close>

text \<open>What the framebuffer relies on: a non-empty rectangle, rows no shorter than the width,
  and exactly the bytes the rows need.\<close>

fun frame_wf :: "RemoteFrameEvent \<Rightarrow> bool" where
  "frame_wf (Bitmap epoch full x y width height stride format pixels) \<longleftrightarrow>
     width \<noteq> 0 \<and> height \<noteq> 0 \<and> unat width * 4 \<le> unat stride \<and>
     length pixels = (unat height - 1) * unat stride + unat width * 4"
| "frame_wf (FrameReset _ _ _) \<longleftrightarrow> False"

lemma format_byte_cases [simp]:
  "(format_byte f = 1) = (f = Bgra8)" "(format_byte f = 2) = (f = Rgba8)"
  by (cases f; simp)+

lemma format_of_byte:
  "(if format_byte f = 1 then Inr Bgra8 else if format_byte f = 2 then Inr Rgba8 else Inl e) = Inr f"
  by (cases f) simp_all

lemmas read_simps = rbind_simps prod.case ok_or_simps format_of_byte Let_def

lemma bool_byte_0 [simp]: "(bool_byte b \<noteq> 0) = b"
  by (simp add: bool_byte_def)

definition frame_fields :: "RemoteFrameEvent \<Rightarrow> u8 list" where
  "frame_fields e = (case e of
     Bitmap epoch full x y width height stride format pixels \<Rightarrow>
       le_bytes 8 epoch @ bool_byte full # format_byte format # le_bytes 4 x @ le_bytes 4 y @
       le_bytes 4 width @ le_bytes 4 height @ le_bytes 4 stride @
       le_bytes 4 (word_of_nat (length pixels) :: u32)
   | FrameReset _ _ _ \<Rightarrow> [])"

lemma decode_frame_fields:
  assumes sid: "put_session sid = Inr pre" "utf8_valid sid"
    and e: "e = Bitmap epoch full x y width height stride format pixels" "frame_wf e" "length pixels < 2 ^ 32"
    and p: "packet_type p = Frame" "payload p = pre @ frame_fields e @ inline" "length (payload p) \<le> usize_max"
      "(inline = pixels \<and> body p = []) \<or> (inline = [] \<and> body p = pixels)"
  shows "decode_frame_packet_owned p = Inr (sid, e)"
proof -
  let ?xs = "payload p" and ?o = "length pre"
  note len = p(3)
  have f0: "drop ?o ?xs = le_bytes 8 epoch @ bool_byte full # format_byte format # le_bytes 4 x @ le_bytes 4 y @
       le_bytes 4 width @ le_bytes 4 height @ le_bytes 4 stride @
       le_bytes 4 (word_of_nat (length pixels) :: u32) @ inline"
    by (simp add: p(2) frame_fields_def e(1))
  note s1 = take_u64_at [OF f0 len]
  note s2 = take_u8_at [OF s1(2) len]
  note s3 = take_u8_at [OF s2(2) len]
  note s4 = take_u32_at [OF s3(2) len]
  note s5 = take_u32_at [OF s4(2) len]
  note s6 = take_u32_at [OF s5(2) len]
  note s7 = take_u32_at [OF s6(2) len]
  note s8 = take_u32_at [OF s7(2) len]
  note s9 = take_u32_at [OF s8(2) len]
  have u: "unat (word_of_nat (length pixels) :: u32) = length pixels"
    using e(3) by (simp add: unat_of_nat)
  have wf: "width \<noteq> 0" "height \<noteq> 0" "unat width * 4 \<le> unat stride"
      "length pixels = (unat height - 1) * unat stride + unat width * 4"
    using e(1,2) by simp_all
  then have req: "frame_required width height stride = Some (length pixels)"
    using e(3) by (simp add: frame_required_def chk_mul_def chk_add_def usize_max_def)
  have pix: "pixels \<noteq> []"
    using wf(4) unat_gt_0 [of width] wf(1) by auto
  have rest: "length ?xs - (?o + 8 + 1 + 1 + 4 + 4 + 4 + 4 + 4 + 4) = length inline"
    using arg_cong [OF s9(2), of length] by simp
  have "sat_mul_u32 width 4 \<le> unat stride"
    using wf(3) by (simp add: sat_mul_u32_def)
  then show ?thesis
    using p(1,4) pix wf(1,2) s9(2) rest
    unfolding decode_frame_packet_owned_def decode_frame_header_def
      take_session_at(1) [OF sid(1) p(2) sid(2) len] read_simps
      s1(1) s2(1) s3(1) s4(1) s5(1) s6(1) s7(1) s8(1) s9(1) req u e(1)
    by auto
qed

lemma encode_frame_packet_eq:
  assumes "put_session sid = Inr pre" "length pixels < 2 ^ 32" "e = Bitmap epoch full x y width height stride format pixels"
  shows "encode_frame_packet sid e =
      (if FRAME_PAYLOAD_LIMIT < length (pre @ frame_fields e @ pixels) then Inl (InvalidInput, ''frame exceeds limit'')
       else Inr \<lparr>packet_type = Frame, payload = pre @ frame_fields e @ pixels, body = []\<rparr>)"
    and "encode_frame_packet_owned sid e =
      (if FRAME_PAYLOAD_LIMIT < length (pre @ frame_fields e @ pixels) then Inl (InvalidInput, ''frame exceeds limit'')
       else Inr \<lparr>packet_type = Frame, payload = pre @ frame_fields e, body = pixels\<rparr>)"
  using assms by (simp_all add: frame_fields_def Let_def sat_add_def usize_max_def FRAME_PAYLOAD_LIMIT_def)

lemma put_session_cases: "length sid < 2 ^ 16 \<Longrightarrow> \<exists>pre. put_session sid = Inr pre \<and> length pre = 2 + length sid"
  by (simp add: put_session_def)

lemma rbind_assoc [simp]: "rbind (rbind r f) g = rbind r (\<lambda>x. rbind (f x) g)"
  by (cases r) simp_all

lemma decode_frame_wf:
  assumes "decode_frame_packet_owned p = Inr (sid, e)"
  shows "frame_wf e"
proof -
  obtain h off where h: "decode_frame_header p = Inr (sid, h, off)"
    and e: "e = Bitmap (fh_epoch h) (fh_full h) (fh_x h) (fh_y h) (fh_width h) (fh_height h) (fh_stride h) (fh_format h)
      (if body p = [] then drop off (payload p) else body p)"
    using assms by (auto simp: decode_frame_packet_owned_def rbind_Inr_iff)
  obtain data_len :: u32 where d:
      "fh_width h \<noteq> 0" "fh_height h \<noteq> 0" "sat_mul_u32 (fh_width h) 4 \<le> unat (fh_stride h)"
      "frame_required (fh_width h) (fh_height h) (fh_stride h) = Some (unat data_len)"
      "(if body p = [] then length (payload p) - off else length (body p)) = unat data_len"
    using h unfolding decode_frame_header_def
    by (auto simp: rbind_Inr_iff Let_def split: if_split_asm)
  have req: "unat data_len = (unat (fh_height h) - 1) * unat (fh_stride h) + unat (fh_width h) * 4"
    using d(4) by (auto simp: frame_required_def split: option.split_asm)
  moreover have "unat (fh_width h) * 4 \<le> unat (fh_stride h)"
    using d(3) req unat_u32 [of data_len] by (simp add: sat_mul_u32_def min_def split: if_split_asm)
  ultimately show ?thesis
    using d(1,2,5) by (simp add: e split: if_split_asm)
qed

subsection \<open>Cursors\<close>

fun cursor_wf :: "RemoteCursorEvent \<Rightarrow> bool" where
  "cursor_wf (Shape s) \<longleftrightarrow> length (cs_pixels s) = unat (cs_width s) * unat (cs_height s) * 4"
| "cursor_wf _ \<longleftrightarrow> True"

lemma decode_cursor_fields:
  assumes sid: "put_session sid = Inr pre" "utf8_valid sid"
    and e: "cursor_fields e = Inr flds" "cursor_wf e"
    and p: "packet_type p = Cursor" "payload p = pre @ flds" "length (payload p) \<le> usize_max"
  shows "decode_cursor_packet p = Inr (sid, e)"
proof -
  let ?xs = "payload p" and ?o = "length pre"
  note len = p(3)
  have f0: "drop ?o ?xs = flds"
    by (simp add: p(2))
  note start = take_session_at(1) [OF sid(1) p(2) sid(2) len]
  show ?thesis
  proof (cases e)
    case (Shape s)
    have flds: "flds = 1 # le_bytes 8 (shape_id s) @ le_bytes 4 (cs_width s) @ le_bytes 4 (cs_height s) @
        le_bytes 4 (hotspot_x s) @ le_bytes 4 (hotspot_y s) @
        le_bytes 4 (word_of_nat (length (cs_pixels s)) :: u32) @ cs_pixels s"
      and n: "length (cs_pixels s) < 2 ^ 32"
      using e(1) Shape by (auto simp: cursor_fields_def split: if_split_asm)
    note s0 = take_u8_at [OF f0 [unfolded flds] len]
    note s1 = take_u64_at [OF s0(2) len]
    note s2 = take_u32_at [OF s1(2) len]
    note s3 = take_u32_at [OF s2(2) len]
    note s4 = take_u32_at [OF s3(2) len]
    note s5 = take_u32_at [OF s4(2) len]
    note s6 = take_u32_at [OF s5(2) len]
    have "unat (word_of_nat (length (cs_pixels s)) :: u32) = length (cs_pixels s)"
      using n by (simp add: unat_of_nat)
    moreover have "cursor_expected (cs_width s) (cs_height s) = Some (length (cs_pixels s))"
      using n e(2) Shape by (simp add: cursor_expected_def chk_mul_def usize_max_def ac_simps)
    moreover have "length ?xs - (?o + 1 + 8 + 4 + 4 + 4 + 4 + 4) = length (cs_pixels s)"
      using arg_cong [OF s6(2), of length] by simp
    ultimately have "decode_shape ?xs (?o + 1) =
        Inr (Shape (s\<lparr>cs_pixels := []\<rparr>), ?o + 1 + 8 + 4 + 4 + 4 + 4 + 4)"
      unfolding decode_shape_def read_simps s1(1) s2(1) s3(1) s4(1) s5(1) s6(1) by simp
    then show ?thesis
      using p(1) s6(2) unfolding decode_cursor_packet_def decode_cursor_payload_def start read_simps s0(1)
      by (simp add: Shape)
  next
    case (Position x y)
    then have flds: "flds = 2 # le_bytes 4 x @ le_bytes 4 y @ []"
      using e(1) by (simp add: cursor_fields_def)
    note s0 = take_u8_at [OF f0 [unfolded flds] len]
    note s1 = take_u32_at [OF s0(2) len]
    note s2 = take_u32_at [OF s1(2) len]
    have "length ?xs = ?o + 1 + 4 + 4"
      by (simp add: p(2) flds)
    then show ?thesis
      using p(1) unfolding decode_cursor_packet_def decode_cursor_payload_def start read_simps s0(1)
        s1(1) s2(1)
      by (simp add: Position)
  next
    case (Visibility v)
    then have flds: "flds = [3, bool_byte v]"
      using e(1) by (simp add: cursor_fields_def)
    note s0 = take_u8_at [OF f0 [unfolded flds] len]
    note s1 = take_u8_at [OF s0(2) len]
    have "length ?xs = ?o + 1 + 1"
      by (simp add: p(2) flds)
    then show ?thesis
      using p(1) unfolding decode_cursor_packet_def decode_cursor_payload_def start read_simps s0(1)
        s1(1)
      by (simp add: Visibility)
  qed
qed

subsection \<open>Properties\<close>

text \<open>(C5) Framing. What \<open>write_packet_into\<close> puts on the pipe for a list of packets, cut into
  arbitrary chunks and followed by at most an incomplete header, comes out of the incremental
  reader complete and in order, each packet with its header and body joined into the payload;
  no push fails and the incomplete header stays behind. The writer accepts exactly the packets
  within the limit of their type, and its bytes are the tag, the length in little-endian order
  and the payload.\<close>

theorem packet_stream_roundtrip:
  assumes "map write_packet_into ps = map Inr ws" "concat cs = concat ws @ t" "length t < 5"
  shows "push_all \<lparr>buffer = []\<rparr> cs = (Inr (map flat ps), \<lparr>buffer = t\<rparr>) \<and>
    ((\<exists>w. write_packet_into p = Inr w) \<longleftrightarrow> length (payload p) + length (body p) \<le> payload_limit (packet_type p)) \<and>
    (\<forall>w. write_packet_into p = Inr w \<longrightarrow>
       packet_type_of (w ! 0) = Inr (packet_type p) \<and> drop 5 w = payload p @ body p \<and>
       unat (w ! 1) + 2 ^ 8 * unat (w ! 2) + 2 ^ 16 * unat (w ! 3) + 2 ^ 24 * unat (w ! 4) =
         length (payload p) + length (body p))"
proof (intro conjI allI impI)
  show "push_all \<lparr>buffer = []\<rparr> cs = (Inr (map flat ps), \<lparr>buffer = t\<rparr>)"
    using push_all_parse [of "\<lparr>buffer = []\<rparr>" cs "map flat ps" t] parse_packets_wires [of ps t]
      written_wires [OF assms(1)] assms(2,3)
    by (simp add: parse_packets_short)
  show "(\<exists>w. write_packet_into p = Inr w) \<longleftrightarrow> length (payload p) + length (body p) \<le> payload_limit (packet_type p)"
    by (simp add: write_packet_into_iff fits_def)
  fix w
  assume "write_packet_into p = Inr w"
  then have w: "fits p" "w = wire p" by (simp_all add: write_packet_into_iff)
  show "packet_type_of (w ! 0) = Inr (packet_type p)" "drop 5 w = payload p @ body p"
    using wire_header(1,4) [OF w(1)] w(2) by simp_all
  show "unat (w ! 1) + 2 ^ 8 * unat (w ! 2) + 2 ^ 16 * unat (w ! 3) + 2 ^ 24 * unat (w ! 4) =
      length (payload p) + length (body p)"
    using w wire_length_bytes by blast
qed

theorem packet_stream_roundtrip_witness:
  "push_all \<lparr>buffer = []\<rparr> [[1, 2, 0], [0, 0, 7], [9, 3]] =
    (Inr [\<lparr>packet_type = Control, payload = [7, 9], body = []\<rparr>], \<lparr>buffer = [3]\<rparr>)"
  using packet_stream_roundtrip [of "[\<lparr>packet_type = Control, payload = [7], body = [9]\<rparr>]" "[[1, 2, 0, 0, 0, 7, 9]]"
      "[[1, 2, 0], [0, 0, 7], [9, 3]]" "[3]"]
  by (simp add: write_packet_into_iff fits_def wire_def flat_def limit_defs le_bytes_4_Cons)

text \<open>Blocking reads. A packet accepted by \<open>write_packet_into\<close> is read back by
  \<open>read_packet_inner\<close> from a stream that delivers its bytes in any non-empty pieces, the
  reader stops at the first byte after it, and the pixel budget grows by exactly the payload
  of a frame or cursor packet.\<close>

theorem packet_read_back:
  assumes "write_packet_into p = Inr w" "[] \<notin> set r" "concat r = w @ rest"
    "fst b + (length (payload p) + length (body p)) \<le> snd b" "snd b \<le> usize_max"
  shows "\<exists>r' b'. read_packet_inner (Some b) r = (Inr (Some (flat p)), r', Some b') \<and> concat r' = rest \<and>
    b' = (if packet_type p = Control then b else (fst b + (length (payload p) + length (body p)), snd b))"
  using assms read_packet_inner_wire [of r p rest b] by (auto simp: write_packet_into_iff)

theorem packet_read_back_witness:
  "\<exists>r' b'. read_packet_inner (Some (0, 100)) [[2, 1], [0, 0, 0, 5, 6]] =
      (Inr (Some \<lparr>packet_type = Frame, payload = [5], body = []\<rparr>), r', Some b') \<and> concat r' = [6] \<and> b' = (1, 100)"
  using packet_read_back [of "\<lparr>packet_type = Frame, payload = [5], body = []\<rparr>" "[2, 1, 0, 0, 0, 5]"
      "[[2, 1], [0, 0, 0, 5, 6]]" "[6]" "(0, 100)"]
  by (simp add: write_packet_into_iff fits_def wire_def flat_def limit_defs le_bytes_4_Cons usize_max_def)

text \<open>Frames. A well-formed bitmap that fits the frame limit is decoded to the same session and
  event, by the copying encoder and by the one that hands over its pixel buffer, and both
  put the same bytes on the wire.\<close>

theorem frame_packet_roundtrip:
  assumes "utf8_valid sid" "length sid < 2 ^ 16" "frame_wf (Bitmap epoch full x y w h stride format pixels)"
    "length sid + length pixels + 36 \<le> FRAME_PAYLOAD_LIMIT"
  shows "\<exists>p q. encode_frame_packet sid (Bitmap epoch full x y w h stride format pixels) = Inr p \<and>
    encode_frame_packet_owned sid (Bitmap epoch full x y w h stride format pixels) = Inr q \<and>
    decode_frame_packet p = Inr (sid, Bitmap epoch full x y w h stride format pixels) \<and>
    decode_frame_packet_owned q = Inr (sid, Bitmap epoch full x y w h stride format pixels) \<and>
    write_packet_into p = write_packet_into q \<and> fits p"
proof -
  let ?e = "Bitmap epoch full x y w h stride format pixels"
  obtain pre where pre: "put_session sid = Inr pre" "length pre = 2 + length sid"
    using put_session_cases [OF assms(2)] by blast
  have f: "length (frame_fields ?e) = 34"
    by (simp add: frame_fields_def)
  have n: "length pixels < 2 ^ 32"
    using assms(4) by (simp add: FRAME_PAYLOAD_LIMIT_def)
  define p where "p = \<lparr>packet_type = Frame, payload = pre @ frame_fields ?e @ pixels, body = []\<rparr>"
  define q where "q = \<lparr>packet_type = Frame, payload = pre @ frame_fields ?e, body = pixels\<rparr>"
  have "encode_frame_packet sid ?e = Inr p" "encode_frame_packet_owned sid ?e = Inr q"
    using encode_frame_packet_eq [OF pre(1) n refl] assms(4) pre(2) f by (simp_all add: p_def q_def)
  moreover have "decode_frame_packet_owned p = Inr (sid, ?e)"
    using assms(4) f pre(2)
    by (intro decode_frame_fields [OF pre(1) assms(1) refl assms(3) n])
      (auto simp: p_def FRAME_PAYLOAD_LIMIT_def usize_max_def)
  moreover have "decode_frame_packet_owned q = Inr (sid, ?e)"
    using assms(4) f pre(2)
    by (intro decode_frame_fields [OF pre(1) assms(1) refl assms(3) n, of _ "[]"])
      (auto simp: q_def FRAME_PAYLOAD_LIMIT_def usize_max_def)
  moreover have fits: "fits p" "fits q"
    using assms(4) f pre(2) by (simp_all add: p_def q_def fits_def)
  moreover have "wire p = wire q"
    by (simp add: wire_def p_def q_def add.assoc)
  with fits have "write_packet_into p = Inr (wire p)" "write_packet_into q = Inr (wire p)"
    by (simp_all add: write_packet_into_iff)
  ultimately show ?thesis
    by (auto simp: decode_frame_packet_def)
qed

theorem frame_packet_roundtrip_witness:
  "\<exists>p q. encode_frame_packet [] (Bitmap 1 True 0 0 1 1 4 Rgba8 [1, 2, 3, 4]) = Inr p \<and>
    encode_frame_packet_owned [] (Bitmap 1 True 0 0 1 1 4 Rgba8 [1, 2, 3, 4]) = Inr q \<and>
    decode_frame_packet p = Inr ([], Bitmap 1 True 0 0 1 1 4 Rgba8 [1, 2, 3, 4]) \<and>
    decode_frame_packet_owned q = Inr ([], Bitmap 1 True 0 0 1 1 4 Rgba8 [1, 2, 3, 4]) \<and>
    write_packet_into p = write_packet_into q \<and> fits p"
  by (rule frame_packet_roundtrip) (simp_all add: FRAME_PAYLOAD_LIMIT_def utf8_valid.simps)

text \<open>Cursors. Every cursor event with a matching pixel count that fits the cursor limit is
  decoded to the same session and event, by both decoders.\<close>

theorem cursor_packet_roundtrip:
  assumes "utf8_valid sid" "cursor_wf e" "encode_cursor_packet sid e = Inr p"
  shows "decode_cursor_packet p = Inr (sid, e) \<and> decode_cursor_packet_owned p = Inr (sid, e)"
proof -
  obtain pre flds where *: "put_session sid = Inr pre" "cursor_fields e = Inr flds"
      "p = \<lparr>packet_type = Cursor, payload = pre @ flds, body = []\<rparr>" "length (pre @ flds) \<le> CURSOR_PAYLOAD_LIMIT"
    using assms(3) by (auto simp: encode_cursor_packet_def rbind_Inr_iff Let_def split: if_split_asm)
  then have "decode_cursor_packet p = Inr (sid, e)"
    by (intro decode_cursor_fields [OF *(1) assms(1) *(2) assms(2)])
      (simp_all add: CURSOR_PAYLOAD_LIMIT_def usize_max_def)
  then show ?thesis
    by (simp add: decode_cursor_packet_owned_def decode_cursor_packet_def)
qed

theorem cursor_packet_roundtrip_witness:
  "\<exists>p. encode_cursor_packet [] (Position 3 4) = Inr p \<and> decode_cursor_packet p = Inr ([], Position 3 4)"
proof -
  obtain p where "encode_cursor_packet [] (Position 3 4) = Inr p"
    by (auto simp: encode_cursor_packet_def put_session_def cursor_fields_def CURSOR_PAYLOAD_LIMIT_def)
  then show ?thesis
    using cursor_packet_roundtrip [of "[]" "Position 3 4" p] by (simp add: utf8_valid.simps)
qed

end
