(* ===== verification/Remote_Frame.thy ===== *)
theory Remote_Frame
  imports Remote_Ipc
begin

text \<open>
  The framebuffer of the remote desktop client (\<open>crates/nyaterm-remote-desktop/src/frame.rs\<close>):
  dimension limits, applying bitmap updates with and without channel conversion, merging of
  dirty rectangles and batching of frame events. A slice index out of range is a panic, the
  value \<open>None\<close>. Whether memory can be reserved is a parameter.
\<close>

subsection \<open>Batches\<close>

fun frame_cost :: "RemoteFrameEvent \<Rightarrow> nat" where
  "frame_cost (Bitmap _ _ _ _ _ _ _ _ pixels) = length pixels"
| "frame_cost (FrameReset _ _ _) = 0"

fun frame_batch_loop :: "nat \<Rightarrow> nat \<Rightarrow> RemoteFrameEvent list \<Rightarrow> nat" where
  "frame_batch_loop bytes count [] = count"
| "frame_batch_loop bytes count (f # fs) =
     (if 0 < count \<and> 8 * 1024 * 1024 < sat_add bytes (frame_cost f) then count
      else frame_batch_loop (sat_add bytes (frame_cost f)) (count + 1) fs)"

definition frame_batch_len :: "RemoteFrameEvent list \<Rightarrow> nat" where
  "frame_batch_len frames = frame_batch_loop 0 0 (take 8 frames)"

subsection \<open>Dimensions\<close>

record FramebufferLimits =
  max_width :: u32
  max_height :: u32
  max_bytes :: nat

definition RDP_FRAMEBUFFER_LIMITS :: FramebufferLimits where
  "RDP_FRAMEBUFFER_LIMITS = \<lparr>max_width = 8192, max_height = 8192, max_bytes = 256 * 1024 * 1024\<rparr>"

definition VNC_FRAMEBUFFER_LIMITS :: FramebufferLimits where
  "VNC_FRAMEBUFFER_LIMITS = \<lparr>max_width = 7680, max_height = 4320, max_bytes = 128 * 1024 * 1024\<rparr>"

datatype FramebufferError =
    StaleEpoch u64 u64
  | OutOfBounds
  | InvalidPayload
  | SizeOverflow
  | DimensionsTooLarge u32 u32
  | AllocationFailed nat

definition validate_framebuffer_dimensions :: "u32 \<Rightarrow> u32 \<Rightarrow> FramebufferLimits \<Rightarrow> FramebufferError + nat" where
  "validate_framebuffer_dimensions width height limits =
     (if width = 0 \<or> height = 0 \<or> max_width limits < width \<or> max_height limits < height
      then Inl (DimensionsTooLarge width height)
      else
        rbind (ok_or SizeOverflow
          (case chk_mul (unat width) (unat height) of None \<Rightarrow> None | Some n \<Rightarrow> chk_mul n 4)) (\<lambda>len.
        if max_bytes limits < len then Inl (DimensionsTooLarge width height) else Inr len))"

subsection \<open>Dirty rectangles\<close>

record DirtyRect =
  dr_x :: u32
  dr_y :: u32
  dr_width :: u32
  dr_height :: u32

definition sat_add_u32 :: "u32 \<Rightarrow> u32 \<Rightarrow> u32" where
  "sat_add_u32 a b = (if unat a + unat b < 2 ^ 32 then a + b else 0xFFFFFFFF)"

definition dr_right :: "DirtyRect \<Rightarrow> u32" where
  "dr_right r = sat_add_u32 (dr_x r) (dr_width r)"

definition dr_bottom :: "DirtyRect \<Rightarrow> u32" where
  "dr_bottom r = sat_add_u32 (dr_y r) (dr_height r)"

definition intersects_or_touches :: "DirtyRect \<Rightarrow> DirtyRect \<Rightarrow> bool" where
  "intersects_or_touches a b \<longleftrightarrow>
     dr_x a \<le> dr_right b \<and> dr_x b \<le> dr_right a \<and> dr_y a \<le> dr_bottom b \<and> dr_y b \<le> dr_bottom a"

definition dr_union :: "DirtyRect \<Rightarrow> DirtyRect \<Rightarrow> DirtyRect" where
  "dr_union a b =
     (let x = min (dr_x a) (dr_x b); y = min (dr_y a) (dr_y b);
          right = max (dr_right a) (dr_right b); bottom = max (dr_bottom a) (dr_bottom b)
      in \<lparr>dr_x = x, dr_y = y, dr_width = right - x, dr_height = bottom - y\<rparr>)"

text \<open>\<open>Vec::swap_remove\<close>: the last element takes the place of the removed one.\<close>

definition swap_remove :: "nat \<Rightarrow> 'a list \<Rightarrow> 'a list" where
  "swap_remove i xs = (if i = length xs - 1 then butlast xs else (butlast xs)[i := last xs])"

function absorb :: "DirtyRect \<Rightarrow> DirtyRect list \<Rightarrow> nat \<Rightarrow> DirtyRect \<times> DirtyRect list" where
  "absorb rect merged index =
     (if index < length merged then
        (if intersects_or_touches rect (merged ! index)
         then absorb (dr_union rect (merged ! index)) (swap_remove index merged) 0
         else absorb rect merged (index + 1))
      else (rect, merged))"
  by pat_completeness auto
termination
  by (relation "measures [\<lambda>(_, m, _). length m, \<lambda>(_, m, i). length m - i]")
    (auto simp: swap_remove_def)

declare absorb.simps [simp del]

fun merge_loop :: "DirtyRect list \<Rightarrow> DirtyRect list \<Rightarrow> DirtyRect list" where
  "merge_loop merged [] = merged"
| "merge_loop merged (r # rs) =
     (let (rect, merged') = absorb r merged 0 in merge_loop (merged' @ [rect]) rs)"

definition merge_dirty_rects :: "DirtyRect list \<Rightarrow> DirtyRect list" where
  "merge_dirty_rects rects = merge_loop [] rects"

subsection \<open>The framebuffer\<close>

record Framebuffer =
  fb_width :: u32
  fb_height :: u32
  fb_epoch :: u64
  bgra :: "u8 list"

text \<open>\<open>can_alloc len\<close>: the pixel budget grants \<open>len\<close> bytes and the allocation succeeds.\<close>

definition framebuffer_new ::
  "(nat \<Rightarrow> bool) \<Rightarrow> u64 \<Rightarrow> u32 \<Rightarrow> u32 \<Rightarrow> FramebufferLimits \<Rightarrow> FramebufferError + Framebuffer" where
  "framebuffer_new can_alloc epoch width height limits =
     rbind (validate_framebuffer_dimensions width height limits) (\<lambda>len.
     if \<not> can_alloc len then Inl (AllocationFailed len)
     else Inr \<lparr>fb_width = width, fb_height = height, fb_epoch = epoch, bgra = replicate len 0\<rparr>)"

definition framebuffer_reset ::
  "(nat \<Rightarrow> bool) \<Rightarrow> Framebuffer \<Rightarrow> u64 \<Rightarrow> u32 \<Rightarrow> u32 \<Rightarrow> FramebufferLimits \<Rightarrow>
    (FramebufferError + unit) \<times> Framebuffer" where
  "framebuffer_reset can_alloc fb epoch width height limits =
     (case framebuffer_new can_alloc epoch width height limits of
        Inl e \<Rightarrow> (Inl e, fb)
      | Inr fb' \<Rightarrow> (Inr (), fb'))"

text \<open>\<open>buf[off..off + src.len()].copy_from_slice(src)\<close> and \<open>&buf[off..off + n]\<close>.\<close>

definition copy_into :: "u8 list \<Rightarrow> nat \<Rightarrow> u8 list \<Rightarrow> u8 list option" where
  "copy_into buf off src =
     (if off + length src \<le> length buf then Some (take off buf @ src @ drop (off + length src) buf) else None)"

definition slice :: "u8 list \<Rightarrow> nat \<Rightarrow> nat \<Rightarrow> u8 list option" where
  "slice xs off n = (if off + n \<le> length xs then Some (take n (drop off xs)) else None)"

text \<open>The channel swap of \<open>Rgba8\<close> on the four-byte groups; the bytes after the last whole
  group of the destination stay.\<close>

fun swap_rb :: "u8 list \<Rightarrow> u8 list \<Rightarrow> u8 list" where
  "swap_rb (r # g # b # a # src) (_ # _ # _ # _ # dst) = b # g # r # a # swap_rb src dst"
| "swap_rb _ dst = dst"

fun convert_row :: "PixelFormat \<Rightarrow> u8 list \<Rightarrow> u8 list \<Rightarrow> u8 list" where
  "convert_row Bgra8 src dst = src"
| "convert_row Rgba8 src dst = swap_rb src dst"

text \<open>The row loop with \<open>n\<close> rows left, from row \<open>row\<close>.\<close>

fun copy_rows :: "PixelFormat \<Rightarrow> u8 list \<Rightarrow> nat \<Rightarrow> nat \<Rightarrow> nat \<Rightarrow> nat \<Rightarrow> nat \<Rightarrow> nat \<Rightarrow> nat \<Rightarrow> u8 list \<Rightarrow> u8 list option" where
  "copy_rows format pixels source_stride row_bytes destination_stride x y row 0 buf = Some buf"
| "copy_rows format pixels source_stride row_bytes destination_stride x y row (Suc n) buf =
     (case slice pixels (row * source_stride) row_bytes of
        None \<Rightarrow> None
      | Some source \<Rightarrow>
          (let off = (y + row) * destination_stride + x * 4
           in case slice buf off row_bytes of
                None \<Rightarrow> None
              | Some destination \<Rightarrow>
                  (case copy_into buf off (convert_row format source destination) of
                     None \<Rightarrow> None
                   | Some buf' \<Rightarrow>
                       copy_rows format pixels source_stride row_bytes destination_stride x y (row + 1) n buf')))"

definition chk_add_u32 :: "u32 \<Rightarrow> u32 \<Rightarrow> u32 option" where
  "chk_add_u32 a b = (if unat a + unat b < 2 ^ 32 then Some (a + b) else None)"

fun fb_apply :: "Framebuffer \<Rightarrow> RemoteFrameEvent \<Rightarrow>
    ((FramebufferError + DirtyRect option) \<times> Framebuffer) option" where
  "fb_apply fb (FrameReset _ _ _) = Some (Inr None, fb)"
| "fb_apply fb (Bitmap epoch _ x y width height stride format pixels) =
     (if epoch \<noteq> fb_epoch fb then Some (Inl (StaleEpoch (fb_epoch fb) epoch), fb)
      else if width = 0 \<or> height = 0 \<or>
        (case chk_add_u32 x width of None \<Rightarrow> True | Some right \<Rightarrow> fb_width fb < right) \<or>
        (case chk_add_u32 y height of None \<Rightarrow> True | Some bottom \<Rightarrow> fb_height fb < bottom)
      then Some (Inl OutOfBounds, fb)
      else
        let row_bytes = unat width * 4; source_stride = unat stride
        in if source_stride < row_bytes then Some (Inl InvalidPayload, fb)
           else
             (case frame_required width height stride of
                None \<Rightarrow> Some (Inl InvalidPayload, fb)
              | Some required \<Rightarrow>
                  if length pixels \<noteq> required then Some (Inl InvalidPayload, fb)
                  else
                    let destination_stride = unat (fb_width fb) * 4
                    in case (if format = Bgra8 \<and> source_stride = destination_stride \<and> row_bytes = destination_stride
                             then copy_into (bgra fb) (unat y * destination_stride) (take required pixels)
                             else copy_rows format pixels source_stride row_bytes destination_stride
                               (unat x) (unat y) 0 (unat height) (bgra fb)) of
                         None \<Rightarrow> None
                       | Some buf \<Rightarrow>
                           Some (Inr (Some \<lparr>dr_x = x, dr_y = y, dr_width = width, dr_height = height\<rparr>),
                             fb\<lparr>bgra := buf\<rparr>)))"

subsection \<open>Copying rows\<close>

text \<open>The byte of a source row that ends up at byte \<open>c\<close> of the destination row.\<close>

fun channel :: "PixelFormat \<Rightarrow> nat \<Rightarrow> nat" where
  "channel Bgra8 c = c"
| "channel Rgba8 c = (if c mod 4 = 0 then c + 2 else if c mod 4 = 2 then c - 2 else c)"

lemma nth_drop4: "(a # b # c # d # xs) ! (n + 4) = xs ! n"
  by (simp add: numeral_eq_Suc)

lemma swap_rb_nth:
  "length src = length dst \<Longrightarrow> 4 dvd length src \<Longrightarrow>
    length (swap_rb src dst) = length dst \<and> (c < length src \<longrightarrow> swap_rb src dst ! c = src ! channel Rgba8 c)"
proof (induction src dst arbitrary: c rule: swap_rb.induct)
  case (1 r g b a src d1 d2 d3 d4 dst)
  have "4 dvd length src + 4"
    using "1.prems"(2) by (simp add: numeral_eq_Suc)
  then have d: "4 dvd length src"
    by simp
  have IH: "length (swap_rb src dst) = length dst"
      "c - 4 < length src \<Longrightarrow> swap_rb src dst ! (c - 4) = src ! channel Rgba8 (c - 4)"
    using "1.IH" [of "c - 4"] "1.prems"(1) d by simp_all
  show ?case
  proof (cases "c < 4")
    case True
    then consider "c = 0" | "c = 1" | "c = 2" | "c = 3" by linarith
    then show ?thesis using IH(1) by cases simp_all
  next
    case False
    then obtain e where e: "c = e + 4" using le_Suc_ex [of 4 c] by (auto simp: add.commute)
    have "channel Rgba8 (e + 4) = channel Rgba8 e + 4"
      by simp
    then show ?thesis
      using IH e nth_drop4 [where n = "channel Rgba8 e"] by (simp add: nth_drop4 del: channel.simps)
  qed
qed (auto dest!: dvd_imp_le)

lemma convert_row_nth:
  assumes "length src = length dst" "4 dvd length src"
  shows "length (convert_row f src dst) = length src"
    and "c < length src \<Longrightarrow> convert_row f src dst ! c = src ! channel f c"
  using assms swap_rb_nth [OF assms] by (cases f; simp)+

lemma channel_less: "4 dvd n \<Longrightarrow> c < n \<Longrightarrow> channel f c < n"
proof (cases f)
  case Rgba8
  moreover assume "4 dvd n" "c < n"
  moreover from this have "c mod 4 = 0 \<Longrightarrow> c + 2 < n"
    by presburger
  ultimately show ?thesis by auto
qed simp

lemma row_index:
  fixes D :: nat
  assumes "c0 + rb \<le> D" "0 < D"
  shows "r * D + c0 \<le> k \<and> k < r * D + c0 + rb \<longleftrightarrow> k div D = r \<and> c0 \<le> k mod D \<and> k mod D < c0 + rb"
proof
  assume k: "r * D + c0 \<le> k \<and> k < r * D + c0 + rb"
  then obtain j where j: "k = r * D + j" "c0 \<le> j" "j < c0 + rb"
    by (metis add.commute add_le_cancel_right le_Suc_ex nat_add_left_cancel_less add.assoc le_add1 le_trans)
  with assms show "k div D = r \<and> c0 \<le> k mod D \<and> k mod D < c0 + rb" by simp
next
  assume "k div D = r \<and> c0 \<le> k mod D \<and> k mod D < c0 + rb"
  then show "r * D + c0 \<le> k \<and> k < r * D + c0 + rb"
    using div_mult_mod_eq [of k D] by (metis add.assoc add_less_cancel_left nat_add_left_cancel_le)
qed

lemma copy_into_nth:
  assumes "off + length src \<le> length buf"
  shows "\<exists>buf'. copy_into buf off src = Some buf' \<and> length buf' = length buf \<and>
    (\<forall>k. buf' ! k = (if off \<le> k \<and> k < off + length src then src ! (k - off) else buf ! k))"
  using assms by (auto simp: copy_into_def nth_append)

lemma copy_rows_nth:
  assumes D: "x * 4 + rb \<le> D" "0 < D" "4 dvd rb" "rb \<le> stride"
  shows "length buf = H * D \<Longrightarrow> y + row + n \<le> H \<Longrightarrow> (0 < n \<longrightarrow> (row + n - 1) * stride + rb \<le> length pixels) \<Longrightarrow>
    \<exists>buf'. copy_rows f pixels stride rb D x y row n buf = Some buf' \<and> length buf' = length buf \<and>
      (\<forall>k. buf' ! k =
        (if y + row \<le> k div D \<and> k div D < y + row + n \<and> x * 4 \<le> k mod D \<and> k mod D < x * 4 + rb
         then pixels ! ((k div D - y) * stride + channel f (k mod D - x * 4)) else buf ! k))"
proof (induction n arbitrary: row buf)
  case (Suc n)
  let ?off = "(y + row) * D + x * 4"
  have "(y + row + 1) * D \<le> H * D"
    using Suc.prems(2) by (intro mult_le_mono1) simp
  then have dst: "?off + rb \<le> length buf"
    using D(1) Suc.prems(1) by (simp add: algebra_simps)
  have "(row + n) * stride + rb \<le> length pixels"
    using Suc.prems(3) by simp
  moreover have "row * stride + rb \<le> (row + n) * stride + rb"
    by (intro add_le_mono1 mult_le_mono1) simp
  ultimately have src: "row * stride + rb \<le> length pixels"
    by (rule le_trans [rotated])
  define source where "source = take rb (drop (row * stride) pixels)"
  define out where "out = convert_row f source (take rb (drop ?off buf))"
  have ls: "length source = rb"
    using src by (simp add: source_def)
  then have lo: "length out = rb" and out: "\<And>c. c < rb \<Longrightarrow> out ! c = pixels ! (row * stride + channel f c)"
    using convert_row_nth [where src = source and dst = "take rb (drop ?off buf)" and f = f] dst D(3) channel_less [OF D(3)] src
    by (auto simp: out_def source_def)
  obtain buf1 where buf1: "copy_into buf ?off out = Some buf1" "length buf1 = length buf"
      "\<And>k. buf1 ! k = (if ?off \<le> k \<and> k < ?off + rb then out ! (k - ?off) else buf ! k)"
    using copy_into_nth [of ?off out buf] dst lo by auto
  have "0 < n \<longrightarrow> (row + 1 + n - 1) * stride + rb \<le> length pixels"
    using Suc.prems(3) by simp
  then obtain buf2 where buf2: "copy_rows f pixels stride rb D x y (row + 1) n buf1 = Some buf2"
      "length buf2 = length buf1"
      "\<And>k. buf2 ! k =
        (if y + (row + 1) \<le> k div D \<and> k div D < y + (row + 1) + n \<and> x * 4 \<le> k mod D \<and> k mod D < x * 4 + rb
         then pixels ! ((k div D - y) * stride + channel f (k mod D - x * 4)) else buf1 ! k)"
    using Suc.IH [of buf1 "row + 1"] Suc.prems buf1(2) by auto
  have step: "copy_rows f pixels stride rb D x y row (Suc n) buf = Some buf2"
    using src dst buf1(1) buf2(1) by (simp add: slice_def out_def source_def Let_def)
  have "buf2 ! k =
        (if y + row \<le> k div D \<and> k div D < y + row + Suc n \<and> x * 4 \<le> k mod D \<and> k mod D < x * 4 + rb
         then pixels ! ((k div D - y) * stride + channel f (k mod D - x * 4)) else buf ! k)" for k
  proof (cases "k div D = y + row \<and> x * 4 \<le> k mod D \<and> k mod D < x * 4 + rb")
    case True
    then have in_row: "?off \<le> k \<and> k < ?off + rb"
      using row_index [OF D(1,2), of "y + row" k] by simp
    moreover have "k - ?off = k mod D - x * 4"
      using True div_mult_mod_eq [of k D] by simp
    moreover have "k mod D - x * 4 < rb"
      using True by linarith
    ultimately show ?thesis
      using True out [of "k mod D - x * 4"] by (simp add: buf2(3) buf1(3))
  next
    case False
    then have "\<not> (?off \<le> k \<and> k < ?off + rb)"
      using row_index [OF D(1,2), of "y + row" k] by simp
    then have "buf1 ! k = buf ! k"
      unfolding buf1(3) by (rule if_not_P)
    then show ?thesis
      using False unfolding buf2(3) by auto
  qed
  then show ?case
    using step buf1(2) buf2(2) by auto
qed auto

subsection \<open>Applying a bitmap\<close>

definition fb_wf :: "Framebuffer \<Rightarrow> bool" where
  "fb_wf fb \<longleftrightarrow> length (bgra fb) = unat (fb_height fb) * (unat (fb_width fb) * 4)"

text \<open>Whether the rectangle lies inside the framebuffer, on numbers.\<close>

definition in_bounds :: "Framebuffer \<Rightarrow> u32 \<Rightarrow> u32 \<Rightarrow> u32 \<Rightarrow> u32 \<Rightarrow> bool" where
  "in_bounds fb x y w h \<longleftrightarrow> unat x + unat w \<le> unat (fb_width fb) \<and> unat y + unat h \<le> unat (fb_height fb)"

lemma chk_add_u32_bound:
  "(case chk_add_u32 a b of None \<Rightarrow> True | Some r \<Rightarrow> lim < r) \<longleftrightarrow> unat lim < unat a + unat b"
  using unat_u32 [of lim] by (auto simp: chk_add_u32_def word_less_nat_alt unat_plus_if')

text \<open>The bytes a bitmap leaves in the framebuffer.\<close>

definition blit :: "nat \<Rightarrow> nat \<Rightarrow> nat \<Rightarrow> nat \<Rightarrow> nat \<Rightarrow> nat \<Rightarrow> PixelFormat \<Rightarrow> u8 list \<Rightarrow> u8 list \<Rightarrow> nat \<Rightarrow> u8" where
  "blit D x y w h stride f pixels buf k =
     (if y \<le> k div D \<and> k div D < y + h \<and> x * 4 \<le> k mod D \<and> k mod D < x * 4 + w * 4
      then pixels ! ((k div D - y) * stride + channel f (k mod D - x * 4)) else buf ! k)"

lemma copy_into_blit:
  assumes "0 < D" "h * D = length pixels" "(y + h) * D \<le> length buf" "w * 4 = D"
  shows "\<exists>buf'. copy_into buf (y * D) pixels = Some buf' \<and> length buf' = length buf \<and>
    (\<forall>k. buf' ! k = blit D 0 y w h D Bgra8 pixels buf k)"
proof -
  obtain buf' where buf': "copy_into buf (y * D) pixels = Some buf'" "length buf' = length buf"
      "\<And>k. buf' ! k = (if y * D \<le> k \<and> k < y * D + length pixels then pixels ! (k - y * D) else buf ! k)"
    using copy_into_nth [of "y * D" pixels buf] assms by (auto simp: algebra_simps)
  have "(y * D \<le> k \<and> k < y * D + length pixels) \<longleftrightarrow> y \<le> k div D \<and> k div D < y + h" for k
    using assms(1) unfolding assms(2) [symmetric]
    by (simp add: less_eq_div_iff_mult_less_eq div_less_iff_less_mult algebra_simps)
  moreover have "y \<le> k div D \<Longrightarrow> (k div D - y) * D + k mod D = k - y * D" for k
    using div_mult_mod_eq [of k D] by (simp add: diff_mult_distrib mult_le_mono1)
  ultimately show ?thesis
    using buf' assms(1,4) by (auto simp: blit_def)
qed

lemma fb_apply_bitmap:
  assumes wf: "fb_wf fb" and e: "e = Bitmap (fb_epoch fb) full x y w h stride f pixels" "frame_wf e"
    and bounds: "in_bounds fb x y w h"
  shows "\<exists>buf. fb_apply fb e = Some (Inr (Some \<lparr>dr_x = x, dr_y = y, dr_width = w, dr_height = h\<rparr>), fb\<lparr>bgra := buf\<rparr>) \<and>
    length buf = length (bgra fb) \<and>
    (\<forall>k. buf ! k = blit (unat (fb_width fb) * 4) (unat x) (unat y) (unat w) (unat h) (unat stride) f pixels (bgra fb) k)"
proof -
  let ?D = "unat (fb_width fb) * 4"
  have f: "w \<noteq> 0" "h \<noteq> 0" "unat w * 4 \<le> unat stride"
      "length pixels = (unat h - 1) * unat stride + unat w * 4"
    using e by simp_all
  have pos: "0 < unat w" "0 < unat h"
    using f(1,2) by (simp_all add: unat_gt_0)
  have D: "unat x * 4 + unat w * 4 \<le> ?D" "0 < ?D"
    using bounds pos by (simp_all add: in_bounds_def)
  have req: "frame_required w h stride = Some (length pixels)"
  proof -
    have "unat h - 1 \<le> 2 ^ 32 - 2" "unat stride \<le> 2 ^ 32 - 1"
      using unat_u32 [of h] unat_u32 [of stride] by simp_all
    then have "(unat h - 1) * unat stride \<le> (2 ^ 32 - 2) * (2 ^ 32 - 1)"
      by (rule mult_le_mono)
    then show ?thesis
      using f(4) unat_u32 [of w] unat_u32 [of stride] f(3)
      by (simp add: frame_required_def chk_mul_def chk_add_def usize_max_def)
  qed
  define fast where "fast \<longleftrightarrow> f = Bgra8 \<and> unat stride = ?D \<and> unat w * 4 = ?D"
  obtain buf where buf: "(if fast then copy_into (bgra fb) (unat y * ?D) pixels
      else copy_rows f pixels (unat stride) (unat w * 4) ?D (unat x) (unat y) 0 (unat h) (bgra fb)) = Some buf"
      "length buf = length (bgra fb)"
      "\<And>k. buf ! k = blit ?D (unat x) (unat y) (unat w) (unat h) (unat stride) f pixels (bgra fb) k"
  proof (cases fast)
    case True
    then have x0: "unat x = 0"
      using bounds by (simp add: fast_def in_bounds_def)
    have "unat h * ?D = length pixels"
      using f(4) True pos(2) by (cases "unat h") (simp_all add: fast_def)
    moreover have "(unat y + unat h) * ?D \<le> length (bgra fb)"
      using wf bounds by (simp add: fb_wf_def in_bounds_def mult_le_mono1)
    ultimately show ?thesis
      using copy_into_blit [OF D(2), of "unat h" pixels "unat y" "bgra fb" "unat w"] True x0 that
      by (auto simp: fast_def)
  next
    case False
    then show ?thesis
      using copy_rows_nth [OF D _ f(3), of "bgra fb" "unat (fb_height fb)" "unat y" 0 "unat h" pixels f]
        wf bounds f(4) that
      by (auto simp: blit_def fb_wf_def in_bounds_def)
  qed
  have nb: "\<not> (case chk_add_u32 x w of None \<Rightarrow> True | Some r \<Rightarrow> fb_width fb < r)"
      "\<not> (case chk_add_u32 y h of None \<Rightarrow> True | Some r \<Rightarrow> fb_height fb < r)"
    using bounds unfolding chk_add_u32_bound by (simp_all add: in_bounds_def)
  have "fb_apply fb e = Some (Inr (Some \<lparr>dr_x = x, dr_y = y, dr_width = w, dr_height = h\<rparr>), fb\<lparr>bgra := buf\<rparr>)"
    using buf(1) f(1-3) nb unfolding e(1) fb_apply.simps Let_def req option.case fast_def [symmetric]
    by (simp add: not_less cong: if_cong)
  then show ?thesis
    using buf(2,3) by blast
qed

subsection \<open>Merging rectangles\<close>

definition covers :: "DirtyRect \<Rightarrow> u32 \<Rightarrow> u32 \<Rightarrow> bool" where
  "covers r px py \<longleftrightarrow> dr_x r \<le> px \<and> px < dr_right r \<and> dr_y r \<le> py \<and> py < dr_bottom r"

lemma sat_add_u32_ge: "a \<le> sat_add_u32 a b"
  using unat_u32 [of a] by (auto simp: sat_add_u32_def word_le_nat_alt unat_plus_if')

lemma sat_add_u32_diff: "a \<le> b \<Longrightarrow> sat_add_u32 a (b - a) = b"
  using unat_u32 [of b] by (simp add: sat_add_u32_def unat_sub word_le_nat_alt)

lemma dr_union_right:
  "dr_right (dr_union a b) = max (dr_right a) (dr_right b)"
  "dr_bottom (dr_union a b) = max (dr_bottom a) (dr_bottom b)"
proof -
  have "min (dr_x a) (dr_x b) \<le> max (dr_right a) (dr_right b)"
    using sat_add_u32_ge [of "dr_x a" "dr_width a"] by (simp add: dr_right_def min_le_iff_disj le_max_iff_disj)
  moreover have "min (dr_y a) (dr_y b) \<le> max (dr_bottom a) (dr_bottom b)"
    using sat_add_u32_ge [of "dr_y a" "dr_height a"] by (simp add: dr_bottom_def min_le_iff_disj le_max_iff_disj)
  ultimately show "dr_right (dr_union a b) = max (dr_right a) (dr_right b)"
      "dr_bottom (dr_union a b) = max (dr_bottom a) (dr_bottom b)"
    by (simp_all add: dr_right_def [of "dr_union a b"] dr_bottom_def [of "dr_union a b"] sat_add_u32_diff)
      (simp_all add: dr_union_def Let_def sat_add_u32_diff)
qed

lemma dr_union_corner:
  "dr_x (dr_union a b) = min (dr_x a) (dr_x b)" "dr_y (dr_union a b) = min (dr_y a) (dr_y b)"
  by (simp_all add: dr_union_def Let_def)

lemma dr_union_covers: "covers a px py \<or> covers b px py \<Longrightarrow> covers (dr_union a b) px py"
  by (auto simp: covers_def dr_union_right dr_union_corner less_max_iff_disj min_le_iff_disj)

lemma swap_remove_mset:
  assumes "i < length xs"
  shows "set xs = insert (xs ! i) (set (swap_remove i xs))"
proof (cases xs rule: rev_cases)
  case (snoc ys y)
  show ?thesis
  proof (cases "i < length ys")
    case True
    then have "set ys = insert (ys ! i) (set (take i ys) \<union> set (drop (Suc i) ys))"
      by (subst id_take_nth_drop [OF True]) auto
    then show ?thesis
      using True snoc by (auto simp: swap_remove_def nth_append upd_conv_take_nth_drop)
  qed (use assms snoc in \<open>auto simp: swap_remove_def nth_append\<close>)
qed (use assms in simp)

lemma swap_remove_subset: "i < length xs \<Longrightarrow> set (swap_remove i xs) \<subseteq> set xs"
  using swap_remove_mset by fastforce

definition separate :: "DirtyRect list \<Rightarrow> bool" where
  "separate rs \<longleftrightarrow> sorted_wrt (\<lambda>a b. \<not> intersects_or_touches a b) rs"

lemma touches_sym: "intersects_or_touches a b = intersects_or_touches b a"
  by (auto simp: intersects_or_touches_def)

lemma separate_iff:
  "separate rs \<longleftrightarrow> (\<forall>i < length rs. \<forall>j < length rs. i \<noteq> j \<longrightarrow> \<not> intersects_or_touches (rs ! i) (rs ! j))"
proof
  assume sep: "separate rs"
  show "\<forall>i < length rs. \<forall>j < length rs. i \<noteq> j \<longrightarrow> \<not> intersects_or_touches (rs ! i) (rs ! j)"
  proof (intro allI impI)
    fix i j assume "i < length rs" "j < length rs" "i \<noteq> j"
    then show "\<not> intersects_or_touches (rs ! i) (rs ! j)"
      using sep touches_sym [of "rs ! i" "rs ! j"] unfolding separate_def sorted_wrt_iff_nth_less
      by (cases "i < j") auto
  qed
qed (simp add: separate_def sorted_wrt_iff_nth_less)

lemma swap_remove_nth:
  assumes "i < length xs" "j < length xs - 1"
  shows "swap_remove i xs ! j = xs ! (if j = i then length xs - 1 else j)"
proof -
  have "xs \<noteq> []" using assms by auto
  then show ?thesis
    using assms by (auto simp: swap_remove_def nth_butlast nth_list_update last_conv_nth)
qed

lemma length_swap_remove [simp]: "length (swap_remove i xs) = length xs - 1"
  by (simp add: swap_remove_def)

lemma separate_swap_remove: "separate xs \<Longrightarrow> i < length xs \<Longrightarrow> separate (swap_remove i xs)"
  unfolding separate_iff by (auto simp: swap_remove_nth)

lemma absorb_spec:
  assumes "separate merged" "\<forall>k < index. \<not> intersects_or_touches rect (merged ! k)" "index \<le> length merged"
    "absorb rect merged index = (rect', merged')"
  shows "separate merged' \<and> (\<forall>m \<in> set merged'. \<not> intersects_or_touches m rect') \<and>
    (\<forall>px py. covers rect px py \<or> (\<exists>m \<in> set merged. covers m px py) \<longrightarrow>
      covers rect' px py \<or> (\<exists>m \<in> set merged'. covers m px py))"
  using assms
proof (induction rect merged index rule: absorb.induct)
  case (1 rect merged index)
  show ?case
  proof (cases "index < length merged")
    case False
    then have "rect' = rect" "merged' = merged"
      using "1.prems"(4) by (simp_all add: absorb.simps [of rect])
    moreover have "\<not> intersects_or_touches m rect" if "m \<in> set merged" for m
      using that "1.prems"(2,3) False touches_sym by (metis in_set_conv_nth le_less_trans not_less order.strict_trans2)
    ultimately show ?thesis
      using "1.prems"(1) by blast
  next
    case inside: True
    show ?thesis
    proof (cases "intersects_or_touches rect (merged ! index)")
      case True
      have "separate merged' \<and> (\<forall>m \<in> set merged'. \<not> intersects_or_touches m rect') \<and>
        (\<forall>px py. covers (dr_union rect (merged ! index)) px py \<or> (\<exists>m \<in> set (swap_remove index merged). covers m px py) \<longrightarrow>
          covers rect' px py \<or> (\<exists>m \<in> set merged'. covers m px py))"
        using "1.prems"(1,4) inside True
        by (intro "1.IH"(1)) (simp_all add: separate_swap_remove absorb.simps [of rect merged])
      moreover have "covers rect px py \<or> (\<exists>m \<in> set merged. covers m px py) \<Longrightarrow>
          covers (dr_union rect (merged ! index)) px py \<or> (\<exists>m \<in> set (swap_remove index merged). covers m px py)" for px py
        using dr_union_covers [of rect px py "merged ! index"] unfolding swap_remove_mset [OF inside] by auto
      ultimately show ?thesis
        by blast
    next
      case False
      then have "\<forall>k < index + 1. \<not> intersects_or_touches rect (merged ! k)"
        using "1.prems"(2) by (auto simp: less_Suc_eq)
      then show ?thesis
        using "1.IH"(2) [OF inside False] "1.prems"(1,4) inside False by (simp add: absorb.simps [of rect merged])
    qed
  qed
qed

lemma merge_loop_spec:
  "separate merged \<Longrightarrow> separate (merge_loop merged rs) \<and>
    (\<forall>px py. (\<exists>m \<in> set merged \<union> set rs. covers m px py) \<longrightarrow> (\<exists>m \<in> set (merge_loop merged rs). covers m px py))"
proof (induction rs arbitrary: merged)
  case (Cons r rs)
  obtain rect merged' where a: "absorb r merged 0 = (rect, merged')" by fastforce
  have spec: "separate merged' \<and> (\<forall>m \<in> set merged'. \<not> intersects_or_touches m rect) \<and>
    (\<forall>px py. covers r px py \<or> (\<exists>m \<in> set merged. covers m px py) \<longrightarrow>
      covers rect px py \<or> (\<exists>m \<in> set merged'. covers m px py))"
    using absorb_spec [OF Cons.prems _ _ a] by simp
  then have "separate (merged' @ [rect])"
    by (simp add: separate_def sorted_wrt_append)
  from Cons.IH [OF this] show ?case
    using a spec by simp blast
qed simp

subsection \<open>Batches\<close>

lemma frame_batch_loop_spec:
  assumes "0 < count" "bytes \<le> 8 * 1024 * 1024 \<or> count = 1"
  shows "\<exists>n. frame_batch_loop bytes count fs = count + n \<and> n \<le> length fs \<and>
    (bytes + sum_list (map frame_cost (take n fs)) \<le> 8 * 1024 * 1024 \<or> (count = 1 \<and> n = 0))"
  using assms
proof (induction fs arbitrary: bytes count)
  case (Cons f fs)
  show ?case
  proof (cases "8 * 1024 * 1024 < sat_add bytes (frame_cost f)")
    case True
    then show ?thesis using Cons.prems by (intro exI [of _ 0]) auto
  next
    case False
    then have s: "sat_add bytes (frame_cost f) = bytes + frame_cost f" "bytes + frame_cost f \<le> 8 * 1024 * 1024"
      by (auto simp: sat_add_def usize_max_def min_def split: if_split_asm)
    obtain n where "frame_batch_loop (bytes + frame_cost f) (count + 1) fs = count + 1 + n" "n \<le> length fs"
        "bytes + frame_cost f + sum_list (map frame_cost (take n fs)) \<le> 8 * 1024 * 1024"
      using Cons.IH [of "count + 1" "bytes + frame_cost f"] Cons.prems s(2) by auto
    then show ?thesis
      using False s Cons.prems by (intro exI [of _ "Suc n"]) simp
  qed
qed auto

subsection \<open>Every event\<close>

lemma fb_apply_cases:
  assumes "fb_wf fb"
  shows "\<exists>r fb'. fb_apply fb e = Some (r, fb') \<and> fb_wf fb' \<and> fb_epoch fb' = fb_epoch fb \<and>
    fb_width fb' = fb_width fb \<and> fb_height fb' = fb_height fb \<and> (\<forall>err. r = Inl err \<longrightarrow> fb' = fb) \<and>
    (frame_wf e \<longrightarrow> r \<noteq> Inl InvalidPayload)"
proof (cases e)
  case (Bitmap epoch full x y w h stride f pixels)
  show ?thesis
  proof (cases "epoch = fb_epoch fb \<and> w \<noteq> 0 \<and> h \<noteq> 0 \<and> in_bounds fb x y w h")
    case False
    then show ?thesis
      using assms unfolding Bitmap fb_apply.simps chk_add_u32_bound
      by (auto simp: in_bounds_def not_le)
  next
    case guards: True
    show ?thesis
    proof (cases "frame_wf e")
      case True
      then obtain buf where "fb_apply fb e = Some (Inr (Some \<lparr>dr_x = x, dr_y = y, dr_width = w, dr_height = h\<rparr>), fb\<lparr>bgra := buf\<rparr>)"
          "length buf = length (bgra fb)"
        using fb_apply_bitmap [OF assms _ True, of full x y w h stride f pixels] guards Bitmap by blast
      then show ?thesis
        using assms by (auto simp: fb_wf_def)
    next
      case False
      have req: "frame_required w h stride = Some r \<Longrightarrow> r = (unat h - 1) * unat stride + unat w * 4" for r
        by (auto simp: frame_required_def split: option.split_asm)
      have "fb_apply fb e = Some (Inl InvalidPayload, fb)"
        using guards False req unfolding Bitmap fb_apply.simps chk_add_u32_bound
        by (auto simp: in_bounds_def not_less Let_def split: option.split)
      then show ?thesis
        using assms False by simp
    qed
  qed
qed (use assms in simp)

definition fb_step :: "Framebuffer \<Rightarrow> RemoteFrameEvent \<Rightarrow> Framebuffer" where
  "fb_step fb e = (case fb_apply fb e of Some (_, fb') \<Rightarrow> fb' | None \<Rightarrow> fb)"

interpretation fb_events: event_machine fb_step fb_wf
proof
  fix fb e assume "fb_wf fb"
  then show "fb_wf (fb_step fb e)"
    using fb_apply_cases [of fb e] by (auto simp: fb_step_def)
qed

lemma framebuffer_new_wf:
  assumes "framebuffer_new can_alloc epoch width height limits = Inr fb"
  shows "fb_wf fb \<and> fb_width fb = width \<and> fb_height fb = height \<and> fb_epoch fb = epoch \<and>
    width \<le> max_width limits \<and> height \<le> max_height limits \<and> length (bgra fb) \<le> max_bytes limits"
  using assms
  by (auto simp: framebuffer_new_def validate_framebuffer_dimensions_def fb_wf_def rbind_Inr_iff
      not_less split: if_split_asm option.split_asm)

subsection \<open>Properties\<close>

text \<open>(C1) Applying a bitmap. On a framebuffer whose buffer has its dimensions, a well-formed
  bitmap of the current epoch inside the bounds is applied without panic; afterwards
  every byte inside the rectangle is the source byte of its pixel and channel (red and
  blue swapped for \<open>Rgba8\<close>) and every byte outside is unchanged, in the one-copy fast path
  as in the row loop; the dirty rectangle is the bitmap's.\<close>

theorem framebuffer_apply_exact:
  assumes "fb_wf fb" "frame_wf (Bitmap (fb_epoch fb) full x y w h stride f pixels)" "in_bounds fb x y w h"
  shows "\<exists>buf. fb_apply fb (Bitmap (fb_epoch fb) full x y w h stride f pixels) =
      Some (Inr (Some \<lparr>dr_x = x, dr_y = y, dr_width = w, dr_height = h\<rparr>), fb\<lparr>bgra := buf\<rparr>) \<and>
    length buf = length (bgra fb) \<and>
    (\<forall>k. buf ! k = blit (unat (fb_width fb) * 4) (unat x) (unat y) (unat w) (unat h) (unat stride) f pixels (bgra fb) k)"
  using fb_apply_bitmap [OF assms(1) refl assms(2,3)] .

theorem framebuffer_apply_exact_witness:
  "\<exists>buf. fb_apply \<lparr>fb_width = 2, fb_height = 1, fb_epoch = 3, bgra = [0, 0, 0, 0, 0, 0, 0, 0]\<rparr>
      (Bitmap 3 False 1 0 1 1 4 Rgba8 [1, 2, 3, 4]) =
      Some (Inr (Some \<lparr>dr_x = 1, dr_y = 0, dr_width = 1, dr_height = 1\<rparr>),
        \<lparr>fb_width = 2, fb_height = 1, fb_epoch = 3, bgra = buf\<rparr>) \<and> buf ! 4 = 3 \<and> buf ! 6 = 1 \<and> buf ! 0 = 0"
  using framebuffer_apply_exact [of "\<lparr>fb_width = 2, fb_height = 1, fb_epoch = 3, bgra = [0, 0, 0, 0, 0, 0, 0, 0]\<rparr>"
      False 1 0 1 1 4 Rgba8 "[1, 2, 3, 4]"]
  by (auto simp: fb_wf_def in_bounds_def blit_def)

text \<open>(C3) Untrusted frames. Whatever sequence of events arrives after a framebuffer is created,
  the buffer keeps the size its dimensions ask for and the next event is handled without
  panic; an event that is refused changes nothing; a frame decoded from an IPC packet is
  never refused for its payload.\<close>

theorem framebuffer_events_safe:
  assumes "framebuffer_new can_alloc epoch width height limits = Inr fb"
  shows "\<exists>r fb'. fb_apply (foldl fb_step fb es) e = Some (r, fb') \<and> fb_wf fb' \<and>
    (\<forall>err. r = Inl err \<longrightarrow> fb' = foldl fb_step fb es) \<and>
    (decode_frame_packet p = Inr (sid, e) \<longrightarrow> r \<noteq> Inl InvalidPayload)"
proof -
  have "fb_wf (foldl fb_step fb es)"
    using framebuffer_new_wf [OF assms] by (intro fb_events.run_inv) simp
  from fb_apply_cases [OF this, of e] show ?thesis
    using decode_frame_wf [of p sid e] unfolding decode_frame_packet_def by blast
qed

theorem framebuffer_events_safe_witness:
  "\<exists>fb. framebuffer_new (\<lambda>_. True) 1 2 2 VNC_FRAMEBUFFER_LIMITS = Inr fb \<and>
    (\<exists>r fb'. fb_apply (foldl fb_step fb [FrameReset 1 1 1]) (Bitmap 2 False 0 0 1 1 4 Bgra8 []) = Some (r, fb'))"
proof -
  obtain fb where "framebuffer_new (\<lambda>_. True) 1 2 2 VNC_FRAMEBUFFER_LIMITS = Inr fb"
    by (auto simp: framebuffer_new_def validate_framebuffer_dimensions_def VNC_FRAMEBUFFER_LIMITS_def
        chk_mul_def usize_max_def)
  then show ?thesis
    using framebuffer_events_safe [of "\<lambda>_. True" 1 2 2 VNC_FRAMEBUFFER_LIMITS fb "[FrameReset 1 1 1]"
        "Bitmap 2 False 0 0 1 1 4 Bgra8 []"] by blast
qed

text \<open>(C7) Merging dirty rectangles loses nothing and leaves nothing to merge: every point of an
  input rectangle is in an output rectangle, and no two output rectangles intersect or
  touch.\<close>

theorem merge_dirty_rects_spec:
  "separate (merge_dirty_rects rects) \<and>
    (\<forall>px py. list_ex (\<lambda>r. covers r px py) rects \<longrightarrow> list_ex (\<lambda>r. covers r px py) (merge_dirty_rects rects))"
  using merge_loop_spec [of "[]" rects] by (simp add: merge_dirty_rects_def separate_def list_ex_iff)

theorem merge_dirty_rects_spec_witness:
  "list_ex (\<lambda>r. covers r 1 1) (merge_dirty_rects [\<lparr>dr_x = 0, dr_y = 0, dr_width = 2, dr_height = 2\<rparr>])"
  using merge_dirty_rects_spec [of "[\<lparr>dr_x = 0, dr_y = 0, dr_width = 2, dr_height = 2\<rparr>]"]
  by (simp add: covers_def dr_right_def dr_bottom_def sat_add_u32_def)

text \<open>Frame batches are bounded and make progress: at most eight events, at least one when
  there is one, and at most 8 MiB of pixels unless the batch is a single event.\<close>

theorem frame_batch_bounds:
  "frame_batch_len frames \<le> 8 \<and> frame_batch_len frames \<le> length frames \<and>
    (frames \<noteq> [] \<longrightarrow> 0 < frame_batch_len frames) \<and>
    (1 < frame_batch_len frames \<longrightarrow>
      sum_list (map frame_cost (take (frame_batch_len frames) frames)) \<le> 8 * 1024 * 1024)"
proof (cases frames)
  case (Cons f fs)
  obtain n where n: "frame_batch_loop (sat_add 0 (frame_cost f)) 1 (take 7 fs) = 1 + n" "n \<le> length (take 7 fs)"
      "sat_add 0 (frame_cost f) + sum_list (map frame_cost (take n (take 7 fs))) \<le> 8 * 1024 * 1024 \<or> n = 0"
    using frame_batch_loop_spec [of 1 "sat_add 0 (frame_cost f)" "take 7 fs"] by auto
  have len: "frame_batch_len frames = 1 + n"
    using n(1) by (simp add: frame_batch_len_def Cons)
  have "n \<noteq> 0 \<Longrightarrow> sat_add 0 (frame_cost f) = frame_cost f"
    using n(3) by (auto simp: sat_add_def usize_max_def min_def split: if_split_asm)
  then show ?thesis
    unfolding len using n(2,3) by (auto simp: Cons min_def split: if_split_asm)
qed (simp add: frame_batch_len_def)

theorem frame_batch_bounds_witness:
  "0 < frame_batch_len [FrameReset 1 2 3]"
  using frame_batch_bounds [of "[FrameReset 1 2 3]"] by simp

end
