(* ===== verification/Xymodem.thy ===== *)
theory Xymodem
  imports Str_Ops
begin

text \<open>
  The X/YMODEM upload sender (\<open>crates/nyaterm-transport/src/xymodem/mod.rs\<close>): block
  format, CRC, and the state machine with all its replies to receiver bytes, timeouts and
  cancellation. A file's reader is the bytes it can still deliver; a time is a number; an
  index or slice out of range is a panic, the value \<open>None\<close>. Lower-casing of names is a
  parameter of the constructor. Opening files (\<open>from_paths\<close>) is not modelled.
\<close>

subsection \<open>Blocks\<close>

definition SOH :: u8 where "SOH = 0x01"
definition STX :: u8 where "STX = 0x02"
definition EOT :: u8 where "EOT = 0x04"
definition ACK :: u8 where "ACK = 0x06"
definition NAK :: u8 where "NAK = 0x15"
definition CAN :: u8 where "CAN = 0x18"
definition CRC_REQUEST :: u8 where "CRC_REQUEST = 0x43"

definition crc_shift :: "u16 \<Rightarrow> u16" where
  "crc_shift c = (if c AND 0x8000 \<noteq> 0 then push_bit 1 c XOR 0x1021 else push_bit 1 c)"

definition crc_byte :: "u16 \<Rightarrow> u8 \<Rightarrow> u16" where
  "crc_byte c b = (crc_shift ^^ 8) (c XOR push_bit 8 (ucast b))"

definition crc16 :: "u8 list \<Rightarrow> u16" where
  "crc16 bytes = foldl crc_byte 0 bytes"

definition packet :: "u8 \<Rightarrow> u8 list \<Rightarrow> bool \<Rightarrow> u8 list" where
  "packet sequence data crc =
     [if length data = 1024 then STX else SOH, sequence, NOT sequence] @ data @
     (if crc then be_bytes 2 (crc16 data) else [foldl (+) 0 data])"

subsection \<open>The sender\<close>

datatype XymodemProtocol = Xmodem | Ymodem

record XymodemOptions =
  response_timeout :: nat
  handshake_timeout :: nat
  max_retries :: nat

datatype XymodemError = InvalidOptions | SingleFileRequired | NoFiles | InvalidFilename | OpenFailed
  | ReadFailed | WriteFailed | SizeOverflow | TimedOut | RetryLimit | Cancelled | RemoteCancelled
  | StreamingUnsupported

record XymodemFile =
  fname :: "u8 list"
  fsize :: nat
  freader :: "u8 list"

record XymodemProgress =
  file_name :: "u8 list"
  bytes_transferred :: nat
  total :: nat
  files_completed :: nat
  files_total :: nat

datatype XymodemAction = Send "u8 list" | Progress XymodemProgress | Finished "XymodemError + unit"

datatype Stage = Start | HeaderAck | DataStart | DataAck | EotAck | BatchAck | Done

record XymodemSender =
  protocol :: XymodemProtocol
  options :: XymodemOptions
  files :: "XymodemFile list"
  file_index :: nat
  offset :: nat
  total_bytes :: nat
  accepted_bytes :: nat
  sequence :: u8
  pending_bytes :: nat
  stage :: Stage
  crc :: bool
  last_packet :: "u8 list"
  retries :: nat
  deadline :: nat
  last_can :: bool
  initial_progress_emitted :: bool

type_synonym 'a acts = "XymodemAction list \<times> 'a"

text \<open>The check of the file list: names seen so far (lower case) and bytes so far.\<close>

definition bad_name :: "(u8 list \<Rightarrow> u8 list) \<Rightarrow> u8 list list \<Rightarrow> XymodemFile \<Rightarrow> bool" where
  "bad_name lower names f \<longleftrightarrow>
     fname f = [] \<or> 0x00 \<in> set (fname f) \<or> 0x2F \<in> set (fname f) \<or> 0x5C \<in> set (fname f) \<or>
     128 < length (fname f) + length (to_decimal (fsize f)) + 2 \<or> lower (fname f) \<in> set names"

fun check_files ::
  "(u8 list \<Rightarrow> u8 list) \<Rightarrow> XymodemProtocol \<Rightarrow> u8 list list \<Rightarrow> nat \<Rightarrow> XymodemFile list \<Rightarrow> XymodemError + nat" where
  "check_files lower proto names tot [] = Inr tot"
| "check_files lower proto names tot (f # fs) =
     (if proto = Ymodem \<and> bad_name lower names f then Inl InvalidFilename
      else if 2 ^ 64 \<le> tot + fsize f then Inl SizeOverflow
      else check_files lower proto (lower (fname f) # names) (tot + fsize f) fs)"

definition xymodem_new ::
  "(u8 list \<Rightarrow> u8 list) \<Rightarrow> XymodemProtocol \<Rightarrow> XymodemFile list \<Rightarrow> XymodemOptions \<Rightarrow> XymodemError + XymodemSender" where
  "xymodem_new lower proto fs opts =
     (if fs = [] then Inl NoFiles
      else if proto = Xmodem \<and> length fs \<noteq> 1 then Inl SingleFileRequired
      else if response_timeout opts = 0 \<or> handshake_timeout opts = 0 \<or> max_retries opts = 0 then Inl InvalidOptions
      else
        rbind (check_files lower proto [] 0 fs) (\<lambda>tot.
        Inr \<lparr>protocol = proto, options = opts, files = fs, file_index = 0, offset = 0, total_bytes = tot,
          accepted_bytes = 0, sequence = 1, pending_bytes = 0, stage = Start, crc = False,
          last_packet = [], retries = 0, deadline = handshake_timeout opts, last_can = False,
          initial_progress_emitted = False\<rparr>))"

definition is_done :: "XymodemSender \<Rightarrow> bool" where
  "is_done s \<longleftrightarrow> stage s = Done"

definition fail :: "XymodemError \<Rightarrow> XymodemSender \<Rightarrow> XymodemSender acts" where
  "fail e s =
     (if is_done s then ([], s)
      else ([Send (replicate 8 CAN), Finished (Inl e)], s\<lparr>stage := Done, last_packet := []\<rparr>))"

definition cancel :: "XymodemSender \<Rightarrow> XymodemSender acts" where
  "cancel s = fail Cancelled s"

definition progress :: "XymodemSender \<Rightarrow> XymodemProgress" where
  "progress s =
     \<lparr>file_name = (if file_index s < length (files s) then fname (files s ! file_index s)
        else if files s \<noteq> [] then fname (last (files s)) else []),
      bytes_transferred = accepted_bytes s, total = total_bytes s, files_completed = file_index s,
      files_total = length (files s)\<rparr>"

definition initial_progress :: "XymodemSender \<Rightarrow> XymodemSender acts" where
  "initial_progress s =
     (if initial_progress_emitted s then ([], s)
      else ([Progress (progress s)], s\<lparr>initial_progress_emitted := True\<rparr>))"

definition send :: "u8 list \<Rightarrow> nat \<Rightarrow> XymodemSender \<Rightarrow> XymodemAction \<times> XymodemSender" where
  "send p now s = (Send p, s\<lparr>last_packet := p, deadline := now + response_timeout (options s)\<rparr>)"

definition retry :: "nat \<Rightarrow> XymodemError \<Rightarrow> XymodemSender \<Rightarrow> XymodemSender acts" where
  "retry now e s =
     (if max_retries (options s) \<le> retries s then fail e s
      else
        let s = s\<lparr>retries := retries s + 1,
              deadline := now + (if stage s = Start \<or> stage s = DataStart then handshake_timeout (options s)
                else response_timeout (options s))\<rparr>
        in (if last_packet s = [] then [] else [Send (last_packet s)], s))"

definition xy_block_size :: "XymodemProtocol \<Rightarrow> nat \<Rightarrow> nat" where
  "xy_block_size proto remaining = (if proto = Ymodem \<and> 128 < remaining then 1024 else 128)"

definition next_data :: "nat \<Rightarrow> XymodemSender \<Rightarrow> XymodemSender acts option" where
  "next_data now s =
     (if length (files s) \<le> file_index s then None
      else
        let f = files s ! file_index s
        in if fsize f < offset s then None
           else
             let remaining = fsize f - offset s
             in if remaining = 0 then
                  (let (a, s) = send [EOT] now (s\<lparr>stage := EotAck\<rparr>) in Some ([a], s))
                else
                  let blk = xy_block_size (protocol s) remaining;
                      size = min remaining blk
                  in if length (freader f) < size then
                       Some (fail ReadFailed (s\<lparr>files := (files s)[file_index s := f\<lparr>freader := []\<rparr>]\<rparr>))
                     else
                       let data = take size (freader f) @ replicate (blk - size) 0x1A;
                           s = s\<lparr>files := (files s)[file_index s := f\<lparr>freader := drop size (freader f)\<rparr>],
                             pending_bytes := size, stage := DataAck\<rparr>;
                           (a, s) = send (packet (sequence s) data (crc s)) now s
                       in Some ([a], s))"

text \<open>The block-zero header of a file: name, a zero byte, the decimal size, zero padding.\<close>

definition header_block :: "XymodemFile \<Rightarrow> u8 list option" where
  "header_block f =
     (let size = to_decimal (fsize f); start = length (fname f) + 1
      in if 128 < start + length size then None
         else Some (fname f @ [0] @ size @ replicate (128 - (start + length size)) 0))"

definition start_reply :: "u8 \<Rightarrow> nat \<Rightarrow> XymodemSender \<Rightarrow> XymodemSender acts option" where
  "start_reply byte now s =
     (let s = s\<lparr>crc := (byte = CRC_REQUEST), retries := 0\<rparr>
      in if protocol s = Ymodem then
           (case (if file_index s < length (files s)
                  then map_option (\<lambda>h. (h, HeaderAck)) (header_block (files s ! file_index s))
                  else Some (replicate 128 0, BatchAck)) of
              None \<Rightarrow> None
            | Some (header, st) \<Rightarrow>
                let s = s\<lparr>stage := st\<rparr>; (a, s) = send (packet 0 header (crc s)) now s in Some ([a], s))
         else next_data now s)"

definition data_acked :: "nat \<Rightarrow> XymodemSender \<Rightarrow> XymodemSender acts option" where
  "data_acked now s =
     (let s = s\<lparr>offset := offset s + pending_bytes s, accepted_bytes := accepted_bytes s + pending_bytes s,
            sequence := sequence s + 1, retries := 0\<rparr>
      in map_option (\<lambda>(as, s'). (Progress (progress s) # as, s')) (next_data now s))"

definition eot_acked :: "nat \<Rightarrow> XymodemSender \<Rightarrow> XymodemSender acts" where
  "eot_acked now s =
     (let s = s\<lparr>file_index := file_index s + 1, offset := 0, sequence := 1, retries := 0, last_packet := []\<rparr>
      in if protocol s = Xmodem then ([Progress (progress s), Finished (Inr ())], s\<lparr>stage := Done\<rparr>)
         else ([Progress (progress s)], s\<lparr>stage := Start, deadline := now + handshake_timeout (options s)\<rparr>))"

text \<open>A repeated \<open>C\<close> before the first acknowledgement: the first block is sent again with a CRC;
  a packet too short for the slice \<open>[3..]\<close> panics.\<close>

definition resend_with_crc :: "nat \<Rightarrow> XymodemSender \<Rightarrow> XymodemSender acts option" where
  "resend_with_crc now s =
     (if crc s then Some (retry now RetryLimit s)
      else
        let p = butlast (last_packet s)
        in if length p < 3 then None
           else Some (retry now RetryLimit
             (s\<lparr>crc := True, last_packet := p @ be_bytes 2 (crc16 (drop 3 p))\<rparr>)))"

definition feed_byte :: "u8 \<Rightarrow> nat \<Rightarrow> XymodemSender \<Rightarrow> XymodemSender acts option" where
  "feed_byte byte now s =
     (if byte = CAN then
        (let (as, s) = (if last_can s then fail RemoteCancelled s else ([], s))
         in Some (as, s\<lparr>last_can := True\<rparr>))
      else
        let s = s\<lparr>last_can := False\<rparr>
        in case stage s of
             Start \<Rightarrow>
               if byte = CRC_REQUEST \<or> byte = NAK then start_reply byte now s
               else if byte = 0x47 then Some (fail StreamingUnsupported s)
               else Some ([], s)
           | DataStart \<Rightarrow>
               if byte = 0x47 then Some (fail StreamingUnsupported s)
               else if byte = CRC_REQUEST \<or> byte = NAK then
                 next_data now (s\<lparr>crc := (byte = CRC_REQUEST), retries := 0\<rparr>)
               else Some ([], s)
           | HeaderAck \<Rightarrow>
               if byte = ACK then
                 Some ([], s\<lparr>stage := DataStart, retries := 0, deadline := now + handshake_timeout (options s)\<rparr>)
               else if byte = NAK \<or> byte = CRC_REQUEST then Some (retry now RetryLimit s)
               else Some ([], s)
           | DataAck \<Rightarrow>
               if byte = ACK then data_acked now s
               else if byte = NAK then Some (retry now RetryLimit s)
               else if byte = CRC_REQUEST \<and> offset s = 0 then resend_with_crc now s
               else Some ([], s)
           | EotAck \<Rightarrow>
               if byte = NAK then Some (retry now RetryLimit s)
               else if byte = ACK then Some (eot_acked now s)
               else Some ([], s)
           | BatchAck \<Rightarrow>
               if byte = ACK then Some ([Finished (Inr ())], s\<lparr>stage := Done\<rparr>)
               else if byte = NAK \<or> byte = CRC_REQUEST then Some (retry now RetryLimit s)
               else Some ([], s)
           | Done \<Rightarrow> Some ([], s))"

fun feed_loop :: "u8 list \<Rightarrow> nat \<Rightarrow> XymodemSender \<Rightarrow> XymodemSender acts option" where
  "feed_loop [] now s = Some ([], s)"
| "feed_loop (b # bs) now s =
     (if is_done s then Some ([], s)
      else
        (case feed_byte b now s of
           None \<Rightarrow> None
         | Some (as, s') \<Rightarrow>
             map_option (\<lambda>(as', s''). (as @ as', s'')) (feed_loop bs now s')))"

definition feed :: "u8 list \<Rightarrow> nat \<Rightarrow> XymodemSender \<Rightarrow> XymodemSender acts option" where
  "feed input now s =
     (if is_done s then Some ([], s)
      else
        let (as, s) = initial_progress s
        in map_option (\<lambda>(as', s'). (as @ as', s')) (feed_loop input now s))"

definition tick :: "nat \<Rightarrow> XymodemSender \<Rightarrow> XymodemSender acts" where
  "tick now s =
     (if is_done s then ([], s)
      else
        let (as, s) = initial_progress s
        in if deadline s \<le> now then (let (as', s') = retry now TimedOut s in (as @ as', s'))
           else (as, s))"

subsection \<open>CRC\<close>

lemma crc_shift_low: "bit c 15 = False \<Longrightarrow> crc_shift c = push_bit 1 c"
proof -
  assume "bit c 15 = False"
  then have "c AND 0x8000 = 0"
    using and_exp_eq_0_iff_not_bit [of c 15] by simp
  then show ?thesis by (simp add: crc_shift_def)
qed

lemma crc_shift_iter: "n \<le> 8 \<Longrightarrow> (crc_shift ^^ n) (ucast (b :: u8)) = push_bit n (ucast b)"
proof (induction n)
  case (Suc n)
  have "\<not> bit (push_bit n (ucast b :: u16)) 15"
    using Suc.prems bit_imp_le_length [of b "15 - n"] by (auto simp: bit_simps)
  then show ?case
    using Suc by (simp add: crc_shift_low push_bit_push_bit)
qed simp

lemma crc_byte_low: "crc_byte c b = push_bit 8 (ucast (l :: u8))" if "c = push_bit 8 (ucast b) XOR ucast l"
proof -
  have "c XOR push_bit 8 (ucast b) = ucast l"
    using that by (simp add: xor.left_commute xor.assoc [symmetric] xor.commute)
  then show ?thesis
    using crc_shift_iter [of 8 l] by (simp add: crc_byte_def)
qed

lemma crc_shift_0: "(crc_shift ^^ n) 0 = 0"
  by (induction n) (simp_all add: crc_shift_def)

lemma u16_split: "(c :: u16) = push_bit 8 (ucast (ucast (drop_bit 8 c) :: u8)) XOR ucast (ucast c :: u8)"
  by (rule bit_word_eqI) (auto simp: bit_simps)

lemma be_bytes_2: "be_bytes 2 (c :: u16) = [ucast (drop_bit 8 c), ucast c]"
  by (simp add: be_bytes_def numeral_eq_Suc)

lemma crc16_residue: "crc16 (data @ be_bytes 2 (crc16 data)) = 0"
proof -
  let ?c = "crc16 data"
  have "crc_byte ?c (ucast (drop_bit 8 ?c)) = push_bit 8 (ucast (ucast ?c :: u8))"
    by (rule crc_byte_low [OF u16_split])
  then have "crc16 (data @ be_bytes 2 ?c) = crc_byte (push_bit 8 (ucast (ucast ?c :: u8))) (ucast ?c)"
    by (simp add: crc16_def be_bytes_2)
  also have "\<dots> = 0"
    by (simp add: crc_byte_def crc_shift_0)
  finally show ?thesis .
qed

subsection \<open>The invariant\<close>

text \<open>The state against the files it was created with (\<open>fs\<close>): what was acknowledged, what is
  in flight and what the reader still holds.\<close>

definition xy_unit :: "XymodemProtocol \<Rightarrow> nat" where
  "xy_unit proto = (if proto = Ymodem then 1024 else 128)"

definition data_block :: "XymodemProtocol \<Rightarrow> XymodemFile \<Rightarrow> nat \<Rightarrow> u8 list" where
  "data_block proto f off =
     (let remaining = fsize f - off; blk = xy_block_size proto remaining; n = min remaining blk
      in take n (drop off (freader f)) @ replicate (blk - n) 0x1A)"

definition xbase :: "XymodemFile list \<Rightarrow> XymodemSender \<Rightarrow> bool" where
  "xbase fs s \<longleftrightarrow>
     fs \<noteq> [] \<and> length (files s) = length fs \<and> (protocol s = Xmodem \<longrightarrow> length fs = 1) \<and>
     (protocol s = Ymodem \<longrightarrow> (\<forall>f \<in> set fs. length (fname f) + length (to_decimal (fsize f)) + 2 \<le> 128)) \<and>
     (\<forall>i. file_index s < i \<and> i < length fs \<longrightarrow> files s ! i = fs ! i) \<and>
     total_bytes s = sum_list (map fsize fs) \<and> file_index s \<le> length fs \<and>
     accepted_bytes s = sum_list (map fsize (take (file_index s) fs)) + offset s \<and>
     retries s \<le> max_retries (options s)"

text \<open>The current file is the original with its reader advanced by \<open>k\<close> bytes.\<close>

definition at_file :: "XymodemFile list \<Rightarrow> nat \<Rightarrow> XymodemSender \<Rightarrow> bool" where
  "at_file fs k s \<longleftrightarrow> file_index s < length fs \<and>
     files s ! file_index s = (fs ! file_index s)\<lparr>freader := drop k (freader (fs ! file_index s))\<rparr>"

definition at_block :: "XymodemFile list \<Rightarrow> XymodemSender \<Rightarrow> bool" where
  "at_block fs s \<longleftrightarrow> offset s < fsize (fs ! file_index s) \<longrightarrow>
     xy_unit (protocol s) dvd offset s \<and> sequence s = word_of_nat (1 + offset s div xy_unit (protocol s))"

fun xstage :: "XymodemFile list \<Rightarrow> XymodemSender \<Rightarrow> Stage \<Rightarrow> bool" where
  "xstage fs s Start \<longleftrightarrow> offset s = 0 \<and> sequence s = 1 \<and> (protocol s = Xmodem \<longrightarrow> file_index s = 0) \<and>
     (file_index s < length fs \<longrightarrow> at_file fs 0 s)"
| "xstage fs s HeaderAck \<longleftrightarrow> offset s = 0 \<and> sequence s = 1 \<and> at_file fs 0 s"
| "xstage fs s DataStart \<longleftrightarrow> offset s = 0 \<and> sequence s = 1 \<and> at_file fs 0 s"
| "xstage fs s DataAck \<longleftrightarrow> at_file fs (offset s + pending_bytes s) s \<and> at_block fs s \<and>
     offset s < fsize (fs ! file_index s) \<and>
     min (fsize (fs ! file_index s) - offset s)
       (xy_block_size (protocol s) (fsize (fs ! file_index s) - offset s)) = pending_bytes s \<and>
     last_packet s = packet (sequence s) (data_block (protocol s) (fs ! file_index s) (offset s)) (crc s)"
| "xstage fs s EotAck \<longleftrightarrow> file_index s < length fs \<and> offset s = fsize (fs ! file_index s) \<and> last_packet s = [EOT]"
| "xstage fs s BatchAck \<longleftrightarrow> file_index s = length fs \<and> offset s = 0"
| "xstage fs s Done \<longleftrightarrow> True"

declare xstage.simps [simp del]

definition xinv :: "XymodemFile list \<Rightarrow> XymodemSender \<Rightarrow> bool" where
  "xinv fs s \<longleftrightarrow> xbase fs s \<and> xstage fs s (stage s)"

text \<open>What a reply may do: keep the invariant, and report success only when everything was
  acknowledged.\<close>

definition xok :: "XymodemFile list \<Rightarrow> XymodemSender acts \<Rightarrow> bool" where
  "xok fs r \<longleftrightarrow> xinv fs (snd r) \<and>
     (Finished (Inr ()) \<in> set (fst r) \<longrightarrow>
        stage (snd r) = Done \<and> file_index (snd r) = length fs \<and>
        accepted_bytes (snd r) = sum_list (map fsize fs))"

lemma fail_ok: "xbase fs s \<Longrightarrow> xok fs (fail e s)"
  by (simp add: fail_def xok_def xinv_def xbase_def is_done_def xstage.simps)

lemma xstage_cong:
  assumes "offset s' = offset s" "sequence s' = sequence s" "protocol s' = protocol s" "file_index s' = file_index s"
    "files s' = files s" "pending_bytes s' = pending_bytes s" "last_packet s' = last_packet s" "crc s' = crc s"
  shows "xstage fs s' st = xstage fs s st"
  using assms by (cases st) (simp_all add: xstage.simps at_file_def at_block_def)

lemma xbase_cong:
  assumes "offset s' = offset s" "protocol s' = protocol s" "file_index s' = file_index s"
    "files s' = files s" "total_bytes s' = total_bytes s" "accepted_bytes s' = accepted_bytes s"
    "options s' = options s" "retries s' \<le> max_retries (options s)"
  shows "xbase fs s \<Longrightarrow> xbase fs s'"
  using assms by (simp add: xbase_def)

lemma retry_ok:
  assumes "xinv fs s"
  shows "xok fs (retry now e s)"
proof (cases "max_retries (options s) \<le> retries s")
  case True
  then show ?thesis
    using assms fail_ok by (simp add: retry_def xinv_def)
next
  case False
  let ?s = "snd (retry now e s)"
  have "xbase fs ?s"
    using assms False by (intro xbase_cong [of ?s s]) (simp_all add: retry_def Let_def xinv_def)
  moreover have "xstage fs ?s (stage s)"
    using assms False xstage_cong [of ?s s fs "stage s"] by (simp add: retry_def Let_def xinv_def)
  ultimately show ?thesis
    using False by (simp add: xok_def xinv_def retry_def Let_def)
qed

lemma block_size_full:
  "off < n \<Longrightarrow> off + min (n - off) (xy_block_size proto (n - off)) < n \<Longrightarrow>
    min (n - off) (xy_block_size proto (n - off)) = xy_unit proto"
  by (auto simp: xy_block_size_def xy_unit_def min_def split: if_split_asm)

lemma next_data_strong:
  assumes base: "xbase fs s" and cur: "at_file fs (offset s) s" and blk: "at_block fs s"
    and off: "offset s \<le> fsize (fs ! file_index s)"
  shows "\<exists>r. next_data now s = Some r \<and> xok fs r \<and> file_index (snd r) = file_index s \<and> offset (snd r) = offset s \<and>
    (fsize (fs ! file_index s) \<le> length (freader (fs ! file_index s)) \<longrightarrow> stage (snd r) \<in> {DataAck, EotAck})"
proof -
  define f where "f = fs ! file_index s"
  have f: "files s ! file_index s = f\<lparr>freader := drop (offset s) (freader f)\<rparr>" "file_index s < length fs"
      "length (files s) = length fs"
    using cur base by (simp_all add: at_file_def f_def xbase_def)
  show ?thesis
  proof (cases "fsize f - offset s = 0")
    case True
    define s' where "s' = s\<lparr>stage := EotAck, last_packet := [EOT], deadline := now + response_timeout (options s)\<rparr>"
    have "next_data now s = Some ([Send [EOT]], s')"
      using f True off by (simp add: next_data_def Let_def f_def [symmetric] send_def s'_def)
    moreover have "xinv fs s'"
      using base True off f(2) unfolding xinv_def
      by (auto simp: s'_def f_def xbase_def xstage.simps)
    ultimately show ?thesis
      by (simp add: xok_def s'_def)
  next
    case False
    define n where "n = min (fsize f - offset s) (xy_block_size (protocol s) (fsize f - offset s))"
    show ?thesis
    proof (cases "length (freader f) - offset s < n")
      case True
      let ?s = "s\<lparr>files := (files s)[file_index s := f\<lparr>freader := []\<rparr>]\<rparr>"
      have "next_data now s = Some (fail ReadFailed ?s)"
        using f True False off by (simp add: next_data_def Let_def f_def [symmetric] n_def)
      moreover have "xbase fs ?s"
        using base by (simp add: xbase_def)
      moreover have "\<not> fsize f \<le> length (freader f)"
        using True by (auto simp: n_def)
      ultimately show ?thesis
        using fail_ok by (simp add: f_def fail_def)
    next
      case enough: False
      define s' where "s' = s\<lparr>files := (files s)[file_index s := f\<lparr>freader := drop n (drop (offset s) (freader f))\<rparr>],
        pending_bytes := n, stage := DataAck,
        last_packet := packet (sequence s) (data_block (protocol s) f (offset s)) (crc s),
        deadline := now + response_timeout (options s)\<rparr>"
      have "next_data now s = Some ([Send (packet (sequence s) (data_block (protocol s) f (offset s)) (crc s))], s')"
        using f False enough off
        by (simp add: next_data_def Let_def f_def [symmetric] n_def [symmetric] send_def s'_def data_block_def
            del: min_less_iff_conj)
      moreover have "xbase fs s'"
        using base by (simp add: xbase_def s'_def)
      moreover have "xstage fs s' DataAck"
        using f False blk by (simp add: s'_def xstage.simps at_file_def at_block_def f_def [symmetric] n_def add.commute)
      moreover have "stage s' = DataAck" "file_index s' = file_index s" "offset s' = offset s"
        by (simp_all add: s'_def)
      ultimately show ?thesis
        by (simp add: xok_def xinv_def)
    qed
  qed
qed

lemma next_data_ok:
  assumes "xbase fs s" "at_file fs (offset s) s" "at_block fs s" "offset s \<le> fsize (fs ! file_index s)"
  shows "\<exists>r. next_data now s = Some r \<and> xok fs r"
  using next_data_strong [OF assms] by blast

subsection \<open>Replies\<close>

lemma send_ok:
  assumes "xbase fs s" "xstage fs (snd (send p now s)) (stage s)"
  shows "xok fs ([fst (send p now s)], snd (send p now s))"
  using assms by (simp add: send_def xok_def xinv_def xbase_def)

lemma at_file_upd [simp]:
  "at_file fs k (s\<lparr>last_can := b\<rparr>) = at_file fs k s"
  "at_file fs k (s\<lparr>crc := b\<rparr>) = at_file fs k s"
  "at_file fs k (s\<lparr>retries := r\<rparr>) = at_file fs k s"
  "at_file fs k (s\<lparr>offset := o'\<rparr>) = at_file fs k s"
  "at_file fs k (s\<lparr>accepted_bytes := o'\<rparr>) = at_file fs k s"
  "at_file fs k (s\<lparr>sequence := q\<rparr>) = at_file fs k s"
  "at_file fs k (s\<lparr>stage := st\<rparr>) = at_file fs k s"
  "at_file fs k (s\<lparr>deadline := d\<rparr>) = at_file fs k s"
  "at_file fs k (s\<lparr>last_packet := l\<rparr>) = at_file fs k s"
  by (simp_all add: at_file_def)

lemma header_block_ok:
  "length (fname f) + length (to_decimal (fsize f)) + 2 \<le> 128 \<Longrightarrow> \<exists>h. header_block f = Some h \<and> length h = 128"
  by (simp add: header_block_def Let_def)

lemma start_reply_ok:
  assumes "xinv fs s" "stage s = Start"
  shows "\<exists>r. start_reply byte now s = Some r \<and> xok fs r"
proof -
  define t where "t = s\<lparr>crc := (byte = CRC_REQUEST), retries := 0\<rparr>"
  have t: "xbase fs t" "offset t = 0" "sequence t = 1" "protocol t = Xmodem \<longrightarrow> file_index t = 0"
      "file_index t < length fs \<longrightarrow> at_file fs 0 t" "stage t = Start" "length (files t) = length fs"
    using assms by (auto simp: t_def xinv_def xbase_def xstage.simps)
  show ?thesis
  proof (cases "protocol t")
    case Xmodem
    then have "file_index t < length fs" "at_block fs t"
      using t by (auto simp: xbase_def at_block_def)
    then show ?thesis
      using next_data_ok [OF t(1), of now] t Xmodem by (simp add: start_reply_def t_def [symmetric])
  next
    case Ymodem
    show ?thesis
    proof (cases "file_index t < length fs")
      case True
      then have f: "files t ! file_index t = fs ! file_index t" and "fs ! file_index t \<in> set fs"
        using t(5) by (simp_all add: at_file_def)
      then obtain h where h: "header_block (files t ! file_index t) = Some h"
        using header_block_ok [of "fs ! file_index t"] t(1) Ymodem by (auto simp: xbase_def)
      let ?u = "t\<lparr>stage := HeaderAck\<rparr>"
      have "xbase fs ?u"
        using t(1) by (simp add: xbase_def)
      then have "xok fs ([fst (send (packet 0 h (crc t)) now ?u)], snd (send (packet 0 h (crc t)) now ?u))"
        using t True by (intro send_ok) (simp_all add: send_def xstage.simps)
      then show ?thesis
        using h True Ymodem t(7) by (simp add: start_reply_def t_def [symmetric] Let_def split_beta)
    next
      case False
      let ?u = "t\<lparr>stage := BatchAck\<rparr>"
      have "xbase fs ?u"
        using t(1) by (simp add: xbase_def)
      then have "xok fs ([fst (send (packet 0 (replicate 128 0) (crc t)) now ?u)], snd (send (packet 0 (replicate 128 0) (crc t)) now ?u))"
        using t False by (intro send_ok) (simp_all add: send_def xstage.simps xbase_def)
      then show ?thesis
        using False Ymodem t(7) by (simp add: start_reply_def t_def [symmetric] Let_def split_beta)
    qed
  qed
qed

lemma word_of_nat_Suc_u8: "word_of_nat (Suc n) = (word_of_nat n + 1 :: u8)"
  by simp

lemma data_acked_eq:
  assumes "xinv fs s" "stage s = DataAck"
  obtains u where "xbase fs u" "at_file fs (offset u) u" "at_block fs u" "offset u \<le> fsize (fs ! file_index u)"
    "file_index u = file_index s" "offset s < offset u" "offset s < fsize (fs ! file_index s)"
    "data_acked now s = map_option (\<lambda>(as, s'). (Progress (progress u) # as, s')) (next_data now u)"
proof -
  let ?f = "fs ! file_index s" and ?u = "xy_unit (protocol s)"
  define n where "n = pending_bytes s"
  have st: "at_file fs (offset s + n) s" "at_block fs s" "offset s < fsize ?f" "xbase fs s"
      "n = min (fsize ?f - offset s) (xy_block_size (protocol s) (fsize ?f - offset s))"
    using assms by (simp_all add: xinv_def xstage.simps n_def)
  define t where "t = s\<lparr>offset := offset s + n, accepted_bytes := accepted_bytes s + n,
    sequence := sequence s + 1, retries := 0\<rparr>"
  have "at_block fs t"
  proof (cases "offset s + n < fsize ?f")
    case True
    then have "n = ?u"
      using block_size_full [OF st(3)] st(5) by simp
    moreover have "?u dvd offset s" "sequence s = word_of_nat (1 + offset s div ?u)" "0 < ?u"
      using st(2,3) by (simp_all add: at_block_def xy_unit_def)
    ultimately show ?thesis
      using True by (simp add: at_block_def t_def div_add_self2 ac_simps)
  qed (simp add: at_block_def t_def)
  moreover have "0 < n"
    using st(3,5) by (simp add: xy_block_size_def)
  moreover have "xbase fs t"
    using st(4) by (simp add: t_def xbase_def)
  ultimately show ?thesis
    using that [of t] st(1,3,5) by (simp add: t_def data_acked_def Let_def n_def [symmetric])
qed

lemma data_acked_ok:
  assumes "xinv fs s" "stage s = DataAck"
  shows "\<exists>r. data_acked now s = Some r \<and> xok fs r"
proof -
  obtain u where u: "xbase fs u" "at_file fs (offset u) u" "at_block fs u" "offset u \<le> fsize (fs ! file_index u)"
    "data_acked now s = map_option (\<lambda>(as, s'). (Progress (progress u) # as, s')) (next_data now u)"
    using data_acked_eq [OF assms] by metis
  then obtain as t where "next_data now u = Some (as, t)" "xok fs (as, t)"
    using next_data_ok [OF u(1-4), of now] by fast
  then show ?thesis
    by (simp add: u(5) xok_def)
qed

lemma eot_acked_ok:
  assumes "xinv fs s" "stage s = EotAck"
  shows "xok fs (eot_acked now s)"
proof -
  have st: "file_index s < length fs" "offset s = fsize (fs ! file_index s)" "xbase fs s"
    using assms by (simp_all add: xinv_def xstage.simps)
  then have sums: "sum_list (map fsize (take (Suc (file_index s)) fs)) = accepted_bytes s"
    by (simp add: take_Suc_conv_app_nth xbase_def)
  have unread: "files s ! Suc (file_index s) = fs ! Suc (file_index s)" if "Suc (file_index s) < length fs"
    using st(3) that by (simp add: xbase_def)
  show ?thesis
  proof (cases "protocol s")
    case Xmodem
    then have "length fs = 1" "file_index s = 0"
      using st(1,3) by (simp_all add: xbase_def)
    then show ?thesis
      using Xmodem st sums by (simp add: eot_acked_def Let_def xok_def xinv_def xbase_def xstage.simps)
  next
    case Ymodem
    then show ?thesis
      using st sums unread
      by (auto simp: eot_acked_def Let_def xok_def xinv_def xbase_def xstage.simps at_file_def)
  qed
qed

lemma packet_recrc:
  "butlast (packet q d False) @ be_bytes 2 (crc16 (drop 3 (butlast (packet q d False)))) = packet q d True"
  "3 \<le> length (butlast (packet q d False))"
  by (simp_all add: packet_def butlast_append)

lemma resend_with_crc_ok:
  assumes "xinv fs s" "stage s = DataAck"
  shows "\<exists>r. resend_with_crc now s = Some r \<and> xok fs r"
proof (cases "crc s")
  case True
  then show ?thesis
    using retry_ok [OF assms(1)] by (simp add: resend_with_crc_def)
next
  case False
  define d where "d = data_block (protocol s) (fs ! file_index s) (offset s)"
  have lp: "last_packet s = packet (sequence s) d False"
    using assms False by (simp add: xinv_def xstage.simps d_def)
  let ?s = "s\<lparr>crc := True, last_packet := packet (sequence s) d True\<rparr>"
  have "xinv fs ?s"
    using assms unfolding xinv_def by (simp add: xstage.simps xbase_def at_block_def d_def)
  then show ?thesis
    using retry_ok [of fs ?s] False packet_recrc [of "sequence s" d]
    by (simp add: resend_with_crc_def Let_def lp)
qed

lemma xinv_can: "xinv fs s \<Longrightarrow> xinv fs (s\<lparr>last_can := b\<rparr>)"
  using xstage_cong [of "s\<lparr>last_can := b\<rparr>" s fs "stage s"] by (simp add: xinv_def xbase_def)

lemma xok_same: "xinv fs s \<Longrightarrow> xok fs ([], s)"
  by (simp add: xok_def)

lemma header_acked_ok:
  "xinv fs s \<Longrightarrow> stage s = HeaderAck \<Longrightarrow> xok fs ([], s\<lparr>stage := DataStart, retries := 0, deadline := d\<rparr>)"
  by (simp add: xok_def xinv_def xbase_def xstage.simps)

lemma data_start_ok:
  assumes "xinv fs s" "stage s = DataStart"
  shows "\<exists>r. next_data now (s\<lparr>crc := c, retries := 0\<rparr>) = Some r \<and> xok fs r"
  using assms
  by (intro next_data_ok) (auto simp: xinv_def xbase_def xstage.simps at_block_def)

lemma batch_acked_ok: "xinv fs s \<Longrightarrow> stage s = BatchAck \<Longrightarrow> xok fs ([Finished (Inr ())], s\<lparr>stage := Done\<rparr>)"
  by (simp add: xok_def xinv_def xbase_def xstage.simps)

lemmas reply_ok = start_reply_ok data_acked_ok eot_acked_ok resend_with_crc_ok header_acked_ok data_start_ok
  batch_acked_ok xok_same retry_ok

lemma feed_byte_ok:
  assumes "xinv fs s"
  shows "\<exists>r. feed_byte byte now s = Some r \<and> xok fs r"
proof (cases "byte = CAN")
  case True
  have base: "xbase fs s"
    using assms by (simp add: xinv_def)
  show ?thesis
  proof (cases "last_can s")
    case True
    obtain as t where f: "fail RemoteCancelled s = (as, t)" by fastforce
    then have "xok fs (as, t)"
      using fail_ok [OF base, of RemoteCancelled] by simp
    then have "xok fs (as, t\<lparr>last_can := True\<rparr>)"
      by (simp add: xok_def xinv_can)
    then show ?thesis
      using True \<open>byte = CAN\<close> f by (simp add: feed_byte_def)
  next
    case False
    then show ?thesis
      using \<open>byte = CAN\<close> assms by (simp add: feed_byte_def xok_def xinv_can)
  qed
next
  case False
  define t where "t = s\<lparr>last_can := False\<rparr>"
  have t: "xinv fs t" "xbase fs t"
    using xinv_can [OF assms, of False] by (simp_all add: t_def xinv_def)
  show ?thesis
    using False reply_ok [OF t(1)] fail_ok [OF t(2)]
    by (cases "stage t") (simp_all add: feed_byte_def Let_def t_def [symmetric] del: split_paired_Ex)
qed

lemma feed_loop_ok:
  "xinv fs s \<Longrightarrow> \<exists>r. feed_loop bs now s = Some r \<and> xok fs r"
proof (induction bs arbitrary: s)
  case (Cons b bs)
  show ?case
  proof (cases "is_done s")
    case False
    obtain as t where t: "feed_byte b now s = Some (as, t)" "xok fs (as, t)"
      using feed_byte_ok [OF Cons.prems] by fast
    then have "xinv fs t"
      by (simp add: xok_def)
    from Cons.IH [OF this] obtain as' u where u: "feed_loop bs now t = Some (as', u)" "xok fs (as', u)"
      by fast
    have "xok fs (as @ as', u)"
    proof (cases "Finished (Inr ()) \<in> set as")
      case True
      then have "is_done t" "file_index t = length fs" "accepted_bytes t = sum_list (map fsize fs)"
        using t(2) by (simp_all add: xok_def is_done_def)
      moreover have "u = t"
        using u(1) \<open>is_done t\<close> by (cases bs) simp_all
      ultimately show ?thesis
        using u(2) by (auto simp: xok_def is_done_def)
    next
      case False
      then show ?thesis
        using u(2) by (auto simp: xok_def)
    qed
    then show ?thesis
      using False t(1) u(1) by simp
  qed (use Cons.prems xok_same in simp)
qed (simp add: xok_same)

lemma initial_progress_ok: "xinv fs s \<Longrightarrow> xinv fs (snd (initial_progress s)) \<and> Finished (Inr ()) \<notin> set (fst (initial_progress s))"
  using xstage_cong [of "s\<lparr>initial_progress_emitted := True\<rparr>" s fs "stage s"]
  by (simp add: initial_progress_def xinv_def xbase_def)

lemma feed_ok:
  assumes "xinv fs s"
  shows "\<exists>r. feed bs now s = Some r \<and> xok fs r"
proof (cases "is_done s")
  case True
  then show ?thesis using assms xok_same by (simp add: feed_def)
next
  case False
  obtain as t where t: "initial_progress s = (as, t)" by fastforce
  then have "xinv fs t" "Finished (Inr ()) \<notin> set as"
    using initial_progress_ok [OF assms] by simp_all
  then obtain as' u where "feed_loop bs now t = Some (as', u)" "xok fs (as', u)"
    using feed_loop_ok [of fs t bs now] by fast
  then show ?thesis
    using False t \<open>Finished (Inr ()) \<notin> set as\<close> by (simp add: feed_def xok_def)
qed

lemma tick_ok:
  assumes "xinv fs s"
  shows "xok fs (tick now s)"
proof (cases "is_done s")
  case True
  then show ?thesis using assms xok_same by (simp add: tick_def)
next
  case False
  obtain as t where t: "initial_progress s = (as, t)" by fastforce
  then have t': "xinv fs t" "Finished (Inr ()) \<notin> set as"
    using initial_progress_ok [OF assms] by simp_all
  then show ?thesis
    using False t retry_ok [OF t'(1), of now TimedOut] by (auto simp: tick_def Let_def xok_def split: prod.split)
qed

subsection \<open>Runs\<close>

datatype XEvent = Feed "u8 list" nat | Tick nat | Cancel

fun xstep :: "XymodemSender \<Rightarrow> XEvent \<Rightarrow> XymodemSender acts option" where
  "xstep s (Feed bs now) = feed bs now s"
| "xstep s (Tick now) = Some (tick now s)"
| "xstep s Cancel = Some (cancel s)"

definition xnext :: "XymodemSender \<Rightarrow> XEvent \<Rightarrow> XymodemSender" where
  "xnext s e = (case xstep s e of Some (_, s') \<Rightarrow> s' | None \<Rightarrow> s)"

lemma xstep_ok: "xinv fs s \<Longrightarrow> \<exists>r. xstep s e = Some r \<and> xok fs r"
  by (cases e) (auto simp: feed_ok tick_ok cancel_def xinv_def intro: fail_ok simp del: split_paired_Ex)

interpretation xymodem_events: event_machine xnext "xinv fs" for fs
proof
  fix s e assume "xinv fs s"
  from xstep_ok [OF this, of e] show "xinv fs (xnext s e)"
    by (auto simp: xnext_def xok_def)
qed

lemma check_files_total: "check_files lower proto names n fs = Inr m \<Longrightarrow> m = n + sum_list (map fsize fs)"
  by (induction fs arbitrary: names n) (fastforce split: if_split_asm)+

lemma check_files_names:
  "check_files lower Ymodem names n fs = Inr m \<Longrightarrow> f \<in> set fs \<Longrightarrow>
    length (fname f) + length (to_decimal (fsize f)) + 2 \<le> 128"
  by (induction fs arbitrary: names n) (auto simp: bad_name_def split: if_split_asm)

lemma xymodem_new_inv:
  assumes "xymodem_new lower proto fs opts = Inr s"
  shows "xinv fs s"
proof -
  obtain m where m: "check_files lower proto [] 0 fs = Inr m"
    using assms by (auto simp: xymodem_new_def split: if_split_asm)
  then have "m = sum_list (map fsize fs)" "\<And>f. proto = Ymodem \<Longrightarrow> f \<in> set fs \<Longrightarrow> length (fname f) + length (to_decimal (fsize f)) + 2 \<le> 128"
    using check_files_total [OF m] check_files_names [of lower "[]" 0 fs m] by auto
  then show ?thesis
    using assms m by (auto simp: xymodem_new_def xinv_def xbase_def xstage.simps at_file_def split: if_split_asm)
qed

subsection \<open>A cooperative receiver\<close>

text \<open>The receiver that asks for CRC blocks and acknowledges everything.\<close>

fun receiver_reply :: "Stage \<Rightarrow> u8" where
  "receiver_reply Start = CRC_REQUEST"
| "receiver_reply DataStart = CRC_REQUEST"
| "receiver_reply _ = ACK"

fun stage_rank :: "Stage \<Rightarrow> nat" where
  "stage_rank Start = 6"
| "stage_rank HeaderAck = 5"
| "stage_rank DataStart = 4"
| "stage_rank DataAck = 3"
| "stage_rank EotAck = 2"
| "stage_rank BatchAck = 1"
| "stage_rank Done = 0"

definition xorder :: "XymodemFile list \<Rightarrow> (XymodemSender \<times> XymodemSender) set" where
  "xorder fs = measures [\<lambda>s. length fs - file_index s, \<lambda>s. stage_rank (stage s),
     \<lambda>s. fsize (fs ! file_index s) - offset s]"

definition readable :: "XymodemFile list \<Rightarrow> bool" where
  "readable fs \<longleftrightarrow> list_all (\<lambda>f. fsize f \<le> length (freader f)) fs"

lemma reply_codes: "ACK \<noteq> CAN" "CRC_REQUEST \<noteq> CAN" "CRC_REQUEST \<noteq> ACK" "ACK \<noteq> NAK" "CRC_REQUEST \<noteq> 0x47" "CRC_REQUEST \<noteq> NAK"
  by (simp_all add: ACK_def CAN_def CRC_REQUEST_def NAK_def)

lemma coop_next_data:
  assumes "readable fs" "xbase fs s" "at_file fs (offset s) s" "at_block fs s"
    "offset s \<le> fsize (fs ! file_index s)"
  shows "\<exists>as t. next_data now s = Some (as, t) \<and> xinv fs t \<and> file_index t = file_index s \<and> offset t = offset s \<and>
    stage t \<in> {DataAck, EotAck}"
proof -
  have "fs ! file_index s \<in> set fs"
    using assms(3) by (simp add: at_file_def)
  then have "fsize (fs ! file_index s) \<le> length (freader (fs ! file_index s))"
    using assms(1) by (auto simp: readable_def list_all_iff)
  then show ?thesis
    using next_data_strong [OF assms(2-5), of now] by (fastforce simp: xok_def)
qed

lemma wf_xorder: "wf (xorder fs)"
  by (simp add: xorder_def)

lemma xorder_less:
  "file_index t = file_index s \<Longrightarrow> stage_rank (stage t) < stage_rank (stage s) \<Longrightarrow> (t, s) \<in> xorder fs"
  by (simp add: xorder_def)

lemma start_reply_stage:
  "start_reply b now s = Some (as, t) \<Longrightarrow> protocol s = Ymodem \<Longrightarrow>
    file_index t = file_index s \<and> stage t \<in> {HeaderAck, BatchAck}"
  by (auto simp: start_reply_def send_def Let_def split: option.split_asm if_split_asm)

lemma coop_start:
  assumes "readable fs" "xinv fs s" "stage s = Start"
  shows "\<exists>as t. start_reply CRC_REQUEST now s = Some (as, t) \<and> xinv fs t \<and> (t, s) \<in> xorder fs \<and> stage t \<noteq> Done"
proof (cases "protocol s")
  case Ymodem
  obtain as t where t: "start_reply CRC_REQUEST now s = Some (as, t)" "xok fs (as, t)"
    using start_reply_ok [OF assms(2,3)] by fast
  then show ?thesis
    using start_reply_stage [OF t(1) Ymodem] assms(3) by (auto simp: xok_def xorder_def)
next
  case Xmodem
  define u where "u = s\<lparr>crc := True, retries := 0\<rparr>"
  have "file_index s < length fs"
    using assms(2,3) Xmodem by (auto simp: xinv_def xbase_def xstage.simps)
  then have "xbase fs u" "at_file fs (offset u) u" "at_block fs u" "offset u \<le> fsize (fs ! file_index u)"
    using assms(2,3) by (simp_all add: u_def xinv_def xbase_def xstage.simps at_block_def)
  from coop_next_data [OF assms(1) this, of now] obtain as t where
    "next_data now u = Some (as, t)" "xinv fs t" "file_index t = file_index u" "stage t \<in> {DataAck, EotAck}"
    by blast
  then show ?thesis
    using assms(3) Xmodem by (auto simp: start_reply_def u_def xorder_def)
qed

lemma coop_data_start:
  assumes "readable fs" "xinv fs s" "stage s = DataStart"
  shows "\<exists>as t. next_data now (s\<lparr>crc := True, retries := 0\<rparr>) = Some (as, t) \<and> xinv fs t \<and> (t, s) \<in> xorder fs \<and> stage t \<noteq> Done"
proof -
  define u where "u = s\<lparr>crc := True, retries := 0\<rparr>"
  have "xbase fs u" "at_file fs (offset u) u" "at_block fs u" "offset u \<le> fsize (fs ! file_index u)"
    using assms(2,3) by (simp_all add: u_def xinv_def xbase_def xstage.simps at_block_def)
  from coop_next_data [OF assms(1) this, of now] obtain as t where
    "next_data now u = Some (as, t)" "xinv fs t" "file_index t = file_index u" "stage t \<in> {DataAck, EotAck}"
    by blast
  then show ?thesis
    using assms(3) by (auto simp: u_def xorder_def)
qed

lemma coop_data_ack:
  assumes "readable fs" "xinv fs s" "stage s = DataAck"
  shows "\<exists>as t. data_acked now s = Some (as, t) \<and> xinv fs t \<and> (t, s) \<in> xorder fs \<and> stage t \<noteq> Done"
proof -
  obtain u where u: "xbase fs u" "at_file fs (offset u) u" "at_block fs u" "offset u \<le> fsize (fs ! file_index u)"
    "file_index u = file_index s" "offset s < offset u" "offset s < fsize (fs ! file_index s)"
    "data_acked now s = map_option (\<lambda>(as, s'). (Progress (progress u) # as, s')) (next_data now u)"
    by (rule data_acked_eq [OF assms(2,3)])
  from coop_next_data [OF assms(1) u(1-4), of now] obtain as t where
    "next_data now u = Some (as, t)" "xinv fs t" "file_index t = file_index u" "offset t = offset u"
    "stage t \<in> {DataAck, EotAck}"
    by blast
  then show ?thesis
    using assms(3) u(5-8) by (auto simp: xorder_def)
qed

lemma coop_step:
  assumes "readable fs" "xinv fs s" "stage s \<noteq> Done"
  shows "\<exists>as t. feed_byte (receiver_reply (stage s)) now s = Some (as, t) \<and> xinv fs t \<and> (t, s) \<in> xorder fs \<and>
    (stage t = Done \<longrightarrow> Finished (Inr ()) \<in> set as)"
proof -
  define u where "u = s\<lparr>last_can := False\<rparr>"
  have u: "xinv fs u" "stage u = stage s"
    using xinv_can [OF assms(2)] by (simp_all add: u_def)
  have ord: "(t, u) \<in> xorder fs \<longleftrightarrow> (t, s) \<in> xorder fs" for t
    by (simp add: xorder_def u_def)
  show ?thesis
  proof (cases "stage s")
    case Start
    then show ?thesis
      using coop_start [OF assms(1) u(1), of now] reply_codes
      by (auto simp: feed_byte_def u_def [symmetric] u(2) ord)
  next
    case HeaderAck
    then show ?thesis
      using header_acked_ok [OF u(1)] reply_codes
      by (auto simp: feed_byte_def u_def [symmetric] u(2) xok_def) (simp add: xorder_def u_def)
  next
    case DataStart
    then show ?thesis
      using coop_data_start [OF assms(1) u(1), of now] reply_codes
      by (auto simp: feed_byte_def u_def [symmetric] u(2) ord)
  next
    case DataAck
    then show ?thesis
      using coop_data_ack [OF assms(1) u(1), of now] reply_codes
      by (auto simp: feed_byte_def u_def [symmetric] u(2) ord)
  next
    case EotAck
    then have "file_index s < length fs"
      using assms(2) by (simp add: xinv_def xstage.simps)
    then show ?thesis
      using EotAck eot_acked_ok [OF u(1), of now] reply_codes
      by (auto simp: feed_byte_def u_def [symmetric] u(2) xok_def eot_acked_def Let_def)
        (auto simp: xorder_def u_def)
  next
    case BatchAck
    then show ?thesis
      using batch_acked_ok [OF u(1)] reply_codes
      by (auto simp: feed_byte_def u_def [symmetric] u(2) xok_def) (simp add: xorder_def u_def)
  qed (use assms(3) in simp)
qed

lemma coop_finishes:
  assumes "readable fs"
  shows "xinv fs s \<Longrightarrow> stage s \<noteq> Done \<Longrightarrow>
    \<exists>bytes as t. feed_loop bytes now s = Some (as, t) \<and> stage t = Done \<and> Finished (Inr ()) \<in> set as"
proof (induction s rule: wf_induct_rule [OF wf_xorder [of fs]])
  case (1 s)
  obtain as t where t: "feed_byte (receiver_reply (stage s)) now s = Some (as, t)" "xinv fs t" "(t, s) \<in> xorder fs"
      "stage t = Done \<longrightarrow> Finished (Inr ()) \<in> set as"
    using coop_step [OF assms 1(2,3)] by blast
  show ?case
  proof (cases "stage t = Done")
    case True
    then have "feed_loop [receiver_reply (stage s)] now s = Some (as, t)"
      using t 1(3) by (simp add: is_done_def)
    then show ?thesis
      using True t(4) by blast
  next
    case False
    then obtain bytes as' u where "feed_loop bytes now t = Some (as', u)" "stage u = Done" "Finished (Inr ()) \<in> set as'"
      using 1(1) [OF t(3,2)] by blast
    moreover from this have "feed_loop (receiver_reply (stage s) # bytes) now s = Some (as @ as', u)"
      using t(1) 1(3) by (simp add: is_done_def)
    ultimately show ?thesis
      by (metis Un_iff set_append)
  qed
qed

subsection \<open>Properties\<close>



text \<open>(C13) Progress. Whatever state a run has reached short of its end, if the files can deliver
  the bytes their sizes announce, there are receiver bytes after which the transfer
  finishes with success.\<close>

theorem xymodem_can_finish:
  assumes "xymodem_new lower proto fs opts = Inr s" "readable fs" "stage (foldl xnext s es) \<noteq> Done"
  shows "\<exists>bytes as t. feed bytes now (foldl xnext s es) = Some (as, t) \<and> stage t = Done \<and> Finished (Inr ()) \<in> set as"
proof -
  let ?s = "foldl xnext s es"
  obtain as u where u: "initial_progress ?s = (as, u)" by fastforce
  have "xinv fs ?s"
    by (rule xymodem_events.run_inv [OF xymodem_new_inv [OF assms(1)]])
  then have "xinv fs u" "stage u \<noteq> Done"
    using initial_progress_ok [of fs ?s] u assms(3) by (auto simp: initial_progress_def split: if_split_asm)
  from coop_finishes [OF assms(2) this, of now] obtain bytes as' t where
    "feed_loop bytes now u = Some (as', t)" "stage t = Done" "Finished (Inr ()) \<in> set as'" by blast
  then show ?thesis
    using u assms(3) by (intro exI [of _ bytes]) (simp add: feed_def is_done_def)
qed

theorem xymodem_can_finish_witness:
  "\<exists>s bytes as t. xymodem_new id Ymodem [\<lparr>fname = [0x61], fsize = 3, freader = [1, 2, 3]\<rparr>]
      \<lparr>response_timeout = 10, handshake_timeout = 10, max_retries = 3\<rparr> = Inr s \<and>
    feed bytes 5 s = Some (as, t) \<and> Finished (Inr ()) \<in> set as"
proof -
  obtain s where s: "xymodem_new id Ymodem [\<lparr>fname = [0x61], fsize = 3, freader = [1, 2, 3]\<rparr>]
      \<lparr>response_timeout = 10, handshake_timeout = 10, max_retries = 3\<rparr> = Inr s" "stage s = Start"
    by (simp add: xymodem_new_def bad_name_def to_decimal.simps)
  then show ?thesis
    using xymodem_can_finish [OF s(1), of "[]" 5] by (auto simp: readable_def)
qed

text \<open>Block checks. The CRC a block carries makes the CRC of block and check bytes zero, which is what a
  receiver tests; a block is three header bytes with the complemented sequence number, the data,
  and one or two check bytes.\<close>

theorem xymodem_crc_residue:
  "crc16 (data @ be_bytes 2 (crc16 data)) = 0 \<and>
    drop 3 (packet q data True) = data @ be_bytes 2 (crc16 data) \<and>
    packet q data c ! 1 = q \<and> packet q data c ! 2 = NOT q \<and>
    length (packet q data c) = length data + (if c then 5 else 4)"
  using crc16_residue by (simp add: packet_def)

end
