(* ===== verification/Char_Encoding.thy ===== *)
theory Char_Encoding
  imports Str_Ops
begin

text \<open>
  The shared character sets of \<open>nyaterm-core/src/character_encoding.rs\<close> and the cell
  widths of \<open>nyaterm-terminal/src/cells.rs\<close>. The codecs themselves (encoding_rs) and the
  Unicode width table (unicode-width) are parameters.
\<close>

subsection \<open>Characters of a string\<close>

text \<open>\<open>str::chars\<close>: the characters as their UTF-8 bytes, and their scalar values.\<close>

function str_chars :: "u8 list \<Rightarrow> u8 list list" where
  "str_chars bs =
     (if bs = [] then []
      else take (max 1 (utf8_char_len bs)) bs # str_chars (drop (max 1 (utf8_char_len bs)) bs))"
  by pat_completeness auto
termination
  by (relation "measure length") (auto simp: max_def)

declare str_chars.simps [simp del]

definition code_point :: "u8 list \<Rightarrow> nat" where
  "code_point c = (case c of
     [b0] \<Rightarrow> unat b0
   | [b0, b1] \<Rightarrow> unat b0 mod 32 * 64 + unat b1 mod 64
   | [b0, b1, b2] \<Rightarrow> (unat b0 mod 16 * 64 + unat b1 mod 64) * 64 + unat b2 mod 64
   | [b0, b1, b2, b3] \<Rightarrow>
       ((unat b0 mod 8 * 64 + unat b1 mod 64) * 64 + unat b2 mod 64) * 64 + unat b3 mod 64
   | _ \<Rightarrow> 0)"

text \<open>The characters with the Unicode property White_Space, and \<open>str::trim\<close>.\<close>

definition white_space :: "u8 list list" where
  "white_space =
     [[0x09], [0x0A], [0x0B], [0x0C], [0x0D], [0x20], [0xC2, 0x85], [0xC2, 0xA0],
      [0xE1, 0x9A, 0x80], [0xE2, 0x80, 0x80], [0xE2, 0x80, 0x81], [0xE2, 0x80, 0x82],
      [0xE2, 0x80, 0x83], [0xE2, 0x80, 0x84], [0xE2, 0x80, 0x85], [0xE2, 0x80, 0x86],
      [0xE2, 0x80, 0x87], [0xE2, 0x80, 0x88], [0xE2, 0x80, 0x89], [0xE2, 0x80, 0x8A],
      [0xE2, 0x80, 0xA8], [0xE2, 0x80, 0xA9], [0xE2, 0x80, 0xAF], [0xE2, 0x81, 0x9F],
      [0xE3, 0x80, 0x80]]"

definition str_trim :: "u8 list \<Rightarrow> u8 list" where
  "str_trim s =
     concat (rev (dropWhile (\<lambda>c. c \<in> set white_space)
       (rev (dropWhile (\<lambda>c. c \<in> set white_space) (str_chars s)))))"

definition to_ascii_lowercase :: "u8 list \<Rightarrow> u8 list" where
  "to_ascii_lowercase = map (\<lambda>b. if 0x41 \<le> b \<and> b \<le> 0x5A then b + 0x20 else b)"

definition eq_ignore_ascii_case :: "u8 list \<Rightarrow> u8 list \<Rightarrow> bool" where
  "eq_ignore_ascii_case s t \<longleftrightarrow> to_ascii_lowercase s = to_ascii_lowercase t"

subsection \<open>The catalogue of encodings\<close>

datatype CharacterEncoding = EncUtf8 | EncGbk | EncGb18030 | EncBig5 | EncShiftJis | EncEucKr

datatype EncodingError =
  UnsupportedEncoding
| InvalidUtf8Input
| UnrepresentableText CharacterEncoding

definition encodings_ALL :: "CharacterEncoding list" where
  "encodings_ALL = [EncUtf8, EncGbk, EncGb18030, EncBig5, EncShiftJis, EncEucKr]"

definition encoding_default :: CharacterEncoding where
  "encoding_default = EncUtf8"

definition parse_encoding :: "u8 list \<Rightarrow> EncodingError + CharacterEncoding" where
  "parse_encoding label_text =
     (let l = to_ascii_lowercase (str_trim label_text) in
      if l \<in> {ascii ''utf8'', ascii ''utf-8''} then Inr EncUtf8
      else if l \<in> {ascii ''gbk'', ascii ''gb2312'', ascii ''cp936''} then Inr EncGbk
      else if l = ascii ''gb18030'' then Inr EncGb18030
      else if l = ascii ''big5'' then Inr EncBig5
      else if l \<in> {ascii ''shift_jis'', ascii ''shift-jis'', ascii ''sjis''} then Inr EncShiftJis
      else if l \<in> {ascii ''euc-kr'', ascii ''euckr''} then Inr EncEucKr
      else Inl UnsupportedEncoding)"

fun encoding_label :: "CharacterEncoding \<Rightarrow> u8 list" where
  "encoding_label EncUtf8 = ascii ''UTF-8''"
| "encoding_label EncGbk = ascii ''GBK''"
| "encoding_label EncGb18030 = ascii ''GB18030''"
| "encoding_label EncBig5 = ascii ''Big5''"
| "encoding_label EncShiftJis = ascii ''Shift_JIS''"
| "encoding_label EncEucKr = ascii ''EUC-KR''"

lemma parse_encoding_label: "parse_encoding (encoding_label e) = Inr e"
  by (induction e) code_simp+

text \<open>
  \<open>encode\<close>: the codec returns the bytes and whether some character had no representation.
\<close>

definition encode_text ::
  "(CharacterEncoding \<Rightarrow> u8 list \<Rightarrow> u8 list \<times> bool) \<Rightarrow> CharacterEncoding \<Rightarrow> u8 list \<Rightarrow>
   EncodingError + u8 list" where
  "encode_text codec_encode e text_bytes =
     (let (bytes, had_errors) = codec_encode e text_bytes in
      if had_errors then Inl (UnrepresentableText e) else Inr bytes)"

definition resolve_connection :: "u8 list \<Rightarrow> u8 list \<Rightarrow> EncodingError + CharacterEncoding" where
  "resolve_connection label_text dflt =
     (if str_trim label_text = []
        \<or> eq_ignore_ascii_case (str_trim label_text) (ascii ''global'')
      then parse_encoding dflt
      else parse_encoding label_text)"

definition resolve_filename :: "u8 list \<Rightarrow> u8 list \<Rightarrow> EncodingError + CharacterEncoding" where
  "resolve_filename label_text terminal =
     (if str_trim label_text = []
        \<or> eq_ignore_ascii_case (str_trim label_text) (ascii ''terminal'')
        \<or> eq_ignore_ascii_case (str_trim label_text) (ascii ''global'')
      then parse_encoding terminal
      else parse_encoding label_text)"

subsection \<open>Terminal cells\<close>

definition terminal_is_zero_width_mark :: "(nat \<Rightarrow> nat option) \<Rightarrow> nat \<Rightarrow> bool" where
  "terminal_is_zero_width_mark char_width ch \<longleftrightarrow>
     char_width ch = Some 0
   \<or> (0x0300 \<le> ch \<and> ch \<le> 0x036f) \<or> (0x1ab0 \<le> ch \<and> ch \<le> 0x1aff)
   \<or> (0x1dc0 \<le> ch \<and> ch \<le> 0x1dff) \<or> (0x20d0 \<le> ch \<and> ch \<le> 0x20ff)
   \<or> (0xfe20 \<le> ch \<and> ch \<le> 0xfe2f)"

definition terminal_char_cell_width :: "(nat \<Rightarrow> nat option) \<Rightarrow> nat \<Rightarrow> nat" where
  "terminal_char_cell_width char_width ch =
     max 1 (case char_width ch of None \<Rightarrow> 0 | Some w \<Rightarrow> w)"

definition terminal_cell_count :: "(nat \<Rightarrow> nat option) \<Rightarrow> u8 list \<Rightarrow> nat" where
  "terminal_cell_count char_width text_bytes =
     foldl (\<lambda>cells ch.
         if terminal_is_zero_width_mark char_width ch \<and> cells > 0 then cells
         else cells + terminal_char_cell_width char_width ch)
       0 (map code_point (str_chars text_bytes))"

end
