(* ===== verification/Telnet.thy ===== *)
theory Telnet
  imports Char_Encoding
begin

text \<open>
  The Telnet transport: the command codec (\<open>telnet_codec.rs\<close>), the local line editor
  (\<open>telnet_input.rs\<close>) and what the reader thread does with one read
  (\<open>transport_io.rs\<close>). The text codec behind the line editor is a parameter.
\<close>

subsection \<open>Codec\<close>

definition IAC :: u8 where "IAC = 255"
definition NOP :: "u8 list" where "NOP = [IAC, 241]"
definition WILL :: u8 where "WILL = 251"
definition WONT :: u8 where "WONT = 252"
definition DO :: u8 where "DO = 253"
definition DONT :: u8 where "DONT = 254"
definition SB :: u8 where "SB = 250"
definition SE :: u8 where "SE = 240"
definition OPT_ECHO :: u8 where "OPT_ECHO = 1"
definition OPT_SUPPRESS_GO_AHEAD :: u8 where "OPT_SUPPRESS_GO_AHEAD = 3"
definition OPT_NAWS :: u8 where "OPT_NAWS = 31"

lemmas telnet_consts =
  IAC_def WILL_def WONT_def DO_def DONT_def SB_def SE_def
  OPT_ECHO_def OPT_SUPPRESS_GO_AHEAD_def OPT_NAWS_def

datatype TelnetEnterMode = EnterCrlf | EnterCr | EnterLf

record TelnetSessionConfig =
  raw_tcp :: bool
  enter_mode :: TelnetEnterMode
  local_echo :: bool
  local_line_edit :: bool
  send_naws :: bool
  send_sga :: bool
  encoding :: "u8 list"

definition negotiate_response :: "u8 \<Rightarrow> u8 \<Rightarrow> bool \<Rightarrow> bool \<Rightarrow> u8 list" where
  "negotiate_response command opt naws sga =
     (if command = WILL then
        (if opt = OPT_ECHO \<or> (sga \<and> opt = OPT_SUPPRESS_GO_AHEAD)
         then [IAC, DO, opt] else [IAC, DONT, opt])
      else if command = DO then
        (if naws \<and> opt = OPT_NAWS then [IAC, WILL, opt] else [IAC, WONT, opt])
      else if command = WONT then [IAC, DONT, opt]
      else if command = DONT then [IAC, WONT, opt]
      else [])"

definition maybe_build_naws :: "u16 \<Rightarrow> u16 \<Rightarrow> TelnetSessionConfig \<Rightarrow> u8 list option" where
  "maybe_build_naws cols rows config =
     (if raw_tcp config \<or> \<not> send_naws config then None
      else Some [IAC, SB, OPT_NAWS,
                 ucast (drop_bit 8 cols), ucast (cols AND 0xff),
                 ucast (drop_bit 8 rows), ucast (rows AND 0xff), IAC, SE])"

fun unescape_iac_iac :: "u8 list \<Rightarrow> u8 list" where
  "unescape_iac_iac (a # b # r) =
     (if a = IAC \<and> b = IAC then IAC # unescape_iac_iac r else a # unescape_iac_iac (b # r))"
| "unescape_iac_iac r = r"

text \<open>The inner loop of \<open>SB\<close>: skip to behind the next \<open>IAC SE\<close>, or to the end.\<close>

fun skip_sub :: "u8 list \<Rightarrow> u8 list" where
  "skip_sub [] = []"
| "skip_sub (b # r) = (if b = IAC \<and> r \<noteq> [] \<and> hd r = SE then tl r else skip_sub r)"

lemma skip_sub_length [simp]: "length (skip_sub r) \<le> length r"
  by (induction r) (auto simp: le_SucI le_diff_conv)

text \<open>The visible bytes and the calls of \<open>on_negotiate\<close>, in order.\<close>

function strip_telnet_commands :: "u8 list \<Rightarrow> u8 list \<times> (u8 \<times> u8) list" where
  "strip_telnet_commands [] = ([], [])"
| "strip_telnet_commands (b # r) =
     (if b = IAC \<and> r \<noteq> [] then
        (let command = hd r; r1 = tl r in
         if command = IAC then apfst ((#) IAC) (strip_telnet_commands r1)
         else if command = WILL \<or> command = WONT \<or> command = DO \<or> command = DONT then
           (if r1 \<noteq> [] then apsnd ((#) (command, hd r1)) (strip_telnet_commands (tl r1))
            else strip_telnet_commands r1)
         else if command = SB then strip_telnet_commands (skip_sub r1)
         else strip_telnet_commands r1)
      else apfst ((#) b) (strip_telnet_commands r))"
  by pat_completeness auto
termination
  by (relation "measure length") (auto simp: le_imp_less_Suc le_SucI less_Suc_eq_le
        intro: order_trans [OF skip_sub_length])

definition escape_telnet_application_data :: "u8 list \<Rightarrow> bool \<Rightarrow> u8 list" where
  "escape_telnet_application_data d raw =
     (if raw then d else concat (map (\<lambda>byte. if byte = IAC then [byte, IAC] else [byte]) d))"

text \<open>One successful read: the visible bytes and the replies given to \<open>queue_telnet_control\<close>.\<close>

definition reader_read :: "TelnetSessionConfig \<Rightarrow> u8 list \<Rightarrow> u8 list \<times> u8 list list" where
  "reader_read config buffer =
     (if raw_tcp config then (unescape_iac_iac buffer, [])
      else (let (visible, calls) = strip_telnet_commands buffer in
        (visible,
         filter (\<lambda>response. response \<noteq> [])
           (map (\<lambda>(command, opt).
              negotiate_response command opt (send_naws config) (send_sga config)) calls))))"

subsection \<open>Local line editor\<close>

datatype EscapeState =
  Ground | Escape | Csi | Ss3 | Osc | OscEscape | ControlString | ControlStringEscape

record TelnetInputState =
  ti_line :: "u8 list"
  ti_escape :: EscapeState

definition input_default :: TelnetInputState where
  "input_default = \<lparr>ti_line = [], ti_escape = Ground\<rparr>"

text \<open>The match of \<open>EscapeState::consume\<close>, arm by arm.\<close>

definition consume_next :: "EscapeState \<Rightarrow> u8 \<Rightarrow> EscapeState" where
  "consume_next s byte =
     (if s = Escape \<and> byte = 0x5B then Csi
      else if s = Escape \<and> byte = 0x4F then Ss3
      else if s = Escape \<and> byte = 0x5D then Osc
      else if s = Escape \<and> byte \<in> {0x50, 0x58, 0x5E, 0x5F} then ControlString
      else if s = Escape \<and> 0x20 \<le> byte \<and> byte \<le> 0x2f then Escape
      else if s \<in> {Csi, Ss3} \<and> 0x40 \<le> byte \<and> byte \<le> 0x7e then Ground
      else if s = Osc \<and> byte = 0x07 then Ground
      else if s = Osc \<and> byte = 0x1b then OscEscape
      else if s \<in> {OscEscape, ControlStringEscape} \<and> byte = 0x5C then Ground
      else if s = OscEscape \<and> byte = 0x1b then OscEscape
      else if s = OscEscape then Osc
      else if s = ControlString \<and> byte = 0x1b then ControlStringEscape
      else if s = ControlStringEscape \<and> byte = 0x1b then ControlStringEscape
      else if s = ControlStringEscape then ControlString
      else if byte = 0x1b then Escape
      else if s = Escape then Ground
      else s)"

definition consume :: "EscapeState \<Rightarrow> u8 \<Rightarrow> EscapeState \<times> bool" where
  "consume s byte =
     (if s = Ground then (if byte = 0x1b then (Escape, True) else (s, False))
      else if s \<in> {Escape, Csi, Ss3} \<and> byte < 0x20 \<and> byte \<noteq> 0x1b then (Ground, False)
      else (consume_next s byte, True))"

fun enter_bytes :: "TelnetEnterMode \<Rightarrow> u8 list" where
  "enter_bytes EnterCr = [0x0D]"
| "enter_bytes EnterLf = [0x0A]"
| "enter_bytes EnterCrlf = [0x0D, 0x0A]"

text \<open>
  The codec's decoder and the width table: \<open>decode e bytes\<close> is the text of
  \<open>decode_without_bom_handling_and_without_replacement\<close>.
\<close>

type_synonym text_codec =
  "(CharacterEncoding \<Rightarrow> u8 list \<Rightarrow> u8 list option) \<times> (nat \<Rightarrow> nat option)"

definition session_encoding :: "TelnetSessionConfig \<Rightarrow> CharacterEncoding" where
  "session_encoding config =
     (case parse_encoding (encoding config) of Inl _ \<Rightarrow> encoding_default | Inr e \<Rightarrow> e)"

text \<open>The character at the front of \<open>tail\<close>: its length and cells, \<open>(1, 1)\<close> if none decodes.\<close>

fun find_char :: "text_codec \<Rightarrow> CharacterEncoding \<Rightarrow> u8 list \<Rightarrow> nat list \<Rightarrow> nat \<times> nat" where
  "find_char codec e t [] = (1, 1)"
| "find_char codec e t (len # lens) =
     (case fst codec e (take len t) of
        Some decoded \<Rightarrow> (len, terminal_cell_count (snd codec) decoded)
      | None \<Rightarrow> find_char codec e t lens)"

definition front_char :: "text_codec \<Rightarrow> CharacterEncoding \<Rightarrow> u8 list \<Rightarrow> nat \<times> nat" where
  "front_char codec e t = find_char codec e t [1..<Suc (min 4 (length t))]"

lemma find_char_pos: "0 \<notin> set lens \<Longrightarrow> 0 < fst (find_char codec e t lens)"
  by (induction lens) (auto split: option.split)

lemma front_char_pos: "0 < fst (front_char codec e t)"
  unfolding front_char_def by (rule find_char_pos) auto

text \<open>The loop of \<open>backspace\<close>: start and width of the last character.\<close>

function last_char :: "text_codec \<Rightarrow> CharacterEncoding \<Rightarrow> u8 list \<Rightarrow> nat \<Rightarrow> nat \<Rightarrow> nat \<Rightarrow> nat \<times> nat" where
  "last_char codec e l index start width =
     (if index < length l then
        (let (len, cells) = front_char codec e (drop index l) in
         last_char codec e l (index + len) index cells)
      else (start, width))"
  by pat_completeness auto
termination
proof (relation "measure (\<lambda>(codec, e, l, index, start, width). length l - index)", goal_cases)
  case (2 codec e l index start width p len cells)
  have "0 < len" using 2(2,3) front_char_pos [of codec e "drop index l"] by (metis fst_conv)
  with 2(1) show ?case by simp
qed simp

declare last_char.simps [simp del]

definition backspace ::
  "text_codec \<Rightarrow> TelnetSessionConfig \<Rightarrow> bool \<Rightarrow> TelnetInputState \<Rightarrow> TelnetInputState \<times> u8 list" where
  "backspace codec config echo st =
     (if ti_line st = [] then (st, [])
      else (let (start, width) = last_char codec (session_encoding config) (ti_line st) 0 0 1 in
        (st\<lparr>ti_line := take start (ti_line st)\<rparr>,
         if echo then concat (replicate width [0x08, 0x20, 0x08]) else [])))"

definition emit ::
  "u8 list \<Rightarrow> u8 list \<Rightarrow> TelnetInputState \<times> u8 list \<times> u8 list \<Rightarrow>
   TelnetInputState \<times> u8 list \<times> u8 list" where
  "emit s e r = (let (st, s', e') = r in (st, s @ s', e @ e'))"

text \<open>The loop of \<open>process\<close>: the new state, the bytes to send and the local echo.\<close>

function process_loop ::
  "text_codec \<Rightarrow> TelnetSessionConfig \<Rightarrow> bool \<Rightarrow> bool \<Rightarrow> TelnetInputState \<Rightarrow> u8 list \<Rightarrow>
   TelnetInputState \<times> u8 list \<times> u8 list" where
  "process_loop codec config line_edit echo st [] = (st, [], [])"
| "process_loop codec config line_edit echo st (byte # rest) =
     (if line_edit \<and> ti_escape st = Ground \<and> take 4 (byte # rest) = [0x1b, 0x5B, 0x33, 0x7E] then
        (let (st1, e) = backspace codec config echo st in
         emit [] e (process_loop codec config line_edit echo st1 (drop 3 rest)))
      else
        (let (esc, consumed) = consume (ti_escape st) byte; st1 = st\<lparr>ti_escape := esc\<rparr> in
         if consumed then emit [byte] [] (process_loop codec config line_edit echo st1 rest)
         else if byte = 0x0D \<or> byte = 0x0A then
           emit ((if line_edit then ti_line st1 else []) @ enter_bytes (enter_mode config))
                (if echo then [0x0D, 0x0A] else [])
             (process_loop codec config line_edit echo
               (if line_edit then st1\<lparr>ti_line := []\<rparr> else st1)
               (if byte = 0x0D \<and> rest \<noteq> [] \<and> hd rest = 0x0A then tl rest else rest))
         else if (byte = 0x08 \<or> byte = 0x7f) \<and> line_edit then
           (let (st2, e) = backspace codec config echo st1 in
            emit [] e (process_loop codec config line_edit echo st2 rest))
         else if byte \<le> 0x1f \<or> byte = 0x7f then
           emit [byte] (if echo \<and> byte = 0x09 then [byte] else [])
             (process_loop codec config line_edit echo st1 rest)
         else
           emit (if line_edit then [] else [byte]) (if echo then [byte] else [])
             (process_loop codec config line_edit echo
               (if line_edit then st1\<lparr>ti_line := ti_line st1 @ [byte]\<rparr> else st1) rest)))"
  by pat_completeness auto
termination
  by (relation "measure (\<lambda>(codec, config, line_edit, echo, st, d). length d)")
     (auto simp: le_imp_less_Suc le_SucI)

definition process ::
  "text_codec \<Rightarrow> TelnetSessionConfig \<Rightarrow> bool \<Rightarrow> bool \<Rightarrow> TelnetInputState \<Rightarrow> u8 list \<Rightarrow>
   TelnetInputState \<times> u8 list \<times> u8 list" where
  "process codec config line_edit echo st d =
     (let (st1, s, e) = process_loop codec config line_edit echo st d in
      (st1, escape_telnet_application_data s (raw_tcp config), e))"

definition prepare ::
  "text_codec \<Rightarrow> TelnetSessionConfig \<Rightarrow> TelnetInputState \<Rightarrow> u8 list \<Rightarrow>
   TelnetInputState \<times> u8 list \<times> u8 list" where
  "prepare codec config st d =
     process codec config (local_line_edit config) (local_echo config) st d"

definition normalize_telnet_input :: "text_codec \<Rightarrow> u8 list \<Rightarrow> TelnetSessionConfig \<Rightarrow> u8 list" where
  "normalize_telnet_input codec d config =
     (let (_, s, _) = process codec config False False input_default d in s)"

definition telnet_auto_login_line_bytes ::
  "text_codec \<Rightarrow> u8 list \<Rightarrow> TelnetSessionConfig \<Rightarrow> u8 list" where
  "telnet_auto_login_line_bytes codec v config =
     normalize_telnet_input codec (v @ [0x0D]) config"

subsection \<open>The command stream\<close>

lemma strip_plain: "b \<noteq> IAC \<Longrightarrow> strip_telnet_commands (b # r) = apfst ((#) b) (strip_telnet_commands r)"
  by simp

lemma strip_iac_iac:
  "strip_telnet_commands (IAC # IAC # r) = apfst ((#) IAC) (strip_telnet_commands r)"
  by simp

lemma escape_simps [simp]:
  "escape_telnet_application_data [] False = []"
  "escape_telnet_application_data (b # d) False =
     (if b = IAC then [IAC, IAC] else [b]) @ escape_telnet_application_data d False"
  by (simp_all add: escape_telnet_application_data_def)

lemma strip_escape:
  "strip_telnet_commands (escape_telnet_application_data d False @ r) =
     apfst ((@) d) (strip_telnet_commands r)"
proof (induction d)
  case (Cons b d)
  then show ?case
    by (cases "b = IAC"; cases "strip_telnet_commands r")
       (simp_all add: strip_plain strip_iac_iac del: strip_telnet_commands.simps)
qed (cases "strip_telnet_commands r", simp)

text \<open>What a peer sends, per RFC 854: data, option negotiations, subnegotiations, commands.\<close>

datatype telnet_item =
  Data "u8 list"
| Negotiation u8 u8
| Subnegotiation u8 "u8 list"
| Command u8

fun item_bytes :: "telnet_item \<Rightarrow> u8 list" where
  "item_bytes (Data d) = escape_telnet_application_data d False"
| "item_bytes (Negotiation c opt) = [IAC, c, opt]"
| "item_bytes (Subnegotiation opt p) =
     [IAC, SB, opt] @ escape_telnet_application_data p False @ [IAC, SE]"
| "item_bytes (Command c) = [IAC, c]"

fun no_iac_se :: "u8 list \<Rightarrow> bool" where
  "no_iac_se (a # b # r) \<longleftrightarrow> \<not> (a = IAC \<and> b = SE) \<and> no_iac_se (b # r)"
| "no_iac_se r \<longleftrightarrow> True"

fun item_ok :: "telnet_item \<Rightarrow> bool" where
  "item_ok (Data d) \<longleftrightarrow> True"
| "item_ok (Negotiation c opt) \<longleftrightarrow> c \<in> {WILL, WONT, DO, DONT}"
| "item_ok (Subnegotiation opt p) \<longleftrightarrow> no_iac_se (opt # p)"
| "item_ok (Command c) \<longleftrightarrow> c \<notin> {IAC, WILL, WONT, DO, DONT, SB}"

fun item_data :: "telnet_item \<Rightarrow> u8 list" where
  "item_data (Data d) = d"
| "item_data _ = []"

fun item_negotiation :: "telnet_item \<Rightarrow> (u8 \<times> u8) list" where
  "item_negotiation (Negotiation c opt) = [(c, opt)]"
| "item_negotiation _ = []"

lemma escape_head:
  "escape_telnet_application_data p False @ IAC # s \<noteq> []"
  "hd (escape_telnet_application_data p False @ IAC # s) = (if p = [] then IAC else hd p)"
  by (cases p; simp)+

lemma skip_sub_escape:
  "no_iac_se p \<Longrightarrow> skip_sub (escape_telnet_application_data p False @ IAC # SE # r) = r"
proof (induction p)
  case (Cons b p)
  then have "no_iac_se p" by (cases p) simp_all
  moreover have "b = IAC \<Longrightarrow> (if p = [] then IAC else hd p) \<noteq> SE"
    using Cons.prems by (cases p) (auto simp: telnet_consts)
  moreover have "IAC \<noteq> SE" by (simp add: telnet_consts)
  ultimately show ?case using Cons.IH by (simp add: escape_head)
qed simp

lemma skip_sub_option:
  assumes "no_iac_se (opt # p)"
  shows "skip_sub (opt # escape_telnet_application_data p False @ IAC # SE # r) = r"
proof -
  have "no_iac_se p" using assms by (cases p) simp_all
  moreover have "opt = IAC \<Longrightarrow> (if p = [] then IAC else hd p) \<noteq> SE"
    using assms by (cases p) (auto simp: telnet_consts)
  moreover have "IAC \<noteq> SE" by (simp add: telnet_consts)
  ultimately show ?thesis by (auto simp: escape_head skip_sub_escape)
qed

lemma strip_item:
  assumes "item_ok i"
  shows "strip_telnet_commands (item_bytes i @ r) =
    (item_data i @ fst (strip_telnet_commands r), item_negotiation i @ snd (strip_telnet_commands r))"
proof (cases i)
  case (Data d)
  then show ?thesis by (simp add: strip_escape apfst_def map_prod_def split_beta)
next
  case (Negotiation c opt)
  then show ?thesis using assms
    by (auto simp: telnet_consts apsnd_def map_prod_def split_beta)
next
  case (Subnegotiation opt p)
  have "strip_telnet_commands (IAC # SB # q) = strip_telnet_commands (skip_sub q)" for q
    by (simp add: telnet_consts)
  then show ?thesis using assms Subnegotiation
    by (simp add: skip_sub_option del: strip_telnet_commands.simps skip_sub.simps)
next
  case (Command c)
  then show ?thesis using assms by (simp add: Let_def)
qed

lemma strip_items:
  "\<forall>i \<in> set is. item_ok i \<Longrightarrow>
   strip_telnet_commands (concat (map item_bytes is)) =
     (concat (map item_data is), concat (map item_negotiation is))"
  by (induction "is") (simp_all add: strip_item del: strip_telnet_commands.simps(2))

text \<open>The reply a negotiation deserves: only supported options are agreed to.\<close>

definition agrees :: "TelnetSessionConfig \<Rightarrow> u8 \<Rightarrow> u8 \<Rightarrow> bool" where
  "agrees config c opt \<longleftrightarrow>
     c = WILL \<and> (opt = OPT_ECHO \<or> (send_sga config \<and> opt = OPT_SUPPRESS_GO_AHEAD))
   \<or> c = DO \<and> send_naws config \<and> opt = OPT_NAWS"

definition answer :: "TelnetSessionConfig \<Rightarrow> u8 \<times> u8 \<Rightarrow> u8 \<times> u8" where
  "answer config n =
     (let (c, opt) = n in
      (if c \<in> {WILL, WONT} then (if agrees config c opt then DO else DONT)
       else (if agrees config c opt then WILL else WONT), opt))"

lemma negotiate_response_answer:
  assumes "c \<in> {WILL, WONT, DO, DONT}"
  shows "negotiate_response c opt (send_naws config) (send_sga config) =
         item_bytes (Negotiation (fst (answer config (c, opt))) (snd (answer config (c, opt))))"
  using assms by (auto simp: negotiate_response_def answer_def agrees_def telnet_consts)

lemma answer_ok: "item_ok (Negotiation (fst (answer config n)) (snd (answer config n)))"
  by (simp add: answer_def split_beta)

lemma strip_answers:
  assumes "\<forall>(c, opt) \<in> set ns. c \<in> {WILL, WONT, DO, DONT}"
  shows "strip_telnet_commands (concat (map (\<lambda>(c, opt).
           negotiate_response c opt (send_naws config) (send_sga config)) ns)) =
         ([], map (answer config) ns)"
  using assms
proof (induction ns)
  case (Cons n ns)
  obtain c opt where n: "n = (c, opt)" by (cases n)
  then have "negotiate_response c opt (send_naws config) (send_sga config) =
      item_bytes (Negotiation (fst (answer config n)) (snd (answer config n)))"
    using Cons.prems by (simp only: n) (rule negotiate_response_answer, auto)
  then show ?case
    using Cons n strip_item [OF answer_ok, of config n]
    by (simp del: strip_telnet_commands.simps item_bytes.simps)
qed simp

lemma items_negotiations:
  "\<forall>i \<in> set is. item_ok i \<Longrightarrow>
   \<forall>(c, opt) \<in> set (concat (map item_negotiation is)). c \<in> {WILL, WONT, DO, DONT}"
proof (induction "is")
  case (Cons i "is")
  then show ?case by (cases i) auto
qed simp

lemma concat_filter_nonempty: "concat (filter (\<lambda>r. r \<noteq> []) rs) = concat rs"
  by (induction rs) auto


definition demo_config :: TelnetSessionConfig where
  "demo_config = \<lparr>raw_tcp = False, enter_mode = EnterCrlf, local_echo = True,
     local_line_edit = True, send_naws = True, send_sga = False, encoding = ascii ''utf-8''\<rparr>"




subsection \<open>Window size\<close>

text \<open>
  RFC 1073 with the escaping of RFC 855: the payload of a subnegotiation up to \<open>IAC SE\<close>,
  with \<open>IAC IAC\<close> for the byte 255.
\<close>

fun sub_payload :: "u8 list \<Rightarrow> u8 list option" where
  "sub_payload (a # b # r) =
     (if a = IAC then
        (if b = IAC then map_option ((#) IAC) (sub_payload r)
         else if b = SE \<and> r = [] then Some [] else None)
      else map_option ((#) a) (sub_payload (b # r)))"
| "sub_payload r = None"

definition naws_decode :: "u8 list \<Rightarrow> (u16 \<times> u16) option" where
  "naws_decode bs = (case bs of
     a # b # c # r \<Rightarrow>
       if a = IAC \<and> b = SB \<and> c = OPT_NAWS then
         (case sub_payload r of
            Some [ch, cl, rh, rl] \<Rightarrow>
              Some (push_bit 8 (ucast ch) OR ucast cl, push_bit 8 (ucast rh) OR ucast rl)
          | _ \<Rightarrow> None)
       else None
   | _ \<Rightarrow> None)"

lemma u16_bytes:
  "push_bit 8 (ucast (ucast (drop_bit 8 w) :: u8)) OR ucast (ucast (w AND 0xff) :: u8) = (w :: u16)"
proof (rule bit_word_eqI)
  fix n assume n: "n < LENGTH(16)"
  have "bit (0xff :: u16) n \<longleftrightarrow> n < 8"
    using n by (simp add: less_Suc_eq numeral_eq_Suc) (auto simp: bit_simps)
  then show "bit (push_bit 8 (ucast (ucast (drop_bit 8 w) :: u8)) OR
      ucast (ucast (w AND 0xff) :: u8) :: u16) n = bit w n"
    using n by (auto simp: bit_simps)
qed

lemma sub_payload_four:
  assumes "IAC \<notin> {a, b, c, d}"
  shows "sub_payload [a, b, c, d, IAC, SE] = Some [a, b, c, d]"
  using assms by (simp add: telnet_consts)

lemma sub_payload_short:
  assumes "IAC \<in> {a, b, c, d}"
  shows "sub_payload [a, b, c, d, IAC, SE] \<noteq> Some [w, x, y, z]"
  using assms by (auto simp: telnet_consts split: if_splits)

text \<open>A window-size report is sent exactly when the session is Telnet and reports are
  on, and the peer then reads back the size of the terminal, unless one of the four bytes of
  the size is 255, which the report does not double: such a size is never understood.\<close>

theorem telnet_naws_report:
  "(maybe_build_naws cols rows config = None \<longleftrightarrow> raw_tcp config \<or> \<not> send_naws config)
 \<and> (\<not> raw_tcp config \<and> send_naws config \<longrightarrow>
     (naws_decode (the (maybe_build_naws cols rows config)) =
       (if IAC \<in> {ucast (drop_bit 8 cols), ucast (cols AND 0xff),
                   ucast (drop_bit 8 rows), ucast (rows AND 0xff)}
        then None else Some (cols, rows))))"
proof -
  have "naws_decode [IAC, SB, OPT_NAWS, ucast (drop_bit 8 cols), ucast (cols AND 0xff),
          ucast (drop_bit 8 rows), ucast (rows AND 0xff), IAC, SE] =
       (if IAC \<in> {ucast (drop_bit 8 cols), ucast (cols AND 0xff),
                   ucast (drop_bit 8 rows), ucast (rows AND 0xff)}
        then None else Some (cols, rows))" (is "?l = (if IAC \<in> ?S then None else _)")
  proof (cases "IAC \<in> ?S")
    case True
    note sub_payload_short [OF True]
    then show ?thesis using True
      by (simp add: naws_decode_def del: sub_payload.simps split: option.split list.split)
  next
    case False
    then show ?thesis
      by (simp add: naws_decode_def sub_payload_four u16_bytes del: sub_payload.simps)
  qed
  then show ?thesis by (simp add: maybe_build_naws_def)
qed

theorem telnet_naws_report_witness:
  "naws_decode (the (maybe_build_naws 80 24 demo_config)) = Some (80, 24)
 \<and> naws_decode (the (maybe_build_naws 255 24 demo_config)) = None"
  using telnet_naws_report [of 80 24 demo_config] telnet_naws_report [of 255 24 demo_config]
  by (simp add: demo_config_def telnet_consts)

subsection \<open>The line editor\<close>

text \<open>One character of a UTF-8 text.\<close>

definition one_char :: "u8 list \<Rightarrow> bool" where
  "one_char c \<longleftrightarrow> c \<noteq> [] \<and> utf8_char_len c = length c"

text \<open>The documented behaviour of the UTF-8 decoder: it accepts well-formed bytes only.\<close>

definition utf8_codec :: "text_codec \<Rightarrow> bool" where
  "utf8_codec codec \<longleftrightarrow> (\<forall>bs. fst codec EncUtf8 bs \<noteq> None \<longleftrightarrow> utf8_valid bs)"

lemma one_char_valid: "one_char c \<Longrightarrow> utf8_valid c"
  using utf8_valid_step [of c] by (auto simp: one_char_def)

lemma one_char_length: "one_char c \<Longrightarrow> 0 < length c \<and> length c \<le> 4"
  by (auto simp: one_char_def utf8_char_len_def split: list.splits if_splits)

lemma one_char_prefix:
  assumes "one_char c" and "0 < k" and "k < length c"
  shows "\<not> utf8_valid (take k c)"
proof
  assume v: "utf8_valid (take k c)"
  have "0 < utf8_char_len (take k c)" using v assms by (intro utf8_valid_char) auto
  then have "utf8_char_len (take k c @ drop k c) = utf8_char_len (take k c)"
    by (rule utf8_char_len_append)
  then show False using assms utf8_char_len_bound [of "take k c"] by (simp add: one_char_def)
qed

lemma find_char_first:
  "\<forall>k \<in> set ks. fst codec e (take k t) = None \<Longrightarrow> fst codec e (take n t) \<noteq> None \<Longrightarrow>
   fst (find_char codec e t (ks @ n # ms)) = n"
  by (induction ks) (auto split: option.split)

lemma upt_split: "a \<le> b \<Longrightarrow> b \<le> c \<Longrightarrow> [a..<c] = [a..<b] @ [b..<c]"
  using upt_add_eq_append [of a b "c - b"] by simp

lemma front_char_one:
  assumes "utf8_codec codec" and "one_char c"
  shows "fst (front_char codec EncUtf8 (c @ t)) = length c"
proof -
  have l: "0 < length c" "length c \<le> 4" using one_char_length [OF assms(2)] by auto
  have "[1..<Suc (min 4 (length (c @ t)))] =
      [1..<length c] @ [length c..<Suc (min 4 (length (c @ t)))]"
    by (rule upt_split) (use l in \<open>auto simp: Suc_le_eq\<close>)
  also have "\<dots> = [1..<length c] @ length c # [Suc (length c)..<Suc (min 4 (length (c @ t)))]"
    using l by (subst upt_conv_Cons) auto
  finally have s: "[1..<Suc (min 4 (length (c @ t)))] =
      [1..<length c] @ length c # [Suc (length c)..<Suc (min 4 (length (c @ t)))]" .
  have "\<forall>k \<in> set [1..<length c]. fst codec EncUtf8 (take k (c @ t)) = None"
  proof
    fix k assume "k \<in> set [1..<length c]"
    then have "\<not> utf8_valid (take k c)" "k \<le> length c" using one_char_prefix [OF assms(2)] by auto
    then show "fst codec EncUtf8 (take k (c @ t)) = None"
      using assms(1) unfolding utf8_codec_def by (metis diff_is_0_eq take_0 take_append append_Nil2)
  qed
  moreover have "fst codec EncUtf8 (take (length c) (c @ t)) \<noteq> None"
    using assms one_char_valid by (simp add: utf8_codec_def)
  ultimately show ?thesis unfolding front_char_def s by (rule find_char_first)
qed

lemma last_char_start:
  assumes "utf8_codec codec" and "\<forall>c \<in> set cs. one_char c" and "cs \<noteq> []"
  shows "fst (last_char codec EncUtf8 (p @ concat cs) (length p) s w) = length (p @ concat (butlast cs))"
  using assms(2,3)
proof (induction cs arbitrary: p s w)
  case (Cons c cs)
  obtain cells where f: "front_char codec EncUtf8 (c @ concat cs) = (length c, cells)"
    using front_char_one [OF assms(1), of c "concat cs"] Cons.prems
    by (cases "front_char codec EncUtf8 (c @ concat cs)") simp
  have "0 < length c" using Cons.prems one_char_length by simp
  then have step: "last_char codec EncUtf8 (p @ concat (c # cs)) (length p) s w =
      last_char codec EncUtf8 ((p @ c) @ concat cs) (length (p @ c)) (length p) cells"
    by (subst last_char.simps) (simp add: f)
  show ?case
  proof (cases "cs = []")
    case True
    then show ?thesis unfolding step by (subst last_char.simps) simp
  next
    case False
    then show ?thesis unfolding step using Cons.IH [of "p @ c" "length p" cells] Cons.prems by simp
  qed
qed simp

lemma backspace_line:
  assumes "utf8_codec codec" and "session_encoding config = EncUtf8"
    and "\<forall>c \<in> set cs. one_char c" and "ti_line st = concat cs"
  shows "fst (backspace codec config echo st) = st\<lparr>ti_line := concat (butlast cs)\<rparr>"
proof (cases "cs = []")
  case True
  with assms(4) have "st\<lparr>ti_line := []\<rparr> = st" by simp
  with True assms(4) show ?thesis by (simp add: backspace_def)
next
  case False
  then obtain c cs' where "cs = c # cs'" by (cases cs) auto
  then have "concat cs \<noteq> []" using assms(3) one_char_length by auto
  moreover have "fst (last_char codec EncUtf8 (concat cs) 0 0 1) = length (concat (butlast cs))"
    using last_char_start [OF assms(1,3) False, of "[]" 0 1] by simp
  moreover have "take (length (concat (butlast cs))) (concat cs) = concat (butlast cs)"
  proof -
    have "concat cs = concat (butlast cs) @ last cs"
      using False append_butlast_last_id [of cs] by (metis concat.simps concat_append append_Nil2)
    then show ?thesis by simp
  qed
  ultimately show ?thesis
    unfolding backspace_def assms(2,4) by (simp add: split_beta del: concat_eq_Nil_conv One_nat_def)
qed

text \<open>
  The editor as the user sees it: a line of characters, and keys that extend it, erase its
  last character, send it, or go straight to the peer.
\<close>

datatype key = Typed "u8 list" | Erase "u8 list" | Enter "u8 list" | Control u8

fun key_bytes :: "key \<Rightarrow> u8 list" where
  "key_bytes (Typed c) = c"
| "key_bytes (Erase k) = k"
| "key_bytes (Enter k) = k"
| "key_bytes (Control b) = [b]"

fun key_ok :: "key \<Rightarrow> bool" where
  "key_ok (Typed c) \<longleftrightarrow> one_char c \<and> 0x20 \<le> hd c \<and> hd c \<noteq> 0x7F"
| "key_ok (Erase k) \<longleftrightarrow> k \<in> {[0x08], [0x7F], [0x1B, 0x5B, 0x33, 0x7E]}"
| "key_ok (Enter k) \<longleftrightarrow> k \<in> {[0x0D], [0x0D, 0x0A]}"
| "key_ok (Control b) \<longleftrightarrow> b < 0x20 \<and> b \<notin> {0x08, 0x0A, 0x0D, 0x1B}"

fun edit :: "u8 list \<Rightarrow> u8 list list \<Rightarrow> key \<Rightarrow> u8 list list \<times> u8 list" where
  "edit enter cs (Typed c) = (cs @ [c], [])"
| "edit enter cs (Erase k) = (butlast cs, [])"
| "edit enter cs (Enter k) = ([], concat cs @ enter)"
| "edit enter cs (Control b) = (cs, [b])"

fun edit_all :: "u8 list \<Rightarrow> u8 list list \<Rightarrow> key list \<Rightarrow> u8 list list \<times> u8 list" where
  "edit_all enter cs [] = (cs, [])"
| "edit_all enter cs (k # ks) =
     (let (cs1, s1) = edit enter cs k; (cs2, s2) = edit_all enter cs1 ks in (cs2, s1 @ s2))"

definition sent :: "TelnetInputState \<times> u8 list \<times> u8 list \<Rightarrow> TelnetInputState \<times> u8 list" where
  "sent r = (fst r, fst (snd r))"

lemma sent_emit: "sent (emit s e r) = apsnd ((@) s) (sent r)"
  by (simp add: sent_def emit_def split_beta)

lemma apsnd_Nil [simp]: "apsnd ((@) []) p = p"
  by (cases p) simp

definition plain :: "u8 \<Rightarrow> bool" where
  "plain b \<longleftrightarrow> 0x20 \<le> b \<and> b \<noteq> 0x7F"

lemma plainD: "plain b \<Longrightarrow> b \<notin> {0x08, 0x0A, 0x0D, 0x1B, 0x7F} \<and> \<not> b \<le> 0x1F"
  by (auto simp: plain_def word_le_nat_alt)

lemma one_char_plain:
  assumes "one_char c" and "0x20 \<le> hd c" and "hd c \<noteq> 0x7F"
  shows "\<forall>b \<in> set c. plain b"
proof (cases "length c = 1")
  case True
  then show ?thesis using assms(2,3) by (cases c) (auto simp: plain_def)
next
  case False
  have big: "0x80 \<le> b \<Longrightarrow> plain b" for b by (auto simp: plain_def word_le_nat_alt)
  have "plain (c ! i)" if "i < length c" for i
  proof (cases "i = 0")
    case True
    then show ?thesis using assms by (cases c) (auto simp: plain_def one_char_def)
  next
    case False
    then have "is_cont (c ! i)" using that assms(1) by (intro utf8_char_len_cont) (auto simp: one_char_def)
    then show ?thesis by (intro big) (simp add: is_cont_def)
  qed
  then show ?thesis by (metis in_set_conv_nth)
qed

lemma consume_ground: "b \<noteq> 0x1B \<Longrightarrow> consume Ground b = (Ground, False)"
  by (simp add: consume_def)

lemma state_ground: "ti_escape st = Ground \<Longrightarrow> st\<lparr>ti_escape := Ground\<rparr> = st"
  by simp

lemma loop_plain:
  "\<forall>b \<in> set bs. plain b \<Longrightarrow> ti_escape st = Ground \<Longrightarrow>
   sent (process_loop codec config True echo st (bs @ r)) =
   sent (process_loop codec config True echo (st\<lparr>ti_line := ti_line st @ bs\<rparr>) r)"
proof (induction bs arbitrary: st)
  case (Cons b bs)
  let ?st = "st\<lparr>ti_line := ti_line st @ [b]\<rparr>"
  have "sent (process_loop codec config True echo st (b # bs @ r)) =
      sent (process_loop codec config True echo ?st (bs @ r))"
    using Cons.prems plainD [of b]
    by (simp add: consume_ground state_ground sent_emit)
  also have "\<dots> = sent (process_loop codec config True echo (?st\<lparr>ti_line := ti_line ?st @ bs\<rparr>) r)"
    using Cons.prems by (intro Cons.IH) auto
  finally show ?case by simp
qed simp

lemma loop_erase:
  assumes "k \<in> {[0x08], [0x7F], [0x1B, 0x5B, 0x33, 0x7E]}" and "ti_escape st = Ground"
  shows "sent (process_loop codec config True echo st (k @ r)) =
    sent (process_loop codec config True echo (fst (backspace codec config echo st)) r)"
  using assms by (auto simp: consume_ground state_ground sent_emit split_beta)

lemma loop_enter:
  assumes "k \<in> {[0x0D], [0x0D, 0x0A]}" and "ti_escape st = Ground" and "r = [] \<or> hd r \<noteq> 0x0A"
  shows "sent (process_loop codec config True echo st (k @ r)) =
    apsnd ((@) (ti_line st @ enter_bytes (enter_mode config)))
      (sent (process_loop codec config True echo (st\<lparr>ti_line := []\<rparr>) r))"
  using assms by (auto simp: consume_ground state_ground sent_emit)

lemma loop_control:
  assumes "b < 0x20" and "b \<notin> {0x08, 0x0A, 0x0D, 0x1B}" and "ti_escape st = Ground"
  shows "sent (process_loop codec config True echo st (b # r)) =
    apsnd ((@) [b]) (sent (process_loop codec config True echo st r))"
proof -
  have "b \<le> 0x1F" "b \<noteq> 0x7F" using assms(1) by (auto simp: word_le_nat_alt word_less_nat_alt)
  with assms show ?thesis by (simp add: consume_ground state_ground sent_emit)
qed

lemma key_bytes_head: "key_ok k \<Longrightarrow> key_bytes k \<noteq> [] \<and> hd (key_bytes k) \<noteq> 0x0A"
  by (cases k) (auto simp: one_char_def word_le_nat_alt)

lemma keys_head:
  "\<forall>k \<in> set ks. key_ok k \<Longrightarrow> concat (map key_bytes ks) = [] \<or> hd (concat (map key_bytes ks)) \<noteq> 0x0A"
  using key_bytes_head by (cases ks) auto

lemma edit_chars:
  "key_ok k \<Longrightarrow> \<forall>c \<in> set cs. one_char c \<Longrightarrow> \<forall>c \<in> set (fst (edit enter cs k)). one_char c"
  by (cases k) (auto dest: in_set_butlastD)

lemma loop_key:
  assumes "utf8_codec codec" and "session_encoding config = EncUtf8"
    and "key_ok k" and "\<forall>c \<in> set cs. one_char c"
    and "ti_line st = concat cs" and "ti_escape st = Ground" and "r = [] \<or> hd r \<noteq> 0x0A"
  shows "sent (process_loop codec config True echo st (key_bytes k @ r)) =
    apsnd ((@) (snd (edit (enter_bytes (enter_mode config)) cs k)))
      (sent (process_loop codec config True echo
        (st\<lparr>ti_line := concat (fst (edit (enter_bytes (enter_mode config)) cs k))\<rparr>) r))"
proof (cases k)
  case (Typed c)
  then show ?thesis using assms loop_plain [OF one_char_plain, of c st codec config echo r]
    by (cases "sent (process_loop codec config True echo (st\<lparr>ti_line := concat cs @ c\<rparr>) r)") simp
next
  case (Erase b)
  then show ?thesis using assms(3) loop_erase [OF _ assms(6), of b codec config echo r]
      backspace_line [OF assms(1,2,4,5), of echo]
    by (cases "sent (process_loop codec config True echo (st\<lparr>ti_line := concat (butlast cs)\<rparr>) r)") simp
next
  case (Enter b)
  then show ?thesis using assms(3,5) loop_enter [OF _ assms(6,7), of b codec config echo] by simp
next
  case (Control b)
  have "st\<lparr>ti_line := concat cs\<rparr> = st" using assms(5) by simp
  then show ?thesis using assms(3) Control loop_control [OF _ _ assms(6), of b codec config echo r] by simp
qed

lemma loop_keys:
  assumes "utf8_codec codec" and "session_encoding config = EncUtf8"
  shows "\<forall>k \<in> set ks. key_ok k \<Longrightarrow> \<forall>c \<in> set cs. one_char c \<Longrightarrow>
    ti_line st = concat cs \<Longrightarrow> ti_escape st = Ground \<Longrightarrow>
    sent (process_loop codec config True echo st (concat (map key_bytes ks))) =
      (st\<lparr>ti_line := concat (fst (edit_all (enter_bytes (enter_mode config)) cs ks))\<rparr>,
       snd (edit_all (enter_bytes (enter_mode config)) cs ks))"
proof (induction ks arbitrary: cs st)
  case Nil
  then show ?case by (simp add: sent_def)
next
  case (Cons k ks)
  let ?e = "edit (enter_bytes (enter_mode config)) cs k"
  have k: "key_ok k" and ks: "\<forall>k \<in> set ks. key_ok k" using Cons.prems(1) by auto
  let ?st = "st\<lparr>ti_line := concat (fst ?e)\<rparr>"
  have "sent (process_loop codec config True echo ?st (concat (map key_bytes ks))) =
      (?st\<lparr>ti_line := concat (fst (edit_all (enter_bytes (enter_mode config)) (fst ?e) ks))\<rparr>,
       snd (edit_all (enter_bytes (enter_mode config)) (fst ?e) ks))"
    using edit_chars [OF k Cons.prems(2)] Cons.prems(4) by (intro Cons.IH [OF ks]) simp_all
  then show ?case
    using loop_key [OF assms k Cons.prems(2-4) keys_head [OF ks], of echo]
    by (simp add: split_beta)
qed

text \<open>(C16) The byte-level editor refines the editor of characters and keys: in a UTF-8 session
  with local line editing, any sequence of keys (typed characters, the three erase keys, Enter,
  control keys) leaves the pending line and sends the bytes that the abstract editor says, so
  text reaches the peer only with its Enter and an erase removes exactly one whole character;
  and the peer's Telnet decoder sees exactly those bytes and no command.\<close>

theorem telnet_line_editor_refines:
  assumes "utf8_codec codec" and "session_encoding config = EncUtf8" and "local_line_edit config"
    and "\<forall>k \<in> set ks. key_ok k" and "\<forall>c \<in> set cs. one_char c"
    and "ti_line st = concat cs" and "ti_escape st = Ground"
    and "edit_all (enter_bytes (enter_mode config)) cs ks = (cs1, out)"
  shows "\<exists>wire e. prepare codec config st (concat (map key_bytes ks)) =
           (st\<lparr>ti_line := concat cs1\<rparr>, wire, e)
         \<and> (if raw_tcp config then wire = out else strip_telnet_commands wire = (out, []))"
proof -
  obtain st1 s e where p: "process_loop codec config True (local_echo config) st
      (concat (map key_bytes ks)) = (st1, s, e)"
    by (cases "process_loop codec config True (local_echo config) st (concat (map key_bytes ks))")
  have "st1 = st\<lparr>ti_line := concat cs1\<rparr> \<and> s = out"
    using loop_keys [OF assms(1,2,4-7), of "local_echo config"] assms(8) p by (simp add: sent_def)
  moreover have "strip_telnet_commands (escape_telnet_application_data out False) = (out, [])"
    using strip_escape [of out "[]"] by simp
  ultimately show ?thesis
    using p assms(3) by (simp add: prepare_def process_def escape_telnet_application_data_def)
qed

definition demo_codec :: text_codec where
  "demo_codec = (\<lambda>e bs. if utf8_valid bs then Some bs else None, \<lambda>_. Some 1)"

lemma demo_encoding: "session_encoding demo_config = EncUtf8"
  by code_simp

theorem telnet_line_editor_refines_witness:
  "\<exists>wire e. prepare demo_codec demo_config input_default
       [0x61, 0xC3, 0xA9, 0x7F, 0x62, 0x03, 0x0D, 0x63] =
     (input_default\<lparr>ti_line := [0x63]\<rparr>, wire, e)
   \<and> strip_telnet_commands wire = ([0x03, 0x61, 0x62, 0x0D, 0x0A], [])"
  using telnet_line_editor_refines [of demo_codec demo_config
      "[Typed [0x61], Typed [0xC3, 0xA9], Erase [0x7F], Typed [0x62], Control 3, Enter [0x0D], Typed [0x63]]"
      "[]" input_default "[[0x63]]" "[0x03, 0x61, 0x62, 0x0D, 0x0A]"]
  by (simp add: demo_encoding, simp add: demo_codec_def utf8_codec_def demo_config_def
      input_default_def one_char_def utf8_char_len_def utf8_2_def is_cont_def)

end
