(* ===== verification/Input_Mailbox.thy ===== *)
theory Input_Mailbox
  imports Telnet
begin

text \<open>
  The bounded input queues in front of a session's writer: the mailbox of local, serial and
  Telnet sessions (\<open>writer_mailbox.rs\<close>) and the SSH input channel (\<open>ssh_mailbox.rs\<close>).
  Both count a write from the moment it is accepted until its permit is dropped. Each critical
  section is a function on the protected state; a subtraction that would underflow a
  \<open>usize\<close> makes the result \<open>None\<close>.
\<close>

definition BYTE_LIMIT :: nat where
  "BYTE_LIMIT = 8 * 1024 * 1024"

definition ITEM_LIMIT :: nat where
  "ITEM_LIMIT = 1024"

datatype ErrorKind = BrokenPipe | WouldBlock | InvalidInput | Interrupted

subsection \<open>The writer mailbox\<close>

datatype TransportWriterCommand = Write "u8 list" | TelnetControl "u8 list"

fun byte_cost :: "TransportWriterCommand \<Rightarrow> nat" where
  "byte_cost (Write d) = length d"
| "byte_cost (TelnetControl d) = length d"

record MailState =
  mail_queue :: "TransportWriterCommand list"
  mail_bytes :: nat
  mail_peak_bytes :: nat
  mail_items :: nat
  mail_stopped :: bool

definition mail_default :: MailState where
  "mail_default = \<lparr>mail_queue = [], mail_bytes = 0, mail_peak_bytes = 0, mail_items = 0,
     mail_stopped = False\<rparr>"

definition mail_send :: "MailState \<Rightarrow> TransportWriterCommand \<Rightarrow> ErrorKind + MailState" where
  "mail_send st c =
     (let n = byte_cost c in
      if mail_stopped st then Inl BrokenPipe
      else if n > BYTE_LIMIT - mail_bytes st \<or> mail_items st \<ge> ITEM_LIMIT then Inl WouldBlock
      else Inr (st\<lparr>mail_bytes := mail_bytes st + n,
                   mail_peak_bytes := max (mail_peak_bytes st) (mail_bytes st + n),
                   mail_items := mail_items st + 1,
                   mail_queue := mail_queue st @ [c]\<rparr>))"

definition check_capacity :: "MailState \<Rightarrow> nat \<Rightarrow> ErrorKind + unit" where
  "check_capacity st n =
     (if mail_stopped st then Inl BrokenPipe
      else if n > BYTE_LIMIT - mail_bytes st \<or> mail_items st \<ge> ITEM_LIMIT then Inl WouldBlock
      else Inr ())"

text \<open>One round of \<open>wait_capacity\<close>; \<open>None\<close> is another wait.\<close>

definition wait_capacity_round :: "MailState \<Rightarrow> nat \<Rightarrow> bool \<Rightarrow> (ErrorKind + unit) option" where
  "wait_capacity_round st n cancelled =
     (if n > BYTE_LIMIT then Some (Inl InvalidInput)
      else if cancelled then Some (Inl Interrupted)
      else if mail_stopped st then Some (Inl BrokenPipe)
      else if n \<le> BYTE_LIMIT - mail_bytes st \<and> mail_items st < ITEM_LIMIT then Some (Inr ())
      else None)"

text \<open>One round of \<open>receive\<close>: the command and the size of its permit; \<open>Inr None\<close> is a wait.\<close>

definition mail_receive ::
  "MailState \<Rightarrow> ErrorKind + (MailState \<times> TransportWriterCommand \<times> nat) option" where
  "mail_receive st =
     (if mail_stopped st then Inl BrokenPipe
      else (case mail_queue st of
          [] \<Rightarrow> Inr None
        | c # cs \<Rightarrow> Inr (Some (st\<lparr>mail_queue := cs\<rparr>, c, byte_cost c))))"

fun release_all :: "TransportWriterCommand list \<Rightarrow> MailState \<Rightarrow> MailState option" where
  "release_all [] st = Some st"
| "release_all (c # cs) st =
     (case (sub_usize (mail_bytes st) (byte_cost c), sub_usize (mail_items st) 1) of
        (Some b, Some i) \<Rightarrow> release_all cs (st\<lparr>mail_queue := cs, mail_bytes := b, mail_items := i\<rparr>)
      | _ \<Rightarrow> None)"

definition mail_stop :: "MailState \<Rightarrow> MailState option" where
  "mail_stop st = release_all (mail_queue st) (st\<lparr>mail_stopped := True\<rparr>)"

definition write_permit_drop :: "nat \<Rightarrow> MailState \<Rightarrow> MailState option" where
  "write_permit_drop n st =
     (case (sub_usize (mail_bytes st) n, sub_usize (mail_items st) 1) of
        (Some b, Some i) \<Rightarrow> Some (st\<lparr>mail_bytes := b, mail_items := i\<rparr>)
      | _ \<Rightarrow> None)"

text \<open>\<open>queue_telnet_control\<close> and \<open>QueuedTransportWriter::write\<close>: empty data is not queued.\<close>

definition queue_telnet_control :: "MailState \<Rightarrow> u8 list \<Rightarrow> ErrorKind + MailState" where
  "queue_telnet_control st d = (if d = [] then Inr st else mail_send st (TelnetControl d))"

definition writer_write :: "MailState \<Rightarrow> u8 list \<Rightarrow> ErrorKind + MailState" where
  "writer_write st d = (if d = [] then Inr st else mail_send st (Write d))"

definition telnet_wire_size :: "u8 list \<Rightarrow> bool \<Rightarrow> nat" where
  "telnet_wire_size d raw =
     sat_add (length d) (if raw then 0 else length (filter (\<lambda>byte. byte = 255) d))"

lemma telnet_wire_size_exact:
  assumes "length (escape_telnet_application_data d raw) \<le> usize_max"
  shows "telnet_wire_size d raw = length (escape_telnet_application_data d raw)"
proof -
  have "length (escape_telnet_application_data d False) = length d + length (filter (\<lambda>b. b = 255) d)"
    by (induction d) (simp_all add: IAC_def)
  with assms show ?thesis
    by (cases raw) (simp_all add: telnet_wire_size_def sat_add_def escape_telnet_application_data_def)
qed

subsection \<open>Runs of the writer mailbox\<close>

text \<open>The mailbox, the permits its receivers hold, and the history of the commands.\<close>

record MailSys =
  mail :: MailState
  permits :: "nat list"
  accepted :: "TransportWriterCommand list"
  received :: "TransportWriterCommand list"
  discarded :: "TransportWriterCommand list"

datatype mail_event = Send TransportWriterCommand | Receive | DropPermit nat | Stop

definition mail_init :: MailSys where
  "mail_init = \<lparr>mail = mail_default, permits = [], accepted = [], received = [], discarded = []\<rparr>"

text \<open>\<open>None\<close> is a panic. A permit is dropped once, by whoever holds it.\<close>

fun mail_step :: "MailSys option \<Rightarrow> mail_event \<Rightarrow> MailSys option" where
  "mail_step None ev = None"
| "mail_step (Some s) (Send c) =
     (case mail_send (mail s) c of
        Inl _ \<Rightarrow> Some s
      | Inr m \<Rightarrow> Some (s\<lparr>mail := m, accepted := accepted s @ [c]\<rparr>))"
| "mail_step (Some s) Receive =
     (case mail_receive (mail s) of
        Inr (Some (m, c, n)) \<Rightarrow>
          Some (s\<lparr>mail := m, permits := permits s @ [n], received := received s @ [c]\<rparr>)
      | _ \<Rightarrow> Some s)"
| "mail_step (Some s) (DropPermit i) =
     (if i < length (permits s) then
        map_option (\<lambda>m. s\<lparr>mail := m, permits := take i (permits s) @ drop (Suc i) (permits s)\<rparr>)
          (write_permit_drop (permits s ! i) (mail s))
      else Some s)"
| "mail_step (Some s) Stop =
     map_option (\<lambda>m. s\<lparr>mail := m, discarded := mail_queue (mail s) @ discarded s\<rparr>) (mail_stop (mail s))"

definition mail_ok :: "MailSys \<Rightarrow> bool" where
  "mail_ok s \<longleftrightarrow>
     mail_bytes (mail s) = sum_list (map byte_cost (mail_queue (mail s))) + sum_list (permits s)
   \<and> mail_items (mail s) = length (mail_queue (mail s)) + length (permits s)
   \<and> mail_bytes (mail s) \<le> mail_peak_bytes (mail s) \<and> mail_peak_bytes (mail s) \<le> BYTE_LIMIT
   \<and> mail_items (mail s) \<le> ITEM_LIMIT
   \<and> accepted s = received s @ mail_queue (mail s) @ discarded s
   \<and> (mail_stopped (mail s) \<longrightarrow> mail_queue (mail s) = [])
   \<and> (discarded s \<noteq> [] \<longrightarrow> mail_stopped (mail s))"

definition mail_run_ok :: "MailSys option \<Rightarrow> bool" where
  "mail_run_ok r = (case r of None \<Rightarrow> False | Some s \<Rightarrow> mail_ok s)"

lemma release_all_spec:
  "mail_bytes st = sum_list (map byte_cost cs) + b \<Longrightarrow> mail_items st = length cs + i \<Longrightarrow>
   mail_queue st = cs \<Longrightarrow>
   release_all cs st = Some (st\<lparr>mail_queue := [], mail_bytes := b, mail_items := i\<rparr>)"
  by (induction cs arbitrary: st) (simp_all add: sub_usize_def)

lemma remove_nth_sum:
  "i < length xs \<Longrightarrow> sum_list (take i xs @ drop (Suc i) xs) + xs ! i = sum_list (xs :: nat list)"
  using arg_cong [OF id_take_nth_drop [of i xs], of sum_list] by simp

lemma mail_step_ok: "mail_run_ok r \<Longrightarrow> mail_run_ok (mail_step r ev)"
proof (cases r)
  case (Some s)
  assume "mail_run_ok r"
  then have ok: "mail_ok s" by (simp add: mail_run_ok_def Some)
  show ?thesis
  proof (cases ev)
    case (Send c)
    show ?thesis
    proof (cases "mail_send (mail s) c")
      case (Inr m)
      then show ?thesis using ok
        by (auto simp: Some Send mail_run_ok_def mail_ok_def mail_send_def Let_def split: if_splits)
    qed (simp add: Some Send mail_run_ok_def ok)
  next
    case Receive
    then show ?thesis using ok
      by (auto simp: Some mail_run_ok_def mail_ok_def mail_receive_def split: list.split)
  next
    case (DropPermit i)
    show ?thesis
    proof (cases "i < length (permits s)")
      case True
      then show ?thesis using ok remove_nth_sum [OF True]
        by (auto simp: Some DropPermit mail_run_ok_def mail_ok_def write_permit_drop_def sub_usize_def)
    qed (simp add: Some DropPermit mail_run_ok_def ok)
  next
    case Stop
    have "mail_stop (mail s) = Some (mail s\<lparr>mail_stopped := True, mail_queue := [],
        mail_bytes := sum_list (permits s), mail_items := length (permits s)\<rparr>)"
      unfolding mail_stop_def
      by (subst release_all_spec [where b = "sum_list (permits s)" and i = "length (permits s)"])
         (use ok in \<open>auto simp: mail_ok_def\<close>)
    then show ?thesis using ok by (auto simp: Some Stop mail_run_ok_def mail_ok_def)
  qed
qed (simp add: mail_run_ok_def)

interpretation mail_events: event_machine mail_step mail_run_ok
  by unfold_locales (rule mail_step_ok)

text \<open>(C24) The writer mailbox in every run of sends, receives, completed writes and stops, in
  any order: no counter ever underflows, the bytes and items counted are exactly those queued
  or in flight and stay within 8 MiB and 1024 items, and the commands received are the
  accepted ones in order, none lost unless the mailbox was stopped.\<close>

theorem writer_mailbox_safe:
  "\<exists>s. foldl mail_step (Some mail_init) evs = Some s \<and> mail_ok s"
proof -
  have "mail_run_ok (Some mail_init)"
    by (simp add: mail_run_ok_def mail_ok_def mail_init_def mail_default_def)
  then have "mail_run_ok (foldl mail_step (Some mail_init) evs)" by (rule mail_events.run_inv)
  then show ?thesis by (auto simp: mail_run_ok_def split: option.splits)
qed

subsection \<open>The SSH input channel\<close>

record PendingWrite =
  pw_bytes :: "u8 list"
  pw_permit :: nat

record SshState =
  ssh_bytes :: nat
  ssh_peak_bytes :: nat
  ssh_items :: nat
  ssh_stopped :: bool
  ssh_resize :: "(u16 \<times> u16 \<times> u16 \<times> u16) option"

datatype SshCommand = SshWrite PendingWrite | SshResize u16 u16 u16 u16 | SshClose

datatype TryRecvError = Empty | Disconnected

text \<open>The accounting state with the data channel; \<open>chan_open\<close> until the receiver is dropped.\<close>

record SshShared =
  ssh :: SshState
  chan :: "PendingWrite list"
  chan_open :: bool

definition ssh_channel :: SshShared where
  "ssh_channel = \<lparr>ssh = \<lparr>ssh_bytes = 0, ssh_peak_bytes = 0, ssh_items = 0, ssh_stopped = False,
     ssh_resize = None\<rparr>, chan = [], chan_open = True\<rparr>"

definition ssh_check :: "SshState \<Rightarrow> nat \<Rightarrow> ErrorKind + unit" where
  "ssh_check st n =
     (if ssh_stopped st then Inl BrokenPipe
      else if n > BYTE_LIMIT then Inl InvalidInput
      else if n > BYTE_LIMIT - ssh_bytes st \<or> ssh_items st \<ge> ITEM_LIMIT then Inl WouldBlock
      else Inr ())"

definition permit_drop :: "nat \<Rightarrow> SshState \<Rightarrow> SshState option" where
  "permit_drop n st =
     (case (sub_usize (ssh_bytes st) n, sub_usize (ssh_items st) 1) of
        (Some b, Some i) \<Rightarrow> Some (st\<lparr>ssh_bytes := b, ssh_items := i\<rparr>)
      | _ \<Rightarrow> None)"

text \<open>
  \<open>Sender::write\<close>: on a closed channel the rejected write, and with it its permit, is
  dropped after the lock is released.
\<close>

definition ssh_write :: "SshShared \<Rightarrow> u8 list \<Rightarrow> (SshShared \<times> (ErrorKind + unit)) option" where
  "ssh_write s d =
     (if d = [] then Some (s, Inr ())
      else case ssh_check (ssh s) (length d) of
          Inl e \<Rightarrow> Some (s, Inl e)
        | Inr _ \<Rightarrow>
            (let st = ssh s;
                 st1 = st\<lparr>ssh_bytes := ssh_bytes st + length d,
                          ssh_peak_bytes := max (ssh_peak_bytes st) (ssh_bytes st + length d),
                          ssh_items := ssh_items st + 1\<rparr>
             in if chan_open s then
                  Some (s\<lparr>ssh := st1, chan := chan s @ [\<lparr>pw_bytes = d, pw_permit = length d\<rparr>]\<rparr>, Inr ())
                else map_option (\<lambda>st2. (s\<lparr>ssh := st2\<rparr>, Inl BrokenPipe)) (permit_drop (length d) st1)))"

definition ssh_wait_capacity_round :: "SshState \<Rightarrow> nat \<Rightarrow> bool \<Rightarrow> (ErrorKind + unit) option" where
  "ssh_wait_capacity_round st n cancelled =
     (if cancelled then Some (Inl Interrupted)
      else case ssh_check st n of
          Inl WouldBlock \<Rightarrow> None
        | result \<Rightarrow> Some result)"

definition ssh_set_resize :: "SshShared \<Rightarrow> u16 \<times> u16 \<times> u16 \<times> u16 \<Rightarrow> SshShared" where
  "ssh_set_resize s r = s\<lparr>ssh := (ssh s)\<lparr>ssh_resize := Some r\<rparr>\<rparr>"

definition ssh_close :: "SshShared \<Rightarrow> SshShared" where
  "ssh_close s = s\<lparr>ssh := (ssh s)\<lparr>ssh_stopped := True\<rparr>\<rparr>"

definition ssh_control :: "SshShared \<Rightarrow> SshShared \<times> SshCommand option" where
  "ssh_control s =
     (if ssh_stopped (ssh s) then (s, Some SshClose)
      else (s\<lparr>ssh := (ssh s)\<lparr>ssh_resize := None\<rparr>\<rparr>,
            map_option (\<lambda>(cols, rows, w, h). SshResize cols rows w h) (ssh_resize (ssh s))))"

definition ssh_try_recv :: "SshShared \<Rightarrow> SshShared \<times> (TryRecvError + SshCommand)" where
  "ssh_try_recv s =
     (case ssh_control s of
        (s1, Some c) \<Rightarrow> (s1, Inr c)
      | (s1, None) \<Rightarrow>
          (case chan s1 of
             [] \<Rightarrow> (s1, Inl Empty)
           | w # ws \<Rightarrow> (s1\<lparr>chan := ws\<rparr>, Inr (SshWrite w))))"

text \<open>Dropping the receiver stops the channel, and its queue drops the writes still in it.\<close>

fun drop_writes :: "PendingWrite list \<Rightarrow> SshState \<Rightarrow> SshState option" where
  "drop_writes [] st = Some st"
| "drop_writes (w # ws) st = Option.bind (permit_drop (pw_permit w) st) (drop_writes ws)"

definition ssh_receiver_drop :: "SshShared \<Rightarrow> SshShared option" where
  "ssh_receiver_drop s =
     map_option (\<lambda>st. s\<lparr>ssh := st, chan := [], chan_open := False\<rparr>)
       (drop_writes (chan s) ((ssh s)\<lparr>ssh_stopped := True\<rparr>))"

text \<open>Runs: the channel, the writes its worker still holds, and the history of the data.\<close>

record SshSys =
  shared :: SshShared
  held :: "PendingWrite list"
  ssh_accepted :: "u8 list list"
  ssh_received :: "u8 list list"
  ssh_lost :: "u8 list list"
  commands :: "SshCommand list"

datatype ssh_event =
  SWrite "u8 list" | SResize u16 u16 u16 u16 | SClose | SRecv | SDrop nat | SReceiverDrop

definition ssh_init :: SshSys where
  "ssh_init = \<lparr>shared = ssh_channel, held = [], ssh_accepted = [], ssh_received = [], ssh_lost = [],
     commands = []\<rparr>"

fun ssh_step :: "SshSys option \<Rightarrow> ssh_event \<Rightarrow> SshSys option" where
  "ssh_step None ev = None"
| "ssh_step (Some s) (SWrite d) =
     map_option (\<lambda>(sh, res). s\<lparr>shared := sh,
         ssh_accepted := ssh_accepted s @ (if res = Inr () \<and> d \<noteq> [] then [d] else [])\<rparr>)
       (ssh_write (shared s) d)"
| "ssh_step (Some s) (SResize c r w h) = Some (s\<lparr>shared := ssh_set_resize (shared s) (c, r, w, h)\<rparr>)"
| "ssh_step (Some s) SClose = Some (s\<lparr>shared := ssh_close (shared s)\<rparr>)"
| "ssh_step (Some s) SRecv =
     (if chan_open (shared s) then
        (case ssh_try_recv (shared s) of
           (sh, Inl _) \<Rightarrow> Some (s\<lparr>shared := sh\<rparr>)
         | (sh, Inr (SshWrite w)) \<Rightarrow>
             Some (s\<lparr>shared := sh, held := held s @ [w], ssh_received := ssh_received s @ [pw_bytes w],
                     commands := commands s @ [SshWrite w]\<rparr>)
         | (sh, Inr c) \<Rightarrow> Some (s\<lparr>shared := sh, commands := commands s @ [c]\<rparr>))
      else Some s)"
| "ssh_step (Some s) (SDrop i) =
     (if i < length (held s) then
        map_option (\<lambda>st. s\<lparr>shared := (shared s)\<lparr>ssh := st\<rparr>,
            held := take i (held s) @ drop (Suc i) (held s)\<rparr>)
          (permit_drop (pw_permit (held s ! i)) (ssh (shared s)))
      else Some s)"
| "ssh_step (Some s) SReceiverDrop =
     map_option (\<lambda>sh. s\<lparr>shared := sh, ssh_lost := map pw_bytes (chan (shared s)) @ ssh_lost s\<rparr>)
       (ssh_receiver_drop (shared s))"

definition pending_bytes :: "PendingWrite list \<Rightarrow> nat" where
  "pending_bytes ws = sum_list (map pw_permit ws)"

definition ssh_ok :: "SshSys \<Rightarrow> bool" where
  "ssh_ok s \<longleftrightarrow>
     (let st = ssh (shared s); q = chan (shared s) in
      ssh_bytes st = pending_bytes q + pending_bytes (held s)
    \<and> ssh_items st = length q + length (held s)
    \<and> ssh_bytes st \<le> ssh_peak_bytes st \<and> ssh_peak_bytes st \<le> BYTE_LIMIT
    \<and> ssh_items st \<le> ITEM_LIMIT
    \<and> (\<forall>w \<in> set q. pw_permit w = length (pw_bytes w))
    \<and> ssh_accepted s = ssh_received s @ map pw_bytes q @ ssh_lost s
    \<and> (\<not> chan_open (shared s) \<longrightarrow> q = [] \<and> ssh_stopped st)
    \<and> (ssh_lost s \<noteq> [] \<longrightarrow> \<not> chan_open (shared s))
    \<and> (\<forall>w \<in> set (held s). pw_permit w = length (pw_bytes w)))"

definition ssh_run_ok :: "SshSys option \<Rightarrow> bool" where
  "ssh_run_ok r = (case r of None \<Rightarrow> False | Some s \<Rightarrow> ssh_ok s)"

lemma permit_drop_Some:
  "n \<le> ssh_bytes st \<Longrightarrow> 1 \<le> ssh_items st \<Longrightarrow>
   permit_drop n st = Some (st\<lparr>ssh_bytes := ssh_bytes st - n, ssh_items := ssh_items st - 1\<rparr>)"
  by (simp add: permit_drop_def sub_usize_def)

lemma drop_writes_spec:
  "ssh_bytes st = pending_bytes ws + b \<Longrightarrow> ssh_items st = length ws + i \<Longrightarrow>
   drop_writes ws st = Some (st\<lparr>ssh_bytes := b, ssh_items := i\<rparr>)"
  by (induction ws arbitrary: st) (simp_all add: permit_drop_Some pending_bytes_def)

lemma ssh_write_closed: "\<not> chan_open s \<Longrightarrow> ssh_stopped (ssh s) \<Longrightarrow> d \<noteq> [] \<Longrightarrow> ssh_write s d = Some (s, Inl BrokenPipe)"
  by (simp add: ssh_write_def ssh_check_def)

lemma ssh_write_ok:
  assumes "ssh_ok s"
  shows "ssh_run_ok (ssh_step (Some s) (SWrite d))"
proof (cases "d = [] \<or> ssh_check (ssh (shared s)) (length d) \<noteq> Inr () \<or> \<not> chan_open (shared s)")
  case True
  moreover have "s\<lparr>shared := shared s, ssh_accepted := ssh_accepted s\<rparr> = s" by simp
  ultimately show ?thesis using assms ssh_write_closed [of "shared s" d]
    by (auto simp: ssh_run_ok_def ssh_ok_def ssh_write_def Let_def split: sum.splits)
next
  case False
  then show ?thesis using assms
    by (auto simp: ssh_run_ok_def ssh_ok_def ssh_write_def ssh_check_def Let_def pending_bytes_def
        split: if_splits)
qed

lemma remove_nth_pending:
  "i < length ws \<Longrightarrow>
   pending_bytes (take i ws @ drop (Suc i) ws) + pw_permit (ws ! i) = pending_bytes ws"
  using remove_nth_sum [of i "map pw_permit ws"] by (simp add: pending_bytes_def take_map drop_map)

lemma ssh_step_ok: "ssh_run_ok r \<Longrightarrow> ssh_run_ok (ssh_step r ev)"
proof (cases r)
  case (Some s)
  assume "ssh_run_ok r"
  then have ok: "ssh_ok s" by (simp add: ssh_run_ok_def Some)
  show ?thesis
  proof (cases ev)
    case (SWrite d)
    then show ?thesis using ssh_write_ok [OF ok] Some by simp
  next
    case SRecv
    then show ?thesis using ok
      by (auto simp: Some ssh_run_ok_def ssh_ok_def ssh_try_recv_def ssh_control_def Let_def
          pending_bytes_def split: list.split option.split)
  next
    case (SDrop i)
    show ?thesis
    proof (cases "i < length (held s)")
      case True
      have "pw_permit (held s ! i) \<le> ssh_bytes (ssh (shared s))" "1 \<le> ssh_items (ssh (shared s))"
        using ok True remove_nth_pending [OF True] by (auto simp: ssh_ok_def Let_def)
      then show ?thesis using ok True remove_nth_pending [OF True]
        by (auto simp: Some SDrop ssh_run_ok_def ssh_ok_def Let_def permit_drop_Some
            dest: in_set_takeD in_set_dropD)
    qed (simp add: Some SDrop ssh_run_ok_def ok)
  next
    case SReceiverDrop
    have "drop_writes (chan (shared s)) (ssh (shared s)\<lparr>ssh_stopped := True\<rparr>) =
        Some (ssh (shared s)\<lparr>ssh_stopped := True, ssh_bytes := pending_bytes (held s),
          ssh_items := length (held s)\<rparr>)"
      by (subst drop_writes_spec [where b = "pending_bytes (held s)" and i = "length (held s)"])
         (use ok in \<open>auto simp: ssh_ok_def Let_def\<close>)
    then show ?thesis using ok
      by (auto simp: Some SReceiverDrop ssh_run_ok_def ssh_ok_def Let_def ssh_receiver_drop_def
          pending_bytes_def)
  qed (use ok in \<open>auto simp: Some ssh_run_ok_def ssh_ok_def Let_def ssh_set_resize_def ssh_close_def\<close>)
qed (simp add: ssh_run_ok_def)

interpretation ssh_events: event_machine ssh_step ssh_run_ok
  by unfold_locales (rule ssh_step_ok)

text \<open>(C26) The SSH input channel in every run of writes, resizes, closes, receives and
  completed writes: no counter underflows, the budget is exact and bounded, data arrives in
  order and is lost only when the receiver goes away, and the next receive gives \<open>Close\<close> on a
  stopped channel, otherwise the latest resize, and only then data, even when the queue is full.\<close>

theorem ssh_mailbox_safe:
  "\<exists>s. foldl ssh_step (Some ssh_init) evs = Some s \<and> ssh_ok s
     \<and> (\<forall>c r w h. let sh = ssh_set_resize (shared s) (c, r, w, h) in
          snd (ssh_try_recv sh) = (if ssh_stopped (ssh sh) then Inr SshClose else Inr (SshResize c r w h))
        \<and> chan (fst (ssh_try_recv sh)) = chan sh)
     \<and> snd (ssh_try_recv (ssh_close (shared s))) = Inr SshClose"
proof -
  have "ssh_run_ok (Some ssh_init)"
    by (simp add: ssh_run_ok_def ssh_ok_def ssh_init_def ssh_channel_def pending_bytes_def)
  then have "ssh_run_ok (foldl ssh_step (Some ssh_init) evs)" by (rule ssh_events.run_inv)
  then obtain s where "foldl ssh_step (Some ssh_init) evs = Some s" "ssh_ok s"
    by (auto simp: ssh_run_ok_def split: option.splits)
  then show ?thesis
    by (auto simp: ssh_try_recv_def ssh_control_def ssh_set_resize_def ssh_close_def Let_def)
qed

end
