(* ===== verification/Session_Queue.thy ===== *)
theory Session_Queue
  imports Prelude
begin

text \<open>
  The queue between the transports and the user interface
  (\<open>nyaterm-transport/src/session_event_queue.rs\<close>): every critical section of the mutex
  is one function on the protected state, a wait on a condition variable is a result of its
  own, and the interleavings of producers and consumers are a step relation over them.
  Payloads the queue only moves (notices, command contexts, tmux states) have type
  \<open>'p\<close>. A poisoned mutex, which needs a panic inside a critical section, is left out.
\<close>

subsection \<open>Events\<close>

type_synonym session_id = "u8 list"
type_synonym SessionEventConsumerId = u64

datatype CleanupOperation = Terminate | Wait | ReaderJoin | WriterJoin | StartupFiles

datatype 'p SessionEvent =
  Notice session_id 'p
| OutputBoundary session_id "u8 list"
| CleanupFailed session_id "SessionEventConsumerId option" CleanupOperation
| Output session_id "u8 list"
| OutputDropped session_id nat
| CwdChanged session_id "u8 list"
| CommandContext session_id 'p
| CommandAccepted session_id "u8 list"
| Exited session_id "u8 list"
| Error session_id "u8 list"
| TmuxState session_id 'p

fun event_session_id :: "'p SessionEvent \<Rightarrow> session_id" where
  "event_session_id (Notice s _) = s"
| "event_session_id (OutputBoundary s _) = s"
| "event_session_id (CleanupFailed s _ _) = s"
| "event_session_id (Output s _) = s"
| "event_session_id (OutputDropped s _) = s"
| "event_session_id (CwdChanged s _) = s"
| "event_session_id (CommandContext s _) = s"
| "event_session_id (CommandAccepted s _) = s"
| "event_session_id (Exited s _) = s"
| "event_session_id (Error s _) = s"
| "event_session_id (TmuxState s _) = s"

fun is_cleanup :: "'p SessionEvent \<Rightarrow> bool" where
  "is_cleanup (CleanupFailed _ _ _) = True"
| "is_cleanup _ = False"

fun is_output :: "'p SessionEvent \<Rightarrow> bool" where
  "is_output (Output _ _) = True"
| "is_output _ = False"

text \<open>The output bytes an event accounts for.\<close>

fun output_len :: "'p SessionEvent \<Rightarrow> nat" where
  "output_len (Output _ d) = length d"
| "output_len _ = 0"

fun dropped_len :: "'p SessionEvent \<Rightarrow> nat" where
  "dropped_len (OutputDropped _ n) = n"
| "dropped_len _ = 0"

definition output_bytes :: "'p SessionEvent list \<Rightarrow> nat" where
  "output_bytes es = sum_list (map output_len es)"

subsection \<open>The protected state\<close>

definition SESSION_EVENT_QUEUE_OUTPUT_LIMIT :: nat where
  "SESSION_EVENT_QUEUE_OUTPUT_LIMIT = 8 * 1024 * 1024"

definition SESSION_EVENT_QUEUE_OUTPUT_LOW_WATERMARK :: nat where
  "SESSION_EVENT_QUEUE_OUTPUT_LOW_WATERMARK = SESSION_EVENT_QUEUE_OUTPUT_LIMIT div 2"

definition SESSION_EVENT_QUEUE_OUTPUT_EVENT_LIMIT :: nat where
  "SESSION_EVENT_QUEUE_OUTPUT_EVENT_LIMIT = 256 * 1024"

lemmas queue_limits =
  SESSION_EVENT_QUEUE_OUTPUT_LIMIT_def SESSION_EVENT_QUEUE_OUTPUT_LOW_WATERMARK_def
  SESSION_EVENT_QUEUE_OUTPUT_EVENT_LIMIT_def

record 'p SessionEventQueueInner =
  events :: "'p SessionEvent list"
  queued_output_bytes :: nat
  peak_output_bytes :: nat
  output_backpressured :: bool
  producer_active :: bool
  closed :: bool
  cancelled_sessions :: "session_id set"
  consumers :: "session_id \<rightharpoonup> SessionEventConsumerId"

definition queue_new :: "'p SessionEventQueueInner" where
  "queue_new = \<lparr>events = [], queued_output_bytes = 0, peak_output_bytes = 0,
     output_backpressured = False, producer_active = False, closed = False,
     cancelled_sessions = {}, consumers = Map.empty\<rparr>"

definition accepts :: "'p SessionEventQueueInner \<Rightarrow> session_id \<Rightarrow> bool" where
  "accepts q sid \<longleftrightarrow> \<not> closed q \<and> sid \<notin> cancelled_sessions q"

definition session_cancelled :: "'p SessionEventQueueInner \<Rightarrow> session_id \<Rightarrow> bool" where
  "session_cancelled q sid \<longleftrightarrow> closed q \<or> sid \<in> cancelled_sessions q"

fun is_end :: "'p SessionEvent \<Rightarrow> bool" where
  "is_end (Exited _ _) = True"
| "is_end (Error _ _) = True"
| "is_end _ = False"

definition session_ended :: "'p SessionEventQueueInner \<Rightarrow> session_id \<Rightarrow> bool" where
  "session_ended q sid \<longleftrightarrow> closed q \<or> sid \<in> cancelled_sessions q
     \<or> list_ex (\<lambda>e. is_end e \<and> event_session_id e = sid) (events q)"

definition consumer_for ::
  "'p SessionEventQueueInner \<Rightarrow> session_id \<Rightarrow> SessionEventConsumerId option" where
  "consumer_for q sid = consumers q sid"

definition resume_output_if_below_low_watermark ::
  "'p SessionEventQueueInner \<Rightarrow> 'p SessionEventQueueInner \<times> bool" where
  "resume_output_if_below_low_watermark q =
     (if output_backpressured q
        \<and> queued_output_bytes q \<le> SESSION_EVENT_QUEUE_OUTPUT_LOW_WATERMARK
      then (q\<lparr>output_backpressured := False\<rparr>, True) else (q, False))"

subsection \<open>Producers\<close>

text \<open>\<open>slice::chunks\<close>.\<close>

function chunks :: "nat \<Rightarrow> u8 list \<Rightarrow> u8 list list" where
  "chunks n d = (if d = [] \<or> n = 0 then [] else take n d # chunks n (drop n d))"
  by pat_completeness auto
termination
  by (relation "measure (\<lambda>(n, d). length d)") auto

declare chunks.simps [simp del]

datatype 'q attempt = Rejected 'q | Acquired 'q | Waits 'q

definition begin_push ::
  "'p SessionEventQueueInner \<Rightarrow> session_id \<Rightarrow> 'p SessionEventQueueInner attempt" where
  "begin_push q sid =
     (if \<not> accepts q sid then Rejected q
      else if \<not> producer_active q then Acquired (q\<lparr>producer_active := True\<rparr>)
      else Waits q)"

definition push_output_chunk ::
  "'p SessionEventQueueInner \<Rightarrow> session_id \<Rightarrow> u8 list \<Rightarrow> 'p SessionEventQueueInner attempt" where
  "push_output_chunk q sid d =
     (if \<not> accepts q sid then Rejected q
      else let fits = sat_add (queued_output_bytes q) (length d) \<le> SESSION_EVENT_QUEUE_OUTPUT_LIMIT in
        if \<not> output_backpressured q \<and> fits then
          let n = sat_add (queued_output_bytes q) (length d) in
          Acquired (q\<lparr>queued_output_bytes := n, peak_output_bytes := max (peak_output_bytes q) n,
                      events := events q @ [Output sid d],
                      output_backpressured :=
                        (if n \<ge> SESSION_EVENT_QUEUE_OUTPUT_LIMIT then True
                         else output_backpressured q)\<rparr>)
        else Waits (q\<lparr>output_backpressured := True\<rparr>))"

text \<open>The same critical section as \<open>push_async\<close> has it.\<close>

definition push_output_chunk_async ::
  "'p SessionEventQueueInner \<Rightarrow> session_id \<Rightarrow> u8 list \<Rightarrow> 'p SessionEventQueueInner attempt" where
  "push_output_chunk_async q sid d =
     (if \<not> accepts q sid then Rejected q
      else let fits = sat_add (queued_output_bytes q) (length d) \<le> SESSION_EVENT_QUEUE_OUTPUT_LIMIT in
        if \<not> output_backpressured q \<and> fits then
          let n = queued_output_bytes q + length d in
          Acquired (q\<lparr>queued_output_bytes := n, peak_output_bytes := max (peak_output_bytes q) n,
                      events := events q @ [Output sid d],
                      output_backpressured := n \<ge> SESSION_EVENT_QUEUE_OUTPUT_LIMIT\<rparr>)
        else Waits (q\<lparr>output_backpressured := True\<rparr>))"

definition begin_push_async ::
  "'p SessionEventQueueInner \<Rightarrow> session_id \<Rightarrow> 'p SessionEventQueueInner attempt" where
  "begin_push_async q sid =
     (if \<not> accepts q sid then Rejected q
      else if producer_active q then Waits q
      else Acquired (q\<lparr>producer_active := True\<rparr>))"

definition push_event :: "'p SessionEventQueueInner \<Rightarrow> 'p SessionEvent \<Rightarrow> 'p SessionEventQueueInner" where
  "push_event q e =
     (if accepts q (event_session_id e) then q\<lparr>events := events q @ [e]\<rparr> else q)"

definition producer_order_drop :: "'p SessionEventQueueInner \<Rightarrow> 'p SessionEventQueueInner" where
  "producer_order_drop q = q\<lparr>producer_active := False\<rparr>"

definition push_cleanup_failure ::
  "'p SessionEventQueueInner \<Rightarrow> 'p SessionEvent \<Rightarrow> 'p SessionEventQueueInner" where
  "push_cleanup_failure q e =
     (if closed q then q
      else if length (filter is_cleanup (events q)) \<ge> 256 then q
      else q\<lparr>events := events q @ [e]\<rparr>)"

text \<open>
  What a producer still has to push while it holds the turn: the chunks of an output event
  (\<open>push\<close> skips empty chunks, which \<open>chunks\<close> never yields), or one other event.
\<close>

fun pending_of :: "'p SessionEvent \<Rightarrow> 'p SessionEvent list" where
  "pending_of (Output sid d) =
     map (Output sid) (filter (\<lambda>c. c \<noteq> []) (chunks SESSION_EVENT_QUEUE_OUTPUT_EVENT_LIMIT d))"
| "pending_of e = [e]"

fun push_one :: "'p SessionEventQueueInner \<Rightarrow> 'p SessionEvent \<Rightarrow> 'p SessionEventQueueInner attempt" where
  "push_one q (Output sid d) = push_output_chunk q sid d"
| "push_one q e =
     (if accepts q (event_session_id e) then Acquired (push_event q e) else Rejected q)"

subsection \<open>Session and consumer management\<close>

definition cancel_session ::
  "'p SessionEventQueueInner \<Rightarrow> session_id \<Rightarrow> 'p SessionEventQueueInner" where
  "cancel_session q sid =
     (let removed = sum_list (map output_len
            (filter (\<lambda>e. is_output e \<and> event_session_id e = sid) (events q)));
          q1 = q\<lparr>cancelled_sessions := insert sid (cancelled_sessions q),
                 consumers := (consumers q)(sid := None),
                 events := filter (\<lambda>e. event_session_id e \<noteq> sid) (events q),
                 queued_output_bytes := queued_output_bytes q - removed\<rparr>
      in fst (resume_output_if_below_low_watermark q1))"

definition resume_session ::
  "'p SessionEventQueueInner \<Rightarrow> session_id \<Rightarrow> 'p SessionEventQueueInner" where
  "resume_session q sid =
     (if sid = [] then q else q\<lparr>cancelled_sessions := cancelled_sessions q - {sid}\<rparr>)"

definition assign_consumer ::
  "'p SessionEventQueueInner \<Rightarrow> session_id \<Rightarrow> SessionEventConsumerId \<Rightarrow> 'p SessionEventQueueInner" where
  "assign_consumer q sid c =
     (if sid = [] then q else q\<lparr>consumers := (consumers q)(sid \<mapsto> c)\<rparr>)"

definition clear_consumer ::
  "'p SessionEventQueueInner \<Rightarrow> session_id \<Rightarrow> SessionEventConsumerId \<Rightarrow> 'p SessionEventQueueInner" where
  "clear_consumer q sid c =
     (if consumers q sid = Some c then q\<lparr>consumers := (consumers q)(sid := None)\<rparr> else q)"

definition close_queue :: "'p SessionEventQueueInner \<Rightarrow> 'p SessionEventQueueInner" where
  "close_queue q = q\<lparr>closed := True\<rparr>"

subsection \<open>Consumers\<close>

record SessionDrainStats =
  drained_events :: nat
  drained_output_bytes :: nat
  queued_events :: nat
  queued_output :: nat
  dropped_output_bytes :: nat

definition stats_default :: SessionDrainStats where
  "stats_default = \<lparr>drained_events = 0, drained_output_bytes = 0, queued_events = 0,
     queued_output = 0, dropped_output_bytes = 0\<rparr>"

definition count_drained :: "'p SessionEvent \<Rightarrow> SessionDrainStats \<Rightarrow> SessionDrainStats" where
  "count_drained e s =
     s\<lparr>drained_events := sat_add (drained_events s) 1,
       drained_output_bytes := sat_add (drained_output_bytes s) (output_len e),
       dropped_output_bytes := sat_add (dropped_output_bytes s) (dropped_len e)\<rparr>"

text \<open>
  Taking the event at \<open>index\<close> under an output budget: either only the front of a too large
  output event, or the whole event.
\<close>

definition take_event ::
  "nat option \<Rightarrow> nat \<Rightarrow> 'p SessionEventQueueInner \<Rightarrow> SessionDrainStats \<Rightarrow>
   'p SessionEventQueueInner \<times> SessionDrainStats \<times> 'p SessionEvent" where
  "take_event budget index q s =
     (let whole = (let e = events q ! index in
            (q\<lparr>events := take index (events q) @ drop (Suc index) (events q),
               queued_output_bytes := queued_output_bytes q - output_len e\<rparr>,
             count_drained e s, e))
      in case (budget, events q ! index) of
           (Some m, Output sid d) \<Rightarrow>
             (let n = min (length d) (m - drained_output_bytes s) in
              if length d > n then
                (q\<lparr>events := (events q)[index := Output sid (drop n d)],
                   queued_output_bytes := queued_output_bytes q - n\<rparr>,
                 s\<lparr>drained_events := sat_add (drained_events s) 1,
                   drained_output_bytes := sat_add (drained_output_bytes s) n\<rparr>,
                 Output sid (take n d))
              else whole)
         | _ \<Rightarrow> whole)"

definition front_output :: "'p SessionEventQueueInner \<Rightarrow> bool" where
  "front_output q \<longleftrightarrow> events q \<noteq> [] \<and> is_output (hd (events q))"

definition budget_spent :: "nat option \<Rightarrow> SessionDrainStats \<Rightarrow> bool" where
  "budget_spent budget s \<longleftrightarrow> (case budget of None \<Rightarrow> False
     | Some m \<Rightarrow> (drained_output_bytes s \<ge> m \<and> drained_events s > 0) \<or> m - drained_output_bytes s = 0)"

fun drain_loop ::
  "nat \<Rightarrow> nat option \<Rightarrow> 'p SessionEventQueueInner \<Rightarrow> SessionDrainStats \<Rightarrow>
   'p SessionEventQueueInner \<times> SessionDrainStats \<times> 'p SessionEvent list" where
  "drain_loop 0 budget q s = (q, s, [])"
| "drain_loop (Suc n) budget q s =
     (if budget_spent budget s \<and> front_output q then (q, s, [])
      else if events q = [] then (q, s, [])
      else (let (q1, s1, e) = take_event budget 0 q s;
                (q2, s2, es) = drain_loop n budget q1 s1
            in (q2, s2, e # es)))"

definition drain_inner ::
  "'p SessionEventQueueInner \<Rightarrow> nat \<Rightarrow> nat option \<Rightarrow>
   'p SessionEventQueueInner \<times> 'p SessionEvent list \<times> SessionDrainStats" where
  "drain_inner q max_events budget =
     (let (q1, s, es) = drain_loop max_events budget q stats_default in
      (q1, es, s\<lparr>queued_events := length (events q1), queued_output := queued_output_bytes q1\<rparr>))"

definition drain_with_output_budget ::
  "'p SessionEventQueueInner \<Rightarrow> nat \<Rightarrow> nat option \<Rightarrow>
   'p SessionEventQueueInner \<times> 'p SessionEvent list \<times> SessionDrainStats" where
  "drain_with_output_budget q max_events budget =
     (let (q1, d) = drain_inner q max_events budget in
      (fst (resume_output_if_below_low_watermark q1), d))"

definition drain ::
  "'p SessionEventQueueInner \<Rightarrow> nat \<Rightarrow>
   'p SessionEventQueueInner \<times> 'p SessionEvent list \<times> SessionDrainStats" where
  "drain q max_events = drain_with_output_budget q max_events None"

definition event_belongs_to_consumer ::
  "'p SessionEventQueueInner \<Rightarrow> 'p SessionEvent \<Rightarrow> SessionEventConsumerId \<Rightarrow> bool" where
  "event_belongs_to_consumer q e c = (case e of
     CleanupFailed _ owner _ \<Rightarrow> owner = Some c
   | _ \<Rightarrow> consumers q (event_session_id e) = Some c)"

definition has_event_for_consumer :: "'p SessionEventQueueInner \<Rightarrow> SessionEventConsumerId \<Rightarrow> bool" where
  "has_event_for_consumer q c \<longleftrightarrow> list_ex (\<lambda>e. event_belongs_to_consumer q e c) (events q)"

text \<open>\<open>Iterator::position\<close>.\<close>

fun position :: "('a \<Rightarrow> bool) \<Rightarrow> 'a list \<Rightarrow> nat option" where
  "position P [] = None"
| "position P (x # xs) = (if P x then Some 0 else map_option Suc (position P xs))"

text \<open>Every round of the loop yields one event, so at most \<open>max_events\<close> rounds run.\<close>

fun consumer_loop ::
  "nat \<Rightarrow> SessionEventConsumerId \<Rightarrow> nat option \<Rightarrow> 'p SessionEventQueueInner \<Rightarrow> SessionDrainStats \<Rightarrow>
   'p SessionEventQueueInner \<times> SessionDrainStats \<times> 'p SessionEvent list" where
  "consumer_loop 0 c budget q s = (q, s, [])"
| "consumer_loop (Suc n) c budget q s =
     (case position (\<lambda>e. event_belongs_to_consumer q e c) (events q) of
        None \<Rightarrow> (q, s, [])
      | Some index \<Rightarrow>
          if (case budget of None \<Rightarrow> False
              | Some m \<Rightarrow> m - drained_output_bytes s = 0 \<and> is_output (events q ! index))
          then (q, s, [])
          else (let (q1, s1, e) = take_event budget index q s;
                    (q2, s2, es) = consumer_loop n c budget q1 s1
                in (q2, s2, e # es)))"

definition drain_for_consumer ::
  "'p SessionEventQueueInner \<Rightarrow> SessionEventConsumerId \<Rightarrow> nat \<Rightarrow> nat option \<Rightarrow>
   'p SessionEventQueueInner \<times> 'p SessionEvent list \<times> SessionDrainStats" where
  "drain_for_consumer q c max_events budget =
     (let (q1, s, es) = consumer_loop max_events c budget q stats_default;
          mine = filter (\<lambda>e. event_belongs_to_consumer q1 e c) (events q1)
      in (q1, es, s\<lparr>queued_events := length mine, queued_output := output_bytes mine\<rparr>))"

definition drain_consumer_with_output_budget ::
  "'p SessionEventQueueInner \<Rightarrow> SessionEventConsumerId \<Rightarrow> nat \<Rightarrow> nat option \<Rightarrow>
   'p SessionEventQueueInner \<times> 'p SessionEvent list \<times> SessionDrainStats" where
  "drain_consumer_with_output_budget q c max_events budget =
     (let (q1, d) = drain_for_consumer q c max_events budget in
      (fst (resume_output_if_below_low_watermark q1), d))"

subsection \<open>What a session's consumer sees\<close>

text \<open>
  The stream of a session: its output byte by byte, its other events as themselves. Cleanup
  diagnostics are addressed to a consumer and not part of it.
\<close>

definition event_items :: "session_id \<Rightarrow> 'p SessionEvent \<Rightarrow> (u8 + 'p SessionEvent) list" where
  "event_items s e =
     (if event_session_id e = s \<and> \<not> is_cleanup e
      then (case e of Output _ d \<Rightarrow> map Inl d | _ \<Rightarrow> [Inr e]) else [])"

definition items :: "session_id \<Rightarrow> 'p SessionEvent list \<Rightarrow> (u8 + 'p SessionEvent) list" where
  "items s es = concat (map (event_items s) es)"

lemma items_simps [simp]:
  "items s [] = []"
  "items s (e # es) = event_items s e @ items s es"
  "items s (es @ fs) = items s es @ items s fs"
  by (simp_all add: items_def)

lemma output_bytes_simps [simp]:
  "output_bytes [] = 0"
  "output_bytes (e # es) = output_len e + output_bytes es"
  "output_bytes (es @ fs) = output_bytes es + output_bytes fs"
  by (simp_all add: output_bytes_def)

lemma event_items_Output [simp]: "event_items s (Output t d) = (if t = s then map Inl d else [])"
  by (simp add: event_items_def)

lemma event_items_other: "event_items s e \<noteq> [] \<Longrightarrow> event_session_id e = s \<and> \<not> is_cleanup e"
  by (auto simp: event_items_def split: if_splits)

lemma is_output_iff: "is_output e \<longleftrightarrow> (\<exists>s d. e = Output s d)"
  by (cases e) auto

lemma output_len_not_output: "\<not> is_output e \<Longrightarrow> output_len e = 0"
  by (cases e) auto

lemma output_not_cleanup: "is_output e \<Longrightarrow> \<not> is_cleanup e"
  by (cases e) auto

text \<open>
  \<open>extracts q q1 es\<close>: the events \<open>es\<close> were taken out of \<open>q\<close> and left \<open>q1\<close>. Every
  session's stream is cut in two, the byte count stays exact, and what is left was there
  before, up to the front of an output event.
\<close>

definition part_of :: "'p SessionEvent \<Rightarrow> 'p SessionEvent \<Rightarrow> bool" where
  "part_of x y \<longleftrightarrow> x = y \<or> (is_output x \<and> is_output y
     \<and> event_session_id x = event_session_id y \<and> 0 < output_len x \<and> output_len x \<le> output_len y)"

definition extracts ::
  "'p SessionEventQueueInner \<Rightarrow> 'p SessionEventQueueInner \<Rightarrow> 'p SessionEvent list \<Rightarrow> bool" where
  "extracts q q1 es \<longleftrightarrow>
     q1 = q\<lparr>events := events q1, queued_output_bytes := queued_output_bytes q1\<rparr>
   \<and> (\<forall>s. items s (events q) = items s es @ items s (events q1))
   \<and> output_bytes (events q) = output_bytes es + output_bytes (events q1)
   \<and> queued_output_bytes q1 = queued_output_bytes q - output_bytes es
   \<and> (\<forall>x \<in> set (events q1). \<exists>y \<in> set (events q). part_of x y)
   \<and> length (filter is_cleanup (events q1)) \<le> length (filter is_cleanup (events q))"

lemma extracts_part: "extracts q q1 es \<Longrightarrow> x \<in> set (events q1) \<Longrightarrow> \<exists>y \<in> set (events q). part_of x y"
  unfolding extracts_def by (elim conjE) (erule (1) bspec)

lemma extracts_refl: "extracts q q []"
  by (auto simp: extracts_def part_of_def)

lemma part_of_trans: "part_of x y \<Longrightarrow> part_of y z \<Longrightarrow> part_of x z"
  by (auto simp: part_of_def)

lemma extracts_trans:
  assumes "extracts q q1 es" and "extracts q1 q2 fs"
  shows "extracts q q2 (es @ fs)"
proof -
  have "q2 = q\<lparr>events := events q2, queued_output_bytes := queued_output_bytes q2\<rparr>"
    using assms unfolding extracts_def
    by (metis (no_types, lifting) SessionEventQueueInner.surjective SessionEventQueueInner.update_convs(1,2))
  moreover have "\<exists>y \<in> set (events q). part_of x y" if "x \<in> set (events q2)" for x
    using assms that unfolding extracts_def by (metis part_of_trans)
  ultimately show ?thesis using assms by (auto simp: extracts_def)
qed

lemma take_event_extracts:
  assumes "events q = pre @ x # post"
    and "\<not> is_cleanup x \<Longrightarrow> \<forall>y \<in> set pre. is_cleanup y \<or> event_session_id y \<noteq> event_session_id x"
    and "take_event budget (length pre) q s = (q1, s1, e)"
  shows "extracts q q1 [e]"
proof -
  have pre: "event_items t x \<noteq> [] \<Longrightarrow> items t pre = []" for t
    using assms(2) event_items_other [of t] unfolding items_def by fastforce
  have x: "events q ! length pre = x" by (simp add: assms(1))
  show ?thesis
  proof (cases "\<exists>m t d. budget = Some m \<and> x = Output t d \<and> m - drained_output_bytes s < length d")
    case True
    then obtain m t d where b: "budget = Some m" and xd: "x = Output t d"
      and n: "m - drained_output_bytes s < length d" by blast
    let ?n = "m - drained_output_bytes s"
    have q1: "q1 = q\<lparr>events := pre @ Output t (drop ?n d) # post,
        queued_output_bytes := queued_output_bytes q - ?n\<rparr>" and e: "e = Output t (take ?n d)"
      using assms(3) x n by (auto simp: take_event_def b xd assms(1) Let_def min_def)
    have "map Inl d = map Inl (take ?n d) @ (map Inl (drop ?n d) :: (u8 + 'a SessionEvent) list)"
      by (metis append_take_drop_id map_append)
    with pre [of t] n show ?thesis
      by (auto simp: extracts_def q1 e assms(1) xd part_of_def)
  next
    case False
    then have q1: "q1 = q\<lparr>events := pre @ post, queued_output_bytes := queued_output_bytes q - output_len x\<rparr>"
      and e: "e = x"
      using assms(3) x
      by (auto simp: take_event_def assms(1) Let_def min_def split: option.splits SessionEvent.splits)
    have "items t pre @ event_items t x = event_items t x @ items t pre" for t
      using pre [of t] by (cases "event_items t x = []") simp_all
    then show ?thesis by (auto simp: extracts_def q1 e assms(1) part_of_def)
  qed
qed

lemma drain_loop_extracts: "drain_loop n budget q s = (q1, s1, es) \<Longrightarrow> extracts q q1 es"
proof (induction n arbitrary: q s q1 s1 es)
  case 0
  then show ?case by (simp add: extracts_refl)
next
  case (Suc n)
  show ?case
  proof (cases "(budget_spent budget s \<and> front_output q) \<or> events q = []")
    case True
    with Suc.prems show ?thesis by (auto simp: extracts_refl split: if_splits)
  next
    case False
    then obtain x post where ev: "events q = [] @ x # post" by (cases "events q") auto
    obtain q' s' e where t: "take_event budget 0 q s = (q', s', e)" by (cases "take_event budget 0 q s")
    obtain q'' s'' fs where l: "drain_loop n budget q' s' = (q'', s'', fs)"
      by (cases "drain_loop n budget q' s'")
    have "extracts q q' [e]" using take_event_extracts [OF ev, of budget s q' s' e] t by simp
    then have "extracts q q'' ([e] @ fs)" using Suc.IH [OF l] by (rule extracts_trans)
    moreover have "q1 = q''" "es = e # fs" using Suc.prems False t l by auto
    ultimately show ?thesis by simp
  qed
qed

lemma position_Some:
  "position P xs = Some i \<Longrightarrow> i < length xs \<and> P (xs ! i) \<and> (\<forall>j < i. \<not> P (xs ! j))"
  by (induction xs arbitrary: i) (auto simp: less_Suc_eq_0_disj split: if_splits)

lemma position_None: "position P xs = None \<longleftrightarrow> (\<forall>x \<in> set xs. \<not> P x)"
  by (induction xs) auto

lemma belongs_stream:
  "\<not> is_cleanup x \<Longrightarrow> \<not> is_cleanup y \<Longrightarrow> event_session_id y = event_session_id x \<Longrightarrow>
   event_belongs_to_consumer q y c = event_belongs_to_consumer q x c"
  by (cases x; cases y) (auto simp: event_belongs_to_consumer_def)

lemma consumer_loop_extracts: "consumer_loop n c budget q s = (q1, s1, es) \<Longrightarrow> extracts q q1 es"
proof (induction n arbitrary: q s q1 s1 es)
  case 0
  then show ?case by (simp add: extracts_refl)
next
  case (Suc n)
  let ?P = "\<lambda>e. event_belongs_to_consumer q e c"
  show ?case
  proof (cases "position ?P (events q)")
    case None
    with Suc.prems show ?thesis by (simp add: extracts_refl)
  next
    case (Some i)
    note p = position_Some [OF Some]
    show ?thesis
    proof (cases "case budget of None \<Rightarrow> False
        | Some m \<Rightarrow> m - drained_output_bytes s = 0 \<and> is_output (events q ! i)")
      case True
      then have "(q1, s1, es) = (q, s, [])" using Suc.prems Some by simp
      then show ?thesis by (simp add: extracts_refl)
    next
      case False
      let ?pre = "take i (events q)" and ?x = "events q ! i"
      have ev: "events q = ?pre @ ?x # drop (Suc i) (events q)" using p by (simp add: id_take_nth_drop)
      have len: "length ?pre = i" using p by simp
      obtain q' s' e where t: "take_event budget i q s = (q', s', e)" by (cases "take_event budget i q s")
      obtain q'' s'' fs where l: "consumer_loop n c budget q' s' = (q'', s'', fs)"
        by (cases "consumer_loop n c budget q' s'")
      have "\<forall>y \<in> set ?pre. is_cleanup y \<or> event_session_id y \<noteq> event_session_id ?x"
        if "\<not> is_cleanup ?x"
      proof
        fix y assume "y \<in> set ?pre"
        then obtain j where j: "j < i" "y = events q ! j" using p by (auto simp: in_set_conv_nth)
        then have "\<not> ?P y" using p by simp
        then show "is_cleanup y \<or> event_session_id y \<noteq> event_session_id ?x"
          using belongs_stream [OF that, of y q c] p by blast
      qed
      then have "extracts q q' [e]"
        using take_event_extracts [OF ev, of budget s q' s' e] t len by simp
      then have "extracts q q'' ([e] @ fs)" using Suc.IH [OF l] by (rule extracts_trans)
      moreover have "q1 = q''" "es = e # fs" using Suc.prems Some False t l by auto
      ultimately show ?thesis by simp
    qed
  qed
qed


lemma drain_extracts:
  assumes "drain_with_output_budget q n budget = (q1, es, st)"
  shows "\<exists>q'. extracts q q' es \<and> q1 = fst (resume_output_if_below_low_watermark q')"
proof -
  obtain q' s' es' where l: "drain_loop n budget q stats_default = (q', s', es')"
    by (cases "drain_loop n budget q stats_default")
  then have "es' = es" and "q1 = fst (resume_output_if_below_low_watermark q')"
    using assms by (auto simp: drain_with_output_budget_def drain_inner_def)
  with drain_loop_extracts [OF l] show ?thesis by blast
qed

lemma drain_consumer_extracts:
  assumes "drain_consumer_with_output_budget q c n budget = (q1, es, st)"
  shows "\<exists>q'. extracts q q' es \<and> q1 = fst (resume_output_if_below_low_watermark q')"
proof -
  obtain q' s' es' where l: "consumer_loop n c budget q stats_default = (q', s', es')"
    by (cases "consumer_loop n c budget q stats_default")
  then have "es' = es" and "q1 = fst (resume_output_if_below_low_watermark q')"
    using assms by (auto simp: drain_consumer_with_output_budget_def drain_for_consumer_def Let_def)
  with consumer_loop_extracts [OF l] show ?thesis by blast
qed

subsection \<open>Interleavings\<close>

text \<open>
  The queue together with the producer that holds the turn: the events it still has to push.
  Producers that wait for the turn have no state of their own yet.
\<close>

type_synonym 'p qsys = "'p SessionEventQueueInner \<times> 'p SessionEvent list option"

datatype 'p label = Internal | Pushed "'p SessionEvent" | Drained "'p SessionEvent list" | Cancelled session_id

inductive qstep :: "'p qsys \<Rightarrow> 'p label \<Rightarrow> 'p qsys \<Rightarrow> bool" where
  start_push: "begin_push q (event_session_id e) = Acquired q1 \<Longrightarrow> \<not> is_cleanup e \<Longrightarrow>
     qstep (q, t) Internal (q1, Some (pending_of e))"
| push: "push_one q e = Acquired q1 \<Longrightarrow> qstep (q, Some (e # es)) (Pushed e) (q1, Some es)"
| park: "push_one q e = Waits q1 \<Longrightarrow> qstep (q, Some (e # es)) Internal (q1, Some (e # es))"
| give_up: "push_one q e = Rejected q1 \<Longrightarrow>
     qstep (q, Some (e # es)) Internal (producer_order_drop q1, None)"
| finish: "qstep (q, Some []) Internal (producer_order_drop q, None)"
| cleanup: "qstep (q, t) Internal (push_cleanup_failure q (CleanupFailed s c oper), t)"
| cancel: "qstep (q, t) (Cancelled s) (cancel_session q s, t)"
| resume: "qstep (q, t) Internal (resume_session q s, t)"
| assign: "qstep (q, t) Internal (assign_consumer q s c, t)"
| clear: "qstep (q, t) Internal (clear_consumer q s c, t)"
| close: "qstep (q, t) Internal (close_queue q, t)"
| drain: "drain_with_output_budget q n budget = (q1, es, st) \<Longrightarrow> qstep (q, t) (Drained es) (q1, t)"
| drain_consumer: "drain_consumer_with_output_budget q c n budget = (q1, es, st) \<Longrightarrow>
     qstep (q, t) (Drained es) (q1, t)"

inductive qsteps :: "'p qsys \<Rightarrow> 'p label list \<Rightarrow> 'p qsys \<Rightarrow> bool" where
  none: "qsteps \<sigma> [] \<sigma>"
| more: "qsteps \<sigma> ls \<sigma>1 \<Longrightarrow> qstep \<sigma>1 l \<sigma>2 \<Longrightarrow> qsteps \<sigma> (ls @ [l]) \<sigma>2"

fun pushed :: "'p label list \<Rightarrow> 'p SessionEvent list" where
  "pushed [] = []"
| "pushed (Pushed e # ls) = e # pushed ls"
| "pushed (_ # ls) = pushed ls"

fun drained :: "'p label list \<Rightarrow> 'p SessionEvent list" where
  "drained [] = []"
| "drained (Drained es # ls) = es @ drained ls"
| "drained (_ # ls) = drained ls"

lemma pushed_append [simp]: "pushed (ls @ ms) = pushed ls @ pushed ms"
  by (induction ls rule: pushed.induct) simp_all

lemma drained_append [simp]: "drained (ls @ ms) = drained ls @ drained ms"
  by (induction ls rule: drained.induct) simp_all

definition output_ok :: "'p SessionEvent \<Rightarrow> bool" where
  "output_ok e \<longleftrightarrow> (is_output e \<longrightarrow>
     0 < output_len e \<and> output_len e \<le> SESSION_EVENT_QUEUE_OUTPUT_EVENT_LIMIT)"

text \<open>The invariant of the protected state, and of the queue with its producer.\<close>

definition bytes_ok :: "'p SessionEventQueueInner \<Rightarrow> bool" where
  "bytes_ok q \<longleftrightarrow>
     queued_output_bytes q = output_bytes (events q)
   \<and> queued_output_bytes q \<le> peak_output_bytes q
   \<and> peak_output_bytes q \<le> SESSION_EVENT_QUEUE_OUTPUT_LIMIT"

definition contents_ok :: "'p SessionEventQueueInner \<Rightarrow> bool" where
  "contents_ok q \<longleftrightarrow>
     (\<forall>e \<in> set (events q). output_ok e)
   \<and> (\<forall>e \<in> set (events q). event_session_id e \<in> cancelled_sessions q \<longrightarrow> is_cleanup e)
   \<and> length (filter is_cleanup (events q)) \<le> 256"

definition pressure_ok :: "'p SessionEventQueueInner \<Rightarrow> bool" where
  "pressure_ok q \<longleftrightarrow>
     (output_backpressured q \<longrightarrow>
        queued_output_bytes q > SESSION_EVENT_QUEUE_OUTPUT_LOW_WATERMARK)"

definition turn_ok :: "'p qsys \<Rightarrow> bool" where
  "turn_ok \<sigma> \<longleftrightarrow> (producer_active (fst \<sigma>) \<longleftrightarrow> snd \<sigma> \<noteq> None)
     \<and> (\<forall>es. snd \<sigma> = Some es \<longrightarrow> (\<forall>e \<in> set es. output_ok e \<and> \<not> is_cleanup e))"

definition queue_ok :: "'p qsys \<Rightarrow> bool" where
  "queue_ok \<sigma> \<longleftrightarrow> bytes_ok (fst \<sigma>) \<and> contents_ok (fst \<sigma>) \<and> pressure_ok (fst \<sigma>) \<and> turn_ok \<sigma>"

lemmas queue_ok_defs = queue_ok_def bytes_ok_def contents_ok_def pressure_ok_def turn_ok_def

lemma queue_ok_new: "queue_ok (queue_new, None)"
  by (simp add: queue_ok_defs queue_new_def)

lemma chunks_ok: "c \<in> set (chunks n d) \<Longrightarrow> 0 < length c \<and> length c \<le> n"
  by (induction n d rule: chunks.induct) (subst (asm) (2) chunks.simps, auto split: if_splits)

lemma chunks_concat: "0 < n \<Longrightarrow> concat (chunks n d) = d"
  by (induction n d rule: chunks.induct) (subst chunks.simps, simp)

lemma pending_of_ok: "\<not> is_cleanup e \<Longrightarrow> e' \<in> set (pending_of e) \<Longrightarrow> output_ok e' \<and> \<not> is_cleanup e'"
  by (cases e) (auto simp: output_ok_def dest: chunks_ok)

lemma resume_output_fst:
  "fst (resume_output_if_below_low_watermark q) =
     q\<lparr>output_backpressured := output_backpressured q
        \<and> SESSION_EVENT_QUEUE_OUTPUT_LOW_WATERMARK < queued_output_bytes q\<rparr>"
  by (auto simp: resume_output_if_below_low_watermark_def)

lemma resume_output_ok:
  "bytes_ok q \<Longrightarrow> contents_ok q \<Longrightarrow> turn_ok (q, t) \<Longrightarrow>
   queue_ok (fst (resume_output_if_below_low_watermark q), t)"
  by (auto simp: resume_output_fst queue_ok_defs)

lemma extracts_ok:
  assumes "queue_ok (q, t)" and "extracts q q1 es"
  shows "queue_ok (fst (resume_output_if_below_low_watermark q1), t)"
proof (rule resume_output_ok)
  have q1: "q1 = q\<lparr>events := events q1, queued_output_bytes := queued_output_bytes q1\<rparr>"
    using assms(2) unfolding extracts_def by blast
  have f: "peak_output_bytes q1 = peak_output_bytes q" "cancelled_sessions q1 = cancelled_sessions q"
      "producer_active q1 = producer_active q"
    by (subst q1, simp)+
  show "bytes_ok q1" using assms f by (auto simp: queue_ok_defs extracts_def)
  show "turn_ok (q1, t)" using assms(1) f by (simp add: queue_ok_defs)
  have "output_ok x \<and> (event_session_id x \<in> cancelled_sessions q \<longrightarrow> is_cleanup x)"
    if x: "x \<in> set (events q1)" for x
  proof -
    obtain y where "y \<in> set (events q)" and "part_of x y"
      using extracts_part [OF assms(2) x] by (rule bexE)
    then show ?thesis
      using assms(1) output_not_cleanup [of y]
      by (auto simp: queue_ok_defs part_of_def output_ok_def)
  qed
  moreover have "length (filter is_cleanup (events q1)) \<le> 256"
    using assms by (simp add: queue_ok_defs extracts_def)
  ultimately show "contents_ok q1" by (simp add: contents_ok_def f)
qed

lemma push_one_cases:
  assumes "push_one q e = Acquired q1"
  shows "accepts q (event_session_id e) \<and> events q1 = events q @ [e]
    \<and> cancelled_sessions q1 = cancelled_sessions q \<and> producer_active q1 = producer_active q
    \<and> (if is_output e
       then \<not> output_backpressured q
          \<and> queued_output_bytes q + output_len e \<le> SESSION_EVENT_QUEUE_OUTPUT_LIMIT
          \<and> queued_output_bytes q1 = queued_output_bytes q + output_len e
          \<and> peak_output_bytes q1 = max (peak_output_bytes q) (queued_output_bytes q1)
          \<and> (output_backpressured q1 \<longrightarrow>
               SESSION_EVENT_QUEUE_OUTPUT_LIMIT \<le> queued_output_bytes q1)
       else queued_output_bytes q1 = queued_output_bytes q
          \<and> peak_output_bytes q1 = peak_output_bytes q
          \<and> output_backpressured q1 = output_backpressured q)"
  using assms
  by (cases e) (auto simp: push_output_chunk_def push_event_def Let_def sat_add_def usize_max_def
      queue_limits min_def split: if_splits)

lemma push_one_waits:
  assumes "push_one q e = Waits q1"
  shows "is_output e \<and> accepts q (event_session_id e) \<and> q1 = q\<lparr>output_backpressured := True\<rparr>
    \<and> (output_backpressured q
       \<or> SESSION_EVENT_QUEUE_OUTPUT_LIMIT < queued_output_bytes q + output_len e)"
  using assms
  by (cases e) (auto simp: push_output_chunk_def Let_def sat_add_def usize_max_def
      queue_limits min_def split: if_splits)

lemma push_one_rejected: "push_one q e = Rejected q1 \<Longrightarrow> q1 = q \<and> \<not> accepts q (event_session_id e)"
  by (cases e) (auto simp: push_output_chunk_def Let_def split: if_splits)


lemma cancel_session_ok:
  assumes "queue_ok (q, t)"
  shows "queue_ok (cancel_session q s, t)"
proof -
  have "output_bytes (filter (\<lambda>e. event_session_id e \<noteq> s) es) = output_bytes es -
      sum_list (map output_len (filter (\<lambda>e. is_output e \<and> event_session_id e = s) es))
    \<and> sum_list (map output_len (filter (\<lambda>e. is_output e \<and> event_session_id e = s) es)) \<le> output_bytes es"
    for es :: "'a SessionEvent list"
    by (induction es) (auto simp: output_len_not_output)
  moreover have "length (filter is_cleanup (filter (\<lambda>e. event_session_id e \<noteq> s) es)) \<le>
      length (filter is_cleanup es)" for es :: "'a SessionEvent list"
    by (induction es) auto
  ultimately show ?thesis
    unfolding cancel_session_def Let_def using assms
    by (intro resume_output_ok) (auto simp: queue_ok_defs intro: le_trans)
qed

lemma qstep_ok:
  assumes "qstep \<sigma> l \<sigma>1" and "queue_ok \<sigma>"
  shows "queue_ok \<sigma>1"
  using assms
proof (induction rule: qstep.induct)
  case (start_push q e q1 t)
  then show ?case using pending_of_ok [of e]
    by (auto simp: begin_push_def queue_ok_defs split: if_splits)
next
  case (push q e q1 es)
  then show ?case using push_one_cases [of q e q1] output_len_not_output [of e]
    by (auto simp: queue_ok_defs accepts_def queue_limits split: if_splits)
next
  case (park q e q1 es)
  then show ?case using push_one_waits [of q e q1]
    by (auto simp: queue_ok_defs output_ok_def queue_limits)
next
  case (give_up q e q1 es)
  then show ?case using push_one_rejected [of q e q1]
    by (auto simp: queue_ok_defs producer_order_drop_def)
next
  case (cancel q t s)
  then show ?case by (simp add: cancel_session_ok)
next
  case (drain q n budget q1 es st t)
  then show ?case using extracts_ok drain_extracts by blast
next
  case (drain_consumer q c n budget q1 es st t)
  then show ?case using extracts_ok drain_consumer_extracts by blast
qed (auto simp: queue_ok_defs producer_order_drop_def push_cleanup_failure_def resume_session_def
      assign_consumer_def clear_consumer_def close_queue_def output_ok_def)

lemma qsteps_ok: "qsteps \<sigma> ls \<sigma>1 \<Longrightarrow> queue_ok \<sigma> \<Longrightarrow> queue_ok \<sigma>1"
  by (induction rule: qsteps.induct) (auto intro: qstep_ok)

lemma qstep_items:
  assumes "qstep \<sigma> l \<sigma>1" and "l \<noteq> Cancelled s"
  shows "items s (events (fst \<sigma>)) @ items s (pushed [l]) = items s (drained [l]) @ items s (events (fst \<sigma>1))"
  using assms
proof (induction rule: qstep.induct)
  case (start_push q e q1 t)
  then show ?case by (auto simp: begin_push_def split: if_splits)
next
  case (push q e q1 es)
  then show ?case using push_one_cases [of q e q1] by simp
next
  case (park q e q1 es)
  then show ?case using push_one_waits [of q e q1] by simp
next
  case (give_up q e q1 es)
  then show ?case using push_one_rejected [of q e q1] by (simp add: producer_order_drop_def)
next
  case (cancel q t s')
  have "items s (filter (\<lambda>e. event_session_id e \<noteq> s') es) = items s es" for es :: "'a SessionEvent list"
    using cancel.prems by (induction es) (auto simp: event_items_def)
  then show ?case by (simp add: cancel_session_def resume_output_fst Let_def)
next
  case (drain q n budget q1 es st t)
  then obtain q' where "extracts q q' es" and "q1 = fst (resume_output_if_below_low_watermark q')"
    using drain_extracts by blast
  then show ?case by (simp add: extracts_def resume_output_fst)
next
  case (drain_consumer q c n budget q1 es st t)
  then obtain q' where "extracts q q' es" and "q1 = fst (resume_output_if_below_low_watermark q')"
    using drain_consumer_extracts by blast
  then show ?case by (simp add: extracts_def resume_output_fst)
qed (auto simp: producer_order_drop_def push_cleanup_failure_def resume_session_def
      assign_consumer_def clear_consumer_def close_queue_def event_items_def)


lemma run_items:
  assumes "qsteps (queue_new, None) ls (q, t)" and "Cancelled s \<notin> set ls"
  shows "items s (pushed ls) = items s (drained ls) @ items s (events q)"
proof -
  have "qsteps \<sigma> ls \<sigma>1 \<Longrightarrow> \<sigma> = (queue_new, None) \<Longrightarrow> Cancelled s \<notin> set ls \<Longrightarrow>
      items s (pushed ls) = items s (drained ls) @ items s (events (fst \<sigma>1))" for \<sigma> \<sigma>1
  proof (induction rule: qsteps.induct)
    case (none \<sigma>)
    then show ?case by (simp add: queue_new_def)
  next
    case (more \<sigma> ls \<sigma>1 l \<sigma>2)
    then show ?case using qstep_items [of \<sigma>1 l \<sigma>2 s] by auto
  qed
  then show ?thesis using assms by fastforce
qed

text \<open>(C6) No output is lost, duplicated or reordered: for a session that was not cancelled,
  what producers pushed is what consumers drained followed by what is still queued, byte by
  byte and with the other events at their places, through every splitting of large output and
  every budgeted or per-consumer drain.\<close>

theorem queue_streams_intact:
  assumes "qsteps (queue_new, None) ls (q, t)" and "Cancelled s \<notin> set ls"
  shows "items s (pushed ls) = items s (drained ls) @ items s (events q)"
  using assms by (rule run_items)


text \<open>A run that splits, drains by budget and by consumer.\<close>

definition demo_queue :: "nat SessionEventQueueInner" where
  "demo_queue = queue_new\<lparr>producer_active := True, events := [Output [1] [7, 8, 9]],
     queued_output_bytes := 3, peak_output_bytes := 3\<rparr>"

lemma demo_run_begun:
  "qsteps (queue_new, None) [Internal]
     (queue_new\<lparr>producer_active := True\<rparr>, Some [Output [1] [7, 8, 9] :: nat SessionEvent])"
proof -
  have "qstep (queue_new :: nat SessionEventQueueInner, None) Internal
      (queue_new\<lparr>producer_active := True\<rparr>, Some (pending_of (Output [1] [7, 8, 9])))"
    by (rule qstep.start_push) (simp_all add: begin_push_def accepts_def queue_new_def)
  from qsteps.more [OF qsteps.none this] show ?thesis by (simp add: chunks.simps queue_limits)
qed

lemma demo_run_pushed:
  "qsteps (queue_new, None) [Internal, Pushed (Output [1] [7, 8, 9])] (demo_queue, Some [])"
proof -
  have "qstep (queue_new\<lparr>producer_active := True\<rparr>, Some [Output [1] [7, 8, 9]])
      (Pushed (Output [1] [7, 8, 9])) (demo_queue, Some [])"
    by (rule qstep.push) (simp add: push_output_chunk_def accepts_def queue_new_def demo_queue_def
        sat_add_def usize_max_def queue_limits)
  from qsteps.more [OF demo_run_begun this] show ?thesis by simp
qed

lemma demo_drain:
  "drain_with_output_budget demo_queue (Suc (Suc 0)) (Some 2) =
     (demo_queue\<lparr>events := [Output [1] [9]], queued_output_bytes := 1\<rparr>, [Output [1] [7, 8]],
      \<lparr>drained_events = 1, drained_output_bytes = 2, queued_events = 1, queued_output = 1,
       dropped_output_bytes = 0\<rparr>)"
  by (simp add: drain_with_output_budget_def drain_inner_def demo_queue_def queue_new_def
      take_event_def budget_spent_def front_output_def stats_default_def sat_add_def usize_max_def
      resume_output_if_below_low_watermark_def)

lemma demo_run:
  "qsteps (queue_new, None)
     [Internal, Pushed (Output [1] [7, 8, 9]), Drained [Output [1] [7, 8]]]
     (demo_queue\<lparr>events := [Output [1] [9]], queued_output_bytes := 1\<rparr>, Some [])"
  using qsteps.more [OF demo_run_pushed qstep.drain [OF demo_drain]] by simp


theorem queue_streams_intact_witness:
  "items [1] (pushed [Internal, Pushed (Output [1] [7, 8, 9] :: nat SessionEvent), Drained [Output [1] [7, 8]]]) =
     [Inl 7, Inl 8] @ [Inl 9]"
  using queue_streams_intact [OF demo_run, of "[1]"] by simp

subsection \<open>Draining\<close>

definition too_large :: "nat option \<Rightarrow> SessionDrainStats \<Rightarrow> 'p SessionEvent \<Rightarrow> bool" where
  "too_large budget s x \<longleftrightarrow>
     (\<exists>m t d. budget = Some m \<and> x = Output t d \<and> m - drained_output_bytes s < length d)"

lemma take_event_split:
  assumes "m - drained_output_bytes s < length d" and "events q ! i = Output t d"
  shows "take_event (Some m) i q s =
    (q\<lparr>events := (events q)[i := Output t (drop (m - drained_output_bytes s) d)],
       queued_output_bytes := queued_output_bytes q - (m - drained_output_bytes s)\<rparr>,
     s\<lparr>drained_events := sat_add (drained_events s) 1,
       drained_output_bytes := sat_add (drained_output_bytes s) (m - drained_output_bytes s)\<rparr>,
     Output t (take (m - drained_output_bytes s) d))"
  using assms by (simp add: take_event_def Let_def min_def)

lemma take_event_whole:
  assumes "\<not> too_large budget s (events q ! i)"
  shows "take_event budget i q s =
    (q\<lparr>events := take i (events q) @ drop (Suc i) (events q),
       queued_output_bytes := queued_output_bytes q - output_len (events q ! i)\<rparr>,
     count_drained (events q ! i) s, events q ! i)"
  using assms
  by (auto simp: take_event_def too_large_def Let_def split: option.split SessionEvent.split)

lemma take_event_stats:
  assumes "i < length (events q)" and "take_event budget i q s = (q1, s1, e)"
    and "drained_output_bytes s + output_len (events q ! i) \<le> usize_max"
  shows "drained_output_bytes s1 = drained_output_bytes s + output_len e
    \<and> (\<forall>c. event_belongs_to_consumer q e c = event_belongs_to_consumer q (events q ! i) c)
    \<and> (\<forall>m. budget = Some m \<longrightarrow> is_output e \<longrightarrow> output_len e \<le> m - drained_output_bytes s)
    \<and> consumers q1 = consumers q"
proof (cases "too_large budget s (events q ! i)")
  case True
  then obtain m t d where b: "budget = Some m" "events q ! i = Output t d"
    "m - drained_output_bytes s < length d" by (auto simp: too_large_def)
  then show ?thesis
    using assms(2,3) take_event_split [OF b(3,2)]
    by (auto simp: sat_add_def event_belongs_to_consumer_def)
next
  case False
  then show ?thesis
    using assms(2,3) take_event_whole [OF False] is_output_iff [of "events q ! i"]
    by (auto simp: sat_add_def count_drained_def too_large_def)
qed

lemma take_event_bytes:
  assumes "i < length (events q)" and "take_event budget i q s = (q1, s1, e)"
  shows "output_bytes (events q1) + output_len e = output_bytes (events q)"
proof -
  have "events q = take i (events q) @ events q ! i # drop (Suc i) (events q)"
    using assms(1) by (rule id_take_nth_drop)
  then have b: "output_bytes (events q) =
      output_bytes (take i (events q)) + (output_len (events q ! i) + output_bytes (drop (Suc i) (events q)))"
    by (metis output_bytes_simps(2,3))
  show ?thesis
  proof (cases "too_large budget s (events q ! i)")
    case True
    then obtain m t d where c: "budget = Some m" "events q ! i = Output t d"
      "m - drained_output_bytes s < length d" by (auto simp: too_large_def)
    have "q1 = q\<lparr>events := (events q)[i := Output t (drop (m - drained_output_bytes s) d)],
         queued_output_bytes := queued_output_bytes q - (m - drained_output_bytes s)\<rparr>"
      "e = Output t (take (m - drained_output_bytes s) d)"
      using assms(2) take_event_split [OF c(3,2)] by (simp_all add: c(1))
    then show ?thesis using b c assms(1) by (simp add: upd_conv_take_nth_drop)
  next
    case False
    have "q1 = q\<lparr>events := take i (events q) @ drop (Suc i) (events q),
       queued_output_bytes := queued_output_bytes q - output_len (events q ! i)\<rparr>"
      "e = events q ! i"
      using assms(2) take_event_whole [OF False] by auto
    then show ?thesis using b by simp
  qed
qed

lemma belongs_consumers:
  "consumers q1 = consumers q \<Longrightarrow> event_belongs_to_consumer q1 e c = event_belongs_to_consumer q e c"
  by (cases e) (simp_all add: event_belongs_to_consumer_def)

definition consumer_stop ::
  "'p SessionEventQueueInner \<Rightarrow> SessionEventConsumerId \<Rightarrow> nat option \<Rightarrow> nat \<Rightarrow> bool" where
  "consumer_stop q c budget drained_bytes \<longleftrightarrow>
     \<not> has_event_for_consumer q c
   \<or> (\<exists>m pre x post. budget = Some m \<and> m \<le> drained_bytes \<and> events q = pre @ x # post
        \<and> (\<forall>y \<in> set pre. \<not> event_belongs_to_consumer q y c)
        \<and> event_belongs_to_consumer q x c \<and> is_output x)"

lemma consumer_loop_spec:
  assumes "consumer_loop n c budget q s = (q1, s1, es)"
    and "drained_output_bytes s + output_bytes (events q) \<le> usize_max"
  shows "length es \<le> n \<and> (\<forall>e \<in> set es. event_belongs_to_consumer q e c)
    \<and> drained_output_bytes s1 = drained_output_bytes s + output_bytes es
    \<and> (\<forall>m. budget = Some m \<longrightarrow> drained_output_bytes s \<le> m \<longrightarrow> drained_output_bytes s1 \<le> m)
    \<and> (length es < n \<longrightarrow> consumer_stop q1 c budget (drained_output_bytes s1))"
  using assms
proof (induction n arbitrary: q s q1 s1 es)
  case 0
  then show ?case by simp
next
  case (Suc n)
  let ?P = "\<lambda>e. event_belongs_to_consumer q e c"
  show ?case
  proof (cases "position ?P (events q)")
    case None
    then have "\<not> has_event_for_consumer q c"
      by (simp add: has_event_for_consumer_def list_ex_iff position_None)
    with None Suc.prems show ?thesis by (simp add: consumer_stop_def)
  next
    case (Some i)
    note p = position_Some [OF Some]
    have ev: "events q = take i (events q) @ events q ! i # drop (Suc i) (events q)"
      using p by (simp add: id_take_nth_drop)
    show ?thesis
    proof (cases "case budget of None \<Rightarrow> False
        | Some m \<Rightarrow> m - drained_output_bytes s = 0 \<and> is_output (events q ! i)")
      case True
      then have r: "(q1, s1, es) = (q, s, [])" using Suc.prems Some by simp
      have "\<forall>y \<in> set (take i (events q)). \<not> ?P y" using p by (auto simp: in_set_conv_nth)
      moreover obtain m where "budget = Some m" "m \<le> drained_output_bytes s" "is_output (events q ! i)"
        using True by (auto split: option.splits)
      ultimately have "consumer_stop q c budget (drained_output_bytes s)"
        unfolding consumer_stop_def using ev p by blast
      with r show ?thesis by simp
    next
      case False
      obtain q' s' e where t: "take_event budget i q s = (q', s', e)" by (cases "take_event budget i q s")
      obtain q'' s'' fs where l: "consumer_loop n c budget q' s' = (q'', s'', fs)"
        by (cases "consumer_loop n c budget q' s'")
      have r: "q1 = q''" "s1 = s''" "es = e # fs" using Suc.prems Some False t l by auto
      have "output_len (events q ! i) \<le> output_bytes (events q)"
        by (subst (2) ev) simp
      with Suc.prems(2) have st: "drained_output_bytes s' = drained_output_bytes s + output_len e"
          "\<forall>m. budget = Some m \<longrightarrow> is_output e \<longrightarrow> output_len e \<le> m - drained_output_bytes s"
          "?P e" "consumers q' = consumers q"
        using take_event_stats [OF _ t] p by auto
      have "output_bytes (events q') + output_len e = output_bytes (events q)"
        using take_event_bytes [OF _ t] p by simp
      then have "drained_output_bytes s' + output_bytes (events q') \<le> usize_max"
        using st(1) Suc.prems(2) by simp
      note IH = Suc.IH [OF l this]
      have "output_len e \<le> m - drained_output_bytes s" if "budget = Some m" for m
        using st(2) that output_len_not_output [of e] by (cases "is_output e") auto
      then show ?thesis
        using IH st(1,3) belongs_consumers [OF st(4)]
        by (auto simp: r)
    qed
  qed
qed

lemma output_bytes_bound: "queue_ok (q, t) \<Longrightarrow> output_bytes (events q) \<le> usize_max"
  by (auto simp: queue_ok_defs queue_limits usize_max_def)

text \<open>A consumer's drain, in every reachable state: it yields at most the asked number of
  events and output bytes, only events of the consumer, counts the bytes it yields, and stops
  early only when the consumer has nothing left or its next event is output beyond the budget.\<close>

theorem queue_consumer_drain:
  assumes "qsteps (queue_new, None) ls (q, t)"
    and "drain_consumer_with_output_budget q c n budget = (q1, es, st)"
  shows "length es \<le> n \<and> (\<forall>e \<in> set es. event_belongs_to_consumer q e c)
    \<and> drained_output_bytes st = output_bytes es
    \<and> (\<forall>m. budget = Some m \<longrightarrow> output_bytes es \<le> m)
    \<and> (length es < n \<longrightarrow> consumer_stop q1 c budget (output_bytes es))"
proof -
  obtain q' s' es' where l: "consumer_loop n c budget q stats_default = (q', s', es')"
    by (cases "consumer_loop n c budget q stats_default")
  have "output_bytes (events q) \<le> usize_max"
    using qsteps_ok [OF assms(1) queue_ok_new] by (rule output_bytes_bound)
  then have "drained_output_bytes stats_default + output_bytes (events q) \<le> usize_max"
    by (simp add: stats_default_def)
  note sp = consumer_loop_spec [OF l this]
  have r: "q1 = fst (resume_output_if_below_low_watermark q')" "es' = es"
      "drained_output_bytes st = drained_output_bytes s'"
    using assms(2) l by (auto simp: drain_consumer_with_output_budget_def drain_for_consumer_def Let_def)
  have "consumer_stop q1 c budget k = consumer_stop q' c budget k" for k
    using belongs_consumers [of q1 q'] r(1)
    by (simp add: resume_output_fst consumer_stop_def has_event_for_consumer_def)
  then show ?thesis using sp r by (auto simp: stats_default_def)
qed

theorem queue_consumer_drain_witness:
  "case drain_consumer_with_output_budget (assign_consumer demo_queue [1] 5) 5 (Suc (Suc 0)) (Some 2) of
     (q1, es, st) \<Rightarrow> es = [Output [1] [7, 8]] \<and> drained_output_bytes st = 2
       \<and> consumer_stop q1 5 (Some 2) 2"
proof -
  obtain q1 es st where d: "drain_consumer_with_output_budget (assign_consumer demo_queue [1] 5) 5
      (Suc (Suc 0)) (Some 2) = (q1, es, st)"
    by (cases "drain_consumer_with_output_budget (assign_consumer demo_queue [1] 5) 5
      (Suc (Suc 0)) (Some 2)")
  have "es = [Output [1] [7, 8]]"
    using d by (simp add: drain_consumer_with_output_budget_def drain_for_consumer_def demo_queue_def
      assign_consumer_def queue_new_def event_belongs_to_consumer_def take_event_def
      stats_default_def sat_add_def usize_max_def Let_def split: prod.splits)
  then show ?thesis
    using queue_consumer_drain [OF qsteps.more [OF demo_run_pushed qstep.assign] d] d by (simp add: numeral_2_eq_2)
qed

lemma drain_loop_all: "length (events q) \<le> n \<Longrightarrow> events (fst (drain_loop n None q s)) = []"
proof (induction n arbitrary: q s)
  case (Suc n)
  show ?case
  proof (cases "events q")
    case (Cons x post)
    then have "length (events (fst (take_event None 0 q s))) \<le> n"
      using Suc.prems by (simp add: take_event_def Let_def)
    then show ?thesis using Suc.IH Cons by (simp add: budget_spent_def split_beta)
  qed (simp add: budget_spent_def)
qed simp

text \<open>(C20) No deadlock by back-pressure: a producer that waits for space, in any reachable state
  in which its session is still served, can push its next chunk as soon as a drain has emptied
  the queue, because the drain takes the queue below the low watermark and so lifts the
  back-pressure.\<close>

theorem queue_producer_unblocked:
  assumes "qsteps (queue_new, None) ls (q, Some (e # es))"
    and "accepts q (event_session_id e)" and "length (events q) \<le> n"
  shows "\<exists>q2. push_one (fst (drain q n)) e = Acquired q2"
proof -
  have ok: "queue_ok (q, Some (e # es))" by (rule qsteps_ok [OF assms(1) queue_ok_new])
  obtain q' s' fs where l: "drain_loop n None q stats_default = (q', s', fs)"
    by (cases "drain_loop n None q stats_default")
  have ev: "events q' = []" using drain_loop_all [OF assms(3), of stats_default] l by simp
  note x = drain_loop_extracts [OF l]
  have q': "q' = q\<lparr>events := events q', queued_output_bytes := queued_output_bytes q'\<rparr>"
    using x unfolding extracts_def by blast
  have "accepts q' t = accepts q t" for t by (subst q') (simp add: accepts_def)
  moreover have "queued_output_bytes q' = 0"
    using x ev ok by (simp add: extracts_def queue_ok_defs)
  moreover have "fst (drain q n) = q'\<lparr>output_backpressured := False\<rparr>"
    using l \<open>queued_output_bytes q' = 0\<close>
    by (simp add: drain_def drain_with_output_budget_def drain_inner_def resume_output_fst)
  moreover have "output_len e \<le> SESSION_EVENT_QUEUE_OUTPUT_EVENT_LIMIT"
    using ok output_len_not_output [of e] by (cases "is_output e") (auto simp: queue_ok_defs output_ok_def)
  ultimately show ?thesis
    using assms(2) by (cases e)
      (auto simp: push_output_chunk_def accepts_def Let_def sat_add_def usize_max_def queue_limits)
qed

theorem queue_producer_unblocked_witness:
  "\<exists>q2. push_one (fst (drain (queue_new\<lparr>producer_active := True\<rparr>) 3))
     (Output [1] [7, 8, 9] :: nat SessionEvent) = Acquired q2"
  using queue_producer_unblocked [OF demo_run_begun, of 3]
  by (simp add: accepts_def queue_new_def)

text \<open>The synchronous and the asynchronous producer run the same critical sections.\<close>

lemma push_async_same:
  "begin_push_async q sid = begin_push q sid"
  "queued_output_bytes q + length d \<le> usize_max \<Longrightarrow>
   push_output_chunk_async q sid d = push_output_chunk q sid d"
  by (auto simp: begin_push_async_def begin_push_def push_output_chunk_async_def push_output_chunk_def
      sat_add_def Let_def)

end
