(* ===== verification/Recording.thy ===== *)
theory Recording
  imports Prelude
begin

text \<open>
  Plain-text transcripts (\<open>nyaterm-terminal/src/recording_sanitizer.rs\<close>): the streaming
  removal of terminal controls and the single-row editor behind it. A Rust string is a list
  of scalar values here, and a byte offset at a character boundary the position of the
  character; the width table of unicode-width is the parameter \<open>cw\<close> (\<open>ch.width()\<close>).
  An underflow or an invalid range, where Rust panics, gives \<open>None\<close>.
\<close>

subsection \<open>Sanitizer\<close>

definition MAX_CSI_PARAMS :: nat where
  "MAX_CSI_PARAMS = 32"

definition MAX_CURSOR_COLUMN :: nat where
  "MAX_CURSOR_COLUMN = 64 * 1024"

datatype SanState =
  SGround | SEscape | SEscapeIntermediate | SCsi
| SString (st_osc: bool) (st_escape: bool)

datatype RecordingEvent =
  Character nat
| Backspace
| CarriageReturn
| Newline
| Tab
| CursorLeft nat
| CursorRight nat
| CursorColumn nat
| EraseLine nat
| DeleteCharacters nat
| InsertCharacters nat

text \<open>\<open>csi_params\<close> holds the first \<open>csi_len\<close> parameter bytes.\<close>

record RecordingSanitizer =
  san_state :: SanState
  csi_params :: "nat list"
  csi_invalid :: bool

definition san_default :: RecordingSanitizer where
  "san_default = \<lparr>san_state = SGround, csi_params = [], csi_invalid = False\<rparr>"

definition san_reset :: "RecordingSanitizer \<Rightarrow> RecordingSanitizer" where
  "san_reset s = s\<lparr>san_state := SGround, csi_params := [], csi_invalid := False\<rparr>"

text \<open>\<open>char::is_control\<close>: the general category Cc.\<close>

definition is_control :: "nat \<Rightarrow> bool" where
  "is_control ch \<longleftrightarrow> ch < 0x20 \<or> (0x7F \<le> ch \<and> ch < 0xA0)"

definition begin_csi :: "RecordingSanitizer \<Rightarrow> RecordingSanitizer" where
  "begin_csi s = s\<lparr>csi_params := [], csi_invalid := False, san_state := SCsi\<rparr>"

fun csi_count :: "nat list \<Rightarrow> nat \<Rightarrow> nat option" where
  "csi_count [] count = Some count"
| "csi_count (b # bs) count =
     (if 0x30 \<le> b \<and> b \<le> 0x39 then csi_count bs (sat_add (sat_mul count 10) (b - 0x30)) else None)"

definition csi_event :: "RecordingSanitizer \<Rightarrow> nat \<Rightarrow> RecordingEvent option" where
  "csi_event s final_char =
     (if csi_invalid s \<or> final_char \<notin> {0x44, 0x43, 0x47, 0x60, 0x4B, 0x50, 0x40} then None
      else case csi_count (csi_params s) 0 of
          None \<Rightarrow> None
        | Some n \<Rightarrow>
            (let count = min n MAX_CURSOR_COLUMN; movement = max count 1 in
             Some (if final_char = 0x44 then CursorLeft movement
                   else if final_char = 0x43 then CursorRight movement
                   else if final_char = 0x47 \<or> final_char = 0x60 then CursorColumn (movement - 1)
                   else if final_char = 0x4B then EraseLine count
                   else if final_char = 0x50 then DeleteCharacters movement
                   else InsertCharacters movement)))"

definition ground_char :: "RecordingSanitizer \<Rightarrow> nat \<Rightarrow> RecordingSanitizer \<times> RecordingEvent list" where
  "ground_char s ch =
     (if ch = 0x1B then (s\<lparr>san_state := SEscape\<rparr>, [])
      else if ch = 0x9B then (begin_csi s, [])
      else if ch = 0x9D then (s\<lparr>san_state := SString True False\<rparr>, [])
      else if ch \<in> {0x90, 0x98, 0x9E, 0x9F} then (s\<lparr>san_state := SString False False\<rparr>, [])
      else if ch = 0x0D then (s, [CarriageReturn])
      else if ch = 0x08 then (s, [Backspace])
      else if ch = 0x0A then (s, [Newline])
      else if ch = 0x09 then (s, [Tab])
      else if \<not> is_control ch then (s, [Character ch])
      else (s, []))"

definition escape_char :: "RecordingSanitizer \<Rightarrow> nat \<Rightarrow> RecordingSanitizer" where
  "escape_char s ch =
     (if ch = 0x5B then begin_csi s
      else if ch = 0x5D then s\<lparr>san_state := SString True False\<rparr>
      else if ch \<in> {0x50, 0x58, 0x5E, 0x5F} then s\<lparr>san_state := SString False False\<rparr>
      else if ch = 0x1B then s\<lparr>san_state := SEscape\<rparr>
      else if 0x20 \<le> ch \<and> ch \<le> 0x2F then s\<lparr>san_state := SEscapeIntermediate\<rparr>
      else s\<lparr>san_state := SGround\<rparr>)"

definition csi_char :: "RecordingSanitizer \<Rightarrow> nat \<Rightarrow> RecordingSanitizer \<times> RecordingEvent list" where
  "csi_char s ch =
     (if 0x30 \<le> ch \<and> ch \<le> 0x3F then
        (if length (csi_params s) < MAX_CSI_PARAMS
         then (s\<lparr>csi_params := csi_params s @ [ch]\<rparr>, [])
         else (s\<lparr>csi_invalid := True\<rparr>, []))
      else if 0x40 \<le> ch \<and> ch \<le> 0x7E then
        (s\<lparr>san_state := SGround\<rparr>,
         case csi_event s ch of None \<Rightarrow> [] | Some event \<Rightarrow> [event])
      else if ch = 0x1B then (s\<lparr>san_state := SEscape\<rparr>, [])
      else if ch = 0x18 \<or> ch = 0x1A then (s\<lparr>san_state := SGround\<rparr>, [])
      else (s\<lparr>csi_invalid := True\<rparr>, []))"

definition san_char :: "RecordingSanitizer \<Rightarrow> nat \<Rightarrow> RecordingSanitizer \<times> RecordingEvent list" where
  "san_char s ch = (case san_state s of
     SGround \<Rightarrow> ground_char s ch
   | SEscape \<Rightarrow> (escape_char s ch, [])
   | SEscapeIntermediate \<Rightarrow>
       (if 0x30 \<le> ch \<and> ch \<le> 0x7E then (s\<lparr>san_state := SGround\<rparr>, [])
        else if ch = 0x1B then (s\<lparr>san_state := SEscape\<rparr>, [])
        else (s, []))
   | SCsi \<Rightarrow> csi_char s ch
   | SString osc escape \<Rightarrow>
       (if ch = 0x9C \<or> (osc \<and> ch = 0x07) \<or> (escape \<and> ch = 0x5C)
        then (s\<lparr>san_state := SGround\<rparr>, [])
        else (s\<lparr>san_state := SString osc (ch = 0x1B)\<rparr>, [])))"

fun feed_events :: "RecordingSanitizer \<Rightarrow> nat list \<Rightarrow> RecordingSanitizer \<times> RecordingEvent list" where
  "feed_events s [] = (s, [])"
| "feed_events s (ch # chs) =
     (let (s1, e1) = san_char s ch; (s2, e2) = feed_events s1 chs in (s2, e1 @ e2))"

fun event_text :: "RecordingEvent \<Rightarrow> nat list" where
  "event_text (Character ch) = [ch]"
| "event_text Newline = [0x0A]"
| "event_text Tab = [0x09]"
| "event_text _ = []"

definition san_feed :: "RecordingSanitizer \<Rightarrow> nat list \<Rightarrow> RecordingSanitizer \<times> nat list" where
  "san_feed s chs =
     (let (s1, es) = feed_events s chs in (s1, concat (map event_text es)))"

subsection \<open>Row editor\<close>

record RecordingLineEditor =
  line :: "nat list"
  cursor :: nat
  row_width :: nat

definition editor_default :: RecordingLineEditor where
  "editor_default = \<lparr>line = [], cursor = 0, row_width = 0\<rparr>"

definition char_w :: "(nat \<Rightarrow> nat option) \<Rightarrow> nat \<Rightarrow> nat" where
  "char_w cw ch = (case cw ch of None \<Rightarrow> 0 | Some w \<Rightarrow> w)"

definition blanks :: "nat \<Rightarrow> nat list" where
  "blanks n = replicate n 0x20"

definition replace_range :: "nat \<Rightarrow> nat \<Rightarrow> nat list \<Rightarrow> nat list \<Rightarrow> nat list option" where
  "replace_range a b new l =
     (if a \<le> b \<and> b \<le> length l then Some (take a l @ new @ drop b l) else None)"

fun index_loop :: "(nat \<Rightarrow> nat option) \<Rightarrow> nat \<Rightarrow> nat list \<Rightarrow> nat \<Rightarrow> nat \<Rightarrow> (nat \<times> nat) option" where
  "index_loop cw target [] index column = None"
| "index_loop cw target (ch # chs) index column =
     (if column + char_w cw ch > target then Some (index, column)
      else index_loop cw target chs (Suc index) (column + char_w cw ch))"

definition index_at :: "(nat \<Rightarrow> nat option) \<Rightarrow> RecordingLineEditor \<Rightarrow> nat \<Rightarrow> nat \<times> nat" where
  "index_at cw ed target =
     (if target \<ge> row_width ed then (length (line ed), row_width ed)
      else case index_loop cw target (line ed) 0 0 of
          Some r \<Rightarrow> r
        | None \<Rightarrow> (length (line ed), row_width ed))"

definition normalize_cell_at ::
  "(nat \<Rightarrow> nat option) \<Rightarrow> RecordingLineEditor \<Rightarrow> nat \<Rightarrow> RecordingLineEditor option" where
  "normalize_cell_at cw ed target =
     (let (index, column) = index_at cw ed target in
      if column < target \<and> index < length (line ed) then
        map_option (\<lambda>l. ed\<lparr>line := l\<rparr>)
          (replace_range index (Suc index) (blanks (char_w cw (line ed ! index))) (line ed))
      else Some ed)"

definition write_character ::
  "(nat \<Rightarrow> nat option) \<Rightarrow> RecordingLineEditor \<Rightarrow> nat \<Rightarrow> RecordingLineEditor option" where
  "write_character cw ed ch =
     (let w = char_w cw ch;
          move = (\<lambda>ed1. ed1\<lparr>cursor := min (sat_add (cursor ed) w) MAX_CURSOR_COLUMN\<rparr>)
      in if cursor ed \<ge> row_width ed then
           Some (move (ed\<lparr>line := line ed @ blanks (cursor ed - row_width ed) @ [ch],
                          row_width := cursor ed + w\<rparr>))
         else
           (let (start, start_column) = index_at cw ed (cursor ed);
                target = cursor ed + w;
                (end1, end_column1) = index_at cw ed target;
                straddles = end_column1 < target \<and> end1 < length (line ed);
                end2 = (if straddles then Suc end1 else end1);
                end_column2 = (if straddles then end_column1 + char_w cw (line ed ! end1) else end_column1)
            in Option.bind (sub_usize (cursor ed) start_column) (\<lambda>gap.
                 map_option (\<lambda>l. move (ed\<lparr>line := l, row_width := max (row_width ed) target\<rparr>))
                   (replace_range start end2
                     (blanks gap @ [ch] @ blanks (end_column2 - target)) (line ed)))))"

definition trim_end_blanks :: "nat list \<Rightarrow> nat list" where
  "trim_end_blanks l = rev (dropWhile (\<lambda>ch. ch = 0x20) (rev l))"

definition take_pending :: "RecordingLineEditor \<Rightarrow> RecordingLineEditor \<times> nat list" where
  "take_pending ed =
     (ed\<lparr>cursor := 0, row_width := 0, line := []\<rparr>, trim_end_blanks (line ed))"

definition erase_right :: "(nat \<Rightarrow> nat option) \<Rightarrow> RecordingLineEditor \<Rightarrow> RecordingLineEditor option" where
  "erase_right cw ed =
     (let (start, column) = index_at cw ed (cursor ed) in
      map_option (\<lambda>gap. ed\<lparr>line := take start (line ed) @ blanks gap,
                           row_width := min (cursor ed) (row_width ed)\<rparr>)
        (sub_usize (min (cursor ed) (row_width ed)) column))"

definition erase_left :: "(nat \<Rightarrow> nat option) \<Rightarrow> RecordingLineEditor \<Rightarrow> RecordingLineEditor option" where
  "erase_left cw ed =
     (let end_column = min (sat_add (cursor ed) 1) (row_width ed);
          (end1, column) = index_at cw ed end_column;
          straddles = column < end_column \<and> end1 < length (line ed);
          end2 = (if straddles then Suc end1 else end1);
          erased = (if straddles then column + char_w cw (line ed ! end1) else end_column)
      in map_option (\<lambda>l. ed\<lparr>line := l\<rparr>) (replace_range 0 end2 (blanks erased) (line ed)))"

definition delete_characters ::
  "(nat \<Rightarrow> nat option) \<Rightarrow> RecordingLineEditor \<Rightarrow> nat \<Rightarrow> RecordingLineEditor option" where
  "delete_characters cw ed count =
     Option.bind (normalize_cell_at cw ed (cursor ed)) (\<lambda>ed1.
     Option.bind (normalize_cell_at cw ed1 (sat_add (cursor ed1) count)) (\<lambda>ed2.
       (let (start, column) = index_at cw ed2 (cursor ed2);
            (end1, end_column) = index_at cw ed2 (sat_add (cursor ed2) count)
        in Option.bind (replace_range start end1 [] (line ed2)) (\<lambda>l.
           Option.bind (sub_usize end_column column) (\<lambda>d.
             map_option (\<lambda>w. ed2\<lparr>line := l, row_width := w\<rparr>) (sub_usize (row_width ed2) d))))))"

definition insert_characters ::
  "(nat \<Rightarrow> nat option) \<Rightarrow> RecordingLineEditor \<Rightarrow> nat \<Rightarrow> RecordingLineEditor option" where
  "insert_characters cw ed count =
     Option.bind (normalize_cell_at cw ed (cursor ed)) (\<lambda>ed1.
       (let n = min count (MAX_CURSOR_COLUMN - row_width ed1);
            (start, _) = index_at cw ed1 (cursor ed1)
        in map_option (\<lambda>l. ed1\<lparr>line := l, row_width := row_width ed1 + n\<rparr>)
             (replace_range start start (blanks n) (line ed1))))"

fun editor_feed ::
  "(nat \<Rightarrow> nat option) \<Rightarrow> RecordingLineEditor \<Rightarrow> RecordingEvent \<Rightarrow>
   (RecordingLineEditor \<times> nat list option) option" where
  "editor_feed cw ed Tab =
     Some (ed\<lparr>cursor := min ((cursor ed div 8 + 1) * 8) MAX_CURSOR_COLUMN\<rparr>, None)"
| "editor_feed cw ed Backspace = Some (ed\<lparr>cursor := cursor ed - 1\<rparr>, None)"
| "editor_feed cw ed CarriageReturn = Some (ed\<lparr>cursor := 0\<rparr>, None)"
| "editor_feed cw ed Newline = (let (ed1, l) = take_pending ed in Some (ed1, Some l))"
| "editor_feed cw ed (CursorLeft count) = Some (ed\<lparr>cursor := cursor ed - count\<rparr>, None)"
| "editor_feed cw ed (CursorRight count) =
     Some (ed\<lparr>cursor := min (sat_add (cursor ed) count) MAX_CURSOR_COLUMN\<rparr>, None)"
| "editor_feed cw ed (CursorColumn column) =
     Some (ed\<lparr>cursor := min column MAX_CURSOR_COLUMN\<rparr>, None)"
| "editor_feed cw ed (Character ch) = map_option (\<lambda>e. (e, None)) (write_character cw ed ch)"
| "editor_feed cw ed (EraseLine n) =
     (if n = 0 then map_option (\<lambda>e. (e, None)) (erase_right cw ed)
      else if n = 1 then map_option (\<lambda>e. (e, None)) (erase_left cw ed)
      else if n = 2 then Some (ed\<lparr>line := [], row_width := 0\<rparr>, None)
      else Some (ed, None))"
| "editor_feed cw ed (DeleteCharacters count) =
     map_option (\<lambda>e. (e, None)) (delete_characters cw ed count)"
| "editor_feed cw ed (InsertCharacters count) =
     map_option (\<lambda>e. (e, None)) (insert_characters cw ed count)"

definition editor_clear :: "RecordingLineEditor \<Rightarrow> RecordingLineEditor" where
  "editor_clear ed = ed\<lparr>line := [], cursor := 0, row_width := 0\<rparr>"

text \<open>All events in turn: the editor afterwards and the finished lines.\<close>

fun editor_run ::
  "(nat \<Rightarrow> nat option) \<Rightarrow> RecordingLineEditor \<Rightarrow> RecordingEvent list \<Rightarrow>
   (RecordingLineEditor \<times> nat list list) option" where
  "editor_run cw ed [] = Some (ed, [])"
| "editor_run cw ed (e # es) =
     Option.bind (editor_feed cw ed e) (\<lambda>(ed1, out).
       map_option (\<lambda>(ed2, ls). (ed2, (case out of None \<Rightarrow> ls | Some l \<Rightarrow> l # ls)))
         (editor_run cw ed1 es))"

subsection \<open>The sanitizer is a stream consumer\<close>

lemma feed_events_append:
  "feed_events s (xs @ ys) =
     (let (s1, e1) = feed_events s xs; (s2, e2) = feed_events s1 ys in (s2, e1 @ e2))"
  by (induction xs arbitrary: s) (simp_all add: split_beta Let_def)

interpretation event_stream: stream_consumer feed_events "\<lambda>_. True"
  by unfold_locales (simp_all add: feed_events_append)

interpretation text_stream: stream_consumer san_feed "\<lambda>_. True"
  by unfold_locales (simp_all add: san_feed_def feed_events_append split_beta Let_def)

definition transcript_char :: "nat \<Rightarrow> bool" where
  "transcript_char ch \<longleftrightarrow> \<not> is_control ch \<or> ch = 0x0A \<or> ch = 0x09"

lemma csi_event_text: "csi_event s ch = Some e \<Longrightarrow> event_text e = []"
  by (auto simp: csi_event_def Let_def split: if_splits option.splits)

lemma san_char_text: "\<forall>x \<in> set (concat (map event_text (snd (san_char s ch)))). transcript_char x"
proof (cases "san_state s")
  case SGround
  then show ?thesis
    by (auto simp: san_char_def ground_char_def transcript_char_def split: if_splits)
next
  case SCsi
  then show ?thesis
    by (cases "csi_event s ch") (auto simp: san_char_def csi_char_def csi_event_text split: if_splits)
qed (simp_all add: san_char_def)

lemma san_feed_text: "\<forall>x \<in> set (snd (san_feed s chs)). transcript_char x"
proof (induction chs arbitrary: s)
  case (Cons ch chs)
  then show ?case using san_char_text [of s ch]
    by (simp add: san_feed_def split_beta Let_def) blast
qed (simp add: san_feed_def)

lemma san_feed_plain:
  "san_state s = SGround \<Longrightarrow> \<forall>x \<in> set chs. transcript_char x \<Longrightarrow> san_feed s chs = (s, chs)"
proof (induction chs)
  case (Cons ch chs)
  have "san_char s ch = (s, if ch = 0x0A then [Newline] else if ch = 0x09 then [Tab] else [Character ch])"
    using Cons.prems by (auto simp: san_char_def ground_char_def transcript_char_def is_control_def)
  with Cons show ?case by (auto simp: san_feed_def split_beta Let_def)
qed (simp add: san_feed_def)

text \<open>The transcript text does not depend on how the output was cut into pieces, holds no
  control characters but newlines and tabs, whatever escape sequences came in, and is the text
  itself when the text has none.\<close>

theorem recording_sanitized:
  "snd (feed_chunks san_feed san_default cs) = snd (san_feed san_default (concat cs))
 \<and> list_all transcript_char (snd (feed_chunks san_feed san_default cs))
 \<and> (list_all transcript_char (concat cs) \<longrightarrow> snd (feed_chunks san_feed san_default cs) = concat cs)"
proof -
  have "feed_chunks san_feed san_default cs = san_feed san_default (concat cs)"
    by (rule text_stream.feed_chunks_concat) simp
  then show ?thesis
    using san_feed_text [of san_default "concat cs"] san_feed_plain [of san_default "concat cs"]
    by (simp add: list_all_iff san_default_def)
qed

theorem recording_sanitized_witness:
  "snd (feed_chunks san_feed san_default [[0x68, 0x1B], [0x5B, 0x33], [0x31, 0x6D, 0x69]]) = [0x68, 0x69]
 \<and> snd (feed_chunks san_feed san_default [[0x68], [0x69, 0x0A]]) = [0x68, 0x69, 0x0A]"
  using recording_sanitized [of "[[0x68, 0x1B], [0x5B, 0x33], [0x31, 0x6D, 0x69]]"]
    recording_sanitized [of "[[0x68], [0x69, 0x0A]]"]
  by (simp add: transcript_char_def is_control_def san_feed_def san_default_def san_char_def
      ground_char_def escape_char_def begin_csi_def csi_char_def csi_event_def MAX_CSI_PARAMS_def)

subsection \<open>Columns of the row\<close>

definition cells :: "(nat \<Rightarrow> nat option) \<Rightarrow> nat list \<Rightarrow> nat" where
  "cells cw l = sum_list (map (char_w cw) l)"

lemma cells_simps [simp]:
  "cells cw [] = 0"
  "cells cw (ch # l) = char_w cw ch + cells cw l"
  "cells cw (l @ k) = cells cw l + cells cw k"
  by (simp_all add: cells_def)

text \<open>What is known of the width table: no character is wider than two cells, a blank is one.\<close>

definition width_table :: "(nat \<Rightarrow> nat option) \<Rightarrow> bool" where
  "width_table cw \<longleftrightarrow> (\<forall>ch. char_w cw ch \<le> 2) \<and> char_w cw 0x20 = 1"

lemma cells_blanks [simp]: "width_table cw \<Longrightarrow> cells cw (blanks n) = n"
  by (induction n) (simp_all add: blanks_def width_table_def)

lemma cells_take_drop: "cells cw (take n l) + cells cw (drop n l) = cells cw l"
  by (metis append_take_drop_id cells_simps(3))

lemma cells_take_Suc: "n < length l \<Longrightarrow> cells cw (take (Suc n) l) = cells cw (take n l) + char_w cw (l ! n)"
  by (simp add: take_Suc_conv_app_nth)

lemma cells_take_mono: "m \<le> n \<Longrightarrow> cells cw (take m l) \<le> cells cw (take n l)"
  using cells_take_drop [of cw m "take n l"] by (simp add: min_def)

definition editor_ok :: "(nat \<Rightarrow> nat option) \<Rightarrow> RecordingLineEditor \<Rightarrow> bool" where
  "editor_ok cw ed \<longleftrightarrow> row_width ed = cells cw (line ed)
     \<and> cursor ed \<le> MAX_CURSOR_COLUMN \<and> row_width ed \<le> MAX_CURSOR_COLUMN + 2"

lemma index_loop_spec:
  "column \<le> target \<Longrightarrow> target < column + cells cw l \<Longrightarrow>
   \<exists>k < length l. index_loop cw target l index column = Some (index + k, column + cells cw (take k l))
     \<and> column + cells cw (take k l) \<le> target
     \<and> target < column + cells cw (take k l) + char_w cw (l ! k)"
proof (induction l arbitrary: index column)
  case (Cons ch l)
  show ?case
  proof (cases "column + char_w cw ch > target")
    case True
    then show ?thesis using Cons.prems by (intro exI [of _ 0]) simp
  next
    case False
    then obtain k where "k < length l"
      "index_loop cw target l (Suc index) (column + char_w cw ch) =
         Some (Suc index + k, column + char_w cw ch + cells cw (take k l))"
      "column + char_w cw ch + cells cw (take k l) \<le> target"
      "target < column + char_w cw ch + cells cw (take k l) + char_w cw (l ! k)"
      using Cons.IH [of "column + char_w cw ch" "Suc index"] Cons.prems by auto
    then show ?thesis using False by (intro exI [of _ "Suc k"]) simp
  qed
qed simp

lemma index_at_spec:
  assumes "row_width ed = cells cw (line ed)" and "index_at cw ed target = (i, c)"
  shows "i \<le> length (line ed) \<and> c = cells cw (take i (line ed)) \<and> c \<le> target
    \<and> (target < row_width ed \<longrightarrow> i < length (line ed) \<and> target < c + char_w cw (line ed ! i))
    \<and> (row_width ed \<le> target \<longrightarrow> i = length (line ed) \<and> c = row_width ed)"
proof (cases "target \<ge> row_width ed")
  case True
  then show ?thesis using assms by (auto simp: index_at_def)
next
  case False
  then show ?thesis
    using index_loop_spec [of 0 target cw "line ed" 0] assms by (auto simp: index_at_def)
qed

lemma index_at_mono:
  assumes "row_width ed = cells cw (line ed)" and "s \<le> t"
    and "index_at cw ed s = (i, c)" and "index_at cw ed t = (j, d)"
  shows "i \<le> j \<and> c \<le> d"
proof -
  note si = index_at_spec [OF assms(1,3)] and sj = index_at_spec [OF assms(1,4)]
  have "i \<le> j"
  proof (rule ccontr)
    assume "\<not> i \<le> j"
    then have ji: "Suc j \<le> i" "j < length (line ed)" using si by auto
    then have "t < row_width ed" using sj by (meson leD le_less_linear less_irrefl)
    then have "t < d + char_w cw (line ed ! j)" using sj by simp
    also have "\<dots> = cells cw (take (Suc j) (line ed))" using sj ji by (simp add: cells_take_Suc)
    also have "\<dots> \<le> c" using si cells_take_mono [OF ji(1), of cw "line ed"] by simp
    finally show False using si assms(2) by simp
  qed
  then show ?thesis using si sj cells_take_mono [of i j cw "line ed"] by simp
qed


lemma replace_range_cells:
  assumes "i \<le> j" and "j \<le> length l"
  shows "\<exists>l1. replace_range i j new l = Some l1
    \<and> cells cw l1 + cells cw (take j l) = cells cw (take i l) + cells cw new + cells cw l"
proof -
  have "cells cw (drop j l) + cells cw (take j l) = cells cw l"
    using cells_take_drop [of cw j l] by simp
  then show ?thesis using assms by (simp add: replace_range_def)
qed

lemma write_character_ok:
  assumes wt: "width_table cw" and ok: "editor_ok cw ed"
  shows "\<exists>ed1. write_character cw ed ch = Some ed1 \<and> editor_ok cw ed1"
proof (cases "cursor ed \<ge> row_width ed")
  case True
  have "char_w cw ch \<le> 2" using wt by (simp add: width_table_def)
  then show ?thesis using True wt ok by (auto simp: write_character_def editor_ok_def Let_def)
next
  case False
  have w: "row_width ed = cells cw (line ed)" using ok by (simp add: editor_ok_def)
  have w2: "char_w cw ch \<le> 2" using wt by (simp add: width_table_def)
  obtain i c where s: "index_at cw ed (cursor ed) = (i, c)" by (cases "index_at cw ed (cursor ed)")
  define t where "t = cursor ed + char_w cw ch"
  obtain j d where e: "index_at cw ed t = (j, d)" by (cases "index_at cw ed t")
  note si = index_at_spec [OF w s] and sj = index_at_spec [OF w e]
  have ij: "i \<le> j" using index_at_mono [OF w _ s e] by (simp add: t_def)
  define st where "st \<longleftrightarrow> d < t \<and> j < length (line ed)"
  define j2 where "j2 = (if st then Suc j else j)"
  define d2 where "d2 = (if st then d + char_w cw (line ed ! j) else d)"
  have j2: "i \<le> j2" "j2 \<le> length (line ed)" "d2 = cells cw (take j2 (line ed))"
    using ij sj by (auto simp: j2_def d2_def st_def cells_take_Suc)
  have d2: "t \<le> d2 \<or> (row_width ed \<le> t \<and> d2 = row_width ed)"
    using sj by (auto simp: d2_def st_def)
  have d2w: "d2 \<le> row_width ed"
    using j2(2,3) w cells_take_mono [of j2 "length (line ed)" cw "line ed"] by simp
  obtain l1 where l1: "replace_range i j2 (blanks (cursor ed - c) @ [ch] @ blanks (d2 - t)) (line ed) = Some l1"
      "cells cw l1 + d2 = c + (cursor ed - c + char_w cw ch + (d2 - t)) + row_width ed"
    using replace_range_cells [OF j2(1,2), of "blanks (cursor ed - c) @ [ch] @ blanks (d2 - t)" cw] si j2(3) wt w
    by auto
  have "write_character cw ed ch = Some (ed\<lparr>line := l1, row_width := max (row_width ed) t,
      cursor := min (sat_add (cursor ed) (char_w cw ch)) MAX_CURSOR_COLUMN\<rparr>)"
    using False s e si l1(1)
    by (simp add: write_character_def Let_def sub_usize_def t_def st_def j2_def d2_def)
  moreover have "cells cw l1 = max (row_width ed) t" using l1(2) si d2 d2w by (auto simp: t_def)
  moreover have "max (row_width ed) t \<le> MAX_CURSOR_COLUMN + 2"
    using ok w2 False by (auto simp: editor_ok_def t_def)
  ultimately show ?thesis by (simp add: editor_ok_def)
qed

lemma normalize_cell_ok:
  assumes wt: "width_table cw" and w: "row_width ed = cells cw (line ed)"
  shows "\<exists>l. normalize_cell_at cw ed t = Some (ed\<lparr>line := l\<rparr>) \<and> cells cw l = row_width ed"
proof -
  obtain i c where s: "index_at cw ed t = (i, c)" by (cases "index_at cw ed t")
  note si = index_at_spec [OF w s]
  show ?thesis
  proof (cases "c < t \<and> i < length (line ed)")
    case True
    then obtain l where "replace_range i (Suc i) (blanks (char_w cw (line ed ! i))) (line ed) = Some l"
        "cells cw l = row_width ed"
      using replace_range_cells [of i "Suc i" "line ed" "blanks (char_w cw (line ed ! i))" cw] wt w
      by (auto simp: cells_take_Suc)
    then show ?thesis using True s by (auto simp: normalize_cell_at_def)
  next
    case False
    moreover have "ed\<lparr>line := line ed\<rparr> = ed" by simp
    ultimately show ?thesis using w s by (auto simp: normalize_cell_at_def intro!: exI [of _ "line ed"])
  qed
qed

lemma erase_right_ok:
  assumes wt: "width_table cw" and ok: "editor_ok cw ed"
  shows "\<exists>ed1. erase_right cw ed = Some ed1 \<and> editor_ok cw ed1"
proof -
  have w: "row_width ed = cells cw (line ed)" using ok by (simp add: editor_ok_def)
  obtain i c where s: "index_at cw ed (cursor ed) = (i, c)" by (cases "index_at cw ed (cursor ed)")
  note si = index_at_spec [OF w s]
  have "c \<le> min (cursor ed) (row_width ed)"
    using si w cells_take_mono [of i "length (line ed)" cw "line ed"] by simp
  then show ?thesis using s si wt ok by (auto simp: erase_right_def sub_usize_def editor_ok_def)
qed

lemma erase_left_ok:
  assumes wt: "width_table cw" and ok: "editor_ok cw ed"
  shows "\<exists>ed1. erase_left cw ed = Some ed1 \<and> editor_ok cw ed1"
proof -
  have w: "row_width ed = cells cw (line ed)" using ok by (simp add: editor_ok_def)
  define t where "t = min (sat_add (cursor ed) 1) (row_width ed)"
  obtain i c where s: "index_at cw ed t = (i, c)" by (cases "index_at cw ed t")
  note si = index_at_spec [OF w s]
  have tw: "t \<le> row_width ed" by (simp add: t_def)
  define st where "st \<longleftrightarrow> c < t \<and> i < length (line ed)"
  define i2 where "i2 = (if st then Suc i else i)"
  define n where "n = (if st then c + char_w cw (line ed ! i) else t)"
  have i2: "i2 \<le> length (line ed)" "cells cw (take i2 (line ed)) = n"
    using si tw by (auto simp: i2_def n_def st_def cells_take_Suc)
  obtain l where "replace_range 0 i2 (blanks n) (line ed) = Some l" "cells cw l = row_width ed"
    using replace_range_cells [of 0 i2 "line ed" "blanks n" cw] i2 wt w by auto
  moreover from this have "erase_left cw ed = Some (ed\<lparr>line := l\<rparr>)"
    unfolding erase_left_def Let_def t_def [symmetric] s
    by (simp add: st_def [symmetric] i2_def [symmetric] n_def [symmetric])
  ultimately show ?thesis using ok by (simp add: editor_ok_def)
qed

lemma delete_characters_ok:
  assumes wt: "width_table cw" and ok: "editor_ok cw ed"
  shows "\<exists>ed1. delete_characters cw ed n = Some ed1 \<and> editor_ok cw ed1"
proof -
  have w: "row_width ed = cells cw (line ed)" using ok by (simp add: editor_ok_def)
  obtain l1 where l1: "normalize_cell_at cw ed (cursor ed) = Some (ed\<lparr>line := l1\<rparr>)"
    "cells cw l1 = row_width ed" using normalize_cell_ok [OF wt w] by blast
  define t where "t = sat_add (cursor ed) n"
  obtain l2 where l2: "normalize_cell_at cw (ed\<lparr>line := l1\<rparr>) t = Some (ed\<lparr>line := l2\<rparr>)"
    "cells cw l2 = row_width ed" using normalize_cell_ok [OF wt, of "ed\<lparr>line := l1\<rparr>" t] l1(2) by auto
  let ?ed = "ed\<lparr>line := l2\<rparr>"
  have w2: "row_width ?ed = cells cw (line ?ed)" using l2 by simp
  obtain i c where s: "index_at cw ?ed (cursor ed) = (i, c)" by (cases "index_at cw ?ed (cursor ed)")
  obtain j d where e: "index_at cw ?ed t = (j, d)" by (cases "index_at cw ?ed t")
  have ct: "cursor ed \<le> t" using ok by (simp add: t_def sat_add_def usize_max_def editor_ok_def MAX_CURSOR_COLUMN_def)
  note si = index_at_spec [OF w2 s] and sj = index_at_spec [OF w2 e] and m = index_at_mono [OF w2 ct s e]
  obtain l where l: "replace_range i j [] l2 = Some l" "cells cw l + d = c + row_width ed"
    using replace_range_cells [of i j l2 "[]" cw] m si sj l2 by auto
  have "d \<le> row_width ed" using sj l2 cells_take_mono [of j "length l2" cw l2] by simp
  then have "delete_characters cw ed n = Some (ed\<lparr>line := l, row_width := row_width ed - (d - c)\<rparr>)"
    using l1(1) l2(1) s e m l(1) by (simp add: delete_characters_def t_def [symmetric] sub_usize_def)
  then show ?thesis using l(2) m \<open>d \<le> row_width ed\<close> ok by (auto simp: editor_ok_def)
qed

lemma insert_characters_ok:
  assumes wt: "width_table cw" and ok: "editor_ok cw ed"
  shows "\<exists>ed1. insert_characters cw ed n = Some ed1 \<and> editor_ok cw ed1"
proof -
  have w: "row_width ed = cells cw (line ed)" using ok by (simp add: editor_ok_def)
  obtain l1 where l1: "normalize_cell_at cw ed (cursor ed) = Some (ed\<lparr>line := l1\<rparr>)"
    "cells cw l1 = row_width ed" using normalize_cell_ok [OF wt w] by blast
  let ?ed = "ed\<lparr>line := l1\<rparr>"
  let ?n = "min n (MAX_CURSOR_COLUMN - row_width ed)"
  have w2: "row_width ?ed = cells cw (line ?ed)" using l1 by simp
  obtain i c where s: "index_at cw ?ed (cursor ed) = (i, c)" by (cases "index_at cw ?ed (cursor ed)")
  note si = index_at_spec [OF w2 s]
  obtain l where l: "replace_range i i (blanks ?n) l1 = Some l" "cells cw l = row_width ed + ?n"
    using replace_range_cells [of i i l1 "blanks ?n" cw] si wt l1 by auto
  then have "insert_characters cw ed n = Some (ed\<lparr>line := l, row_width := row_width ed + ?n\<rparr>)"
    using l1(1) s by (simp add: insert_characters_def)
  then show ?thesis using l(2) ok by (auto simp: editor_ok_def)
qed

lemma editor_feed_ok:
  assumes "width_table cw" and "editor_ok cw ed"
  shows "\<exists>ed1 out. editor_feed cw ed e = Some (ed1, out) \<and> editor_ok cw ed1"
proof (cases e)
  case (Character ch)
  then show ?thesis using write_character_ok [OF assms, of ch] by auto
next
  case (EraseLine n)
  then show ?thesis using erase_right_ok [OF assms] erase_left_ok [OF assms] assms
    by (auto simp: editor_ok_def)
next
  case (DeleteCharacters n)
  then show ?thesis using delete_characters_ok [OF assms, of n] by auto
next
  case (InsertCharacters n)
  then show ?thesis using insert_characters_ok [OF assms, of n] by auto
qed (use assms in \<open>auto simp: editor_ok_def take_pending_def\<close>)

lemma editor_run_ok:
  assumes "width_table cw"
  shows "editor_ok cw ed \<Longrightarrow> \<exists>ed1 ls. editor_run cw ed es = Some (ed1, ls) \<and> editor_ok cw ed1
    \<and> (\<forall>l \<in> set ls. \<exists>l1. l = trim_end_blanks l1)"
proof (induction es arbitrary: ed)
  case (Cons e es)
  obtain ed1 out where f: "editor_feed cw ed e = Some (ed1, out)" "editor_ok cw ed1"
    using editor_feed_ok [OF assms Cons.prems] by blast
  obtain ed2 ls where r: "editor_run cw ed1 es = Some (ed2, ls)" "editor_ok cw ed2"
      "\<forall>l \<in> set ls. \<exists>l1. l = trim_end_blanks l1"
    using Cons.IH [OF f(2)] by blast
  have "out \<noteq> None \<Longrightarrow> \<exists>l. out = Some (trim_end_blanks l)"
    using f(1) by (cases e) (auto simp: take_pending_def split: if_splits)
  with f(1) r show ?case by (cases out) auto
qed simp

lemma trim_end_blanks_last: "trim_end_blanks l \<noteq> [] \<Longrightarrow> last (trim_end_blanks l) \<noteq> 0x20"
  using hd_dropWhile [of "\<lambda>ch. ch = 0x20" "rev l"] by (auto simp: trim_end_blanks_def last_rev)


definition demo_widths :: "nat \<Rightarrow> nat option" where
  "demo_widths ch = (if ch < 0x20 then None else if ch = 0x301 then Some 0
     else if ch = 0x754C then Some 2 else Some 1)"

lemma demo_width_table: "width_table demo_widths"
  by (simp add: width_table_def char_w_def demo_widths_def)


subsection \<open>The row of narrow characters\<close>

text \<open>What the editor means for characters of one cell: an array of cells and a cursor.\<close>

fun row_step :: "nat list \<times> nat \<Rightarrow> RecordingEvent \<Rightarrow> (nat list \<times> nat) \<times> nat list option" where
  "row_step (cs, k) Tab = ((cs, min ((k div 8 + 1) * 8) MAX_CURSOR_COLUMN), None)"
| "row_step (cs, k) Backspace = ((cs, k - 1), None)"
| "row_step (cs, k) CarriageReturn = ((cs, 0), None)"
| "row_step (cs, k) Newline = (([], 0), Some (trim_end_blanks cs))"
| "row_step (cs, k) (CursorLeft n) = ((cs, k - n), None)"
| "row_step (cs, k) (CursorRight n) = ((cs, min (k + n) MAX_CURSOR_COLUMN), None)"
| "row_step (cs, k) (CursorColumn n) = ((cs, min n MAX_CURSOR_COLUMN), None)"
| "row_step (cs, k) (Character ch) =
     ((if k < length cs then cs[k := ch] else cs @ blanks (k - length cs) @ [ch],
       min (k + 1) MAX_CURSOR_COLUMN), None)"
| "row_step (cs, k) (EraseLine n) =
     ((if n = 0 then take k cs
       else if n = 1 then blanks (min (k + 1) (length cs)) @ drop (k + 1) cs
       else if n = 2 then [] else cs, k), None)"
| "row_step (cs, k) (DeleteCharacters n) = ((take k cs @ drop (k + n) cs, k), None)"
| "row_step (cs, k) (InsertCharacters n) =
     ((take k cs @ blanks (min n (MAX_CURSOR_COLUMN - length cs)) @ drop k cs, k), None)"

fun row_run :: "nat list \<times> nat \<Rightarrow> RecordingEvent list \<Rightarrow> (nat list \<times> nat) \<times> nat list list" where
  "row_run r [] = (r, [])"
| "row_run r (e # es) =
     (let (r1, out) = row_step r e; (r2, ls) = row_run r1 es in
      (r2, (case out of None \<Rightarrow> ls | Some l \<Rightarrow> l # ls)))"

definition narrow :: "(nat \<Rightarrow> nat option) \<Rightarrow> nat list \<Rightarrow> bool" where
  "narrow cw l \<longleftrightarrow> (\<forall>ch \<in> set l. char_w cw ch = 1)"

fun event_narrow :: "(nat \<Rightarrow> nat option) \<Rightarrow> RecordingEvent \<Rightarrow> bool" where
  "event_narrow cw (Character ch) \<longleftrightarrow> char_w cw ch = 1"
| "event_narrow cw (CursorRight n) \<longleftrightarrow> n \<le> MAX_CURSOR_COLUMN"
| "event_narrow cw (DeleteCharacters n) \<longleftrightarrow> n \<le> MAX_CURSOR_COLUMN"
| "event_narrow cw _ \<longleftrightarrow> True"

lemma narrow_cells: "narrow cw l \<Longrightarrow> cells cw l = length l"
  by (induction l) (simp_all add: narrow_def)

lemma length_blanks [simp]: "length (blanks n) = n"
  by (simp add: blanks_def)

lemma narrow_Nil [simp]: "narrow cw []"
  by (simp add: narrow_def)

lemma narrow_take: "narrow cw l \<Longrightarrow> narrow cw (take n l)"
  by (auto simp: narrow_def dest: in_set_takeD)

lemma narrow_drop: "narrow cw l \<Longrightarrow> narrow cw (drop n l)"
  by (auto simp: narrow_def dest: in_set_dropD)

lemma narrow_append: "narrow cw (l @ k) \<longleftrightarrow> narrow cw l \<and> narrow cw k"
  by (auto simp: narrow_def)

lemma narrow_blanks: "width_table cw \<Longrightarrow> narrow cw (blanks n)"
  by (auto simp: narrow_def blanks_def width_table_def)

lemma narrow_update: "narrow cw l \<Longrightarrow> char_w cw ch = 1 \<Longrightarrow> narrow cw (l[k := ch])"
  using set_update_subset_insert [of l k ch] by (auto simp: narrow_def)

lemmas narrow_intros = narrow_take narrow_drop narrow_blanks narrow_update

lemma index_at_narrow:
  assumes "row_width ed = length (line ed)" and "narrow cw (line ed)"
  shows "index_at cw ed t = (min t (length (line ed)), min t (length (line ed)))"
proof -
  obtain i c where s: "index_at cw ed t = (i, c)" by (cases "index_at cw ed t")
  have w: "row_width ed = cells cw (line ed)" using assms by (simp add: narrow_cells)
  note si = index_at_spec [OF w s]
  have c: "c = i" using si assms(2) by (simp add: narrow_cells narrow_take)
  show ?thesis
  proof (cases "t < length (line ed)")
    case True
    then have "i < length (line ed)" "t < c + char_w cw (line ed ! i)" using si assms(1) by auto
    moreover have "char_w cw (line ed ! i) = 1" using \<open>i < length (line ed)\<close> assms(2) by (simp add: narrow_def)
    ultimately show ?thesis using si c s True by simp
  next
    case False
    then show ?thesis using si s assms(1) c by simp
  qed
qed

lemma normalize_narrow:
  assumes "row_width ed = length (line ed)" and "narrow cw (line ed)"
  shows "normalize_cell_at cw ed t = Some ed"
  by (auto simp: normalize_cell_at_def index_at_narrow [OF assms] min_def)

definition row_of :: "RecordingLineEditor \<Rightarrow> nat list \<times> nat" where
  "row_of ed = (line ed, cursor ed)"

definition narrow_row :: "(nat \<Rightarrow> nat option) \<Rightarrow> RecordingLineEditor \<Rightarrow> bool" where
  "narrow_row cw ed \<longleftrightarrow> row_width ed = length (line ed) \<and> narrow cw (line ed)
     \<and> cursor ed \<le> MAX_CURSOR_COLUMN"

lemma sat_add_cursor:
  "k \<le> MAX_CURSOR_COLUMN \<Longrightarrow> n \<le> MAX_CURSOR_COLUMN \<Longrightarrow> sat_add k n = k + n"
  by (simp add: sat_add_def usize_max_def MAX_CURSOR_COLUMN_def)

lemma write_narrow:
  assumes "width_table cw" and "narrow_row cw ed" and "char_w cw ch = 1"
  shows "\<exists>ed1. write_character cw ed ch = Some ed1 \<and> narrow_row cw ed1
    \<and> row_of ed1 = fst (row_step (row_of ed) (Character ch))"
proof -
  have k: "sat_add (cursor ed) 1 = cursor ed + 1"
    using assms(2) by (intro sat_add_cursor) (auto simp: narrow_row_def MAX_CURSOR_COLUMN_def)
  note ix = index_at_narrow [of ed cw]
  show ?thesis
  proof (cases "cursor ed < length (line ed)")
    case True
    then show ?thesis using assms k
      by (simp add: write_character_def Let_def narrow_row_def row_of_def ix sub_usize_def
          replace_range_def blanks_def narrow_update upd_conv_take_nth_drop [symmetric])
  next
    case False
    then show ?thesis using assms k
      by (simp add: write_character_def Let_def narrow_row_def row_of_def narrow_append narrow_blanks)
         (simp add: narrow_def blanks_def)
  qed
qed

lemma feed_narrow:
  assumes "width_table cw" and "narrow_row cw ed" and "event_narrow cw e"
  shows "\<exists>ed1. editor_feed cw ed e = Some (ed1, snd (row_step (row_of ed) e)) \<and> narrow_row cw ed1
    \<and> row_of ed1 = fst (row_step (row_of ed) e)"
proof -
  have k: "sat_add (cursor ed) 1 = cursor ed + 1"
    using assms(2) by (intro sat_add_cursor) (auto simp: narrow_row_def MAX_CURSOR_COLUMN_def)
  have r: "row_width ed = length (line ed)" "narrow cw (line ed)" "cursor ed \<le> MAX_CURSOR_COLUMN"
    using assms(2) by (simp_all add: narrow_row_def)
  note ix = index_at_narrow [OF r(1,2)] and nm = normalize_narrow [OF r(1,2)]
  show ?thesis
  proof (cases e)
    case (Character ch)
    then show ?thesis using write_narrow [OF assms(1,2)] assms(3) by (auto simp: row_of_def)
  next
    case (EraseLine n)
    then show ?thesis using assms(1) r k
      by (auto simp: row_of_def narrow_row_def erase_right_def erase_left_def ix sub_usize_def
          replace_range_def Let_def blanks_def [of 0] narrow_append min_def
          intro: narrow_intros)
  next
    case (DeleteCharacters n)
    then show ?thesis using r assms(3)
      by (auto simp: row_of_def narrow_row_def delete_characters_def nm ix sub_usize_def
          replace_range_def Let_def narrow_append min_def sat_add_cursor intro: narrow_intros)
  next
    case (InsertCharacters n)
    then show ?thesis using r assms(1)
      by (auto simp: row_of_def narrow_row_def insert_characters_def nm ix
          replace_range_def Let_def narrow_append min_def intro: narrow_intros)
  qed (use r assms(3) in \<open>auto simp: row_of_def narrow_row_def take_pending_def narrow_def sat_add_cursor\<close>)
qed


lemma run_narrow:
  assumes "width_table cw"
  shows "narrow_row cw ed \<Longrightarrow> \<forall>e \<in> set es. event_narrow cw e \<Longrightarrow>
    \<exists>ed1. editor_run cw ed es = Some (ed1, snd (row_run (row_of ed) es))
      \<and> row_of ed1 = fst (row_run (row_of ed) es)"
proof (induction es arbitrary: ed)
  case (Cons e es)
  obtain ed1 where f: "editor_feed cw ed e = Some (ed1, snd (row_step (row_of ed) e))" "narrow_row cw ed1"
      "row_of ed1 = fst (row_step (row_of ed) e)"
    using feed_narrow [OF assms Cons.prems(1)] Cons.prems(2) by auto
  obtain ed2 where "editor_run cw ed1 es = Some (ed2, snd (row_run (row_of ed1) es))"
      "row_of ed2 = fst (row_run (row_of ed1) es)"
    using Cons.IH [OF f(2)] Cons.prems(2) by auto
  with f show ?case by (simp add: split_beta Let_def)
qed simp

lemma csi_event_narrow: "csi_event s ch = Some e \<Longrightarrow> event_narrow cw e"
  by (auto simp: csi_event_def Let_def MAX_CURSOR_COLUMN_def split: if_splits option.splits)

lemma san_char_narrow:
  assumes "\<not> is_control ch \<Longrightarrow> char_w cw ch = 1"
  shows "\<forall>e \<in> set (snd (san_char s ch)). event_narrow cw e"
proof (cases "san_state s")
  case SGround
  then show ?thesis using assms by (auto simp: san_char_def ground_char_def split: if_splits)
next
  case SCsi
  then show ?thesis
    by (cases "csi_event s ch") (auto simp: san_char_def csi_char_def csi_event_narrow split: if_splits)
qed (simp_all add: san_char_def)

lemma feed_events_narrow:
  "\<forall>ch \<in> set chs. \<not> is_control ch \<longrightarrow> char_w cw ch = 1 \<Longrightarrow>
   \<forall>e \<in> set (snd (feed_events s chs)). event_narrow cw e"
proof (induction chs arbitrary: s)
  case (Cons ch chs)
  then show ?case using san_char_narrow [of ch cw s] by (auto simp: split_beta Let_def)
qed simp



end
