(* ===== verification/Output_Store.thy ===== *)
theory Output_Store
  imports Utf8_Text
begin

text \<open>
  Captured command output (\<open>nyaterm-core/src/capabilities\<close>): the store of whole outputs with
  limits, expiry and least-recently-used eviction (\<open>output_store.rs\<close>), and the bounded
  append-only stream with absolute byte cursors (\<open>stream_output.rs\<close>). A time is a number of
  milliseconds, read from the clock by the caller; a fresh output id (a random UUID) is an
  argument.
\<close>

subsection \<open>Output store\<close>

definition DEFAULT_OUTPUT_ENTRY_LIMIT :: nat where
  "DEFAULT_OUTPUT_ENTRY_LIMIT = 4 * 1024 * 1024"

definition DEFAULT_OUTPUT_STORE_LIMIT :: nat where
  "DEFAULT_OUTPUT_STORE_LIMIT = 16 * 1024 * 1024"

definition MAX_OUTPUT_CHUNK_BYTES :: nat where
  "MAX_OUTPUT_CHUNK_BYTES = 64 * 1024"

definition DEFAULT_OUTPUT_TTL :: nat where
  "DEFAULT_OUTPUT_TTL = 10 * 60 * 1000"

record OutputStoreConfig =
  entry_limit :: nat
  total_limit :: nat
  ttl :: nat
  max_chunk_bytes :: nat

definition store_config_default :: OutputStoreConfig where
  "store_config_default = \<lparr>entry_limit = DEFAULT_OUTPUT_ENTRY_LIMIT,
     total_limit = DEFAULT_OUTPUT_STORE_LIMIT, ttl = DEFAULT_OUTPUT_TTL,
     max_chunk_bytes = MAX_OUTPUT_CHUNK_BYTES\<rparr>"

record Entry =
  entry_bytes :: "u8 list"
  entry_total_bytes :: nat
  created :: nat

record OutputStore =
  entries :: "(u8 list \<times> Entry) list"
  lru :: "u8 list list"
  store_bytes :: nat
  store_config :: OutputStoreConfig

record ProtectedOutput =
  preview :: "u8 list"
  truncated :: bool
  output_id :: "u8 list option"
  po_total_bytes :: nat
  po_source_truncated :: bool

record OutputChunk =
  oc_data :: "u8 list"
  oc_offset :: nat
  oc_next_offset :: nat
  oc_total_bytes :: nat
  oc_eof :: bool

datatype OutputStoreError = Unavailable | InvalidOffset

definition store_new :: "OutputStoreConfig \<Rightarrow> OutputStore" where
  "store_new config = \<lparr>entries = [], lru = [], store_bytes = 0,
     store_config = \<lparr>entry_limit = max (entry_limit config) 1,
       total_limit = max (total_limit config) 1, ttl = ttl config,
       max_chunk_bytes = max (max_chunk_bytes config) 1\<rparr>\<rparr>"

fun boundary_loop :: "u8 list \<Rightarrow> nat \<Rightarrow> nat" where
  "boundary_loop s 0 = 0"
| "boundary_loop s (Suc n) = (if is_char_boundary s (Suc n) then Suc n else boundary_loop s n)"

definition boundary_at_or_before :: "u8 list \<Rightarrow> nat \<Rightarrow> nat" where
  "boundary_at_or_before s index = boundary_loop s (min index (length s))"

definition boundary_at_or_before_bytes :: "u8 list \<Rightarrow> nat \<Rightarrow> nat" where
  "boundary_at_or_before_bytes bs index =
     (if utf8_valid bs then boundary_at_or_before bs index else 0)"

definition store_remove :: "u8 list \<Rightarrow> OutputStore \<Rightarrow> OutputStore" where
  "store_remove i s =
     (let s1 = (case map_of (entries s) i of
            None \<Rightarrow> s
          | Some e \<Rightarrow> s\<lparr>entries := filter (\<lambda>(k, _). k \<noteq> i) (entries s),
                        store_bytes := store_bytes s - length (entry_bytes e)\<rparr>)
      in s1\<lparr>lru := filter (\<lambda>k. k \<noteq> i) (lru s1)\<rparr>)"

definition store_cleanup :: "nat \<Rightarrow> OutputStore \<Rightarrow> OutputStore" where
  "store_cleanup now s =
     (let expired = map fst (filter (\<lambda>(_, e). now - created e \<ge> ttl (store_config s)) (entries s));
          s1 = fold store_remove expired s
      in s1\<lparr>lru := filter (\<lambda>k. k \<in> fst ` set (entries s1)) (lru s1)\<rparr>)"

text \<open>The eviction loop of \<open>insert\<close>.\<close>

lemma store_remove_lru: "length (lru (store_remove i s)) \<le> length (lru s)"
  by (simp add: store_remove_def Let_def split: option.split)

function evict :: "nat \<Rightarrow> OutputStore \<Rightarrow> OutputStore" where
  "evict n s =
     (if sat_add (store_bytes s) n > total_limit (store_config s) then
        (case lru s of
           [] \<Rightarrow> s
         | oldest # rest \<Rightarrow> evict n (store_remove oldest (s\<lparr>lru := rest\<rparr>)))
      else s)"
  by pat_completeness auto
termination
proof (relation "measure (\<lambda>(n, s). length (lru s))", goal_cases)
  case (2 n s oldest rest)
  then show ?case using store_remove_lru [of oldest "s\<lparr>lru := rest\<rparr>"] by simp
qed simp

declare evict.simps [simp del]

definition store_insert :: "nat \<Rightarrow> u8 list \<Rightarrow> u8 list \<Rightarrow> nat \<Rightarrow> OutputStore \<Rightarrow> OutputStore" where
  "store_insert now i bs total_len s =
     (let s1 = evict (length bs) s;
          keep = boundary_at_or_before_bytes bs (min (length bs) (total_limit (store_config s1)));
          bs1 = take keep bs
      in s1\<lparr>store_bytes := store_bytes s1 + length bs1,
            lru := lru s1 @ [i],
            entries := (i, \<lparr>entry_bytes = bs1, entry_total_bytes = total_len, created = now\<rparr>)
                       # filter (\<lambda>(k, _). k \<noteq> i) (entries s1)\<rparr>)"

definition protect ::
  "nat \<Rightarrow> u8 list \<Rightarrow> OutputStore \<Rightarrow> u8 list \<Rightarrow> nat \<Rightarrow> OutputStore \<times> ProtectedOutput" where
  "protect now fresh s text_bytes inline_limit =
     (let s1 = store_cleanup now s; n = length text_bytes in
      if n \<le> inline_limit then
        (s1, \<lparr>preview = text_bytes, truncated = False, output_id = None, po_total_bytes = n,
              po_source_truncated = False\<rparr>)
      else
        (let preview_end = boundary_at_or_before text_bytes inline_limit;
             keep_end = boundary_at_or_before text_bytes (min (entry_limit (store_config s1)) n)
         in (store_insert now fresh (take keep_end text_bytes) n s1,
             \<lparr>preview = take preview_end text_bytes, truncated = True, output_id = Some fresh,
              po_total_bytes = n, po_source_truncated = keep_end < n\<rparr>)))"

definition store_read ::
  "nat \<Rightarrow> OutputStore \<Rightarrow> u8 list \<Rightarrow> nat \<Rightarrow> nat \<Rightarrow> OutputStore \<times> (OutputStoreError + OutputChunk)" where
  "store_read now s i offset max_bytes =
     (let s1 = store_cleanup now s in
      case map_of (entries s1) i of
        None \<Rightarrow> (s1, Inl Unavailable)
      | Some e \<Rightarrow>
          if offset > length (entry_bytes e) \<or> \<not> utf8_valid (entry_bytes e)
             \<or> \<not> is_char_boundary (entry_bytes e) offset
          then (s1, Inl InvalidOffset)
          else
            (let requested = clamp 1 (max_chunk_bytes (store_config s1)) max_bytes;
                 end_offset = boundary_at_or_before (entry_bytes e)
                   (min (sat_add offset requested) (length (entry_bytes e)))
             in (s1\<lparr>lru := filter (\<lambda>k. k \<noteq> i) (lru s1) @ [i]\<rparr>,
                 Inr \<lparr>oc_data = drop offset (take end_offset (entry_bytes e)), oc_offset = offset,
                       oc_next_offset = end_offset, oc_total_bytes = entry_total_bytes e,
                       oc_eof = (end_offset = length (entry_bytes e))\<rparr>)))"

subsection \<open>Output stream\<close>

record StreamOutput =
  so_chunks :: "u8 list list"
  so_bytes :: nat
  base_offset :: nat
  so_total_bytes :: nat
  limit :: nat
  source_truncated :: bool

record StreamOutputChunk =
  sc_data :: "u8 list"
  sc_offset :: nat
  sc_next_offset :: nat
  sc_base_offset :: nat
  sc_total_bytes :: nat
  sc_eof :: bool
  sc_source_truncated :: bool
  dropped_before_offset :: bool

definition stream_new :: "nat \<Rightarrow> StreamOutput" where
  "stream_new lim = \<lparr>so_chunks = [], so_bytes = 0, base_offset = 0, so_total_bytes = 0,
     limit = lim, source_truncated = False\<rparr>"

definition push_part :: "u8 list list \<Rightarrow> u8 list \<Rightarrow> u8 list list" where
  "push_part cs part =
     (if cs \<noteq> [] \<and> length (last cs) + length part \<le> 8192
      then butlast cs @ [last cs @ part] else cs @ [part])"

text \<open>
  The loop of \<open>append\<close>, by fuel: each round takes the longest whole-character prefix of at
  most 8192 bytes, which is not empty.
\<close>

fun append_loop :: "nat \<Rightarrow> u8 list \<Rightarrow> u8 list list \<Rightarrow> u8 list list option" where
  "append_loop 0 remaining cs = (if remaining = [] then Some cs else None)"
| "append_loop (Suc n) remaining cs =
     (if remaining = [] then Some cs
      else (let end1 = boundary_loop remaining (min (length remaining) 8192) in
        append_loop n (drop end1 remaining) (push_part cs (take end1 remaining))))"

fun next_boundary_from :: "u8 list \<Rightarrow> nat \<Rightarrow> nat \<Rightarrow> nat" where
  "next_boundary_from s 0 d = d"
| "next_boundary_from s (Suc n) d =
     (if d < length s \<and> \<not> is_char_boundary s d then next_boundary_from s n (Suc d) else d)"

primrec trim_loop :: "nat \<Rightarrow> u8 list list \<Rightarrow> StreamOutput \<Rightarrow> StreamOutput" where
  "trim_loop keep [] s = s\<lparr>so_chunks := []\<rparr>"
| "trim_loop keep (front # cs) s =
     (if so_bytes s > keep then
        (let d = next_boundary_from front (length front) (min (so_bytes s - keep) (length front));
             s1 = s\<lparr>so_bytes := so_bytes s - d, base_offset := base_offset s + d,
                    source_truncated := True\<rparr>
         in if d < length front
            then s1\<lparr>so_chunks := drop d front # cs\<rparr>
            else trim_loop keep cs s1)
      else s\<lparr>so_chunks := front # cs\<rparr>)"

definition trim_to :: "nat \<Rightarrow> StreamOutput \<Rightarrow> StreamOutput" where
  "trim_to keep s = trim_loop keep (so_chunks s) s"

definition stream_append :: "StreamOutput \<Rightarrow> u8 list \<Rightarrow> StreamOutput option" where
  "stream_append s text_bytes =
     (if text_bytes = [] then Some s
      else map_option (\<lambda>cs. trim_to (limit s)
          (s\<lparr>so_total_bytes := sat_add (so_total_bytes s) (length text_bytes),
             so_bytes := sat_add (so_bytes s) (length text_bytes), so_chunks := cs\<rparr>))
        (append_loop (length text_bytes) text_bytes (so_chunks s)))"

definition note_source_loss :: "StreamOutput \<Rightarrow> StreamOutput" where
  "note_source_loss s = s\<lparr>source_truncated := True\<rparr>"

primrec stream_read_loop :: "u8 list list \<Rightarrow> nat \<Rightarrow> nat \<Rightarrow> u8 list \<Rightarrow> OutputStoreError + u8 list" where
  "stream_read_loop [] skip budget acc = Inr acc"
| "stream_read_loop (c # cs) skip budget acc =
     (if skip \<ge> length c then stream_read_loop cs (skip - length c) budget acc
      else if \<not> is_char_boundary c skip then Inl InvalidOffset
      else (let t = drop skip c;
                end1 = boundary_loop t (min (length t) (budget - length acc));
                acc1 = acc @ take end1 t
            in if end1 < length t \<or> length acc1 = budget then Inr acc1
               else stream_read_loop cs 0 budget acc1))"

definition stream_read ::
  "StreamOutput \<Rightarrow> nat \<Rightarrow> nat \<Rightarrow> OutputStoreError + StreamOutputChunk" where
  "stream_read s offset max_bytes =
     (if offset > so_total_bytes s then Inl InvalidOffset
      else (let actual = max offset (base_offset s) in
        rbind (stream_read_loop (so_chunks s) (actual - base_offset s)
                 (clamp 4 MAX_OUTPUT_CHUNK_BYTES max_bytes) [])
          (\<lambda>d. Inr \<lparr>sc_data = d, sc_offset = actual, sc_next_offset = actual + length d,
                      sc_base_offset = base_offset s, sc_total_bytes = so_total_bytes s,
                      sc_eof = (actual + length d = so_total_bytes s),
                      sc_source_truncated = source_truncated s,
                      dropped_before_offset = offset < base_offset s\<rparr>)))"

subsection \<open>Character boundaries\<close>

lemma boundary_loop_le: "boundary_loop s n \<le> n"
  by (induction n) auto

lemma boundary_loop_boundary: "is_char_boundary s (boundary_loop s n)"
  by (induction n) auto

lemma boundary_loop_greatest: "is_char_boundary s i \<Longrightarrow> i \<le> n \<Longrightarrow> i \<le> boundary_loop s n"
  by (induction n) (auto simp: le_Suc_eq)

lemma boundary_at_or_before_spec:
  "boundary_at_or_before s n \<le> n \<and> boundary_at_or_before s n \<le> length s
   \<and> is_char_boundary s (boundary_at_or_before s n)"
  using boundary_loop_le [of s "min n (length s)"]
  by (simp add: boundary_at_or_before_def boundary_loop_boundary)

lemma boundary_at_or_before_greatest:
  "is_char_boundary s i \<Longrightarrow> i \<le> n \<Longrightarrow> i \<le> boundary_at_or_before s n"
  using is_char_boundary_le [of s i] by (simp add: boundary_at_or_before_def boundary_loop_greatest)

text \<open>From a boundary, a window of four bytes reaches the next one.\<close>

lemma boundary_progress:
  assumes "utf8_valid s" and "is_char_boundary s i" and "i < length s" and "i + 4 \<le> n"
  shows "i < boundary_at_or_before s n"
proof -
  obtain j where "i < j" "j \<le> i + 4" "is_char_boundary s j" using next_boundary [OF assms(1-3)] by blast
  then show ?thesis using boundary_at_or_before_greatest [of s j n] assms(4) by simp
qed

subsection \<open>The store keeps its limits\<close>

definition entries_ok :: "OutputStore \<Rightarrow> bool" where
  "entries_ok s \<longleftrightarrow>
     distinct (map fst (entries s)) \<and> distinct (lru s) \<and> set (lru s) = fst ` set (entries s)
   \<and> store_bytes s = sum_list (map (\<lambda>(_, e). length (entry_bytes e)) (entries s))
   \<and> (\<forall>(_, e) \<in> set (entries s). utf8_valid (entry_bytes e)
        \<and> length (entry_bytes e) \<le> entry_limit (store_config s)
        \<and> length (entry_bytes e) \<le> entry_total_bytes e)"

definition store_ok :: "OutputStore \<Rightarrow> bool" where
  "store_ok s \<longleftrightarrow> entries_ok s \<and> store_bytes s \<le> total_limit (store_config s)"

lemma sum_filter_key:
  "distinct (map fst es) \<Longrightarrow> map_of es i = Some e \<Longrightarrow>
   sum_list (map f (filter (\<lambda>(k, _). k \<noteq> i) es)) + f (i, e) = (sum_list (map f es) :: nat)"
proof (induction es)
  case (Cons p es)
  obtain k x where p: "p = (k, x)" by (cases p)
  show ?case
  proof (cases "k = i")
    case True
    then have "filter (\<lambda>(k, _). k \<noteq> i) es = es" using Cons.prems p
      by (force simp: filter_id_conv)
    then show ?thesis using Cons.prems True p by simp
  next
    case False
    then show ?thesis using Cons p by simp
  qed
qed simp

lemma distinct_filter_keys: "distinct (map fst es) \<Longrightarrow> distinct (map fst (filter P es))"
  by (induction es) auto

lemma store_remove_config [simp]: "store_config (store_remove i s) = store_config s"
  by (simp add: store_remove_def Let_def split: option.split)

lemma store_remove_bytes_le: "store_bytes (store_remove i s) \<le> store_bytes s"
  by (simp add: store_remove_def Let_def split: option.split)

text \<open>Removing an entry, when the list of recent ids has already lost it or still has it.\<close>

lemma store_remove_ok:
  assumes "entries_ok s"
  shows "entries_ok (store_remove i s) \<and> i \<notin> fst ` set (entries (store_remove i s))"
proof (cases "map_of (entries s) i")
  case None
  then have i: "i \<notin> fst ` set (entries s)" by (simp add: map_of_eq_None_iff)
  then have "filter (\<lambda>k. k \<noteq> i) (lru s) = lru s"
    using assms by (auto simp: entries_ok_def filter_id_conv)
  then show ?thesis using None i assms by (simp add: store_remove_def)
next
  case (Some e)
  let ?f = "\<lambda>(_, e). length (entry_bytes e)"
  have "sum_list (map ?f (filter (\<lambda>(k, _). k \<noteq> i) (entries s))) + length (entry_bytes e) =
      sum_list (map ?f (entries s))"
    using sum_filter_key [of "entries s" i e ?f] assms Some by (simp add: entries_ok_def)
  then show ?thesis using Some assms
    by (auto simp: store_remove_def entries_ok_def distinct_filter_keys image_iff)
qed

lemma fold_remove_ok:
  "entries_ok s \<Longrightarrow> entries_ok (fold store_remove is s)
     \<and> store_bytes (fold store_remove is s) \<le> store_bytes s
     \<and> store_config (fold store_remove is s) = store_config s"
proof (induction "is" arbitrary: s)
  case (Cons i "is")
  then show ?case
    using store_remove_ok [OF Cons.prems, of i] store_remove_bytes_le [of i s]
    by (force intro: order_trans)
qed simp

lemma store_cleanup_ok:
  assumes "store_ok s"
  shows "store_ok (store_cleanup now s) \<and> store_config (store_cleanup now s) = store_config s"
proof -
  define ids where "ids = map fst (filter (\<lambda>(_, e). now - created e \<ge> ttl (store_config s)) (entries s))"
  let ?s = "fold store_remove ids s"
  have f: "entries_ok ?s" "store_bytes ?s \<le> store_bytes s" "store_config ?s = store_config s"
    using fold_remove_ok [of s ids] assms by (simp_all add: store_ok_def)
  have "filter (\<lambda>k. k \<in> fst ` set (entries ?s)) (lru ?s) = lru ?s"
    using f(1) by (auto simp: entries_ok_def filter_id_conv)
  then have "store_cleanup now s = ?s" by (simp add: store_cleanup_def ids_def [symmetric] Let_def)
  then show ?thesis using f assms by (simp add: store_ok_def)
qed

lemma remove_popped:
  assumes "entries_ok s" and "lru s = i # rest"
  shows "store_remove i (s\<lparr>lru := rest\<rparr>) = store_remove i s"
  using assms by (auto simp: store_remove_def entries_ok_def split: option.split)

lemma evict_ok:
  "entries_ok s \<Longrightarrow> entries_ok (evict n s) \<and> store_config (evict n s) = store_config s
     \<and> fst ` set (entries (evict n s)) \<subseteq> fst ` set (entries s)
     \<and> (sat_add (store_bytes (evict n s)) n \<le> total_limit (store_config s) \<or> entries (evict n s) = [])"
proof (induction n s rule: evict.induct)
  case (1 n s)
  show ?case
  proof (cases "sat_add (store_bytes s) n > total_limit (store_config s)")
    case False
    then show ?thesis using "1.prems" by (simp add: evict.simps [of n s])
  next
    case True
    show ?thesis
    proof (cases "lru s")
      case Nil
      then have "entries s = []" using "1.prems" by (auto simp: entries_ok_def)
      then show ?thesis using True Nil "1.prems" by (simp add: evict.simps [of n s])
    next
      case (Cons oldest rest)
      let ?s = "store_remove oldest s"
      have e: "evict n s = evict n ?s"
        using True Cons remove_popped [OF "1.prems" Cons] by (simp add: evict.simps [of n s])
      have "fst ` set (entries ?s) \<subseteq> fst ` set (entries s)"
        by (auto simp: store_remove_def Let_def split: option.split)
      moreover have "entries_ok (evict n ?s) \<and> store_config (evict n ?s) = store_config ?s
          \<and> fst ` set (entries (evict n ?s)) \<subseteq> fst ` set (entries ?s)
          \<and> (sat_add (store_bytes (evict n ?s)) n \<le> total_limit (store_config ?s)
             \<or> entries (evict n ?s) = [])"
        using "1.IH" [OF True Cons] store_remove_ok [OF "1.prems", of oldest]
        unfolding remove_popped [OF "1.prems" Cons] by blast
      ultimately show ?thesis unfolding e store_remove_config by (meson subset_trans)
    qed
  qed
qed

lemma utf8_take_boundary: "utf8_valid s \<Longrightarrow> utf8_valid (take (boundary_at_or_before s n) s)"
  using utf8_valid_split boundary_at_or_before_spec by blast

lemma store_insert_ok:
  assumes "store_ok s" and "i \<notin> fst ` set (entries s)" and "utf8_valid bs"
    and "length bs \<le> entry_limit (store_config s)" and "length bs \<le> n"
    and "total_limit (store_config s) < usize_max"
  shows "store_ok (store_insert now i bs n s)"
proof -
  let ?s = "evict (length bs) s"
  have ev: "entries_ok ?s" "store_config ?s = store_config s" "i \<notin> fst ` set (entries ?s)"
      "sat_add (store_bytes ?s) (length bs) \<le> total_limit (store_config s) \<or> entries ?s = []"
    using evict_ok [of s "length bs"] assms(1,2) by (auto simp: store_ok_def)
  define k where "k = boundary_at_or_before bs (min (length bs) (total_limit (store_config s)))"
  have k: "k \<le> length bs" "k \<le> total_limit (store_config s)"
    using boundary_at_or_before_spec [of bs "min (length bs) (total_limit (store_config s))"]
    by (auto simp: k_def)
  have v: "utf8_valid (take k bs)" using utf8_take_boundary [OF assms(3)] by (simp add: k_def)
  have fl: "filter (\<lambda>(k, _). k \<noteq> i) (entries ?s) = entries ?s"
    using ev(3) by (auto simp: filter_id_conv image_iff)
  have b: "store_bytes ?s + k \<le> total_limit (store_config s)"
    using ev(1,4) k assms(6) by (auto simp: sat_add_def entries_ok_def)
  have "store_insert now i bs n s = ?s\<lparr>store_bytes := store_bytes ?s + k, lru := lru ?s @ [i],
      entries := (i, \<lparr>entry_bytes = take k bs, entry_total_bytes = n, created = now\<rparr>) # entries ?s\<rparr>"
    using assms(3) k by (simp add: store_insert_def Let_def boundary_at_or_before_bytes_def fl ev(2)
        k_def [symmetric])
  then show ?thesis using ev b k v assms(4,5) by (auto simp: store_ok_def entries_ok_def)
qed


text \<open>Every history of a store: outputs stored under fresh ids, reads and clean-ups at any time.\<close>

inductive store_run :: "OutputStoreConfig \<Rightarrow> OutputStore \<Rightarrow> bool" for config where
  start: "store_run config (store_new config)"
| protect: "store_run config s \<Longrightarrow> utf8_valid t \<Longrightarrow>
     fresh \<notin> fst ` set (entries (store_cleanup now s)) \<Longrightarrow>
     store_run config (fst (protect now fresh s t inline_limit))"
| read: "store_run config s \<Longrightarrow> store_run config (fst (store_read now s i offset max_bytes))"
| cleanup: "store_run config s \<Longrightarrow> store_run config (store_cleanup now s)"

definition config_ok :: "OutputStoreConfig \<Rightarrow> bool" where
  "config_ok config \<longleftrightarrow> total_limit config < usize_max"

lemma protect_ok:
  assumes "store_ok s" and "utf8_valid t" and "fresh \<notin> fst ` set (entries (store_cleanup now s))"
    and "total_limit (store_config s) < usize_max"
  shows "store_ok (fst (protect now fresh s t inline_limit))
    \<and> store_config (fst (protect now fresh s t inline_limit)) = store_config s"
proof -
  let ?s = "store_cleanup now s"
  have c: "store_ok ?s" "store_config ?s = store_config s" using store_cleanup_ok [OF assms(1)] by auto
  define k where "k = boundary_at_or_before t (min (entry_limit (store_config ?s)) (length t))"
  have k: "k \<le> entry_limit (store_config ?s)" "k \<le> length t"
    using boundary_at_or_before_spec [of t "min (entry_limit (store_config ?s)) (length t)"]
    by (auto simp: k_def)
  have "store_ok (store_insert now fresh (take k t) (length t) ?s)"
    using c k assms utf8_take_boundary [OF assms(2)] by (intro store_insert_ok) (auto simp: k_def)
  moreover have "store_config (store_insert now fresh (take k t) (length t) ?s) = store_config s"
    using evict_ok [of ?s "length (take k t)"] c by (simp add: store_insert_def Let_def store_ok_def)
  ultimately show ?thesis using c by (simp add: protect_def Let_def k_def)
qed

lemma read_ok:
  assumes "store_ok s"
  shows "store_ok (fst (store_read now s i offset max_bytes))
    \<and> store_config (fst (store_read now s i offset max_bytes)) = store_config s"
proof -
  have c: "store_ok (store_cleanup now s)" "store_config (store_cleanup now s) = store_config s"
    using store_cleanup_ok [OF assms] by auto
  show ?thesis
  proof (cases "map_of (entries (store_cleanup now s)) i")
    case (Some e)
    then have "i \<in> fst ` set (entries (store_cleanup now s))" by (metis map_of_eq_None_iff option.distinct(1))
    then show ?thesis using c Some
      by (auto simp: store_read_def Let_def store_ok_def entries_ok_def)
  qed (use c in \<open>simp add: store_read_def Let_def\<close>)
qed

lemma store_run_ok:
  assumes "config_ok config"
  shows "store_run config s \<Longrightarrow> store_ok s \<and> store_config s = store_config (store_new config)"
proof (induction rule: store_run.induct)
  case start
  then show ?case by (simp add: store_ok_def entries_ok_def store_new_def)
next
  case (protect s t fresh now inline_limit)
  then have "total_limit (store_config s) < usize_max"
    using assms by (simp add: store_new_def config_ok_def usize_max_def)
  then show ?case using protect protect_ok by simp
next
  case (read s now i offset max_bytes)
  then show ?case using read_ok by simp
next
  case (cleanup s now)
  then show ?case using store_cleanup_ok by simp
qed

text \<open>(C32) The store of captured output, in every history of stores, reads and expiries: the
  byte counter is exact and never above the total limit, no entry is above the entry limit,
  every kept text is whole characters, and the eviction order lists each stored output once.\<close>

theorem output_store_bounded:
  assumes "config_ok config" and "store_run config s"
  shows "store_ok s \<and> total_limit (store_config s) = max (total_limit config) 1
    \<and> entry_limit (store_config s) = max (entry_limit config) 1"
  using store_run_ok [OF assms] by (simp add: store_new_def)

definition demo_text :: "u8 list" where
  "demo_text = [0x61, 0xE7, 0x8C, 0xAB, 0x62]"

definition demo_store :: OutputStore where
  "demo_store = fst (protect 5 [1] (store_new \<lparr>entry_limit = 8, total_limit = 10, ttl = 100,
     max_chunk_bytes = 64\<rparr>) demo_text 1)"

lemma demo_text_valid: "utf8_valid demo_text"
  by (simp add: demo_text_def utf8_valid.simps utf8_char_len_def utf8_2_def utf8_3_def is_cont_def)

lemma demo_store_run: "store_run \<lparr>entry_limit = 8, total_limit = 10, ttl = 100, max_chunk_bytes = 64\<rparr> demo_store"
  unfolding demo_store_def
  by (rule store_run.protect [OF store_run.start])
     (simp_all add: demo_text_valid store_new_def store_cleanup_def)

theorem output_store_bounded_witness:
  "store_ok demo_store"
  using output_store_bounded [OF _ demo_store_run] by (simp add: config_ok_def usize_max_def)

subsection \<open>Paging through a stored output\<close>

text \<open>A client that asks for page after page until the end is reported.\<close>

fun read_pages :: "nat \<Rightarrow> nat \<Rightarrow> OutputStore \<Rightarrow> u8 list \<Rightarrow> nat \<Rightarrow> nat \<Rightarrow> u8 list option" where
  "read_pages 0 now s i offset m = None"
| "read_pages (Suc n) now s i offset m =
     (case store_read now s i offset m of
        (s1, Inl _) \<Rightarrow> None
      | (s1, Inr c) \<Rightarrow>
          if oc_eof c then Some (oc_data c)
          else map_option ((@) (oc_data c)) (read_pages n now s1 i (oc_next_offset c) m))"

lemma store_remove_entries: "entries (store_remove i s) = filter (\<lambda>(k, _). k \<noteq> i) (entries s)"
proof (cases "map_of (entries s) i")
  case None
  then have "filter (\<lambda>(k, _). k \<noteq> i) (entries s) = entries s"
    by (force simp: map_of_eq_None_iff filter_id_conv)
  with None show ?thesis by (simp add: store_remove_def)
qed (simp add: store_remove_def Let_def)

lemma fold_remove_entries:
  "entries (fold store_remove is s) = filter (\<lambda>(k, _). k \<notin> set is) (entries s)"
proof (induction "is" arbitrary: s)
  case (Cons i "is")
  then show ?case by (simp add: store_remove_entries split_beta conj_commute)
qed simp

lemma cleanup_entries:
  "entries (store_cleanup now s) = filter (\<lambda>(k, _). k \<notin> fst ` {p \<in> set (entries s).
     ttl (store_config s) \<le> now - created (snd p)}) (entries s)"
proof -
  have "set (map fst (filter (\<lambda>(_, e). ttl (store_config s) \<le> now - created e) (entries s))) =
      fst ` {p \<in> set (entries s). ttl (store_config s) \<le> now - created (snd p)}"
    by (simp add: split_beta)
  then show ?thesis by (simp add: store_cleanup_def Let_def fold_remove_entries)
qed

lemma cleanup_twice:
  assumes "entries s1 = entries (store_cleanup now s)" and "store_config s1 = store_config s"
  shows "entries (store_cleanup now s1) = entries s1"
proof -
  have none: "{p \<in> set (entries s1). ttl (store_config s1) \<le> now - created (snd p)} = {}"
    by (force simp: assms cleanup_entries)
  show ?thesis unfolding cleanup_entries [of now s1] none by (simp add: split_beta)
qed

lemma store_read_page:
  assumes "store_ok s" and "map_of (entries (store_cleanup now s)) i = Some e"
    and "is_char_boundary (entry_bytes e) offset" and "4 \<le> m" and "4 \<le> max_chunk_bytes (store_config s)"
    and "length (entry_bytes e) + 4 \<le> usize_max"
  shows "\<exists>s1 c. store_read now s i offset m = (s1, Inr c)
    \<and> oc_data c = drop offset (take (oc_next_offset c) (entry_bytes e))
    \<and> is_char_boundary (entry_bytes e) (oc_next_offset c)
    \<and> offset \<le> oc_next_offset c \<and> (offset < length (entry_bytes e) \<longrightarrow> offset < oc_next_offset c)
    \<and> (oc_eof c \<longleftrightarrow> oc_next_offset c = length (entry_bytes e))
    \<and> entries (store_cleanup now s1) = entries (store_cleanup now s)
    \<and> store_ok s1 \<and> store_config s1 = store_config s"
proof -
  let ?s = "store_cleanup now s"
  have ok: "store_ok ?s" "store_config ?s = store_config s" using store_cleanup_ok [OF assms(1)] by auto
  have "(i, e) \<in> set (entries ?s)" using assms(2) by (rule map_of_SomeD)
  then have v: "utf8_valid (entry_bytes e)" using ok(1) by (auto simp: store_ok_def entries_ok_def)
  have len: "offset \<le> length (entry_bytes e)" using assms(3) by (rule is_char_boundary_le)
  define k where "k = boundary_at_or_before (entry_bytes e)
    (min (sat_add offset (clamp 1 (max_chunk_bytes (store_config s)) m)) (length (entry_bytes e)))"
  have "4 \<le> clamp 1 (max_chunk_bytes (store_config s)) m" using assms(4,5) by (simp add: clamp_def)
  then have far: "offset + 4 \<le> sat_add offset (clamp 1 (max_chunk_bytes (store_config s)) m)"
    using assms(6) len by (simp add: sat_add_def)
  have k1: "offset \<le> k"
    unfolding k_def using far len assms(3) by (intro boundary_at_or_before_greatest) auto
  have k2: "offset < length (entry_bytes e) \<longrightarrow> offset < k"
  proof
    assume "offset < length (entry_bytes e)"
    then have "offset < boundary_at_or_before (entry_bytes e)
        (sat_add offset (clamp 1 (max_chunk_bytes (store_config s)) m))"
      using boundary_progress [OF v assms(3) _ far] by blast
    then show "offset < k" by (simp add: k_def boundary_at_or_before_def min.assoc)
  qed
  have k3: "is_char_boundary (entry_bytes e) k"
    using boundary_at_or_before_spec by (simp add: k_def)
  define s1 where "s1 = ?s\<lparr>lru := filter (\<lambda>k. k \<noteq> i) (lru ?s) @ [i]\<rparr>"
  have r: "store_read now s i offset m = (s1, Inr \<lparr>oc_data = drop offset (take k (entry_bytes e)),
      oc_offset = offset, oc_next_offset = k, oc_total_bytes = entry_total_bytes e,
      oc_eof = (k = length (entry_bytes e))\<rparr>)"
    using assms(2,3) v len by (simp add: store_read_def Let_def k_def ok(2) s1_def)
  have "entries (store_cleanup now s1) = entries s1"
    by (rule cleanup_twice) (simp_all add: s1_def ok(2))
  moreover have "store_ok s1 \<and> store_config s1 = store_config s"
    using read_ok [OF assms(1), of now i offset m] by (simp add: r)
  ultimately show ?thesis using r k1 k2 k3 by (simp add: s1_def)
qed

lemma read_pages_rest:
  assumes "4 \<le> m" and "length (entry_bytes e) + 4 \<le> usize_max"
  shows "store_ok s \<Longrightarrow> 4 \<le> max_chunk_bytes (store_config s) \<Longrightarrow>
    map_of (entries (store_cleanup now s)) i = Some e \<Longrightarrow>
    is_char_boundary (entry_bytes e) offset \<Longrightarrow> length (entry_bytes e) - offset < n \<Longrightarrow>
    read_pages n now s i offset m = Some (drop offset (entry_bytes e))"
proof (induction n arbitrary: s offset)
  case (Suc n)
  obtain s1 c where r: "store_read now s i offset m = (s1, Inr c)"
    and d: "oc_data c = drop offset (take (oc_next_offset c) (entry_bytes e))"
    and b: "is_char_boundary (entry_bytes e) (oc_next_offset c)"
    and p: "offset \<le> oc_next_offset c" "offset < length (entry_bytes e) \<longrightarrow> offset < oc_next_offset c"
    and eof: "oc_eof c \<longleftrightarrow> oc_next_offset c = length (entry_bytes e)"
    and s1: "entries (store_cleanup now s1) = entries (store_cleanup now s)" "store_ok s1"
      "store_config s1 = store_config s"
    using store_read_page [OF Suc.prems(1,3,4) assms(1) Suc.prems(2) assms(2)] by blast
  show ?case
  proof (cases "oc_eof c")
    case True
    then show ?thesis using r d eof by simp
  next
    case False
    then have lt: "oc_next_offset c < length (entry_bytes e)"
      using eof is_char_boundary_le [OF b] by simp
    then have "read_pages n now s1 i (oc_next_offset c) m = Some (drop (oc_next_offset c) (entry_bytes e))"
      using Suc.prems p s1 b by (intro Suc.IH) auto
    moreover have "drop offset (take (oc_next_offset c) (entry_bytes e)) @ drop (oc_next_offset c) (entry_bytes e) =
        drop offset (entry_bytes e)"
      using p(1) by (metis append_take_drop_id drop_append drop_eq_Nil2 append_Nil2 length_take
          is_char_boundary_le b min.absorb2 diff_is_0_eq drop_0)
    ultimately show ?thesis using r d False by simp
  qed
qed simp

lemma boundary_loop_self: "is_char_boundary s n \<Longrightarrow> boundary_loop s n = n"
  by (cases n) simp_all

lemma evict_fits: "sat_add (store_bytes s) n \<le> total_limit (store_config s) \<Longrightarrow> evict n s = s"
  by (simp add: evict.simps)

lemma demo_length: "length demo_text = 5"
  by (simp add: demo_text_def)

lemma demo_boundaries:
  "is_char_boundary demo_text 1" "boundary_loop demo_text 5 = 5" "boundary_loop demo_text 3 = 1"
proof -
  show one: "is_char_boundary demo_text 1" by (simp add: demo_text_def is_char_boundary_def is_cont_def)
  show "boundary_loop demo_text 5 = 5"
    by (rule boundary_loop_self) (simp add: is_char_boundary_def demo_length)
  have "\<not> is_char_boundary demo_text 2" "\<not> is_char_boundary demo_text 3"
    by (simp_all add: demo_text_def is_char_boundary_def is_cont_def)
  then show "boundary_loop demo_text 3 = 1"
    using one by (simp add: numeral_3_eq_3 numeral_2_eq_2)
qed

lemma demo_new: "store_cleanup now (store_new c) = store_new c"
  by (simp add: store_cleanup_def store_new_def)

lemma demo_entries:
  "entries demo_store = [([1], \<lparr>entry_bytes = demo_text, entry_total_bytes = 5, created = 5\<rparr>)]"
  "ttl (store_config demo_store) = 100" "max_chunk_bytes (store_config demo_store) = 64"
  unfolding demo_store_def protect_def demo_new Let_def
  by (simp_all add: store_new_def store_insert_def Let_def evict_fits demo_length
      sat_add_def usize_max_def boundary_at_or_before_bytes_def boundary_at_or_before_def
      demo_text_valid demo_boundaries)

lemma demo_cleanup:
  "entries (store_cleanup 5 demo_store) = entries demo_store"
  "store_config (store_cleanup 5 demo_store) = store_config demo_store"
proof -
  show "entries (store_cleanup 5 demo_store) = entries demo_store"
    by (auto simp: cleanup_entries demo_entries)
  show "store_config (store_cleanup 5 demo_store) = store_config demo_store"
    using store_cleanup_ok [of demo_store 5] store_run_ok [OF _ demo_store_run]
    by (simp add: config_ok_def usize_max_def)
qed

lemma demo_stuck:
  "case snd (store_read 5 demo_store [1] 1 2) of
     Inr c \<Rightarrow> oc_data c = [] \<and> oc_next_offset c = 1 \<and> \<not> oc_eof c
   | Inl _ \<Rightarrow> False"
proof -
  have "sat_add 1 (clamp 1 64 2) = 3" by (simp add: sat_add_def clamp_def usize_max_def)
  then show ?thesis
    using demo_boundaries
    by (simp add: store_read_def Let_def demo_cleanup demo_entries demo_text_valid demo_length
        boundary_at_or_before_def)
qed

text \<open>(C30) Paging ends and is complete: with pages of at least four bytes a client that follows
  \<open>next_offset\<close> reaches the end of a stored output after finitely many reads, and the pages
  put together are the stored text. With smaller pages it need not: a page below the size of
  the next character is empty, not at the end, and does not advance.\<close>

theorem output_paging_complete:
  assumes "config_ok config" and "store_run config s" and "4 \<le> max_chunk_bytes config" and "4 \<le> m"
    and "map_of (entries (store_cleanup now s)) i = Some e"
    and "length (entry_bytes e) + 4 \<le> usize_max" and "length (entry_bytes e) < n"
  shows "read_pages n now s i 0 m = Some (entry_bytes e)
    \<and> (case snd (store_read 5 demo_store [1] 1 2) of
         Inr c \<Rightarrow> oc_data c = [] \<and> oc_next_offset c = 1 \<and> \<not> oc_eof c
       | Inl _ \<Rightarrow> False)"
proof -
  have "store_ok s" "4 \<le> max_chunk_bytes (store_config s)"
    using store_run_ok [OF assms(1,2)] assms(3) by (auto simp: store_new_def)
  then have "read_pages n now s i 0 m = Some (drop 0 (entry_bytes e))"
    using assms by (intro read_pages_rest) auto
  then show ?thesis using demo_stuck by simp
qed

theorem output_paging_complete_witness:
  "read_pages 9 5 demo_store [1] 0 4 = Some demo_text"
proof -
  have "map_of (entries (store_cleanup 5 demo_store)) [1] =
      Some \<lparr>entry_bytes = demo_text, entry_total_bytes = 5, created = 5\<rparr>"
    by (simp add: demo_cleanup demo_entries)
  from output_paging_complete [OF _ demo_store_run _ _ this, of 4 9] show ?thesis
    by (simp add: config_ok_def usize_max_def demo_length)
qed

subsection \<open>The stream is a window on the whole output\<close>

definition chunks_ok :: "u8 list list \<Rightarrow> bool" where
  "chunks_ok cs \<longleftrightarrow> (\<forall>c \<in> set cs. c \<noteq> [] \<and> utf8_valid c)"

lemma chunks_ok_simps [simp]:
  "chunks_ok []"
  "chunks_ok (c # cs) \<longleftrightarrow> c \<noteq> [] \<and> utf8_valid c \<and> chunks_ok cs"
  "chunks_ok (cs @ ds) \<longleftrightarrow> chunks_ok cs \<and> chunks_ok ds"
  by (auto simp: chunks_ok_def)

lemma chunks_ok_valid: "chunks_ok cs \<Longrightarrow> utf8_valid (concat cs)"
  by (induction cs) (simp_all add: utf8_valid_append)

lemma valid_head: "utf8_valid s \<Longrightarrow> s \<noteq> [] \<Longrightarrow> \<not> is_cont (s ! 0)"
  using utf8_char_len_lead utf8_valid_char by blast

lemma boundary_append_right:
  "utf8_valid t \<Longrightarrow> is_char_boundary (s @ t) (length s + k) \<longleftrightarrow> is_char_boundary t k"
  using valid_head [of t] by (cases "t = []") (auto simp: is_char_boundary_def nth_append)

lemma boundary_append_left:
  "k < length s \<Longrightarrow> is_char_boundary (s @ t) k \<longleftrightarrow> is_char_boundary s k"
  by (auto simp: is_char_boundary_def nth_append)

lemma push_part_ok:
  "chunks_ok cs \<Longrightarrow> p \<noteq> [] \<Longrightarrow> utf8_valid p \<Longrightarrow>
   chunks_ok (push_part cs p) \<and> concat (push_part cs p) = concat cs @ p"
proof (cases "cs = []")
  case False
  assume a: "chunks_ok cs" "p \<noteq> []" "utf8_valid p"
  have cs: "cs = butlast cs @ [last cs]" using False by simp
  have "chunks_ok (butlast cs) \<and> last cs \<noteq> [] \<and> utf8_valid (last cs)"
    using a(1) by (subst (asm) cs) simp
  moreover have "concat cs = concat (butlast cs) @ last cs" by (subst cs) simp
  ultimately show ?thesis using a False by (simp add: push_part_def utf8_valid_append)
qed (simp add: push_part_def)

lemma boundary_loop_pos:
  assumes "utf8_valid s" and "s \<noteq> []"
  shows "0 < boundary_loop s (min (length s) 8192)"
proof -
  obtain j where "0 < j" "j \<le> 0 + 4" "j \<le> length s" "is_char_boundary s j"
    using next_boundary [OF assms(1) is_char_boundary_ends(1)] assms(2) by auto
  then show ?thesis using boundary_loop_greatest [of s j "min (length s) 8192"] by simp
qed

lemma append_loop_ok:
  "utf8_valid t \<Longrightarrow> chunks_ok cs \<Longrightarrow> length t \<le> n \<Longrightarrow>
   \<exists>cs1. append_loop n t cs = Some cs1 \<and> chunks_ok cs1 \<and> concat cs1 = concat cs @ t"
proof (induction n arbitrary: t cs)
  case (Suc n)
  show ?case
  proof (cases "t = []")
    case False
    define k where "k = boundary_loop t (min (length t) 8192)"
    have k: "0 < k" "k \<le> length t" "is_char_boundary t k"
      using boundary_loop_pos [OF Suc.prems(1) False] boundary_loop_le [of t "min (length t) 8192"]
        boundary_loop_boundary by (auto simp: k_def)
    have v: "utf8_valid (take k t)" "utf8_valid (drop k t)"
      using utf8_valid_split [OF Suc.prems(1) k(3)] by auto
    have p: "chunks_ok (push_part cs (take k t))" "concat (push_part cs (take k t)) = concat cs @ take k t"
      using push_part_ok [OF Suc.prems(2) _ v(1)] k False by auto
    show ?thesis using Suc.IH [OF v(2) p(1)] Suc.prems(3) k False p(2) by (simp add: k_def [symmetric])
  qed (use Suc.prems in simp)
qed simp

lemma next_boundary_from_spec:
  "d \<le> length s \<Longrightarrow> length s - d \<le> n \<Longrightarrow>
   d \<le> next_boundary_from s n d \<and> next_boundary_from s n d \<le> length s
     \<and> is_char_boundary s (next_boundary_from s n d)"
proof (induction n arbitrary: d)
  case (Suc n)
  show ?case
  proof (cases "d < length s \<and> \<not> is_char_boundary s d")
    case True
    moreover have "length s - Suc d \<le> n" using Suc.prems True by simp
    ultimately show ?thesis using Suc.IH [of "Suc d"] by simp
  next
    case False
    then show ?thesis using Suc.prems by (cases "d = length s") auto
  qed
qed simp

text \<open>The stream \<open>s\<close> after the texts that add up to \<open>t\<close>.\<close>

definition stream_ok :: "u8 list \<Rightarrow> StreamOutput \<Rightarrow> bool" where
  "stream_ok t s \<longleftrightarrow>
     chunks_ok (so_chunks s) \<and> t = take (base_offset s) t @ concat (so_chunks s)
   \<and> base_offset s \<le> length t \<and> utf8_valid (take (base_offset s) t)
   \<and> so_bytes s = length (concat (so_chunks s)) \<and> so_total_bytes s = length t
   \<and> (0 < base_offset s \<longrightarrow> source_truncated s)"

lemma trim_loop_ok:
  "stream_ok t (s\<lparr>so_chunks := cs\<rparr>) \<Longrightarrow>
   stream_ok t (trim_loop keep cs s) \<and> so_bytes (trim_loop keep cs s) \<le> keep
   \<and> limit (trim_loop keep cs s) = limit s"
proof (induction cs arbitrary: s)
  case Nil
  then have "so_bytes (s\<lparr>so_chunks := []\<rparr>) = 0" unfolding stream_ok_def by simp
  with Nil show ?case by simp
next
  case (Cons c cs)
  show ?case
  proof (cases "so_bytes s > keep")
    case True
    define d where "d = next_boundary_from c (length c) (min (so_bytes s - keep) (length c))"
    have d: "min (so_bytes s - keep) (length c) \<le> d" "d \<le> length c" "is_char_boundary c d"
      using next_boundary_from_spec [of "min (so_bytes s - keep) (length c)" c "length c"]
      by (auto simp: d_def)
    define s1 where "s1 = s\<lparr>so_bytes := so_bytes s - d, base_offset := base_offset s + d,
      source_truncated := True\<rparr>"
    have step: "trim_loop keep (c # cs) s =
        (if d < length c then s1\<lparr>so_chunks := drop d c # cs\<rparr> else trim_loop keep cs s1)"
      unfolding trim_loop.simps Let_def d_def s1_def by (simp only: True if_True)
    have o: "utf8_valid c" "chunks_ok cs" "t = take (base_offset s) t @ c @ concat cs"
        "base_offset s \<le> length t" "utf8_valid (take (base_offset s) t)"
        "so_bytes s = length c + length (concat cs)" "so_total_bytes s = length t"
      using Cons.prems by (auto simp: stream_ok_def)
    have v: "utf8_valid (take d c)" "utf8_valid (drop d c)"
      using utf8_valid_split [OF o(1) d(3)] by auto
    have tk: "take (base_offset s + d) t = take (base_offset s) t @ take d c"
    proof -
      have "take (base_offset s + d) t = take (base_offset s) t @ take d (drop (base_offset s) t)"
        by (rule take_add)
      moreover have "drop (base_offset s) t = c @ concat cs"
        using o(3,4) by (metis append_take_drop_id same_append_eq)
      ultimately show ?thesis using d(2) by simp
    qed
    have tt: "t = take (base_offset s + d) t @ drop d c @ concat cs"
      using o(3) tk by (metis append.assoc append_take_drop_id)
    have le: "base_offset s + d \<le> length t" using arg_cong [OF o(3), of length] o(4) d(2) by simp
    have v2: "utf8_valid (take (base_offset s + d) t)" using o(5) v(1) by (simp add: tk utf8_valid_append)
    show ?thesis
    proof (cases "d < length c")
      case lt: True
      then have "so_bytes s - d \<le> keep" using d(1) by simp
      moreover have "stream_ok t (s1\<lparr>so_chunks := drop d c # cs\<rparr>)"
        using o v lt tt le v2 by (simp add: stream_ok_def s1_def)
      ultimately show ?thesis unfolding step using lt by (simp add: s1_def)
    next
      case False
      then have dl: "d = length c" using d(2) by simp
      have "stream_ok t (s1\<lparr>so_chunks := cs\<rparr>)"
        using o tt le v2 by (simp add: stream_ok_def s1_def dl)
      from Cons.IH [OF this] show ?thesis unfolding step using False by (simp add: s1_def)
    qed
  next
    case False
    then show ?thesis using Cons.prems by simp
  qed
qed

lemma stream_append_ok:
  assumes "stream_ok t s" and "utf8_valid u" and "utf8_valid t" and "length (t @ u) \<le> usize_max"
    and "so_bytes s \<le> limit s"
  shows "\<exists>s1. stream_append s u = Some s1 \<and> stream_ok (t @ u) s1 \<and> limit s1 = limit s
    \<and> so_bytes s1 \<le> limit s1"
proof (cases "u = []")
  case False
  obtain cs where cs: "append_loop (length u) u (so_chunks s) = Some cs" "chunks_ok cs"
      "concat cs = concat (so_chunks s) @ u"
    using append_loop_ok [OF assms(2), of "so_chunks s" "length u"] assms(1) by (auto simp: stream_ok_def)
  let ?s = "s\<lparr>so_total_bytes := sat_add (so_total_bytes s) (length u),
      so_bytes := sat_add (so_bytes s) (length u), so_chunks := cs\<rparr>"
  have o: "t = take (base_offset s) t @ concat (so_chunks s)" "base_offset s \<le> length t"
      "so_bytes s = length (concat (so_chunks s))" "so_total_bytes s = length t"
    using assms(1) by (auto simp: stream_ok_def)
  have "length (concat (so_chunks s)) \<le> length t" using arg_cong [OF o(1), of length] by simp
  then have sat: "sat_add (so_bytes s) (length u) = length (concat (so_chunks s)) + length u"
      "sat_add (so_total_bytes s) (length u) = length t + length u"
    using o assms(4) by (auto intro: sat_add_exact)
  have "stream_ok (t @ u) (?s\<lparr>so_chunks := cs\<rparr>)"
    using assms(1) cs sat o(1,2) by (auto simp: stream_ok_def)
  from trim_loop_ok [OF this, of "limit s"] show ?thesis
    using False cs(1) by (simp add: stream_append_def trim_to_def)
next
  case True
  then show ?thesis using assms by (simp add: stream_append_def)
qed


lemma stream_read_loop_spec:
  "chunks_ok cs \<Longrightarrow> skip \<le> length (concat cs) \<Longrightarrow> length acc \<le> budget \<Longrightarrow>
   if is_char_boundary (concat cs) skip then
     \<exists>k. stream_read_loop cs skip budget acc = Inr (acc @ take k (drop skip (concat cs)))
       \<and> k \<le> budget - length acc \<and> skip + k \<le> length (concat cs)
       \<and> is_char_boundary (concat cs) (skip + k)
       \<and> (skip + k < length (concat cs) \<longrightarrow> budget - length acc < k + 4)
   else stream_read_loop cs skip budget acc = Inl InvalidOffset"
proof (induction cs arbitrary: skip acc)
  case Nil
  then show ?case by simp
next
  case (Cons c cs)
  have v: "utf8_valid c" "chunks_ok cs" "utf8_valid (concat cs)"
    using Cons.prems(1) chunks_ok_valid by auto
  show ?case
  proof (cases "skip \<ge> length c")
    case True
    define j where "j = skip - length c"
    have s: "skip = length c + j" using True by (simp add: j_def)
    have r: "stream_read_loop (c # cs) skip budget acc = stream_read_loop cs j budget acc"
      by (simp add: s)
    have b: "is_char_boundary (concat (c # cs)) (length c + i) \<longleftrightarrow> is_char_boundary (concat cs) i" for i
      using boundary_append_right [OF v(3), of c i] by simp
    have "j \<le> length (concat cs)" using Cons.prems(2) s by simp
    from Cons.IH [OF v(2) this Cons.prems(3)] show ?thesis
      unfolding r s b by (auto simp: b [simplified] add.assoc split: if_splits)
  next
    case False
    then have lt: "skip < length c" by simp
    have b: "is_char_boundary (concat (c # cs)) skip \<longleftrightarrow> is_char_boundary c skip"
      using boundary_append_left [OF lt] by simp
    show ?thesis
    proof (cases "is_char_boundary c skip")
      case bd: False
      then show ?thesis using b lt by simp
    next
      case True
      define t where "t = drop skip c"
      have t: "utf8_valid t" "t \<noteq> []" "length t = length c - skip"
        using utf8_valid_split [OF v(1) True] lt by (auto simp: t_def)
      define e where "e = boundary_loop t (min (length t) (budget - length acc))"
      have e: "e \<le> length t" "e \<le> budget - length acc" "is_char_boundary t e"
        using boundary_loop_le [of t "min (length t) (budget - length acc)"] boundary_loop_boundary
        by (auto simp: e_def)
      have be: "is_char_boundary c (skip + e)"
        using is_char_boundary_drop [OF True, of e] e(1,3) t(3) True by (auto simp: t_def)
      have near: "budget - length acc < e + 4" if el: "e < length t"
      proof -
        obtain j where j: "e < j" "j \<le> e + 4" "j \<le> length t" "is_char_boundary t j"
          using next_boundary [OF t(1) e(3) el] by blast
        then have "\<not> j \<le> budget - length acc"
          using boundary_loop_greatest [OF j(4), of "min (length t) (budget - length acc)"]
          by (auto simp: e_def)
        with j show ?thesis by simp
      qed
      have dr: "drop skip (concat (c # cs)) = t @ concat cs" using lt by (simp add: t_def)
      have bl: "is_char_boundary (concat (c # cs)) (length c + i) \<longleftrightarrow> is_char_boundary (concat cs) i" for i
        using boundary_append_right [OF v(3), of c i] by simp
      have st: "stream_read_loop (c # cs) skip budget acc =
          (if e < length t \<or> length (acc @ take e t) = budget then Inr (acc @ take e t)
           else stream_read_loop cs 0 budget (acc @ take e t))"
        unfolding stream_read_loop.simps Let_def t_def [symmetric] e_def [symmetric] using lt True by simp
      show ?thesis
      proof (cases "e < length t \<or> length (acc @ take e t) = budget")
        case stop: True
        have bw: "is_char_boundary (concat (c # cs)) (skip + e)"
        proof (cases "e < length t")
          case True
          then show ?thesis using boundary_append_left [of "skip + e" c] be t(3) by simp
        next
          case False
          then have "skip + e = length c + 0" using e(1) t(3) lt by simp
          then show ?thesis using bl [of 0] by simp
        qed
        have full: "skip + e < length (concat (c # cs)) \<longrightarrow> budget - length acc < e + 4"
          using stop near e(1) Cons.prems(3) by auto
        note len = is_char_boundary_le [OF bw]
        show ?thesis
          using b True st stop e t(3) lt bw full len
          by (auto simp: dr simp del: stream_read_loop.simps concat.simps intro!: exI [of _ e])
      next
        case go: False
        have el: "e = length t" using go e(1) by simp
        have "length (acc @ take e t) \<le> budget" using e(2) Cons.prems(3) el by simp
        from Cons.IH [OF v(2) _ this, of 0] obtain k where
          k: "stream_read_loop cs 0 budget (acc @ take e t) = Inr ((acc @ take e t) @ take k (concat cs))"
            "k \<le> budget - length (acc @ take e t)" "k \<le> length (concat cs)"
            "is_char_boundary (concat cs) k"
            "k < length (concat cs) \<longrightarrow> budget - length (acc @ take e t) < k + 4"
          by auto
        have sk: "skip + (length t + k) = length c + k" using t(3) lt by simp
        have "stream_read_loop (c # cs) skip budget acc = Inr (acc @ take (length t + k) (drop skip (concat (c # cs))))"
          unfolding dr using st go k(1) el by (simp del: stream_read_loop.simps)
        moreover have "length t + k \<le> budget - length acc" using k(2) el e(2) Cons.prems(3) by simp
        moreover have bw: "is_char_boundary (concat (c # cs)) (skip + (length t + k))"
          unfolding sk bl by (rule k(4))
        moreover note is_char_boundary_le [OF bw]
        moreover have "skip + (length t + k) < length (concat (c # cs)) \<longrightarrow>
            budget - length acc < length t + k + 4"
          unfolding sk using k(5) el by auto
        moreover have g: "is_char_boundary (concat (c # cs)) skip" using b True by simp
        ultimately show ?thesis unfolding if_P [OF g] by blast
      qed
    qed
  qed
qed


fun stream_appends :: "StreamOutput \<Rightarrow> u8 list list \<Rightarrow> StreamOutput option" where
  "stream_appends s [] = Some s"
| "stream_appends s (u # us) = Option.bind (stream_append s u) (\<lambda>s1. stream_appends s1 us)"

lemma stream_appends_ok:
  "stream_ok t s \<Longrightarrow> utf8_valid t \<Longrightarrow> so_bytes s \<le> limit s \<Longrightarrow> \<forall>u \<in> set us. utf8_valid u \<Longrightarrow>
   length (t @ concat us) \<le> usize_max \<Longrightarrow>
   \<exists>s1. stream_appends s us = Some s1 \<and> stream_ok (t @ concat us) s1 \<and> limit s1 = limit s
     \<and> so_bytes s1 \<le> limit s1 \<and> utf8_valid (t @ concat us)"
proof (induction us arbitrary: t s)
  case (Cons u us)
  obtain s1 where s1: "stream_append s u = Some s1" "stream_ok (t @ u) s1" "limit s1 = limit s"
      "so_bytes s1 \<le> limit s1"
    using stream_append_ok [OF Cons.prems(1), of u] Cons.prems by auto
  have "utf8_valid (t @ u)" using Cons.prems(2,4) by (simp add: utf8_valid_append)
  then show ?case using Cons.IH [OF s1(2)] s1 Cons.prems(4,5) by simp
qed simp

lemma stream_read_ok:
  assumes "stream_ok t s" and "offset \<le> length t"
  shows "if is_char_boundary t (max offset (base_offset s)) then
      \<exists>c. stream_read s offset m = Inr c
        \<and> sc_data c = take (length (sc_data c)) (drop (max offset (base_offset s)) t)
        \<and> sc_next_offset c = max offset (base_offset s) + length (sc_data c)
        \<and> is_char_boundary t (sc_next_offset c)
        \<and> (sc_eof c \<longleftrightarrow> sc_next_offset c = length t) \<and> (sc_eof c \<or> sc_data c \<noteq> [])
        \<and> (dropped_before_offset c \<longleftrightarrow> offset < base_offset s)
    else stream_read s offset m = Inl InvalidOffset"
proof -
  define a where "a = max offset (base_offset s)"
  define skip where "skip = a - base_offset s"
  define budget where "budget = clamp 4 MAX_OUTPUT_CHUNK_BYTES m"
  have o: "chunks_ok (so_chunks s)" "t = take (base_offset s) t @ concat (so_chunks s)"
      "base_offset s \<le> length t" "so_total_bytes s = length t"
    using assms(1) by (auto simp: stream_ok_def)
  have a: "a = base_offset s + skip" "a \<le> length t" using assms(2) o(3) by (auto simp: a_def skip_def)
  have b4: "4 \<le> budget" by (simp add: budget_def clamp_def MAX_OUTPUT_CHUNK_BYTES_def)
  have lb: "length (take (base_offset s) t) = base_offset s" using o(3) by simp
  have len: "length t = base_offset s + length (concat (so_chunks s))"
    using arg_cong [OF o(2), of length] lb by simp
  have bd: "is_char_boundary t (base_offset s + i) \<longleftrightarrow> is_char_boundary (concat (so_chunks s)) i" for i
    using boundary_append_right [OF chunks_ok_valid [OF o(1)], of "take (base_offset s) t" i] o(2) lb by simp
  have dr: "drop a t = drop skip (concat (so_chunks s))"
    using arg_cong [OF o(2), of "drop a"] lb a(1) by simp
  have sk: "skip \<le> length (concat (so_chunks s))" using a len by simp
  note spec = stream_read_loop_spec [OF o(1) sk, of "[]" budget]
  show ?thesis
  proof (cases "is_char_boundary t a")
    case True
    then have "is_char_boundary (concat (so_chunks s)) skip" using bd a(1) by simp
    then obtain k where k: "stream_read_loop (so_chunks s) skip budget [] = Inr (take k (drop skip (concat (so_chunks s))))"
        "k \<le> budget" "skip + k \<le> length (concat (so_chunks s))"
        "is_char_boundary (concat (so_chunks s)) (skip + k)"
        "skip + k < length (concat (so_chunks s)) \<longrightarrow> budget < k + 4"
      using spec by auto
    have lk: "length (take k (drop a t)) = k" using k(3) dr by simp
    have "stream_read s offset m = Inr \<lparr>sc_data = take k (drop a t), sc_offset = a,
        sc_next_offset = a + k, sc_base_offset = base_offset s, sc_total_bytes = length t,
        sc_eof = (a + k = length t), sc_source_truncated = source_truncated s,
        dropped_before_offset = offset < base_offset s\<rparr>"
      using assms(2) o(4) k(1) dr lk
      by (simp add: stream_read_def a_def [symmetric] skip_def [symmetric] budget_def [symmetric] Let_def)
    moreover have "is_char_boundary t (a + k)" using k(4) bd a(1) by (simp add: add.assoc)
    moreover have "a + k = length t \<or> take k (drop a t) \<noteq> []"
      using k(3,5) b4 lk len a(1) by (cases "k = 0") auto
    ultimately show ?thesis using True lk by (simp add: a_def [symmetric])
  next
    case False
    then have "\<not> is_char_boundary (concat (so_chunks s)) skip" using bd a(1) by simp
    then have "stream_read_loop (so_chunks s) skip budget [] = Inl InvalidOffset" using spec by simp
    then show ?thesis using False assms(2) o(4)
      by (simp add: stream_read_def a_def [symmetric] skip_def [symmetric] budget_def [symmetric] Let_def)
  qed
qed

text \<open>(C29) The bounded stream is a window on the whole output: after any appends it keeps at most
  the limit, never fails, and a read at an absolute offset yields the bytes of the whole output
  from that offset on, or from the oldest kept byte with the loss reported. A page ends at a
  character boundary, is never empty before the end, and an offset beyond the output or
  inside a character is refused.\<close>

theorem stream_output_window:
  assumes "\<forall>u \<in> set us. utf8_valid u" and "length (concat us) \<le> usize_max"
  shows "\<exists>s. stream_appends (stream_new lim) us = Some s \<and> so_bytes s \<le> lim
    \<and> so_bytes s = length (concat us) - base_offset s
    \<and> (\<forall>offset m.
        if length (concat us) < offset \<or> \<not> is_char_boundary (concat us) (max offset (base_offset s))
        then stream_read s offset m = Inl InvalidOffset
        else \<exists>c. stream_read s offset m = Inr c
          \<and> sc_data c = take (length (sc_data c)) (drop (max offset (base_offset s)) (concat us))
          \<and> sc_next_offset c = max offset (base_offset s) + length (sc_data c)
          \<and> is_char_boundary (concat us) (sc_next_offset c)
          \<and> (sc_eof c \<longleftrightarrow> sc_next_offset c = length (concat us)) \<and> (sc_eof c \<or> sc_data c \<noteq> [])
          \<and> (dropped_before_offset c \<longleftrightarrow> offset < base_offset s))"
proof -
  have "stream_ok [] (stream_new lim)" by (simp add: stream_ok_def stream_new_def)
  then obtain s where s: "stream_appends (stream_new lim) us = Some s" "stream_ok (concat us) s"
      "so_bytes s \<le> lim"
    using stream_appends_ok [of "[]" "stream_new lim" us] assms by (auto simp: stream_new_def)
  have tot: "so_total_bytes s = length (concat us)" using s(2) by (simp add: stream_ok_def)
  have "so_bytes s = length (concat us) - base_offset s"
  proof -
    have "concat us = take (base_offset s) (concat us) @ concat (so_chunks s)"
      "base_offset s \<le> length (concat us)" "so_bytes s = length (concat (so_chunks s))"
      using s(2) by (auto simp: stream_ok_def)
    then show ?thesis by (metis append_take_drop_id length_drop same_append_eq)
  qed
  moreover have "if length (concat us) < offset \<or> \<not> is_char_boundary (concat us) (max offset (base_offset s))
        then stream_read s offset m = Inl InvalidOffset
        else \<exists>c. stream_read s offset m = Inr c
          \<and> sc_data c = take (length (sc_data c)) (drop (max offset (base_offset s)) (concat us))
          \<and> sc_next_offset c = max offset (base_offset s) + length (sc_data c)
          \<and> is_char_boundary (concat us) (sc_next_offset c)
          \<and> (sc_eof c \<longleftrightarrow> sc_next_offset c = length (concat us)) \<and> (sc_eof c \<or> sc_data c \<noteq> [])
          \<and> (dropped_before_offset c \<longleftrightarrow> offset < base_offset s)" for offset m
  proof (cases "length (concat us) < offset")
    case True
    then show ?thesis using tot by (simp add: stream_read_def)
  next
    case False
    then have le: "offset \<le> length (concat us)" by simp
    show ?thesis
      using stream_read_ok [OF s(2) le, of m] False
      by (cases "is_char_boundary (concat us) (max offset (base_offset s))") (simp_all only: if_True if_False simp_thms)
  qed
  ultimately show ?thesis using s(1,3) by blast
qed

theorem stream_output_window_witness:
  "\<exists>s. stream_appends (stream_new 4) [demo_text] = Some s \<and> so_bytes s \<le> 4"
  using stream_output_window [of "[demo_text]" 4]
  by (auto simp: demo_text_valid demo_length usize_max_def)

end
