(* ===== verification/Pixel_Budget.thy ===== *)
theory Pixel_Budget
  imports Prelude "HOL-Library.Multiset"
begin

text \<open>
  The application-wide budget of remote desktop pixels
  (\<open>nyaterm-remote-desktop/src/pixel_memory.rs\<close>): a lock-free counter that sessions reserve
  from in a compare-and-exchange loop and give back when the last owner of a buffer is gone.
  Every atomic access is one step, so the relation has every interleaving of the threads.
\<close>

definition PIXEL_MEMORY_LIMIT :: nat where
  "PIXEL_MEMORY_LIMIT = 1024 * 1024 * 1024"

record PixelBudget =
  used :: nat
  budget_limit :: nat

definition budget_shared :: PixelBudget where
  "budget_shared = \<lparr>used = 0, budget_limit = PIXEL_MEMORY_LIMIT\<rparr>"

text \<open>A thread in \<open>reserve\<close>: the bytes it asks for and the value of the counter it saw last.\<close>

datatype reserving = Idle | Trying nat nat

text \<open>The head of the loop: the new total, or no room.\<close>

definition reserve_total :: "PixelBudget \<Rightarrow> nat \<Rightarrow> nat \<Rightarrow> nat option" where
  "reserve_total b seen bytes =
     (case chk_add seen bytes of
        None \<Rightarrow> None
      | Some t \<Rightarrow> if t \<le> budget_limit b then Some t else None)"

datatype attempt_result = Reserved PixelBudget | Exhausted | Retry nat

text \<open>
  One round of the loop. A weak exchange may fail although the counter has the expected value
  (\<open>spurious\<close>).
\<close>

definition reserve_round :: "PixelBudget \<Rightarrow> nat \<Rightarrow> nat \<Rightarrow> bool \<Rightarrow> attempt_result" where
  "reserve_round b seen bytes spurious =
     (case reserve_total b seen bytes of
        None \<Rightarrow> Exhausted
      | Some t \<Rightarrow>
          if used b = seen \<and> \<not> spurious then Reserved (b\<lparr>used := t\<rparr>) else Retry (used b))"

text \<open>\<open>fetch_sub\<close> wraps around.\<close>

definition lease_drop :: "nat \<Rightarrow> PixelBudget \<Rightarrow> PixelBudget" where
  "lease_drop bytes b = b\<lparr>used := (used b + (usize_max + 1) - bytes) mod (usize_max + 1)\<rparr>"

record pixel_sys =
  budget :: PixelBudget
  threads :: "nat \<Rightarrow> reserving"
  leases :: "nat multiset"

definition pixel_init :: pixel_sys where
  "pixel_init = \<lparr>budget = budget_shared, threads = (\<lambda>_. Idle), leases = {#}\<rparr>"

inductive pstep :: "pixel_sys \<Rightarrow> pixel_sys \<Rightarrow> bool" where
  load: "threads s t = Idle \<Longrightarrow>
     pstep s (s\<lparr>threads := (threads s)(t := Trying bytes (used (budget s)))\<rparr>)"
| reserved: "threads s t = Trying bytes seen \<Longrightarrow>
     reserve_round (budget s) seen bytes False = Reserved b \<Longrightarrow>
     pstep s (s\<lparr>budget := b, threads := (threads s)(t := Idle), leases := add_mset bytes (leases s)\<rparr>)"
| retry: "threads s t = Trying bytes seen \<Longrightarrow>
     reserve_round (budget s) seen bytes spurious = Retry current \<Longrightarrow>
     pstep s (s\<lparr>threads := (threads s)(t := Trying bytes current)\<rparr>)"
| exhausted: "threads s t = Trying bytes seen \<Longrightarrow>
     reserve_round (budget s) seen bytes spurious = Exhausted \<Longrightarrow>
     pstep s (s\<lparr>threads := (threads s)(t := Idle)\<rparr>)"
| released: "bytes \<in># leases s \<Longrightarrow>
     pstep s (s\<lparr>budget := lease_drop bytes (budget s), leases := leases s - {#bytes#}\<rparr>)"

inductive_cases pstepE: "pstep s s1"

definition pixel_ok :: "pixel_sys \<Rightarrow> bool" where
  "pixel_ok s \<longleftrightarrow> used (budget s) = \<Sum>\<^sub># (leases s) \<and> used (budget s) \<le> budget_limit (budget s)
     \<and> budget_limit (budget s) = PIXEL_MEMORY_LIMIT
     \<and> (\<forall>t bytes seen. threads s t = Trying bytes seen \<longrightarrow> seen \<le> PIXEL_MEMORY_LIMIT)"

lemma reserve_round_Reserved:
  "reserve_round b seen bytes spurious = Reserved b1 \<Longrightarrow>
   used b = seen \<and> seen + bytes \<le> budget_limit b \<and> b1 = b\<lparr>used := seen + bytes\<rparr>"
  by (auto simp: reserve_round_def reserve_total_def chk_add_def split: if_splits)

lemma reserve_round_Retry:
  "reserve_round b seen bytes spurious = Retry current \<Longrightarrow> current = used b"
  by (auto simp: reserve_round_def split: option.splits if_splits)

lemma lease_drop_exact:
  assumes "bytes \<le> used b" and "used b \<le> usize_max"
  shows "lease_drop bytes b = b\<lparr>used := used b - bytes\<rparr>"
proof -
  have "used b + (usize_max + 1) - bytes = (used b - bytes) + (usize_max + 1)" using assms by simp
  moreover have "((used b - bytes) + (usize_max + 1)) mod (usize_max + 1) = used b - bytes"
    unfolding mod_add_self2 using assms by (intro mod_less) simp
  ultimately show ?thesis by (simp only: lease_drop_def)
qed

lemma pstep_ok:
  assumes "pstep s s1" and "pixel_ok s"
  shows "pixel_ok s1"
  using assms
proof (induction rule: pstep.induct)
  case (reserved s t bytes seen b)
  then show ?case using reserve_round_Reserved [of "budget s" seen bytes False b]
    by (auto simp: pixel_ok_def)
next
  case (retry s t bytes seen spurious current)
  then show ?case using reserve_round_Retry [of "budget s" seen bytes spurious current]
    by (auto simp: pixel_ok_def)
next
  case (released bytes s)
  have "bytes \<le> used (budget s)" using released by (simp add: pixel_ok_def sum_mset.remove)
  moreover have "used (budget s) \<le> usize_max"
    using released by (simp add: pixel_ok_def PIXEL_MEMORY_LIMIT_def usize_max_def)
  ultimately have "lease_drop bytes (budget s) = (budget s)\<lparr>used := used (budget s) - bytes\<rparr>"
    by (rule lease_drop_exact)
  then show ?case using released by (auto simp: pixel_ok_def sum_mset.remove)
qed (auto simp: pixel_ok_def)

lemma psteps_ok: "pstep\<^sup>*\<^sup>* s s1 \<Longrightarrow> pixel_ok s \<Longrightarrow> pixel_ok s1"
  by (induction rule: rtranclp.induct) (auto intro: pstep_ok)

lemma pixel_init_ok: "pixel_ok pixel_init"
  by (simp add: pixel_ok_def pixel_init_def budget_shared_def)

text \<open>(C10) However the threads interleave, and with spurious failures of the exchange, the
  counter is the sum of the live leases and never above the budget; the wrapping subtraction
  of a dropped lease never wraps; a thread that has seen the current value and asks for no
  more than is free gets its lease in its next undisturbed round; and no reservation is refused
  unless it did not fit the value of the counter the thread saw.\<close>

theorem pixel_budget_exact:
  assumes "pstep\<^sup>*\<^sup>* pixel_init s"
  shows "used (budget s) = \<Sum>\<^sub># (leases s) \<and> \<Sum>\<^sub># (leases s) \<le> PIXEL_MEMORY_LIMIT
    \<and> (\<forall>bytes \<in># leases s. used (lease_drop bytes (budget s)) = \<Sum>\<^sub># (leases s - {#bytes#}))
    \<and> (\<forall>bytes. bytes \<le> PIXEL_MEMORY_LIMIT - used (budget s) \<longrightarrow>
         reserve_round (budget s) (used (budget s)) bytes False =
           Reserved ((budget s)\<lparr>used := used (budget s) + bytes\<rparr>))
    \<and> (\<forall>t bytes seen spurious. threads s t = Trying bytes seen \<longrightarrow>
         (reserve_round (budget s) seen bytes spurious = Exhausted \<longleftrightarrow> PIXEL_MEMORY_LIMIT < seen + bytes))"
proof -
  have ok: "pixel_ok s" using psteps_ok [OF assms pixel_init_ok] .
  have "used (lease_drop bytes (budget s)) = \<Sum>\<^sub># (leases s - {#bytes#})" if "bytes \<in># leases s" for bytes
  proof -
    have "bytes \<le> used (budget s)" "used (budget s) \<le> usize_max"
      using ok that by (auto simp: pixel_ok_def sum_mset.remove PIXEL_MEMORY_LIMIT_def usize_max_def)
    then show ?thesis using ok that by (simp add: lease_drop_exact pixel_ok_def sum_mset.remove)
  qed
  moreover have "reserve_round (budget s) (used (budget s)) bytes False =
      Reserved ((budget s)\<lparr>used := used (budget s) + bytes\<rparr>)"
    if "bytes \<le> PIXEL_MEMORY_LIMIT - used (budget s)" for bytes
    using ok that by (auto simp: reserve_round_def reserve_total_def chk_add_def pixel_ok_def
        PIXEL_MEMORY_LIMIT_def usize_max_def)
  moreover have "reserve_round (budget s) seen bytes spurious = Exhausted \<longleftrightarrow> PIXEL_MEMORY_LIMIT < seen + bytes"
    for bytes seen spurious
    using ok by (auto simp: reserve_round_def reserve_total_def chk_add_def pixel_ok_def
        PIXEL_MEMORY_LIMIT_def usize_max_def)
  ultimately show ?thesis using ok by (auto simp: pixel_ok_def)
qed

definition demo_trying :: pixel_sys where
  "demo_trying = pixel_init\<lparr>threads := (\<lambda>_. Idle)(1 := Trying 100 0)\<rparr>"

definition demo_leased :: pixel_sys where
  "demo_leased = \<lparr>budget = budget_shared\<lparr>used := 100\<rparr>, threads = (\<lambda>_. Idle), leases = {#100#}\<rparr>"

theorem pixel_budget_exact_witness:
  "used (budget demo_leased) = \<Sum>\<^sub># (leases demo_leased)
 \<and> used (lease_drop 100 (budget demo_leased)) = 0"
proof -
  have idle: "(\<lambda>_. Idle)(Suc 0 := Idle) = (\<lambda>_. Idle)" by auto
  have "pstep pixel_init demo_trying"
    using pstep.load [of pixel_init 1 100]
    by (simp add: demo_trying_def pixel_init_def budget_shared_def)
  moreover have "pstep demo_trying demo_leased"
    using pstep.reserved [of demo_trying 1 100 0 "budget_shared\<lparr>used := 100\<rparr>"]
    by (simp add: demo_trying_def demo_leased_def pixel_init_def budget_shared_def reserve_round_def
        reserve_total_def chk_add_def usize_max_def PIXEL_MEMORY_LIMIT_def idle)
  ultimately have "pstep\<^sup>*\<^sup>* pixel_init demo_leased" by simp
  from pixel_budget_exact [OF this] show ?thesis by (simp add: demo_leased_def)
qed

end
