(* ===== verification/Idempotency.thy ===== *)
theory Idempotency
  imports Prelude
begin

text \<open>
  The ledger of tool calls with side effects
  (\<open>nyaterm-desktop/src/features/capability_runtime/idempotency.rs\<close>): a call with a key is
  executed once, its result outlives the caller that waited for it, and an expired key is never
  executed again. Arguments have type \<open>'a\<close> and results type \<open>'r\<close>; the SHA-256 digest of the
  serialised arguments is the parameter \<open>digest\<close>, and the clock (in seconds) and the fresh
  operation id are arguments. The hash map is an association list.
\<close>

type_synonym ledger_key = "u8 list \<times> u8 list \<times> u8 list"

datatype 'r Lookup = New "u8 list" | Pending "u8 list" | Complete 'r

datatype LedgerError = IdempotencyConflict | IdempotencyExpired | ResourceLimit

record 'r LedgerEntry =
  fingerprint :: "u8 list"
  operation :: "u8 list"
  result :: "'r option"
  completed :: "nat option"
  pinned :: bool

type_synonym 'r IdempotencyLedger = "(ledger_key \<times> 'r LedgerEntry) list"

definition ledger_contains :: "'r IdempotencyLedger \<Rightarrow> u8 list \<Rightarrow> u8 list \<Rightarrow> u8 list \<Rightarrow> bool" where
  "ledger_contains l owner tool key \<longleftrightarrow> map_of l (owner, tool, key) \<noteq> None"

definition entry_expired :: "nat \<Rightarrow> 'r LedgerEntry \<Rightarrow> bool" where
  "entry_expired now e \<longleftrightarrow> \<not> pinned e
     \<and> (case completed e of None \<Rightarrow> False | Some at \<Rightarrow> now - at \<ge> 600)"

definition ledger_begin ::
  "('a \<Rightarrow> u8 list) \<Rightarrow> nat \<Rightarrow> u8 list \<Rightarrow> 'r IdempotencyLedger \<Rightarrow> u8 list \<Rightarrow> u8 list \<Rightarrow> u8 list option \<Rightarrow>
   'a \<Rightarrow> 'r IdempotencyLedger \<times> (LedgerError + 'r Lookup)" where
  "ledger_begin digest now uuid l owner tool key args =
     (case key of
        None \<Rightarrow> (l, Inr (New uuid))
      | Some k \<Rightarrow>
          (let key1 = (owner, tool, k); fp = digest args in
           case map_of l key1 of
             Some e \<Rightarrow>
               (l, if fingerprint e \<noteq> fp then Inl IdempotencyConflict
                   else if entry_expired now e then Inl IdempotencyExpired
                   else Inr (case result e of Some r \<Rightarrow> Complete r | None \<Rightarrow> Pending (operation e)))
           | None \<Rightarrow>
               if length l \<ge> 1024 \<or> length (filter (\<lambda>((i, _, _), _). i = owner) l) \<ge> 256
               then (l, Inl ResourceLimit)
               else ((key1, \<lparr>fingerprint = fp, operation = uuid, result = None, completed = None,
                             pinned = False\<rparr>) # l,
                     Inr (New uuid))))"

text \<open>The updates of all entries of an operation.\<close>

definition map_entries :: "('r LedgerEntry \<Rightarrow> 'r LedgerEntry) \<Rightarrow> 'r IdempotencyLedger \<Rightarrow> 'r IdempotencyLedger" where
  "map_entries f l = map (\<lambda>(k, e). (k, f e)) l"

definition ledger_finish :: "nat \<Rightarrow> u8 list \<Rightarrow> 'r \<Rightarrow> 'r IdempotencyLedger \<Rightarrow> 'r IdempotencyLedger" where
  "ledger_finish now oper r =
     map_entries (\<lambda>e. if operation e = oper then e\<lparr>result := Some r, completed := Some now\<rparr> else e)"

definition requires_cleanup :: "'r IdempotencyLedger \<Rightarrow> bool" where
  "requires_cleanup l \<longleftrightarrow> list_ex (\<lambda>(_, e). result e \<noteq> None) l"

definition ledger_cleanup :: "nat \<Rightarrow> 'r IdempotencyLedger \<Rightarrow> 'r IdempotencyLedger" where
  "ledger_cleanup now = map_entries (\<lambda>e. if entry_expired now e then e\<lparr>result := None\<rparr> else e)"

definition forget_expired_owner :: "u8 list \<Rightarrow> 'r IdempotencyLedger \<Rightarrow> 'r IdempotencyLedger" where
  "forget_expired_owner owner l = filter (\<lambda>((i, _, _), _). i \<noteq> owner) l"

definition ledger_alias :: "u8 list \<Rightarrow> u8 list \<Rightarrow> 'r IdempotencyLedger \<Rightarrow> 'r IdempotencyLedger" where
  "ledger_alias oper original =
     map_entries (\<lambda>e. if operation e = oper then e\<lparr>operation := original\<rparr> else e)"

definition ledger_pin :: "nat \<Rightarrow> u8 list \<Rightarrow> bool \<Rightarrow> 'r IdempotencyLedger \<Rightarrow> 'r IdempotencyLedger" where
  "ledger_pin now oper p =
     map_entries (\<lambda>e. if operation e = oper then
         (if pinned e \<and> \<not> p then e\<lparr>completed := Some now\<rparr> else e)\<lparr>pinned := p\<rparr> else e)"

subsection \<open>Histories\<close>

datatype ('a, 'r) ledger_event =
  Begin nat "u8 list" "u8 list" "u8 list" "u8 list option" 'a
| Finish nat "u8 list" 'r
| Cleanup nat
| Forget "u8 list"
| Alias "u8 list" "u8 list"
| Pin nat "u8 list" bool

fun ledger_step ::
  "('a \<Rightarrow> u8 list) \<Rightarrow> 'r IdempotencyLedger \<Rightarrow> ('a, 'r) ledger_event \<Rightarrow>
   'r IdempotencyLedger \<times> (LedgerError + 'r Lookup) option" where
  "ledger_step digest l (Begin now uuid owner tool key args) =
     apsnd Some (ledger_begin digest now uuid l owner tool key args)"
| "ledger_step digest l (Finish now oper r) = (ledger_finish now oper r l, None)"
| "ledger_step digest l (Cleanup now) = (ledger_cleanup now l, None)"
| "ledger_step digest l (Forget owner) = (forget_expired_owner owner l, None)"
| "ledger_step digest l (Alias oper original) = (ledger_alias oper original l, None)"
| "ledger_step digest l (Pin now oper p) = (ledger_pin now oper p l, None)"

fun ledger_run ::
  "('a \<Rightarrow> u8 list) \<Rightarrow> 'r IdempotencyLedger \<Rightarrow> ('a, 'r) ledger_event list \<Rightarrow> 'r IdempotencyLedger" where
  "ledger_run digest l [] = l"
| "ledger_run digest l (e # es) = ledger_run digest (fst (ledger_step digest l e)) es"

lemma map_entries_map_of: "map_of (map_entries f l) k = map_option f (map_of l k)"
  by (induction l) (auto simp: map_entries_def)

lemma map_entries_keys: "map fst (map_entries f l) = map fst l"
  by (induction l) (auto simp: map_entries_def)

lemma map_entries_owner:
  "length (filter (\<lambda>((i, _, _), _). i = owner) (map_entries f l)) =
   length (filter (\<lambda>((i, _, _), _). i = owner) l)"
  by (induction l) (auto simp: map_entries_def)

lemmas ledger_updates = ledger_finish_def ledger_cleanup_def ledger_alias_def ledger_pin_def

lemma map_of_filter_key:
  "P k \<Longrightarrow> map_of (filter (\<lambda>(k, _). P k) l) k = map_of l k"
  by (induction l) auto

text \<open>The fingerprint under a key stays for as long as its owner is not forgotten.\<close>

lemma ledger_step_keeps:
  assumes "map_option fingerprint (map_of l (owner, tool, key)) = Some fp" and "ev \<noteq> Forget owner"
  shows "map_option fingerprint (map_of (fst (ledger_step digest l ev)) (owner, tool, key)) = Some fp"
proof -
  obtain z where z: "map_of l (owner, tool, key) = Some z" "fingerprint z = fp" using assms(1) by auto
  show ?thesis
  proof (cases ev)
    case (Begin now uuid owner1 tool1 key1 args)
    then show ?thesis using z by (auto simp: ledger_begin_def Let_def split: option.splits)
  next
    case (Forget owner1)
    have "forget_expired_owner owner1 l = filter (\<lambda>(k, _). fst k \<noteq> owner1) l"
      unfolding forget_expired_owner_def by (rule filter_cong) auto
    then show ?thesis
      using assms(2) Forget map_of_filter_key [of "\<lambda>k. fst k \<noteq> owner1" "(owner, tool, key)" l] z by simp
  qed (use z in \<open>simp_all add: ledger_updates map_entries_map_of\<close>)
qed

lemma ledger_run_keeps:
  "map_option fingerprint (map_of l (owner, tool, key)) = Some fp \<Longrightarrow> Forget owner \<notin> set es \<Longrightarrow>
   map_option fingerprint (map_of (ledger_run digest l es) (owner, tool, key)) = Some fp"
proof (induction es arbitrary: l)
  case (Cons e es)
  then show ?case using ledger_step_keeps [of l owner tool key fp e digest] by auto
qed simp

lemma ledger_begin_new:
  assumes "ledger_begin digest now uuid l owner tool (Some key) args = (l1, Inr (New oper))"
  shows "oper = uuid \<and> map_option fingerprint (map_of l1 (owner, tool, key)) = Some (digest args)"
  using assms by (auto simp: ledger_begin_def Let_def split: option.splits if_splits)

lemma ledger_begin_known:
  assumes "map_option fingerprint (map_of l (owner, tool, key)) = Some fp"
  shows "ledger_begin digest now uuid l owner tool (Some key) args = (l,
    if fp \<noteq> digest args then Inl IdempotencyConflict
    else case map_of l (owner, tool, key) of
        Some e \<Rightarrow> (if entry_expired now e then Inl IdempotencyExpired
          else Inr (case result e of Some r \<Rightarrow> Complete r | None \<Rightarrow> Pending (operation e)))
      | None \<Rightarrow> Inl ResourceLimit)"
  using assms by (auto simp: ledger_begin_def Let_def)

text \<open>Limits of the ledger and where its results come from.\<close>

definition finished :: "('a, 'r) ledger_event list \<Rightarrow> 'r set" where
  "finished es = {r. \<exists>now oper. Finish now oper r \<in> set es}"

definition ledger_ok :: "'r set \<Rightarrow> 'r IdempotencyLedger \<Rightarrow> bool" where
  "ledger_ok R l \<longleftrightarrow> distinct (map fst l) \<and> length l \<le> 1024
     \<and> (\<forall>owner. length (filter (\<lambda>((i, _, _), _). i = owner) l) \<le> 256)
     \<and> (\<forall>(_, e) \<in> set l. \<forall>r. result e = Some r \<longrightarrow> r \<in> R)"

lemma map_entries_ok:
  "ledger_ok R l \<Longrightarrow> (\<And>e r. result (f e) = Some r \<Longrightarrow> r \<in> R \<or> result e = Some r) \<Longrightarrow>
   ledger_ok R (map_entries f l)"
  unfolding ledger_ok_def map_entries_keys map_entries_owner
  using map_entries_keys [of f l, THEN arg_cong [of _ _ length]]
  by (fastforce simp: map_entries_def)

lemma ledger_ok_mono: "ledger_ok R l \<Longrightarrow> R \<subseteq> S \<Longrightarrow> ledger_ok S l"
  by (fastforce simp: ledger_ok_def)

lemma ledger_begin_ok:
  assumes "ledger_ok R l"
  shows "ledger_ok R (fst (ledger_begin digest now uuid l owner tool key args))"
proof (cases "\<exists>k. key = Some k \<and> map_of l (owner, tool, k) = None
    \<and> length l < 1024 \<and> length (filter (\<lambda>((i, _, _), _). i = owner) l) < 256")
  case True
  then obtain k where k: "key = Some k" "map_of l (owner, tool, k) = None" "length l < 1024"
      "length (filter (\<lambda>((i, _, _), _). i = owner) l) < 256"
    by blast
  then have "fst (ledger_begin digest now uuid l owner tool key args) =
      ((owner, tool, k), \<lparr>fingerprint = digest args, operation = uuid, result = None, completed = None,
        pinned = False\<rparr>) # l"
    by (simp add: ledger_begin_def)
  moreover have "(owner, tool, k) \<notin> fst ` set l" using k(2) by (simp add: map_of_eq_None_iff)
  ultimately show ?thesis using assms k by (simp add: ledger_ok_def Suc_le_eq)
next
  case False
  then have "fst (ledger_begin digest now uuid l owner tool key args) = l"
    by (auto simp: ledger_begin_def Let_def not_le split: option.split)
  then show ?thesis using assms by simp
qed

lemma ledger_step_ok:
  assumes "ledger_ok R l" and "\<And>now oper r. ev = Finish now oper r \<Longrightarrow> r \<in> R"
  shows "ledger_ok R (fst (ledger_step digest l ev))"
proof (cases ev)
  case (Begin now uuid owner tool key args)
  then show ?thesis using ledger_begin_ok [OF assms(1)] by simp
next
  case (Forget owner)
  have "length (filter (\<lambda>((i, _, _), _). i = o') (filter (\<lambda>((i, _, _), _). i \<noteq> owner) l)) \<le>
      length (filter (\<lambda>((i, _, _), _). i = o') l)" for o'
    by (induction l) auto
  moreover have "distinct (map fst (filter P l))" if "distinct (map fst l)" for P
    using that by (induction l) auto
  ultimately show ?thesis using assms(1) Forget
    by (auto simp: ledger_ok_def forget_expired_owner_def intro: le_trans [OF length_filter_le] le_trans)
qed (use assms in \<open>auto simp: ledger_updates intro!: map_entries_ok split: if_splits\<close>)

lemma ledger_run_ok: "ledger_ok R l \<Longrightarrow> finished es \<subseteq> R \<Longrightarrow> ledger_ok R (ledger_run digest l es)"
proof (induction es arbitrary: l)
  case (Cons e es)
  have "ledger_ok R (fst (ledger_step digest l e))"
    using Cons.prems by (intro ledger_step_ok) (auto simp: finished_def)
  then show ?case using Cons by (auto simp: finished_def)
qed simp

text \<open>(C25) A keyed operation starts at most once. After a call was told to execute, every later
  call of the same owner, tool and key, after any history in between that does not forget the
  owner, is told something else: a conflict when its arguments differ, and otherwise that the
  operation is pending, its result, or that the result expired; a result it is told is one
  that an execution reported. The ledger holds at most 1024 keys, 256 per owner.\<close>

theorem idempotency_once:
  assumes "ledger_begin digest now uuid (ledger_run digest [] es) owner tool (Some key) args =
      (l1, Inr (New oper))"
    and "Forget owner \<notin> set fs"
    and "ledger_begin digest now1 uuid1 (ledger_run digest l1 fs) owner tool (Some key) args1 = (l2, out)"
  shows "l2 = ledger_run digest l1 fs \<and> ledger_ok (finished es \<union> finished fs) l2
    \<and> (if digest args1 \<noteq> digest args then out = Inl IdempotencyConflict
       else out = Inl IdempotencyExpired \<or> (\<exists>p. out = Inr (Pending p))
         \<or> (\<exists>r \<in> finished es \<union> finished fs. out = Inr (Complete r)))"
proof -
  let ?R = "finished es \<union> finished fs" and ?l = "ledger_run digest l1 fs"
  have "ledger_ok ?R (ledger_run digest [] es)" by (rule ledger_run_ok) (simp_all add: ledger_ok_def)
  then have "ledger_ok ?R l1"
    using ledger_begin_ok [of ?R "ledger_run digest [] es" digest now uuid owner tool "Some key" args] assms(1)
    by simp
  then have ok: "ledger_ok ?R ?l" by (rule ledger_run_ok) simp
  have fp: "map_option fingerprint (map_of ?l (owner, tool, key)) = Some (digest args)"
    using ledger_run_keeps [OF _ assms(2)] ledger_begin_new [OF assms(1)] by blast
  then obtain e where e: "map_of ?l (owner, tool, key) = Some e" by auto
  have res: "result e = Some r \<Longrightarrow> r \<in> ?R" for r
    using ok map_of_SomeD [OF e] by (fastforce simp: ledger_ok_def)
  have "l2 = ?l" and out: "out = (if digest args \<noteq> digest args1 then Inl IdempotencyConflict
      else if entry_expired now1 e then Inl IdempotencyExpired
      else Inr (case result e of Some r \<Rightarrow> Complete r | None \<Rightarrow> Pending (operation e)))"
    using assms(3) ledger_begin_known [OF fp, of digest now1 uuid1 args1] e by auto
  then show ?thesis using ok res by (cases "result e") auto
qed

theorem idempotency_once_witness:
  "ledger_begin (\<lambda>n. [n]) 9 [8] (ledger_run (\<lambda>n. [n])
      (fst (ledger_begin (\<lambda>n. [n]) 0 [7] [] [1] [2] (Some [3]) 5)) [Finish 4 [7] True]) [1] [2] (Some [3]) 5 =
     (ledger_run (\<lambda>n. [n]) (fst (ledger_begin (\<lambda>n. [n]) 0 [7] [] [1] [2] (Some [3]) 5)) [Finish 4 [7] True],
      Inr (Complete True))
 \<and> ledger_ok {True} (ledger_run (\<lambda>n. [n])
      (fst (ledger_begin (\<lambda>n. [n]) 0 [7] [] [1] [2] (Some [3]) 5)) [Finish 4 [7] True])"
proof -
  let ?l = "fst (ledger_begin (\<lambda>n. [n]) 0 [7] [] [1] [2] (Some [3]) 5) :: bool IdempotencyLedger"
  let ?b = "ledger_begin (\<lambda>n. [n]) 9 [8] (ledger_run (\<lambda>n. [n]) ?l [Finish 4 [7] True]) [1] [2] (Some [3]) 5"
  have n: "ledger_begin (\<lambda>n. [n]) 0 [7] (ledger_run (\<lambda>n. [n]) [] []) [1] [2] (Some [3]) 5 = (?l, Inr (New [7]))"
    by (simp add: ledger_begin_def)
  have b: "?b = (ledger_run (\<lambda>n. [n]) ?l [Finish 4 [7] True], Inr (Complete True))"
    by (simp add: ledger_begin_def ledger_finish_def map_entries_def entry_expired_def)
  have f: "finished [Finish 4 [7] True :: (u8, bool) ledger_event] = {True}" "finished ([] :: (u8, bool) ledger_event list) = {}"
    by (auto simp: finished_def)
  show ?thesis using idempotency_once [OF n _ b] b by (simp add: f)
qed

end
