(* ===== verification/Float_Ops.thy ===== *)
theory Float_Ops
  imports Prelude Complex_Main "HOL-Library.Log_Nat"
begin

text \<open>
  Binary floating point as the sources use it (\<open>f32\<close> and \<open>f64\<close>): a finite value is its
  rational number, and every arithmetic operation rounds the exact result to the nearest number
  of the format, ties to even. Zero has no sign here; no operation of the modelled code can tell
  the two zeros apart. The lemmas show that rounding is monotone, that it keeps what the format
  can represent, and how far it moves a number.
\<close>

datatype fmt = F32 | F64

primrec mant_bits :: "fmt \<Rightarrow> int" where
  "mant_bits F32 = 24"
| "mant_bits F64 = 53"

primrec min_exp :: "fmt \<Rightarrow> int" where
  "min_exp F32 = - 149"
| "min_exp F64 = - 1074"

primrec max_exp :: "fmt \<Rightarrow> int" where
  "max_exp F32 = 128"
| "max_exp F64 = 1024"

text \<open>The exponent of the binade of a positive number.\<close>

definition ilog2 :: "rat \<Rightarrow> int" where
  "ilog2 x = (let (a, b) = quotient_of x; k = bitlen a - bitlen b
     in if 2 powi k \<le> x then k else k - 1)"

text \<open>Nearest integer, ties to even.\<close>

definition rne :: "rat \<Rightarrow> int" where
  "rne x = (let f = \<lfloor>x\<rfloor>; d = x - of_int f
     in if d < 1 / 2 then f else if 1 / 2 < d then f + 1 else if even f then f else f + 1)"

definition ulp_exp :: "fmt \<Rightarrow> rat \<Rightarrow> int" where
  "ulp_exp fm x = max (min_exp fm) (ilog2 \<bar>x\<bar> - (mant_bits fm - 1))"

definition fround :: "fmt \<Rightarrow> rat \<Rightarrow> rat" where
  "fround fm x =
     (if x = 0 then 0 else of_int (rne (x / 2 powi ulp_exp fm x)) * 2 powi ulp_exp fm x)"

datatype float = Fin rat | PInf | NInf | NaN

definition fl :: "fmt \<Rightarrow> rat \<Rightarrow> float" where
  "fl fm x = (let y = fround fm x in
     if 2 powi max_exp fm \<le> y then PInf else if y \<le> - (2 powi max_exp fm) then NInf else Fin y)"

definition sgn_inf :: "rat \<Rightarrow> float" where
  "sgn_inf x = (if 0 < x then PInf else if x < 0 then NInf else NaN)"

fun fneg :: "float \<Rightarrow> float" where
  "fneg (Fin x) = Fin (- x)"
| "fneg PInf = NInf"
| "fneg NInf = PInf"
| "fneg NaN = NaN"

fun fadd :: "fmt \<Rightarrow> float \<Rightarrow> float \<Rightarrow> float" where
  "fadd fm (Fin x) (Fin y) = fl fm (x + y)"
| "fadd fm NaN _ = NaN"
| "fadd fm _ NaN = NaN"
| "fadd fm PInf NInf = NaN"
| "fadd fm NInf PInf = NaN"
| "fadd fm PInf _ = PInf"
| "fadd fm NInf _ = NInf"
| "fadd fm (Fin _) y = y"

definition fsub :: "fmt \<Rightarrow> float \<Rightarrow> float \<Rightarrow> float" where
  "fsub fm x y = fadd fm x (fneg y)"

fun fmul :: "fmt \<Rightarrow> float \<Rightarrow> float \<Rightarrow> float" where
  "fmul fm (Fin x) (Fin y) = fl fm (x * y)"
| "fmul fm NaN _ = NaN"
| "fmul fm _ NaN = NaN"
| "fmul fm (Fin x) PInf = sgn_inf x"
| "fmul fm (Fin x) NInf = sgn_inf (- x)"
| "fmul fm PInf (Fin y) = sgn_inf y"
| "fmul fm NInf (Fin y) = sgn_inf (- y)"
| "fmul fm PInf y = y"
| "fmul fm NInf y = fneg y"

fun fdiv :: "fmt \<Rightarrow> float \<Rightarrow> float \<Rightarrow> float" where
  "fdiv fm (Fin x) (Fin y) = (if y = 0 then sgn_inf x else fl fm (x / y))"
| "fdiv fm NaN _ = NaN"
| "fdiv fm _ NaN = NaN"
| "fdiv fm (Fin _) _ = Fin 0"
| "fdiv fm PInf (Fin y) = (if y < 0 then NInf else PInf)"
| "fdiv fm NInf (Fin y) = (if y < 0 then PInf else NInf)"
| "fdiv fm _ _ = NaN"

fun fle :: "float \<Rightarrow> float \<Rightarrow> bool" where
  "fle (Fin x) (Fin y) \<longleftrightarrow> x \<le> y"
| "fle NaN _ \<longleftrightarrow> False"
| "fle _ NaN \<longleftrightarrow> False"
| "fle NInf _ \<longleftrightarrow> True"
| "fle _ PInf \<longleftrightarrow> True"
| "fle _ _ \<longleftrightarrow> False"

definition flt :: "float \<Rightarrow> float \<Rightarrow> bool" where
  "flt x y \<longleftrightarrow> fle x y \<and> \<not> fle y x"

text \<open>\<open>f64::max\<close> (a NaN operand is ignored), \<open>f64::clamp\<close> (a NaN stays), \<open>is_finite\<close>.\<close>

definition fmax :: "float \<Rightarrow> float \<Rightarrow> float" where
  "fmax x y = (if x = NaN then y else if y = NaN then x else if fle x y then y else x)"

definition fclamp :: "float \<Rightarrow> float \<Rightarrow> float \<Rightarrow> float" where
  "fclamp lo hi x = (if flt x lo then lo else if flt hi x then hi else x)"

definition is_finite :: "float \<Rightarrow> bool" where
  "is_finite x = (case x of Fin _ \<Rightarrow> True | _ \<Rightarrow> False)"

text \<open>\<open>round\<close> (ties away from zero), \<open>ceil\<close>, \<open>floor\<close>, and the saturating cast \<open>as u8\<close>.\<close>

definition round_away :: "rat \<Rightarrow> int" where
  "round_away x = (if 0 \<le> x then \<lfloor>x + 1 / 2\<rfloor> else - \<lfloor>1 / 2 - x\<rfloor>)"

fun fint :: "(rat \<Rightarrow> int) \<Rightarrow> float \<Rightarrow> float" where
  "fint f (Fin x) = Fin (of_int (f x))"
| "fint f x = x"

fun as_u8 :: "float \<Rightarrow> u8" where
  "as_u8 (Fin x) = word_of_int (clamp 0 255 (if 0 \<le> x then \<lfloor>x\<rfloor> else \<lceil>x\<rceil>))"
| "as_u8 PInf = 255"
| "as_u8 NInf = 0"
| "as_u8 NaN = 0"

subsection \<open>Rounding\<close>

lemma bitlen_pos: "0 < a \<Longrightarrow> 0 < bitlen a"
  using bitlen_nonneg [of a] bitlen_eq_zero_iff [of a] by linarith

lemma bitlen_powi:
  assumes "0 < a"
  shows "2 powi (bitlen a - 1) \<le> (of_int a :: rat) \<and> (of_int a :: rat) < 2 powi bitlen a"
proof -
  have "2 ^ nat (bitlen a - 1) \<le> a" "a < 2 ^ nat (bitlen a)" using bitlen_bounds [of a] assms by auto
  then have "(of_int (2 ^ nat (bitlen a - 1)) :: rat) \<le> of_int a" "(of_int a :: rat) < of_int (2 ^ nat (bitlen a))"
    by (simp_all only: of_int_le_iff of_int_less_iff)
  then show ?thesis using bitlen_pos [OF assms] by (simp add: power_int_def)
qed

lemma ilog2_bounds:
  assumes "0 < x"
  shows "2 powi ilog2 x \<le> x \<and> x < 2 powi (ilog2 x + 1)"
proof -
  obtain a b where q: "quotient_of x = (a, b)" by (cases "quotient_of x")
  have b: "0 < b" using quotient_of_denom_pos [OF q] .
  have x: "x = of_int a / of_int b" using quotient_of_div [OF q] .
  with assms b have a: "0 < a" by (simp add: zero_less_divide_iff)
  note A = bitlen_powi [OF a] and B = bitlen_powi [OF b]
  define k where "k = bitlen a - bitlen b"
  have bp: "0 < (of_int b :: rat)" using b by simp
  have "2 powi (bitlen a - 1) / 2 powi bitlen b < x"
    using A B a bp unfolding x by (intro frac_less2) auto
  then have low: "2 powi (k - 1) < x"
    by (simp add: k_def power_int_diff power_int_add field_simps)
  have "x < 2 powi bitlen a / 2 powi (bitlen b - 1)"
    using A B a bp unfolding x by (intro frac_less) auto
  then have "x < 2 powi (k + 1)"
    by (simp add: k_def power_int_diff power_int_add field_simps)
  with low show ?thesis by (auto simp: ilog2_def q k_def [symmetric])
qed

lemma ilog2_mono:
  assumes "0 < x" and "x \<le> y"
  shows "ilog2 x \<le> ilog2 y"
proof (rule ccontr)
  assume "\<not> ilog2 x \<le> ilog2 y"
  then have "(2 :: rat) powi (ilog2 y + 1) \<le> 2 powi ilog2 x" by (intro power_int_increasing) auto
  with ilog2_bounds [of x] ilog2_bounds [of y] assms show False by linarith
qed

lemma rne_error: "\<bar>of_int (rne x) - x\<bar> \<le> 1 / 2"
proof -
  have "of_int \<lfloor>x\<rfloor> \<le> x" "x < of_int \<lfloor>x\<rfloor> + 1" by linarith+
  then show ?thesis by (auto simp: rne_def Let_def)
qed

lemma rne_of_int [simp]: "rne (of_int n) = n"
  by (simp add: rne_def)

lemma rne_mono:
  assumes "x \<le> y"
  shows "rne x \<le> rne y"
proof (cases "\<lfloor>x\<rfloor> = \<lfloor>y\<rfloor>")
  case True
  with assms show ?thesis by (auto simp: rne_def Let_def)
next
  case False
  with assms have "\<lfloor>x\<rfloor> + 1 \<le> \<lfloor>y\<rfloor>" using floor_mono [OF assms] by linarith
  moreover have "rne x \<le> \<lfloor>x\<rfloor> + 1" "\<lfloor>y\<rfloor> \<le> rne y" by (auto simp: rne_def Let_def)
  ultimately show ?thesis by linarith
qed

lemma ulp_exp_mono: "0 < x \<Longrightarrow> x \<le> y \<Longrightarrow> ulp_exp fm x \<le> ulp_exp fm y"
  using ilog2_mono [of x y] by (simp add: ulp_exp_def)

text \<open>A multiple of the unit in the last place bounds the rounded number if it bounds the number.\<close>

lemma fround_le:
  assumes "0 < x" and "x \<le> of_int n * 2 powi ulp_exp fm x"
  shows "fround fm x \<le> of_int n * 2 powi ulp_exp fm x"
proof -
  have "x / 2 powi ulp_exp fm x \<le> of_int n" using assms(2) by (simp add: divide_le_eq)
  then have "rne (x / 2 powi ulp_exp fm x) \<le> n" using rne_mono by fastforce
  then have "(of_int (rne (x / 2 powi ulp_exp fm x)) :: rat) \<le> of_int n" by (simp only: of_int_le_iff)
  with assms(1) show ?thesis by (simp add: fround_def)
qed

lemma fround_ge:
  assumes "0 < x" and "of_int n * 2 powi ulp_exp fm x \<le> x"
  shows "of_int n * 2 powi ulp_exp fm x \<le> fround fm x"
proof -
  have "of_int n \<le> x / 2 powi ulp_exp fm x" using assms(2) by (simp add: le_divide_eq)
  then have "n \<le> rne (x / 2 powi ulp_exp fm x)" using rne_mono by fastforce
  then have "(of_int n :: rat) \<le> of_int (rne (x / 2 powi ulp_exp fm x))" by (simp only: of_int_le_iff)
  with assms(1) show ?thesis by (simp add: fround_def)
qed

lemma fround_nonneg: "0 \<le> x \<Longrightarrow> 0 \<le> fround fm x"
  using fround_ge [of x 0 fm] by (cases "x = 0") (auto simp: fround_def)

lemma powi_multiple:
  assumes "e \<le> k"
  obtains n where "(2 :: rat) powi k = of_int n * 2 powi e"
proof
  show "(2 :: rat) powi k = of_int (2 ^ nat (k - e)) * 2 powi e"
  proof -
    have "(2 :: rat) powi k = 2 powi ((k - e) + e)" by simp
    also have "\<dots> = 2 powi (k - e) * 2 powi e" by (rule power_int_add) simp
    finally show ?thesis using assms by (simp add: power_int_def [of _ "k - e"])
  qed
qed

lemma fround_mono:
  assumes "0 \<le> x" and "x \<le> y"
  shows "fround fm x \<le> fround fm y"
proof (cases "x = 0")
  case True
  with assms show ?thesis using fround_nonneg [of y fm] by (simp add: fround_def)
next
  case False
  with assms have pos: "0 < x" "0 < y" by auto
  show ?thesis
  proof (cases "ulp_exp fm x = ulp_exp fm y")
    case True
    have "rne (x / 2 powi ulp_exp fm y) \<le> rne (y / 2 powi ulp_exp fm y)"
      using assms(2) by (intro rne_mono divide_right_mono) auto
    with pos True show ?thesis by (simp add: fround_def)
  next
    case False
    with ulp_exp_mono [OF pos(1) assms(2), of fm] have lt: "ulp_exp fm x < ulp_exp fm y" by simp
    have p: "1 \<le> mant_bits fm" by (cases fm) auto
    define k where "k = ilog2 y"
    from lt pos have k: "ilog2 x < k" "ulp_exp fm y \<le> k" using p by (auto simp: ulp_exp_def k_def)
    have "(2 :: rat) powi (ilog2 x + 1) \<le> 2 powi k" using k(1) by (intro power_int_increasing) auto
    with ilog2_bounds [OF pos(1)] have xk: "x \<le> 2 powi k" by linarith
    have yk: "2 powi k \<le> y" using ilog2_bounds [OF pos(2)] by (simp add: k_def)
    obtain n where n: "(2 :: rat) powi k = of_int n * 2 powi ulp_exp fm x"
      using powi_multiple [of "ulp_exp fm x" k] lt k(2) by auto
    obtain m where m: "(2 :: rat) powi k = of_int m * 2 powi ulp_exp fm y"
      using powi_multiple [OF k(2)] .
    have "fround fm x \<le> 2 powi k" using fround_le [OF pos(1), of n fm] xk by (simp add: n)
    also have "\<dots> \<le> fround fm y" using fround_ge [OF pos(2), of m fm] yk by (simp add: m)
    finally show ?thesis .
  qed
qed

lemma fround_error: "\<bar>fround fm x - x\<bar> \<le> 2 powi ulp_exp fm x / 2"
proof (cases "x = 0")
  case False
  define u :: rat where "u = 2 powi ulp_exp fm x"
  have u: "0 < u" by (simp add: u_def)
  have "fround fm x - x = (of_int (rne (x / u)) - x / u) * u"
    using False u by (simp add: fround_def u_def [symmetric] field_simps)
  then have "\<bar>fround fm x - x\<bar> = \<bar>of_int (rne (x / u)) - x / u\<bar> * u" using u by (simp add: abs_mult)
  also have "\<dots> \<le> 1 / 2 * u" using u rne_error [of "x / u"] by (intro mult_right_mono) auto
  finally show ?thesis by (simp add: u_def)
qed (simp add: fround_def)

lemma fround_close:
  assumes "0 \<le> x" and "x \<le> b"
  shows "\<bar>fround fm x - x\<bar> \<le> 2 powi ulp_exp fm b / 2"
proof (cases "x = 0")
  case False
  with assms have "ulp_exp fm x \<le> ulp_exp fm b" by (intro ulp_exp_mono) auto
  then have "(2 :: rat) powi ulp_exp fm x \<le> 2 powi ulp_exp fm b" by (intro power_int_increasing) auto
  with fround_error [of fm x] show ?thesis by linarith
qed (simp add: fround_def)

lemma ilog2_eqI:
  assumes "2 powi k \<le> x" and "x < 2 powi (k + 1)"
  shows "ilog2 x = k"
proof -
  have "0 < x" using assms(1) zero_less_power_int [of "2 :: rat" k] by linarith
  note x = ilog2_bounds [OF this]
  have "k < ilog2 x + 1"
  proof (rule ccontr)
    assume "\<not> k < ilog2 x + 1"
    then have "(2 :: rat) powi (ilog2 x + 1) \<le> 2 powi k" by (intro power_int_increasing) auto
    with x assms show False by linarith
  qed
  moreover have "ilog2 x < k + 1"
  proof (rule ccontr)
    assume "\<not> ilog2 x < k + 1"
    then have "(2 :: rat) powi (k + 1) \<le> 2 powi ilog2 x" by (intro power_int_increasing) auto
    with x assms show False by linarith
  qed
  ultimately show ?thesis by linarith
qed

lemma ilog2_powi [simp]: "ilog2 (2 powi k) = k"
  by (rule ilog2_eqI) (simp_all add: power_int_add)

text \<open>Numbers of few significant bits are kept.\<close>

lemma fround_dyadic:
  assumes "0 \<le> n" and "of_int n * 2 powi e < (2 powi (e + mant_bits fm) :: rat)" and "min_exp fm \<le> e"
  shows "fround fm (of_int n * 2 powi e) = of_int n * 2 powi e"
proof (cases "n = 0")
  case False
  define x :: rat where "x = of_int n * 2 powi e"
  have x: "0 < x" using False assms(1) by (simp add: x_def)
  have "ilog2 x < e + mant_bits fm"
  proof (rule ccontr)
    assume "\<not> ilog2 x < e + mant_bits fm"
    then have "(2 :: rat) powi (e + mant_bits fm) \<le> 2 powi ilog2 x" by (intro power_int_increasing) auto
    with ilog2_bounds [OF x] assms(2) show False by (simp add: x_def)
  qed
  then have "ulp_exp fm x \<le> e" using x assms(3) by (simp add: ulp_exp_def)
  then obtain m where m: "(2 :: rat) powi e = of_int m * 2 powi ulp_exp fm x" by (rule powi_multiple)
  then have "x = of_int (n * m) * 2 powi ulp_exp fm x" by (simp add: x_def)
  then have "fround fm x = x"
    using fround_le [OF x, of "n * m" fm] fround_ge [OF x, of "n * m" fm] by simp
  then show ?thesis by (simp add: x_def)
qed (simp add: fround_def)

lemma fround_nat:
  assumes "n < 2 ^ 24"
  shows "fround fm (of_nat n) = of_nat n"
proof -
  have "(of_nat n :: rat) < of_nat (2 ^ 24)" using assms by (simp only: of_nat_less_iff)
  also have "\<dots> \<le> 2 powi (0 + mant_bits fm)" by (cases fm) simp_all
  finally show ?thesis using fround_dyadic [of "int n" 0 fm] by (cases fm) simp_all
qed

lemma fround_numeral [simp]:
  "numeral k < (2 ^ 24 :: nat) \<Longrightarrow> fround fm (numeral k) = numeral k"
  "fround fm 1 = 1"
  "fround fm 0 = 0"
  using fround_nat [of "numeral k" fm] fround_nat [of 1 fm] by (simp_all add: fround_def)

lemma fround_half [simp]: "fround fm (1 / 2) = 1 / 2"
  using fround_dyadic [of 1 "- 1" fm] by (cases fm) (simp_all add: power_int_def)

lemma fl_small:
  assumes "0 \<le> x" and "x \<le> 2 ^ 100"
  shows "fl fm x = Fin (fround fm x)"
proof -
  have "(2 ^ 100 :: rat) = of_int 1 * 2 powi 100" by simp
  then have "fround fm (2 ^ 100) = (2 ^ 100 :: rat)"
    using fround_dyadic [of 1 100 fm] by (cases fm) simp_all
  with fround_mono [OF assms, of fm] have le: "fround fm x \<le> 2 ^ 100" by simp
  have "(2 ^ 100 :: rat) < 2 powi max_exp fm" by (cases fm) simp_all
  with le have "fround fm x < 2 powi max_exp fm" by linarith
  moreover have "- (2 powi max_exp fm) < (0 :: rat)" by simp
  ultimately show ?thesis using fround_nonneg [OF assms(1), of fm] by (simp add: fl_def not_le)
qed

subsection \<open>Percentages\<close>

text \<open>A percentage that is stored as a fraction is read back.\<close>

lemma percent_roundtrip:
  assumes "n \<le> 100"
  shows "round_away (fround F64 (fround F64 (of_nat n / 100) * 100)) = int n"
proof -
  define x :: rat where "x = of_nat n / 100"
  define y where "y = fround F64 x"
  define z where "z = fround F64 (y * 100)"
  have x: "0 \<le> x" "x \<le> 1" using assms by (simp_all add: x_def)
  have "(1 :: rat) = 2 powi 0" by simp
  then have "ulp_exp F64 1 = - 52" using ilog2_powi [of 0] by (simp add: ulp_exp_def)
  with fround_close [OF x, of F64] have y: "\<bar>y - x\<bar> \<le> 1 / 2 ^ 53"
    by (simp add: y_def power_int_def power_one_over)
  have y1: "0 \<le> y" "y \<le> 1" using fround_nonneg [OF x(1), of F64] fround_mono [OF x, of F64] by (simp_all add: y_def)
  have "(128 :: rat) = 2 powi 7" by simp
  then have "ulp_exp F64 128 = - 45" using ilog2_powi [of 7] by (simp add: ulp_exp_def)
  with fround_close [of "y * 100" 128 F64] y1 have z: "\<bar>z - y * 100\<bar> \<le> 1 / 2 ^ 46"
    by (simp add: z_def power_int_def power_one_over)
  have "\<bar>z - of_nat n\<bar> < 1 / 2" using y z by (simp add: x_def abs_if split: if_splits)
  then have "\<lfloor>z + 1 / 2\<rfloor> = int n" unfolding abs_less_iff floor_eq_iff by auto
  moreover have "0 \<le> z" using y1 by (simp add: z_def fround_nonneg)
  ultimately show ?thesis by (simp add: round_away_def z_def y_def x_def)
qed

end
