(* ===== verification/Workspace_Pane.thy ===== *)
theory Workspace_Pane
  imports Char_Encoding Float_Ops
begin

text \<open>
  The pane tree of a workspace tab (\<open>nyaterm-desktop/src/models/workspace_pane.rs\<close>) and its
  stored form (\<open>nyaterm-core/src/models/workspace.rs\<close>): splits with a clamped ratio, sessions
  at the leaves, the projection of a tmux session into the tree, pruning, and saving and
  restoring. A method on \<open>&mut self\<close> that returns a \<open>bool\<close> is a function to the result and
  the new tree. The \<open>k\<close>-th call of \<open>uuid_v4_like\<close>, which formats the clock, is \<open>uuid k\<close>.
\<close>

datatype WorkspaceSplitDirection = Horizontal | Vertical

datatype WorkspacePaneNode =
    PaneLeaf "u8 list"
  | PaneSplit "u8 list" WorkspaceSplitDirection u8 WorkspacePaneNode WorkspacePaneNode

definition DEFAULT_RATIO_PERCENT :: u8 where "DEFAULT_RATIO_PERCENT = 50"
definition MIN_RATIO_PERCENT :: u8 where "MIN_RATIO_PERCENT = 20"
definition MAX_RATIO_PERCENT :: u8 where "MAX_RATIO_PERCENT = 80"

lemmas pane_ratios = DEFAULT_RATIO_PERCENT_def MIN_RATIO_PERCENT_def MAX_RATIO_PERCENT_def

definition clamped_ratio_percent :: "u8 \<Rightarrow> u8" where
  "clamped_ratio_percent value = clamp MIN_RATIO_PERCENT MAX_RATIO_PERCENT value"

definition primary_weight :: "u8 \<Rightarrow> float" where
  "primary_weight ratio_percent = fl F32 (of_nat (unat (clamped_ratio_percent ratio_percent)))"

definition secondary_weight :: "u8 \<Rightarrow> float" where
  "secondary_weight ratio_percent = fl F32 (of_nat (unat (100 - clamped_ratio_percent ratio_percent)))"

primrec contains_session :: "u8 list \<Rightarrow> WorkspacePaneNode \<Rightarrow> bool" where
  "contains_session sid (PaneLeaf s) \<longleftrightarrow> s = sid"
| "contains_session sid (PaneSplit i d r a b) \<longleftrightarrow> contains_session sid a \<or> contains_session sid b"

text \<open>\<open>first.f() || second.f()\<close>: the second child is visited when the first call returns false.\<close>

definition first_or_second ::
  "('t \<Rightarrow> 't \<Rightarrow> 't) \<Rightarrow> bool \<times> 't \<Rightarrow> bool \<times> 't \<Rightarrow> 't \<Rightarrow> bool \<times> 't" where
  "first_or_second mk x y b =
     (if fst x then (True, mk (snd x) b) else (fst y, mk (snd x) (snd y)))"

primrec replace_session_id :: "u8 list \<Rightarrow> u8 list \<Rightarrow> WorkspacePaneNode \<Rightarrow> bool \<times> WorkspacePaneNode" where
  "replace_session_id old new (PaneLeaf s) =
     (if s \<noteq> old then (False, PaneLeaf s) else (True, PaneLeaf new))"
| "replace_session_id old new (PaneSplit i d r a b) =
     first_or_second (PaneSplit i d r) (replace_session_id old new a) (replace_session_id old new b) b"

primrec session_ids :: "WorkspacePaneNode \<Rightarrow> u8 list list" where
  "session_ids (PaneLeaf s) = [s]"
| "session_ids (PaneSplit i d r a b) = session_ids a @ session_ids b"

fun is_split :: "WorkspacePaneNode \<Rightarrow> bool" where
  "is_split (PaneSplit i d r a b) = True"
| "is_split (PaneLeaf s) = False"

primrec set_ratio_for_split :: "u8 list \<Rightarrow> u8 \<Rightarrow> WorkspacePaneNode \<Rightarrow> bool \<times> WorkspacePaneNode" where
  "set_ratio_for_split sid value (PaneLeaf s) = (False, PaneLeaf s)"
| "set_ratio_for_split sid value (PaneSplit i d r a b) =
     (if i = sid then (True, PaneSplit i d (clamped_ratio_percent value) a b)
      else first_or_second (PaneSplit i d r)
        (set_ratio_for_split sid value a) (set_ratio_for_split sid value b) b)"

text \<open>\<open>Option::or_else\<close>.\<close>

definition or_else :: "'a option \<Rightarrow> 'a option \<Rightarrow> 'a option" where
  "or_else x y = (case x of None \<Rightarrow> y | Some _ \<Rightarrow> x)"

primrec direction_for_split :: "u8 list \<Rightarrow> WorkspacePaneNode \<Rightarrow> WorkspaceSplitDirection option" where
  "direction_for_split sid (PaneLeaf s) = None"
| "direction_for_split sid (PaneSplit i d r a b) =
     (if i = sid then Some d else or_else (direction_for_split sid a) (direction_for_split sid b))"

primrec ratio_for_split :: "u8 list \<Rightarrow> WorkspacePaneNode \<Rightarrow> u8 option" where
  "ratio_for_split sid (PaneLeaf s) = None"
| "ratio_for_split sid (PaneSplit i d r a b) =
     (if i = sid then Some r else or_else (ratio_for_split sid a) (ratio_for_split sid b))"

primrec split_leaf ::
  "u8 list \<Rightarrow> u8 list \<Rightarrow> WorkspaceSplitDirection \<Rightarrow> u8 list \<Rightarrow> WorkspacePaneNode \<Rightarrow>
   bool \<times> WorkspacePaneNode" where
  "split_leaf target new direction sid (PaneLeaf s) =
     (if s = target
      then (True, PaneSplit sid direction DEFAULT_RATIO_PERCENT (PaneLeaf s) (PaneLeaf new))
      else (False, PaneLeaf s))"
| "split_leaf target new direction sid (PaneSplit i d r a b) =
     first_or_second (PaneSplit i d r)
       (split_leaf target new direction sid a) (split_leaf target new direction sid b) b"

subsection \<open>The tmux projection\<close>

definition starts_with :: "u8 list \<Rightarrow> u8 list \<Rightarrow> bool" where
  "starts_with prefix s \<longleftrightarrow> take (length prefix) s = prefix"

primrec leaves_all_have_prefix :: "u8 list \<Rightarrow> WorkspacePaneNode \<Rightarrow> bool" where
  "leaves_all_have_prefix prefix (PaneLeaf s) \<longleftrightarrow> starts_with prefix s"
| "leaves_all_have_prefix prefix (PaneSplit i d r a b) \<longleftrightarrow>
     leaves_all_have_prefix prefix a \<and> leaves_all_have_prefix prefix b"

definition tmux_prefix :: "u8 list \<Rightarrow> u8 list" where
  "tmux_prefix host = host @ ascii ''::''"

primrec replace_tmux_subtree_inner ::
  "u8 list \<Rightarrow> u8 list \<Rightarrow> WorkspacePaneNode \<Rightarrow> WorkspacePaneNode \<Rightarrow> bool \<times> WorkspacePaneNode" where
  "replace_tmux_subtree_inner host prefix subtree (PaneLeaf s) =
     (if s = host then (True, subtree)
      else if leaves_all_have_prefix prefix (PaneLeaf s) then (True, subtree)
      else (False, PaneLeaf s))"
| "replace_tmux_subtree_inner host prefix subtree (PaneSplit i d r a b) =
     (if leaves_all_have_prefix prefix (PaneSplit i d r a b) then (True, subtree)
      else first_or_second (PaneSplit i d r)
        (replace_tmux_subtree_inner host prefix subtree a)
        (replace_tmux_subtree_inner host prefix subtree b) b)"

definition replace_tmux_subtree ::
  "u8 list \<Rightarrow> WorkspacePaneNode \<Rightarrow> WorkspacePaneNode \<Rightarrow> bool \<times> WorkspacePaneNode" where
  "replace_tmux_subtree host subtree t =
     replace_tmux_subtree_inner host (tmux_prefix host) subtree t"

primrec collapse_tmux_subtree_inner ::
  "u8 list \<Rightarrow> u8 list \<Rightarrow> WorkspacePaneNode \<Rightarrow> bool \<times> WorkspacePaneNode" where
  "collapse_tmux_subtree_inner prefix leaf_id (PaneLeaf s) =
     (if leaves_all_have_prefix prefix (PaneLeaf s) then (True, PaneLeaf leaf_id)
      else (False, PaneLeaf s))"
| "collapse_tmux_subtree_inner prefix leaf_id (PaneSplit i d r a b) =
     (if leaves_all_have_prefix prefix (PaneSplit i d r a b) then (True, PaneLeaf leaf_id)
      else first_or_second (PaneSplit i d r)
        (collapse_tmux_subtree_inner prefix leaf_id a) (collapse_tmux_subtree_inner prefix leaf_id b) b)"

definition collapse_tmux_subtree :: "u8 list \<Rightarrow> WorkspacePaneNode \<Rightarrow> bool \<times> WorkspacePaneNode" where
  "collapse_tmux_subtree host t = collapse_tmux_subtree_inner (tmux_prefix host) host t"

subsection \<open>Pruning, saving and restoring\<close>

text \<open>What both passes do with the results for the two children.\<close>

definition join_children :: "('t \<Rightarrow> 't \<Rightarrow> 't) \<Rightarrow> 't option \<Rightarrow> 't option \<Rightarrow> 't option" where
  "join_children mk x y = (case (x, y) of
     (Some a, Some b) \<Rightarrow> Some (mk a b)
   | (Some only, None) \<Rightarrow> Some only
   | (None, Some only) \<Rightarrow> Some only
   | (None, None) \<Rightarrow> None)"

primrec prune :: "u8 list set \<Rightarrow> WorkspacePaneNode \<Rightarrow> WorkspacePaneNode option" where
  "prune live (PaneLeaf s) = (if s \<in> live then Some (PaneLeaf s) else None)"
| "prune live (PaneSplit i d r a b) =
     join_children (PaneSplit i d (clamped_ratio_percent r)) (prune live a) (prune live b)"

datatype RestorableWorkspacePaneNode =
    LayoutLeaf nat
  | LayoutSplit "u8 list" "u8 list" float RestorableWorkspacePaneNode RestorableWorkspacePaneNode

text \<open>The \<open>HashMap\<close> of positions: a later entry replaces an earlier one.\<close>

definition index_by_id :: "u8 list list \<Rightarrow> u8 list \<Rightarrow> nat option" where
  "index_by_id ids = map_of (rev (zip ids [0..<length ids]))"

primrec direction_name :: "WorkspaceSplitDirection \<Rightarrow> u8 list" where
  "direction_name Horizontal = ascii ''horizontal''"
| "direction_name Vertical = ascii ''vertical''"

definition stored_ratio :: "u8 \<Rightarrow> float" where
  "stored_ratio r = fclamp (fl F64 (1 / 5)) (fl F64 (4 / 5))
     (fdiv F64 (fl F64 (of_nat (unat (clamped_ratio_percent r)))) (Fin 100))"

primrec serialize_layout_with ::
  "(u8 list \<Rightarrow> nat option) \<Rightarrow> WorkspacePaneNode \<Rightarrow> RestorableWorkspacePaneNode option" where
  "serialize_layout_with idx (PaneLeaf s) = map_option LayoutLeaf (idx s)"
| "serialize_layout_with idx (PaneSplit i d r a b) =
     join_children (LayoutSplit i (direction_name d) (stored_ratio r))
       (serialize_layout_with idx a) (serialize_layout_with idx b)"

definition serialize_layout ::
  "u8 list list \<Rightarrow> WorkspacePaneNode \<Rightarrow> RestorableWorkspacePaneNode option" where
  "serialize_layout ids t = (if ids = [] then None else serialize_layout_with (index_by_id ids) t)"

definition parse_direction :: "u8 list \<Rightarrow> WorkspaceSplitDirection option" where
  "parse_direction s = (let l = to_ascii_lowercase s in
     if l = ascii ''horizontal'' \<or> l = ascii ''row'' then Some Horizontal
     else if l = ascii ''vertical'' \<or> l = ascii ''column'' then Some Vertical
     else None)"

definition percent_of :: "float \<Rightarrow> u8" where
  "percent_of ratio = as_u8 (fint round_away (fmul F64 ratio (Fin 100)))"

definition restored_id :: "(nat \<Rightarrow> u8 list) \<Rightarrow> u8 list \<Rightarrow> nat \<Rightarrow> u8 list \<times> nat" where
  "restored_id uuid i k =
     (if str_trim i = [] then (ascii ''pane-split-'' @ uuid k, Suc k) else (i, k))"

primrec restore_layout_inner ::
  "(nat \<Rightarrow> u8 list) \<Rightarrow> u8 list list \<Rightarrow> RestorableWorkspacePaneNode \<Rightarrow> u8 list set \<times> nat \<Rightarrow>
   WorkspacePaneNode option \<times> u8 list set \<times> nat" where
  "restore_layout_inner uuid ids (LayoutLeaf n) st =
     (if n < length ids
      then (if ids ! n \<in> fst st then (None, st)
            else (Some (PaneLeaf (ids ! n)), insert (ids ! n) (fst st), snd st))
      else (None, st))"
| "restore_layout_inner uuid ids (LayoutSplit i dir ratio a b) st =
     (case parse_direction dir of
        None \<Rightarrow> (None, st)
      | Some d \<Rightarrow>
          if \<not> is_finite ratio then (None, st)
          else
            let (x, st1) = restore_layout_inner uuid ids a st;
                (y, st2) = restore_layout_inner uuid ids b st1
            in case (x, y) of
                 (Some p, Some q) \<Rightarrow>
                   (let (i', k') = restored_id uuid i (snd st2)
                    in (Some (PaneSplit i' d (clamp MIN_RATIO_PERCENT MAX_RATIO_PERCENT (percent_of ratio)) p q),
                        fst st2, k'))
               | (Some only, None) \<Rightarrow> (Some only, st2)
               | (None, Some only) \<Rightarrow> (Some only, st2)
               | (None, None) \<Rightarrow> (None, st2))"

definition restore_layout ::
  "(nat \<Rightarrow> u8 list) \<Rightarrow> u8 list list \<Rightarrow> RestorableWorkspacePaneNode \<Rightarrow> nat \<Rightarrow> WorkspacePaneNode option" where
  "restore_layout uuid ids layout k =
     (if ids = [] then None
      else case fst (restore_layout_inner uuid ids layout ({}, k)) of
             None \<Rightarrow> None
           | Some t \<Rightarrow> if is_split t then Some t else None)"

subsection \<open>Pane trees of a stored tab\<close>

datatype RestorablePaneNode =
    TabLeaf "u8 list" "u8 list" "u8 list" "u8 list option" "u8 list option"
  | TabSplit "u8 list" "u8 list" float RestorablePaneNode RestorablePaneNode

record RestorablePaneLeaf =
  pl_id :: "u8 list"
  pl_title :: "u8 list"
  pl_session_type :: "u8 list"
  pl_connection_id :: "u8 list option"
  pl_ssh_runtime_mode :: "u8 list option"

primrec collect_leaves :: "RestorablePaneNode \<Rightarrow> RestorablePaneLeaf list" where
  "collect_leaves (TabLeaf i t s c m) =
     [\<lparr>pl_id = i, pl_title = t, pl_session_type = s, pl_connection_id = c, pl_ssh_runtime_mode = m\<rparr>]"
| "collect_leaves (TabSplit i d r a b) = collect_leaves a @ collect_leaves b"

primrec to_workspace_pane_layout_inner ::
  "RestorablePaneNode \<Rightarrow> nat \<Rightarrow> RestorableWorkspacePaneNode option \<times> nat" where
  "to_workspace_pane_layout_inner (TabLeaf i t s c m) n = (Some (LayoutLeaf n), n + 1)"
| "to_workspace_pane_layout_inner (TabSplit i d r a b) n =
     (let (x, n1) = to_workspace_pane_layout_inner a n;
          (y, n2) = to_workspace_pane_layout_inner b n1
      in (join_children (LayoutSplit (if str_trim i = [] then ascii ''pane-'' @ to_decimal n2 else i) d
            (fclamp (fl F64 (1 / 5)) (fl F64 (4 / 5)) r)) x y, n2))"

definition to_workspace_pane_layout :: "RestorablePaneNode \<Rightarrow> nat \<Rightarrow> RestorableWorkspacePaneNode option" where
  "to_workspace_pane_layout t base = fst (to_workspace_pane_layout_inner t base)"

record RestorableOpenTab =
  ot_ssh_runtime_mode :: "u8 list option"
  ot_title :: "u8 list"
  ot_session_type :: "u8 list"
  ot_connection_id :: "u8 list option"
  ot_custom_name :: "u8 list option"
  ot_tab_color :: "u8 list option"
  ot_locked :: bool
  ot_active_pane_id :: "u8 list option"
  ot_root :: "RestorablePaneNode option"

record RestorableOpenTabSession =
  os_ssh_runtime_mode :: "u8 list option"
  os_title :: "u8 list"
  os_session_type :: "u8 list"
  os_connection_id :: "u8 list option"
  os_custom_name :: "u8 list option"
  os_tab_color :: "u8 list option"
  os_locked :: bool

definition leaf_session :: "RestorableOpenTab \<Rightarrow> RestorablePaneLeaf \<Rightarrow> RestorableOpenTabSession" where
  "leaf_session tab leaf =
     \<lparr>os_ssh_runtime_mode = or_else (pl_ssh_runtime_mode leaf) (ot_ssh_runtime_mode tab),
      os_title = (if str_trim (pl_title leaf) = [] then ot_title tab else pl_title leaf),
      os_session_type =
        (if str_trim (pl_session_type leaf) = [] then ot_session_type tab else pl_session_type leaf),
      os_connection_id = (case pl_connection_id leaf of
          Some i \<Rightarrow> if i \<noteq> [] then Some i else ot_connection_id tab
        | None \<Rightarrow> ot_connection_id tab),
      os_custom_name = ot_custom_name tab, os_tab_color = ot_tab_color tab, os_locked = ot_locked tab\<rparr>"

definition expanded_sessions :: "RestorableOpenTab \<Rightarrow> RestorableOpenTabSession list" where
  "expanded_sessions tab =
     (let single = [\<lparr>os_ssh_runtime_mode = ot_ssh_runtime_mode tab, os_title = ot_title tab,
            os_session_type = ot_session_type tab, os_connection_id = ot_connection_id tab,
            os_custom_name = ot_custom_name tab, os_tab_color = ot_tab_color tab,
            os_locked = ot_locked tab\<rparr>]
      in case ot_root tab of
           None \<Rightarrow> single
         | Some tree \<Rightarrow>
             (let leaves = collect_leaves tree
              in if leaves \<noteq> [] then map (leaf_session tab) leaves else single))"

definition workspace_pane_layout_from_root ::
  "RestorableOpenTab \<Rightarrow> nat \<Rightarrow> RestorableWorkspacePaneNode option" where
  "workspace_pane_layout_from_root tab base =
     (case ot_root tab of
        None \<Rightarrow> None
      | Some (TabLeaf i t s c m) \<Rightarrow> None
      | Some tree \<Rightarrow>
          (case to_workspace_pane_layout tree base of
             None \<Rightarrow> None
           | Some (LayoutSplit i d r a b) \<Rightarrow> Some (LayoutSplit i d r a b)
           | Some (LayoutLeaf n) \<Rightarrow> None))"

section \<open>What the operations do to the sessions\<close>

text \<open>Replace the first occurrence of an element by a list.\<close>

fun subst_first :: "'a \<Rightarrow> 'a list \<Rightarrow> 'a list \<Rightarrow> 'a list" where
  "subst_first x ys [] = []"
| "subst_first x ys (z # zs) = (if z = x then ys @ zs else z # subst_first x ys zs)"

lemma subst_first_append:
  "subst_first x ys (as @ bs) = (if x \<in> set as then subst_first x ys as @ bs else as @ subst_first x ys bs)"
  by (induction as) auto

lemma set_subst_first: "distinct xs \<Longrightarrow> x \<in> set xs \<Longrightarrow> set (subst_first x ys xs) = set xs - {x} \<union> set ys"
  by (induction xs) auto

lemma subst_first_absent: "x \<notin> set xs \<Longrightarrow> subst_first x ys xs = xs"
  by (induction xs) auto

lemma distinct_subst_first:
  "distinct xs \<Longrightarrow> distinct ys \<Longrightarrow> set ys \<inter> (set xs - {x}) = {} \<Longrightarrow> distinct (subst_first x ys xs)"
proof (induction xs)
  case (Cons z zs)
  then show ?case
    by (cases "x \<in> set zs") (auto simp: set_subst_first subst_first_absent)
qed simp

primrec ratios_ok :: "WorkspacePaneNode \<Rightarrow> bool" where
  "ratios_ok (PaneLeaf s) \<longleftrightarrow> True"
| "ratios_ok (PaneSplit i d r a b) \<longleftrightarrow>
     MIN_RATIO_PERCENT \<le> r \<and> r \<le> MAX_RATIO_PERCENT \<and> ratios_ok a \<and> ratios_ok b"

text \<open>Every session has one pane, and every ratio is between the limits.\<close>

definition pane_ok :: "WorkspacePaneNode \<Rightarrow> bool" where
  "pane_ok t \<longleftrightarrow> distinct (session_ids t) \<and> ratios_ok t"

lemma clamped_ratio: "MIN_RATIO_PERCENT \<le> clamped_ratio_percent v" "clamped_ratio_percent v \<le> MAX_RATIO_PERCENT"
  using clamp_bounds [of MIN_RATIO_PERCENT MAX_RATIO_PERCENT v]
  by (simp_all add: clamped_ratio_percent_def pane_ratios)

lemma default_ratio: "MIN_RATIO_PERCENT \<le> DEFAULT_RATIO_PERCENT" "DEFAULT_RATIO_PERCENT \<le> MAX_RATIO_PERCENT"
  by (simp_all add: pane_ratios)

lemma contains_session_iff: "contains_session sid t \<longleftrightarrow> sid \<in> set (session_ids t)"
  by (induction t) auto

lemma replace_session_id_spec:
  "fst (replace_session_id old new t) \<longleftrightarrow> old \<in> set (session_ids t)"
  "session_ids (snd (replace_session_id old new t)) = subst_first old [new] (session_ids t)"
  "ratios_ok (snd (replace_session_id old new t)) \<longleftrightarrow> ratios_ok t"
  by (induction t) (auto simp: first_or_second_def subst_first_append subst_first_absent)

lemma split_leaf_spec:
  "fst (split_leaf target new d i t) \<longleftrightarrow> target \<in> set (session_ids t)"
  "session_ids (snd (split_leaf target new d i t)) = subst_first target [target, new] (session_ids t)"
  "ratios_ok (snd (split_leaf target new d i t)) \<longleftrightarrow> ratios_ok t"
  by (induction t) (auto simp: first_or_second_def subst_first_append subst_first_absent default_ratio)

lemma set_ratio_for_split_spec:
  "session_ids (snd (set_ratio_for_split i v t)) = session_ids t"
  "ratios_ok t \<Longrightarrow> ratios_ok (snd (set_ratio_for_split i v t))"
  "fst (set_ratio_for_split i v t) \<longleftrightarrow> ratio_for_split i t \<noteq> None"
  "direction_for_split j (snd (set_ratio_for_split i v t)) = direction_for_split j t"
  by (induction t) (auto simp: first_or_second_def clamped_ratio or_else_def split: option.splits)

lemma ratio_set:
  "ratio_for_split j (snd (set_ratio_for_split i v t)) =
     (if j = i \<and> ratio_for_split i t \<noteq> None then Some (clamped_ratio_percent v) else ratio_for_split j t)"
proof (induction t)
  case (PaneSplit k d r a b)
  then show ?case
    using set_ratio_for_split_spec(3) [of i v a] set_ratio_for_split_spec(3) [of i v b]
    by (auto simp: first_or_second_def or_else_def split: option.splits)
qed simp

lemma session_ids_nonempty [simp]: "session_ids t \<noteq> []"
  by (induction t) auto

lemma prune_spec:
  "case prune live t of
     None \<Rightarrow> filter (\<lambda>s. s \<in> live) (session_ids t) = []
   | Some t' \<Rightarrow> session_ids t' = filter (\<lambda>s. s \<in> live) (session_ids t) \<and> ratios_ok t'"
  by (induction t) (auto simp: join_children_def clamped_ratio split: option.splits)

lemma prune_Some:
  "prune live t = Some t' \<Longrightarrow> session_ids t' = filter (\<lambda>s. s \<in> live) (session_ids t) \<and> ratios_ok t'"
  using prune_spec [of live t] by simp

lemma prune_None_iff: "prune live t = None \<longleftrightarrow> set (session_ids t) \<inter> live = {}"
proof
  assume "prune live t = None"
  then show "set (session_ids t) \<inter> live = {}" using prune_spec [of live t] by (auto simp: filter_empty_conv)
next
  assume no: "set (session_ids t) \<inter> live = {}"
  show "prune live t = None"
  proof (cases "prune live t")
    case (Some t')
    from prune_Some [OF Some] no have "session_ids t' = []" by (auto simp: filter_empty_conv)
    then show ?thesis by simp
  qed
qed

subsection \<open>The tmux projection\<close>

lemma all_prefix_iff: "leaves_all_have_prefix p t \<longleftrightarrow> (\<forall>s \<in> set (session_ids t). starts_with p s)"
  by (induction t) auto

lemma host_not_virtual: "\<not> starts_with (tmux_prefix host) host"
proof
  assume "starts_with (tmux_prefix host) host"
  then have "length (take (length (tmux_prefix host)) host) = length (tmux_prefix host)"
    by (simp add: starts_with_def)
  then show False by (simp add: tmux_prefix_def ascii_def)
qed

text \<open>No pane of the tree is a virtual pane of the host.\<close>

definition no_virtual :: "u8 list \<Rightarrow> WorkspacePaneNode \<Rightarrow> bool" where
  "no_virtual host t \<longleftrightarrow> (\<forall>s \<in> set (session_ids t). \<not> starts_with (tmux_prefix host) s)"

definition all_virtual :: "u8 list \<Rightarrow> WorkspacePaneNode \<Rightarrow> bool" where
  "all_virtual host t \<longleftrightarrow> (\<forall>s \<in> set (session_ids t). starts_with (tmux_prefix host) s)"

lemma no_virtual_simps [simp]:
  "no_virtual host (PaneLeaf s) \<longleftrightarrow> \<not> starts_with (tmux_prefix host) s"
  "no_virtual host (PaneSplit i d r a b) \<longleftrightarrow> no_virtual host a \<and> no_virtual host b"
  by (auto simp: no_virtual_def)

lemma no_virtual_not_all: "no_virtual host t \<Longrightarrow> \<not> leaves_all_have_prefix (tmux_prefix host) t"
  by (cases "session_ids t") (auto simp: all_prefix_iff no_virtual_def)

lemma collapse_no_virtual:
  "no_virtual host t \<Longrightarrow> collapse_tmux_subtree_inner (tmux_prefix host) host t = (False, t)"
  by (induction t) (auto simp: first_or_second_def no_virtual_not_all)

lemma replace_tmux_absent:
  "no_virtual host t \<Longrightarrow> host \<notin> set (session_ids t) \<Longrightarrow>
   replace_tmux_subtree_inner host (tmux_prefix host) sub t = (False, t)"
  by (induction t) (auto simp: first_or_second_def no_virtual_not_all)

lemma replace_tmux_found:
  "no_virtual host t \<Longrightarrow>
   fst (replace_tmux_subtree_inner host (tmux_prefix host) sub t) \<longleftrightarrow> host \<in> set (session_ids t)"
  by (induction t) (auto simp: first_or_second_def no_virtual_not_all)

lemma replace_tmux_split:
  assumes "no_virtual host (PaneSplit i d r a b)"
  shows "replace_tmux_subtree_inner host (tmux_prefix host) sub (PaneSplit i d r a b) =
    (if host \<in> set (session_ids a)
     then (True, PaneSplit i d r (snd (replace_tmux_subtree_inner host (tmux_prefix host) sub a)) b)
     else (fst (replace_tmux_subtree_inner host (tmux_prefix host) sub b),
           PaneSplit i d r a (snd (replace_tmux_subtree_inner host (tmux_prefix host) sub b))))"
  using assms no_virtual_not_all [OF assms]
  by (auto simp: first_or_second_def replace_tmux_found replace_tmux_absent)

declare replace_tmux_subtree_inner.simps(2) [simp del]

lemma replace_tmux_ids:
  assumes "no_virtual host t"
  shows "session_ids (snd (replace_tmux_subtree_inner host (tmux_prefix host) sub t)) =
    subst_first host (session_ids sub) (session_ids t)"
  using assms
  by (induction t) (auto simp: replace_tmux_split subst_first_append)

lemma replace_tmux_ratios:
  assumes "no_virtual host t" and "ratios_ok t" and "ratios_ok sub"
  shows "ratios_ok (snd (replace_tmux_subtree_inner host (tmux_prefix host) sub t))"
  using assms by (induction t) (auto simp: replace_tmux_split)

text \<open>After the projection, the host's subtree is the first one with virtual panes only.\<close>

lemma replaced_sub:
  assumes "all_virtual host sub"
  shows "leaves_all_have_prefix (tmux_prefix host) sub"
    and "replace_tmux_subtree_inner host (tmux_prefix host) sub' sub = (True, sub')"
    and "collapse_tmux_subtree_inner (tmux_prefix host) host sub = (True, PaneLeaf host)"
  using assms host_not_virtual [of host]
  by (cases sub; force simp: all_virtual_def all_prefix_iff replace_tmux_subtree_inner.simps(2))+

lemma collapse_replace:
  assumes "no_virtual host t" and "host \<in> set (session_ids t)" and "all_virtual host sub"
  shows "collapse_tmux_subtree_inner (tmux_prefix host) host
    (snd (replace_tmux_subtree_inner host (tmux_prefix host) sub t)) = (True, t)"
  using assms
proof (induction t)
  case (PaneLeaf s)
  then show ?case by (simp add: replaced_sub)
next
  case (PaneSplit i d r a b)
  then have "\<not> leaves_all_have_prefix (tmux_prefix host) a" "\<not> leaves_all_have_prefix (tmux_prefix host) b"
    by (simp_all add: no_virtual_not_all)
  with PaneSplit show ?case
    by (cases "host \<in> set (session_ids a)")
      (auto simp: replace_tmux_split first_or_second_def collapse_no_virtual)
qed

lemma replace_replace:
  assumes "no_virtual host t" and "host \<in> set (session_ids t)" and "distinct (session_ids t)"
    and "all_virtual host sub"
  shows "replace_tmux_subtree_inner host (tmux_prefix host) sub'
      (snd (replace_tmux_subtree_inner host (tmux_prefix host) sub t)) =
    replace_tmux_subtree_inner host (tmux_prefix host) sub' t"
  using assms
proof (induction t)
  case (PaneLeaf s)
  then show ?case by (simp add: replaced_sub)
next
  case (PaneSplit i d r a b)
  then have "\<not> leaves_all_have_prefix (tmux_prefix host) a" "\<not> leaves_all_have_prefix (tmux_prefix host) b"
    by (simp_all add: no_virtual_not_all)
  with PaneSplit show ?case
    by (cases "host \<in> set (session_ids a)")
      (auto simp: replace_tmux_split replace_tmux_subtree_inner.simps(2) [of _ _ sub'] first_or_second_def
        replace_tmux_found replace_tmux_absent)
qed

subsection \<open>Saving and restoring\<close>

lemma fl_nat: "n < 2 ^ 24 \<Longrightarrow> fl fm (of_nat n) = Fin (of_nat n)"
proof -
  assume n: "n < 2 ^ 24"
  then have "(of_nat n :: rat) \<le> of_nat (2 ^ 24)" by (simp only: of_nat_le_iff)
  then have "(of_nat n :: rat) \<le> 2 ^ 100" by simp
  then show ?thesis by (simp add: fl_small fround_nat [OF n])
qed

lemma unat_clamped: "20 \<le> unat (clamped_ratio_percent r)" "unat (clamped_ratio_percent r) \<le> 80"
  using clamped_ratio [of r] by (simp_all add: word_le_nat_alt pane_ratios)

text \<open>A percentage between two limits is stored as the nearest fraction, and read back.\<close>

lemma stored_fraction:
  assumes "lo \<le> n" and "n \<le> hi" and "hi \<le> 100"
  shows "fclamp (fl F64 (of_nat lo / 100)) (fl F64 (of_nat hi / 100)) (fdiv F64 (fl F64 (of_nat n)) (Fin 100)) =
    Fin (fround F64 (of_nat n / 100))"
proof -
  have "fround F64 (of_nat lo / 100) \<le> fround F64 (of_nat n / 100)"
    "fround F64 (of_nat n / 100) \<le> fround F64 (of_nat hi / 100)"
    using assms by (intro fround_mono; simp)+
  moreover have "fl F64 (of_nat n) = Fin (of_nat n)" using assms by (intro fl_nat) simp
  moreover have fl: "fl F64 (of_nat m / 100) = Fin (fround F64 (of_nat m / 100))" if "m \<le> 100" for m
    using that by (intro fl_small) auto
  ultimately show ?thesis using assms fl [of lo] fl [of n] fl [of hi] by (simp add: fclamp_def flt_def)
qed

lemma percent_of_fraction:
  assumes "n \<le> 100"
  shows "percent_of (Fin (fround F64 (of_nat n / 100))) = word_of_int (int n)"
proof -
  have x: "0 \<le> (of_nat n / 100 :: rat)" "(of_nat n / 100 :: rat) \<le> 1" using assms by simp_all
  have y: "0 \<le> fround F64 (of_nat n / 100)" "fround F64 (of_nat n / 100) \<le> 1"
    using fround_nonneg [OF x(1)] fround_mono [OF x, of F64] by simp_all
  have "fl F64 (fround F64 (of_nat n / 100) * 100) = Fin (fround F64 (fround F64 (of_nat n / 100) * 100))"
    using y by (intro fl_small) auto
  moreover have "clamp 0 255 (int n) = int n" using assms by (simp add: clamp_def)
  ultimately show ?thesis by (simp add: percent_of_def percent_roundtrip [OF assms])
qed

lemma stored_ratio_eq: "stored_ratio r = Fin (fround F64 (of_nat (unat (clamped_ratio_percent r)) / 100))"
  using stored_fraction [of 20 "unat (clamped_ratio_percent r)" 80] unat_clamped [of r]
  by (simp add: stored_ratio_def)

lemma percent_of_stored: "percent_of (stored_ratio r) = clamped_ratio_percent r"
  using percent_of_fraction [of "unat (clamped_ratio_percent r)"] unat_clamped(2) [of r]
  by (simp add: stored_ratio_eq)

lemma parse_direction_name [simp]: "parse_direction (direction_name d) = Some d"
  by (cases d) (simp_all add: parse_direction_def ascii_def to_ascii_lowercase_def)

lemma index_by_id_Some: "index_by_id ids s = Some n \<Longrightarrow> n < length ids \<and> ids ! n = s"
proof -
  assume "index_by_id ids s = Some n"
  then have "(s, n) \<in> set (zip ids [0..<length ids])"
    using map_of_SomeD by (fastforce simp: index_by_id_def)
  then show ?thesis by (auto simp: in_set_zip)
qed

lemma index_by_id_None: "index_by_id ids s = None \<longleftrightarrow> s \<notin> set ids"
proof -
  have "map fst (zip ids [0..<length ids]) = ids" by simp
  then have "fst ` set (zip ids [0..<length ids]) = set ids" by (metis list.set_map)
  then show ?thesis by (simp add: index_by_id_def map_of_eq_None_iff)
qed

text \<open>Every split of the tree has a name that is not blank.\<close>

primrec named :: "WorkspacePaneNode \<Rightarrow> bool" where
  "named (PaneLeaf s) \<longleftrightarrow> True"
| "named (PaneSplit i d r a b) \<longleftrightarrow> str_trim i \<noteq> [] \<and> named a \<and> named b"

lemma is_finite_stored [simp]: "is_finite (stored_ratio r)"
  by (simp add: stored_ratio_eq is_finite_def)

lemma clamp_clamped: "clamp MIN_RATIO_PERCENT MAX_RATIO_PERCENT (clamped_ratio_percent r) = clamped_ratio_percent r"
  using clamped_ratio by (intro clamp_id)

text \<open>The layout \<open>l\<close> gives the panes of \<open>t\<close> that are among \<open>ids\<close>.\<close>

definition restores :: "(nat \<Rightarrow> u8 list) \<Rightarrow> u8 list list \<Rightarrow> RestorableWorkspacePaneNode \<Rightarrow> WorkspacePaneNode \<Rightarrow> bool" where
  "restores uuid ids l t \<longleftrightarrow> prune (set ids) t \<noteq> None \<and>
     (\<forall>used k. used \<inter> set (session_ids t) = {} \<longrightarrow>
        restore_layout_inner uuid ids l (used, k) =
          (prune (set ids) t, used \<union> (set (session_ids t) \<inter> set ids), k))"

lemma restores_leaf:
  assumes "index_by_id ids s = Some n"
  shows "restores uuid ids (LayoutLeaf n) (PaneLeaf s)"
proof -
  have "s \<in> set ids" using assms index_by_id_None [of ids s] by auto
  with index_by_id_Some [OF assms] show ?thesis by (simp add: restores_def)
qed

lemma restores_split:
  assumes "restores uuid ids la a" and "restores uuid ids lb b"
    and "set (session_ids a) \<inter> set (session_ids b) = {}" and "str_trim i \<noteq> []"
  shows "restores uuid ids (LayoutSplit i (direction_name d) (stored_ratio r) la lb) (PaneSplit i d r a b)"
proof -
  obtain p q where pq: "prune (set ids) a = Some p" "prune (set ids) b = Some q"
    using assms(1,2) by (auto simp: restores_def)
  have "restore_layout_inner uuid ids (LayoutSplit i (direction_name d) (stored_ratio r) la lb) (used, k) =
      (prune (set ids) (PaneSplit i d r a b), used \<union> (set (session_ids (PaneSplit i d r a b)) \<inter> set ids), k)"
    if u: "used \<inter> set (session_ids (PaneSplit i d r a b)) = {}" for used k
  proof -
    let ?used = "used \<union> (set (session_ids a) \<inter> set ids)"
    have "used \<inter> set (session_ids a) = {}" "?used \<inter> set (session_ids b) = {}" using u assms(3) by auto
    then have "restore_layout_inner uuid ids la (used, k) = (Some p, ?used, k)"
      "restore_layout_inner uuid ids lb (?used, k) = (Some q, ?used \<union> (set (session_ids b) \<inter> set ids), k)"
      using assms(1,2) pq by (simp_all add: restores_def)
    then show ?thesis
      using pq assms(4)
      by (simp add: join_children_def percent_of_stored clamp_clamped restored_id_def Int_Un_distrib2 Un_assoc)
  qed
  then show ?thesis using pq by (simp add: restores_def join_children_def)
qed

lemma restores_one:
  assumes "set (session_ids a) \<inter> set ids = {}"
  shows "restores uuid ids l b \<Longrightarrow> restores uuid ids l (PaneSplit i d r a b)"
    and "restores uuid ids l b \<Longrightarrow> restores uuid ids l (PaneSplit i d r b a)"
  using assms prune_None_iff [of "set ids" a]
  by (auto simp: restores_def join_children_def Int_Un_distrib Int_Un_distrib2)

lemma restore_serialized:
  assumes "named t" and "distinct (session_ids t)"
  shows "case serialize_layout_with (index_by_id ids) t of
      None \<Rightarrow> set (session_ids t) \<inter> set ids = {}
    | Some l \<Rightarrow> restores uuid ids l t"
  using assms
proof (induction t)
  case (PaneLeaf s)
  then show ?case
    using index_by_id_None [of ids s] by (auto simp: restores_leaf split: option.split)
next
  case (PaneSplit i d r a b)
  then have "case serialize_layout_with (index_by_id ids) a of
      None \<Rightarrow> set (session_ids a) \<inter> set ids = {} | Some l \<Rightarrow> restores uuid ids l a"
    "case serialize_layout_with (index_by_id ids) b of
      None \<Rightarrow> set (session_ids b) \<inter> set ids = {} | Some l \<Rightarrow> restores uuid ids l b"
    by simp_all
  with PaneSplit.prems show ?case
    by (cases "serialize_layout_with (index_by_id ids) a"; cases "serialize_layout_with (index_by_id ids) b")
      (simp_all add: join_children_def restores_split restores_one Int_Un_distrib2)
qed

lemma prune_all: "set (session_ids t) \<subseteq> live \<Longrightarrow> ratios_ok t \<Longrightarrow> prune live t = Some t"
  by (induction t) (auto simp: join_children_def clamped_ratio_percent_def clamp_id)

lemma restore_inner_ok:
  "case restore_layout_inner uuid ids l st of (x, st') \<Rightarrow>
     fst st \<subseteq> fst st' \<and>
     (case x of None \<Rightarrow> True
      | Some t \<Rightarrow> pane_ok t \<and> set (session_ids t) \<subseteq> set ids \<inter> fst st' \<and> set (session_ids t) \<inter> fst st = {})"
proof (induction l arbitrary: st)
  case (LayoutLeaf n)
  then show ?case by (auto simp: pane_ok_def)
next
  case (LayoutSplit i dir ratio a b)
  obtain x st1 where a: "restore_layout_inner uuid ids a st = (x, st1)" by (cases "restore_layout_inner uuid ids a st")
  obtain y st2 where b: "restore_layout_inner uuid ids b st1 = (y, st2)" by (cases "restore_layout_inner uuid ids b st1")
  have c: "MIN_RATIO_PERCENT \<le> clamp MIN_RATIO_PERCENT MAX_RATIO_PERCENT v"
    "clamp MIN_RATIO_PERCENT MAX_RATIO_PERCENT v \<le> MAX_RATIO_PERCENT" for v
    using clamped_ratio [of v] by (simp_all add: clamped_ratio_percent_def)
  from LayoutSplit.IH(1) [of st] LayoutSplit.IH(2) [of st1] a b c show ?case
    by (auto simp: pane_ok_def split: option.splits prod.splits)
qed

lemma restore_layout_ok:
  assumes "restore_layout uuid ids l k = Some t"
  shows "pane_ok t \<and> is_split t \<and> set (session_ids t) \<subseteq> set ids"
  using assms restore_inner_ok [where uuid = uuid and ids = ids and l = l and st = "({}, k)"]
  by (auto simp: restore_layout_def split: if_splits option.splits prod.splits)

lemma collapse_ids:
  "set (session_ids (snd (collapse_tmux_subtree_inner p host t))) \<subseteq> insert host (set (session_ids t))"
  by (induction t) (auto simp: first_or_second_def)

lemma collapse_unchanged:
  "\<not> fst (collapse_tmux_subtree_inner p host t) \<Longrightarrow> snd (collapse_tmux_subtree_inner p host t) = t"
  by (induction t) (auto simp: first_or_second_def split: if_splits)

lemma collapse_distinct:
  "distinct (session_ids t) \<Longrightarrow> host \<notin> set (session_ids t) \<Longrightarrow>
   distinct (session_ids (snd (collapse_tmux_subtree_inner p host t)))"
proof (induction t)
  case (PaneSplit i d r a b)
  then show ?case
    using collapse_ids [of p host a] collapse_ids [of p host b]
    by (auto simp: first_or_second_def collapse_unchanged)
qed simp

lemma collapse_ratios: "ratios_ok t \<Longrightarrow> ratios_ok (snd (collapse_tmux_subtree_inner p host t))"
  by (induction t) (auto simp: first_or_second_def)

subsection \<open>Pane trees of a stored tab\<close>

primrec layout_idxs :: "RestorableWorkspacePaneNode \<Rightarrow> nat list" where
  "layout_idxs (LayoutLeaf n) = [n]"
| "layout_idxs (LayoutSplit i d r a b) = layout_idxs a @ layout_idxs b"

primrec layout_readable :: "RestorableWorkspacePaneNode \<Rightarrow> bool" where
  "layout_readable (LayoutLeaf n) \<longleftrightarrow> True"
| "layout_readable (LayoutSplit i d r a b) \<longleftrightarrow>
     parse_direction d \<noteq> None \<and> is_finite r \<and> layout_readable a \<and> layout_readable b"

primrec tab_readable :: "RestorablePaneNode \<Rightarrow> bool" where
  "tab_readable (TabLeaf i t s c m) \<longleftrightarrow> True"
| "tab_readable (TabSplit i d r a b) \<longleftrightarrow>
     parse_direction d \<noteq> None \<and> is_finite r \<and> tab_readable a \<and> tab_readable b"

lemma is_finite_fclamp: "is_finite lo \<Longrightarrow> is_finite hi \<Longrightarrow> is_finite x \<Longrightarrow> is_finite (fclamp lo hi x)"
  by (simp add: fclamp_def)

lemma tab_layout:
  "tab_readable t \<Longrightarrow> \<exists>l. to_workspace_pane_layout_inner t n = (Some l, n + length (collect_leaves t))
     \<and> layout_idxs l = [n..<n + length (collect_leaves t)] \<and> layout_readable l
     \<and> ((\<exists>i. l = LayoutLeaf i) \<longleftrightarrow> length (collect_leaves t) = 1)"
proof (induction t arbitrary: n)
  case (TabSplit i d r a b)
  have fin: "is_finite (fclamp (fl F64 (1 / 5)) (fl F64 (4 / 5)) r)"
    using TabSplit.prems by (intro is_finite_fclamp) (simp_all add: fl_small is_finite_def)
  have pos: "0 < length (collect_leaves t)" for t by (induction t) auto
  have upt: "[n..<n + x] @ [n + x..<n + x + y] = [n..<n + x + y]" for x y :: nat
    by (simp add: upt_add_eq_append [of n "n + x"])
  obtain la where la: "to_workspace_pane_layout_inner a n = (Some la, n + length (collect_leaves a))"
    "layout_idxs la = [n..<n + length (collect_leaves a)]" "layout_readable la"
    using TabSplit.IH(1) [of n] TabSplit.prems by auto
  obtain lb where lb: "to_workspace_pane_layout_inner b (n + length (collect_leaves a)) =
      (Some lb, n + length (collect_leaves a) + length (collect_leaves b))"
    "layout_idxs lb = [n + length (collect_leaves a)..<n + length (collect_leaves a) + length (collect_leaves b)]"
    "layout_readable lb"
    using TabSplit.IH(2) [of "n + length (collect_leaves a)"] TabSplit.prems by auto
  have "length (collect_leaves a) + length (collect_leaves b) \<noteq> 1" using pos [of a] pos [of b] by linarith
  with la lb fin TabSplit.prems show ?case by (simp add: join_children_def upt add.assoc [symmetric])
qed auto

lemma restore_readable:
  assumes "layout_readable l" and "\<forall>n \<in> set (layout_idxs l). n < length ids"
    and "distinct (map ((!) ids) (layout_idxs l))" and "fst st \<inter> set (map ((!) ids) (layout_idxs l)) = {}"
  shows "\<exists>t k. restore_layout_inner uuid ids l st = (Some t, fst st \<union> set (map ((!) ids) (layout_idxs l)), k)
    \<and> session_ids t = map ((!) ids) (layout_idxs l) \<and> (is_split t \<longleftrightarrow> \<not> (\<exists>i. l = LayoutLeaf i))"
  using assms
proof (induction l arbitrary: st)
  case (LayoutLeaf n)
  then show ?case by auto
next
  case (LayoutSplit i d r a b)
  obtain t1 k1 where 1: "restore_layout_inner uuid ids a st = (Some t1, fst st \<union> set (map ((!) ids) (layout_idxs a)), k1)"
    "session_ids t1 = map ((!) ids) (layout_idxs a)"
    using LayoutSplit.IH(1) [of st] LayoutSplit.prems by (auto simp: Int_Un_distrib)
  obtain t2 k2 where 2: "restore_layout_inner uuid ids b (fst st \<union> set (map ((!) ids) (layout_idxs a)), k1) =
      (Some t2, fst st \<union> set (map ((!) ids) (layout_idxs a)) \<union> set (map ((!) ids) (layout_idxs b)), k2)"
    "session_ids t2 = map ((!) ids) (layout_idxs b)"
    using LayoutSplit.IH(2) [of "(fst st \<union> set (map ((!) ids) (layout_idxs a)), k1)"] LayoutSplit.prems
    by (auto simp: Int_Un_distrib Int_Un_distrib2 Int_commute)
  from 1 2 LayoutSplit.prems(1) show ?case
    by (auto simp: restored_id_def Un_assoc split: option.splits)
qed

section \<open>Properties\<close>

definition demo_tree :: WorkspacePaneNode where
  "demo_tree = PaneSplit [0x73] Vertical 30 (PaneLeaf [0x61]) (PaneLeaf [0x62])"

definition demo_panes :: WorkspacePaneNode where
  "demo_panes = PaneSplit [0x74] Horizontal 60
     (PaneLeaf [0x61, 0x3A, 0x3A, 0x30]) (PaneLeaf [0x61, 0x3A, 0x3A, 0x31])"

lemma demo_prefix: "tmux_prefix [0x61] = [0x61, 0x3A, 0x3A]"
  by (simp add: tmux_prefix_def ascii_def)

lemma demo_ok:
  "pane_ok demo_tree" "pane_ok demo_panes" "no_virtual [0x61] demo_tree" "all_virtual [0x61] demo_panes"
  "session_ids demo_tree = [[0x61], [0x62]]"
  "session_ids demo_panes = [[0x61, 0x3A, 0x3A, 0x30], [0x61, 0x3A, 0x3A, 0x31]]"
  by (simp_all add: pane_ok_def demo_tree_def demo_panes_def pane_ratios no_virtual_def all_virtual_def
      demo_prefix starts_with_def)

text \<open>(C19) Pane trees are well-formed: no session has two panes and every split ratio is between
  20 and 80 percent. Every operation keeps this: setting a ratio, renaming a session and
  splitting a pane with a new session, projecting a tmux session whose panes are new, folding it
  back, and pruning. Whatever layout is stored, and however it was damaged, what is restored
  from it is well-formed, is a split, and shows open tabs only.\<close>

theorem pane_operations_typed:
  assumes "pane_ok t" and "new \<notin> set (session_ids t)"
    and "no_virtual host t" and "pane_ok sub" and "set (session_ids sub) \<inter> set (session_ids t) = {}"
  shows "pane_ok (snd (set_ratio_for_split i v t)) \<and>
    pane_ok (snd (replace_session_id old new t)) \<and>
    pane_ok (snd (split_leaf target new d i t)) \<and>
    pane_ok (snd (replace_tmux_subtree host sub t)) \<and>
    pane_ok (snd (collapse_tmux_subtree new t)) \<and>
    pred_option pane_ok (prune live t) \<and>
    pred_option (\<lambda>p. pane_ok p \<and> is_split p \<and> set (session_ids p) \<subseteq> set ids) (restore_layout uuid ids l k)"
proof (intro conjI)
  note ok = assms(1) [unfolded pane_ok_def]
  show "pane_ok (snd (set_ratio_for_split i v t))"
    using ok by (simp add: pane_ok_def set_ratio_for_split_spec)
  show "pane_ok (snd (replace_session_id old new t))"
    using ok assms(2) by (auto simp: pane_ok_def replace_session_id_spec intro: distinct_subst_first)
  show "pane_ok (snd (split_leaf target new d i t))"
  proof (cases "target \<in> set (session_ids t)")
    case True
    with ok assms(2) show ?thesis
      by (auto simp: pane_ok_def split_leaf_spec intro!: distinct_subst_first)
  next
    case False
    with ok show ?thesis by (simp add: pane_ok_def split_leaf_spec subst_first_absent)
  qed
  show "pane_ok (snd (replace_tmux_subtree host sub t))"
    using ok assms(3-5) unfolding pane_ok_def replace_tmux_subtree_def
    by (auto simp: replace_tmux_ids replace_tmux_ratios intro!: distinct_subst_first)
  show "pane_ok (snd (collapse_tmux_subtree new t))"
    using ok assms(2) by (simp add: pane_ok_def collapse_tmux_subtree_def collapse_distinct collapse_ratios)
  show "pred_option pane_ok (prune live t)"
    using ok prune_Some [of live t] by (auto simp: pane_ok_def option.pred_set set_eq_iff split: option.splits)
  show "pred_option (\<lambda>p. pane_ok p \<and> is_split p \<and> set (session_ids p) \<subseteq> set ids) (restore_layout uuid ids l k)"
    using restore_layout_ok [of uuid ids l k] by (cases "restore_layout uuid ids l k") auto
qed

theorem pane_operations_typed_witness:
  "pane_ok demo_tree \<and> [0x63] \<notin> set (session_ids demo_tree) \<and> no_virtual [0x61] demo_tree \<and>
   pane_ok demo_panes \<and> set (session_ids demo_panes) \<inter> set (session_ids demo_tree) = {} \<and>
   pane_ok (snd (replace_tmux_subtree [0x61] demo_panes demo_tree))"
  using pane_operations_typed [of demo_tree "[0x63]" "[0x61]" demo_panes] demo_ok by simp

text \<open>(C22) The tmux projection is contained and can be undone. When the session of a host is shown in
  a tree that has no virtual panes of that host, the projection succeeds and puts the panes of
  the tmux layout exactly where the host's pane was, every other pane keeping its place; a later
  layout of the same tmux session replaces exactly the earlier one; and collapsing it when tmux
  ends gives back the tree as it was.\<close>

theorem tmux_projection:
  assumes "distinct (session_ids t)" and "host \<in> set (session_ids t)"
    and "no_virtual host t" and "all_virtual host sub"
  shows "\<exists>t'. replace_tmux_subtree host sub t = (True, t') \<and>
    session_ids t' = subst_first host (session_ids sub) (session_ids t) \<and>
    (\<forall>sub'. replace_tmux_subtree host sub' t' = replace_tmux_subtree host sub' t) \<and>
    collapse_tmux_subtree host t' = (True, t)"
proof -
  obtain t' where t': "replace_tmux_subtree_inner host (tmux_prefix host) sub t = (True, t')"
    using replace_tmux_found [OF assms(3), of sub] assms(2)
    by (cases "replace_tmux_subtree_inner host (tmux_prefix host) sub t") simp
  then show ?thesis
    using replace_tmux_ids [OF assms(3), of sub] collapse_replace [OF assms(3,2,4)]
      replace_replace [OF assms(3,2,1,4)]
    by (simp add: replace_tmux_subtree_def collapse_tmux_subtree_def)
qed

theorem tmux_projection_witness:
  "\<exists>t'. replace_tmux_subtree [0x61] demo_panes demo_tree = (True, t') \<and>
     session_ids t' = session_ids demo_panes @ [[0x62]] \<and>
     collapse_tmux_subtree [0x61] t' = (True, demo_tree)"
  using tmux_projection [of demo_tree "[0x61]" demo_panes] demo_ok by auto

text \<open>(C35) Saving and restoring. When a tree with named splits is saved and restored over the same
  list of open tabs, the result is the tree without the panes whose tabs are not open, with its
  ratios clamped; it is dropped when no split is left. A well-formed split of open tabs comes
  back exactly as it was, ratios included.\<close>

theorem pane_layout_roundtrip:
  assumes "named t" and "distinct (session_ids t)"
  shows "Option.bind (serialize_layout ids t) (\<lambda>l. restore_layout uuid ids l k) =
      (case prune (set ids) t of Some p \<Rightarrow> if is_split p then Some p else None | None \<Rightarrow> None)
    \<and> (ratios_ok t \<and> is_split t \<and> set (session_ids t) \<subseteq> set ids \<longrightarrow>
       Option.bind (serialize_layout ids t) (\<lambda>l. restore_layout uuid ids l k) = Some t)"
proof -
  have "Option.bind (serialize_layout ids t) (\<lambda>l. restore_layout uuid ids l k) =
      (case prune (set ids) t of Some p \<Rightarrow> if is_split p then Some p else None | None \<Rightarrow> None)"
  proof (cases "serialize_layout_with (index_by_id ids) t")
    case None
    with restore_serialized [OF assms, of ids uuid] have "prune (set ids) t = None" by (simp add: prune_None_iff)
    with None show ?thesis by (simp add: serialize_layout_def)
  next
    case (Some l)
    with restore_serialized [OF assms, of ids uuid] have l: "restores uuid ids l t" by simp
    then have "ids \<noteq> []" using prune_None_iff [of "set ids" t] by (auto simp: restores_def)
    with Some l show ?thesis
      by (auto simp: serialize_layout_def restore_layout_def restores_def split: option.splits)
  qed
  then show ?thesis by (auto simp: prune_all)
qed

theorem pane_layout_roundtrip_witness:
  "named demo_tree \<and> Option.bind (serialize_layout [[0x62], [0x61]] demo_tree)
     (\<lambda>l. restore_layout (\<lambda>_. []) [[0x62], [0x61]] l 0) = Some demo_tree"
proof -
  have "str_chars [0x73] = [[0x73]]" by (simp add: str_chars.simps [of "[0x73]"] str_chars.simps [of "[]"] utf8_char_len_def)
  then have "named demo_tree" by (simp add: demo_tree_def str_trim_def white_space_def)
  with pane_layout_roundtrip [of demo_tree "[[0x62], [0x61]]" "\<lambda>_. []" 0] demo_ok show ?thesis
    by (auto simp: pane_ok_def demo_tree_def)
qed

lemma expanded_sessions_root: "ot_root tab = Some tree \<Longrightarrow> expanded_sessions tab = map (leaf_session tab) (collect_leaves tree)"
proof -
  assume "ot_root tab = Some tree"
  moreover have "collect_leaves tree \<noteq> []" by (induction tree) auto
  ultimately show ?thesis by (simp add: expanded_sessions_def)
qed

lemma layout_from_root:
  assumes "ot_root tab = Some tree" and "tab_readable tree" and "1 < length (collect_leaves tree)"
  shows "\<exists>l. workspace_pane_layout_from_root tab base = Some l \<and>
    layout_idxs l = [base..<base + length (collect_leaves tree)] \<and> layout_readable l \<and> \<not> (\<exists>i. l = LayoutLeaf i)"
proof -
  obtain l where l: "to_workspace_pane_layout tree base = Some l"
    "layout_idxs l = [base..<base + length (collect_leaves tree)]" "layout_readable l" "\<not> (\<exists>i. l = LayoutLeaf i)"
    using tab_layout [OF assms(2), of base] assms(3) by (auto simp: to_workspace_pane_layout_def)
  then obtain i d r a b where "l = LayoutSplit i d r a b" by (cases l) auto
  with l assms(1,3) show ?thesis by (cases tree) (auto simp: workspace_pane_layout_from_root_def)
qed

text \<open>The pane tree a tab was stored with. When all its directions and ratios can be read and
  the sessions the tab expands to are opened as the tabs from position \<open>base\<close> on, in order, the
  layout computed from the tree restores a split that shows exactly these sessions, in that
  order.\<close>

theorem stored_tab_restored:
  assumes "ot_root tab = Some tree" and "tab_readable tree" and "distinct ids"
    and "base + length (expanded_sessions tab) \<le> length ids" and "1 < length (expanded_sessions tab)"
  shows "\<exists>l p. workspace_pane_layout_from_root tab base = Some l \<and> restore_layout uuid ids l k = Some p \<and>
    session_ids p = take (length (expanded_sessions tab)) (drop base ids) \<and> pane_ok p"
proof -
  define n where "n = length (collect_leaves tree)"
  have n: "length (expanded_sessions tab) = n" by (simp add: n_def expanded_sessions_root [OF assms(1)])
  obtain l where l: "workspace_pane_layout_from_root tab base = Some l" "layout_idxs l = [base..<base + n]"
    "layout_readable l" "\<not> (\<exists>i. l = LayoutLeaf i)"
    using layout_from_root [OF assms(1,2), of base] assms(5) n by (auto simp: n_def)
  have ids: "map ((!) ids) (layout_idxs l) = take n (drop base ids)"
    using assms(4) n by (intro nth_equalityI) (auto simp: l(2))
  then obtain p where p: "fst (restore_layout_inner uuid ids l ({}, k)) = Some p"
    "session_ids p = take n (drop base ids)" "is_split p"
    using restore_readable [OF l(3), of ids "({}, k)" uuid] l(2,4) assms(3,4) n by auto
  have "ids \<noteq> []" using assms(4,5) by auto
  with p have r: "restore_layout uuid ids l k = Some p" by (simp add: restore_layout_def)
  with restore_layout_ok [OF r] l(1) p(2) n show ?thesis by auto
qed

definition demo_tab :: RestorableOpenTab where
  "demo_tab = \<lparr>ot_ssh_runtime_mode = None, ot_title = [0x74], ot_session_type = [], ot_connection_id = None,
     ot_custom_name = None, ot_tab_color = None, ot_locked = False, ot_active_pane_id = None,
     ot_root = Some (TabSplit [] [0x52, 0x6F, 0x77] (Fin (1 / 2)) (TabLeaf [] [] [] None None) (TabLeaf [] [] [] None None))\<rparr>"

theorem stored_tab_restored_witness:
  "\<exists>l p. workspace_pane_layout_from_root demo_tab 1 = Some l \<and>
     restore_layout (\<lambda>_. []) [[0x61], [0x62], [0x63]] l 0 = Some p \<and> session_ids p = [[0x62], [0x63]]"
proof -
  have "parse_direction [0x52, 0x6F, 0x77] = Some Horizontal"
    by (simp add: parse_direction_def to_ascii_lowercase_def ascii_def)
  moreover have "length (expanded_sessions demo_tab) = 2" by (simp add: demo_tab_def expanded_sessions_def)
  ultimately show ?thesis
    using stored_tab_restored [of demo_tab _ "[[0x61], [0x62], [0x63]]" 1 "\<lambda>_. []" 0]
    by (auto simp: demo_tab_def is_finite_def)
qed

end
