(* ===== verification/Workspace_Tabs.thy ===== *)
theory Workspace_Tabs
  imports Workspace_Pane "HOL-Library.Multiset"
begin

text \<open>
  The tab groups of a window (\<open>nyaterm-desktop/src/models/workspace_tabs\<close>): a tree of splits
  whose leaves hold tabs, one of them active. Tabs are activated, inserted, closed, moved,
  reordered and docked to an edge of a group; all tabs can be tiled into groups that fit the
  window; and the tree is saved and restored. Node ids are made from the clock, the \<open>k\<close>-th
  reading being \<open>uuid k\<close>; an operation that makes nodes takes the number of the next reading.
\<close>

datatype TerminalWindowNode =
    WinLeaf "u8 list" "u8 list list" "u8 list option"
  | WinSplit "u8 list" WorkspaceSplitDirection u8 TerminalWindowNode TerminalWindowNode

subsection \<open>Keys of tabs (mod.rs)\<close>

datatype WorkspaceTabId = SessionTab "u8 list" | EditorTab "u8 list" | FileManagerTab "u8 list" | SettingsTab

definition EDITOR_PREFIX :: "u8 list" where "EDITOR_PREFIX = 0 # ascii ''editor:''"
definition FILE_MANAGER_PREFIX :: "u8 list" where "FILE_MANAGER_PREFIX = 0 # ascii ''filemgr:''"
definition SETTINGS_KEY :: "u8 list" where "SETTINGS_KEY = 0 # ascii ''settings:''"

definition from_layout_key :: "u8 list \<Rightarrow> WorkspaceTabId" where
  "from_layout_key key =
     (case strip_prefix EDITOR_PREFIX key of
        Some i \<Rightarrow> EditorTab i
      | None \<Rightarrow> (case strip_prefix FILE_MANAGER_PREFIX key of
          Some i \<Rightarrow> FileManagerTab i
        | None \<Rightarrow> if key = SETTINGS_KEY then SettingsTab else SessionTab key))"

primrec layout_key :: "WorkspaceTabId \<Rightarrow> u8 list" where
  "layout_key (SessionTab i) = i"
| "layout_key (EditorTab i) = EDITOR_PREFIX @ i"
| "layout_key (FileManagerTab i) = FILE_MANAGER_PREFIX @ i"
| "layout_key SettingsTab = SETTINGS_KEY"

fun is_session :: "WorkspaceTabId \<Rightarrow> bool" where
  "is_session (SessionTab i) = True"
| "is_session _ = False"

definition key_is_session :: "u8 list \<Rightarrow> bool" where
  "key_is_session key = is_session (from_layout_key key)"

subsection \<open>Reading a tree (tree.rs, mutation.rs, groups.rs)\<close>

text \<open>\<open>unique_tabs\<close>: the first occurrence of every tab.\<close>

primrec unique_loop :: "u8 list set \<Rightarrow> u8 list list \<Rightarrow> u8 list list" where
  "unique_loop seen [] = []"
| "unique_loop seen (i # is) =
     (if i \<in> seen then unique_loop seen is else i # unique_loop (insert i seen) is)"

definition unique_tabs :: "u8 list list \<Rightarrow> u8 list list" where
  "unique_tabs tabs = unique_loop {} tabs"

definition first_tab :: "u8 list list \<Rightarrow> u8 list option" where
  "first_tab tabs = (case tabs of [] \<Rightarrow> None | t # _ \<Rightarrow> Some t)"

definition filter_tab :: "u8 list list \<Rightarrow> u8 list option \<Rightarrow> u8 list option" where
  "filter_tab tabs a = (case a of Some i \<Rightarrow> if i \<in> set tabs then Some i else None | None \<Rightarrow> None)"

definition win_leaf :: "u8 list \<Rightarrow> u8 list list \<Rightarrow> u8 list option \<Rightarrow> TerminalWindowNode" where
  "win_leaf uid tabs active =
     (let tabs = unique_tabs tabs
      in WinLeaf (ascii ''tw-leaf-'' @ uid) tabs (or_else (filter_tab tabs active) (first_tab tabs)))"

primrec collect_tab_ids :: "TerminalWindowNode \<Rightarrow> u8 list list" where
  "collect_tab_ids (WinLeaf i tabs act) = tabs"
| "collect_tab_ids (WinSplit i d r a b) = collect_tab_ids a @ collect_tab_ids b"

primrec contains_tab :: "u8 list \<Rightarrow> TerminalWindowNode \<Rightarrow> bool" where
  "contains_tab tab (WinLeaf i tabs act) \<longleftrightarrow> tab \<in> set tabs"
| "contains_tab tab (WinSplit i d r a b) \<longleftrightarrow> contains_tab tab a \<or> contains_tab tab b"

primrec first_leaf_id :: "TerminalWindowNode \<Rightarrow> u8 list option" where
  "first_leaf_id (WinLeaf i tabs act) = Some i"
| "first_leaf_id (WinSplit i d r a b) = first_leaf_id a"

primrec leaf_ids :: "TerminalWindowNode \<Rightarrow> u8 list list" where
  "leaf_ids (WinLeaf i tabs act) = [i]"
| "leaf_ids (WinSplit i d r a b) = leaf_ids a @ leaf_ids b"

primrec node_ids :: "TerminalWindowNode \<Rightarrow> u8 list list" where
  "node_ids (WinLeaf i tabs act) = [i]"
| "node_ids (WinSplit i d r a b) = i # node_ids a @ node_ids b"

primrec leaf_for_tab :: "u8 list \<Rightarrow> TerminalWindowNode \<Rightarrow> u8 list option" where
  "leaf_for_tab tab (WinLeaf i tabs act) = (if tab \<in> set tabs then Some i else None)"
| "leaf_for_tab tab (WinSplit i d r a b) = or_else (leaf_for_tab tab a) (leaf_for_tab tab b)"

primrec leaf_tabs :: "u8 list \<Rightarrow> TerminalWindowNode \<Rightarrow> (u8 list list \<times> u8 list option) option" where
  "leaf_tabs leaf (WinLeaf i tabs act) = (if i = leaf then Some (tabs, act) else None)"
| "leaf_tabs leaf (WinSplit i d r a b) = or_else (leaf_tabs leaf a) (leaf_tabs leaf b)"

primrec leaf_tab_ids_for_tab :: "u8 list \<Rightarrow> TerminalWindowNode \<Rightarrow> u8 list list option" where
  "leaf_tab_ids_for_tab tab (WinLeaf i tabs act) = (if tab \<in> set tabs then Some tabs else None)"
| "leaf_tab_ids_for_tab tab (WinSplit i d r a b) =
     or_else (leaf_tab_ids_for_tab tab a) (leaf_tab_ids_for_tab tab b)"

primrec leaf_tab_count_for :: "u8 list \<Rightarrow> TerminalWindowNode \<Rightarrow> (u8 list \<times> nat) option" where
  "leaf_tab_count_for tab (WinLeaf i tabs act) = (if tab \<in> set tabs then Some (i, length tabs) else None)"
| "leaf_tab_count_for tab (WinSplit i d r a b) = or_else (leaf_tab_count_for tab a) (leaf_tab_count_for tab b)"

primrec win_direction_for_split :: "u8 list \<Rightarrow> TerminalWindowNode \<Rightarrow> WorkspaceSplitDirection option" where
  "win_direction_for_split s (WinLeaf i tabs act) = None"
| "win_direction_for_split s (WinSplit i d r a b) =
     (if i = s then Some d else or_else (win_direction_for_split s a) (win_direction_for_split s b))"

primrec win_ratio_for_split :: "u8 list \<Rightarrow> TerminalWindowNode \<Rightarrow> u8 option" where
  "win_ratio_for_split s (WinLeaf i tabs act) = None"
| "win_ratio_for_split s (WinSplit i d r a b) =
     (if i = s then Some r else or_else (win_ratio_for_split s a) (win_ratio_for_split s b))"

subsection \<open>Changing a tree\<close>

text \<open>\<open>Iterator::position\<close> of an element.\<close>

primrec tab_position :: "u8 list \<Rightarrow> u8 list list \<Rightarrow> nat option" where
  "tab_position tab [] = None"
| "tab_position tab (t # ts) = (if t = tab then Some 0 else map_option Suc (tab_position tab ts))"

definition list_insert :: "nat \<Rightarrow> 'a \<Rightarrow> 'a list \<Rightarrow> 'a list" where
  "list_insert n x xs = take n xs @ x # drop n xs"

definition list_remove :: "nat \<Rightarrow> 'a list \<Rightarrow> 'a list" where
  "list_remove n xs = take n xs @ drop (Suc n) xs"

primrec replace_tab_id :: "u8 list \<Rightarrow> u8 list \<Rightarrow> TerminalWindowNode \<Rightarrow> bool \<times> TerminalWindowNode" where
  "replace_tab_id old new (WinLeaf i tabs act) =
     (case tab_position old tabs of
        None \<Rightarrow> (False, WinLeaf i tabs act)
      | Some index \<Rightarrow>
          (True, WinLeaf i (if new \<notin> set tabs then tabs[index := new] else list_remove index tabs)
             (if act = Some old then Some new else act)))"
| "replace_tab_id old new (WinSplit i d r a b) =
     first_or_second (WinSplit i d r) (replace_tab_id old new a) (replace_tab_id old new b) b"

primrec set_active_tab :: "u8 list \<Rightarrow> TerminalWindowNode \<Rightarrow> bool \<times> TerminalWindowNode" where
  "set_active_tab tab (WinLeaf i tabs act) =
     (if tab \<in> set tabs then (True, WinLeaf i tabs (Some tab)) else (False, WinLeaf i tabs act))"
| "set_active_tab tab (WinSplit i d r a b) =
     first_or_second (WinSplit i d r) (set_active_tab tab a) (set_active_tab tab b) b"

primrec insert_tab_into_first_leaf :: "u8 list \<Rightarrow> TerminalWindowNode \<Rightarrow> TerminalWindowNode" where
  "insert_tab_into_first_leaf tab (WinLeaf i tabs act) =
     WinLeaf i (if tab \<in> set tabs then tabs else tabs @ [tab]) (if act = None then Some tab else act)"
| "insert_tab_into_first_leaf tab (WinSplit i d r a b) =
     WinSplit i d r (insert_tab_into_first_leaf tab a) b"

primrec insert_tab_into_leaf :: "u8 list \<Rightarrow> u8 list \<Rightarrow> TerminalWindowNode \<Rightarrow> bool \<times> TerminalWindowNode" where
  "insert_tab_into_leaf leaf tab (WinLeaf i tabs act) =
     (if i \<noteq> leaf then (False, WinLeaf i tabs act)
      else (True, WinLeaf i (if tab \<in> set tabs then tabs else tabs @ [tab]) (Some tab)))"
| "insert_tab_into_leaf leaf tab (WinSplit i d r a b) =
     first_or_second (WinSplit i d r) (insert_tab_into_leaf leaf tab a) (insert_tab_into_leaf leaf tab b) b"

definition ensure_tab :: "u8 list \<Rightarrow> u8 list option \<Rightarrow> TerminalWindowNode \<Rightarrow> TerminalWindowNode" where
  "ensure_tab tab preferred t =
     (if contains_tab tab t then t
      else case preferred of
             Some leaf \<Rightarrow>
               (let (ok, t') = insert_tab_into_leaf leaf tab t
                in if ok then t' else insert_tab_into_first_leaf tab t')
           | None \<Rightarrow> insert_tab_into_first_leaf tab t)"

text \<open>\<open>remove_tab\<close> returns the new tree, and leaves \<open>self\<close> changed, too (first component).\<close>

primrec remove_tab :: "u8 list \<Rightarrow> TerminalWindowNode \<Rightarrow> TerminalWindowNode \<times> TerminalWindowNode option" where
  "remove_tab tab (WinLeaf i tabs act) =
     (if tab \<notin> set tabs then (WinLeaf i tabs act, Some (WinLeaf i tabs act))
      else
        let index = (case tab_position tab tabs of Some n \<Rightarrow> n | None \<Rightarrow> 0);
            tabs' = filter (\<lambda>t. t \<noteq> tab) tabs;
            n = min index (length tabs' - 1);
            act' = (if act = Some tab then (if n < length tabs' then Some (tabs' ! n) else None) else act)
        in (WinLeaf i tabs' act', if tabs' = [] then None else Some (WinLeaf i tabs' act')))"
| "remove_tab tab (WinSplit i d r a b) =
     (WinSplit i d r (fst (remove_tab tab a)) (fst (remove_tab tab b)),
      join_children (WinSplit i d r) (snd (remove_tab tab a)) (snd (remove_tab tab b)))"

primrec move_existing_tab_to_leaf_end ::
  "u8 list \<Rightarrow> u8 list \<Rightarrow> TerminalWindowNode \<Rightarrow> (bool \<times> TerminalWindowNode) option" where
  "move_existing_tab_to_leaf_end tab leaf (WinLeaf i tabs act) =
     (if i = leaf
      then (case tab_position tab tabs of
              None \<Rightarrow> None
            | Some index \<Rightarrow> Some (True, WinLeaf i (list_remove index tabs @ [tab]) (Some tab)))
      else None)"
| "move_existing_tab_to_leaf_end tab leaf (WinSplit i d r a b) =
     (case move_existing_tab_to_leaf_end tab leaf a of
        Some (ok, a') \<Rightarrow> Some (ok, WinSplit i d r a' b)
      | None \<Rightarrow> map_option (\<lambda>(ok, b'). (ok, WinSplit i d r a b')) (move_existing_tab_to_leaf_end tab leaf b))"

definition move_tab_to_leaf :: "u8 list \<Rightarrow> u8 list \<Rightarrow> TerminalWindowNode \<Rightarrow> bool \<times> TerminalWindowNode" where
  "move_tab_to_leaf tab leaf t =
     (if \<not> contains_tab tab t \<or> leaf_tabs leaf t = None then (False, t)
      else case move_existing_tab_to_leaf_end tab leaf t of
             Some moved \<Rightarrow> moved
           | None \<Rightarrow>
               (case remove_tab tab t of
                  (t1, None) \<Rightarrow> (False, t1)
                | (_, Some t1) \<Rightarrow>
                    (let (ok, t2) = insert_tab_into_leaf leaf tab t1
                     in if ok then (True, t2) else (False, insert_tab_into_first_leaf tab t2))))"

primrec win_set_ratio_for_split :: "u8 list \<Rightarrow> u8 \<Rightarrow> TerminalWindowNode \<Rightarrow> bool \<times> TerminalWindowNode" where
  "win_set_ratio_for_split s value (WinLeaf i tabs act) = (False, WinLeaf i tabs act)"
| "win_set_ratio_for_split s value (WinSplit i d r a b) =
     (if i = s then (True, WinSplit i d (clamp 1 99 value) a b)
      else first_or_second (WinSplit i d r)
        (win_set_ratio_for_split s value a) (win_set_ratio_for_split s value b) b)"

subsection \<open>Docking (docking.rs)\<close>

primrec insert_tab_before :: "u8 list \<Rightarrow> u8 list \<Rightarrow> TerminalWindowNode \<Rightarrow> bool \<times> TerminalWindowNode" where
  "insert_tab_before before tab (WinLeaf i tabs act) =
     (case tab_position before tabs of
        Some pos \<Rightarrow> (True, WinLeaf i (if tab \<in> set tabs then tabs else list_insert pos tab tabs) (Some tab))
      | None \<Rightarrow> (False, WinLeaf i tabs act))"
| "insert_tab_before before tab (WinSplit i d r a b) =
     first_or_second (WinSplit i d r) (insert_tab_before before tab a) (insert_tab_before before tab b) b"

definition already_before :: "u8 list \<Rightarrow> u8 list \<Rightarrow> TerminalWindowNode \<Rightarrow> bool" where
  "already_before tab before t =
     (case leaf_tab_ids_for_tab before t of
        None \<Rightarrow> False
      | Some ids \<Rightarrow> (case tab_position before ids of
          None \<Rightarrow> False
        | Some pos \<Rightarrow> 0 < pos \<and> ids ! (pos - 1) = tab))"

definition place_tab_before :: "u8 list \<Rightarrow> u8 list \<Rightarrow> TerminalWindowNode \<Rightarrow> bool \<times> TerminalWindowNode" where
  "place_tab_before tab before t =
     (if tab = [] \<or> before = [] \<or> tab = before then (False, t)
      else if \<not> contains_tab tab t \<or> \<not> contains_tab before t then (False, t)
      else if already_before tab before t then (True, t)
      else case remove_tab tab t of
             (t1, None) \<Rightarrow> (False, t1)
           | (_, Some t1) \<Rightarrow>
               if \<not> contains_tab before t1 then (False, insert_tab_into_first_leaf tab t1)
               else insert_tab_before before tab t1)"

datatype TabDockEdge = DockLeft | DockRight | DockTop | DockBottom

primrec edge_direction :: "TabDockEdge \<Rightarrow> WorkspaceSplitDirection" where
  "edge_direction DockLeft = Vertical"
| "edge_direction DockRight = Vertical"
| "edge_direction DockTop = Horizontal"
| "edge_direction DockBottom = Horizontal"

primrec first_is_dropped :: "TabDockEdge \<Rightarrow> bool" where
  "first_is_dropped DockLeft = True"
| "first_is_dropped DockRight = False"
| "first_is_dropped DockTop = True"
| "first_is_dropped DockBottom = False"

datatype TabDockZone = DockCenter | DockEdge TabDockEdge

primrec replace_leaf_with_edge_split ::
  "u8 list \<Rightarrow> u8 list \<Rightarrow> TabDockEdge \<Rightarrow> TerminalWindowNode \<Rightarrow> TerminalWindowNode \<Rightarrow>
   bool \<times> TerminalWindowNode" where
  "replace_leaf_with_edge_split uid target edge detached (WinLeaf i tabs act) =
     (if i \<noteq> target then (False, WinLeaf i tabs act)
      else
        let remaining = WinLeaf i tabs act;
            (first, second) = (if first_is_dropped edge then (detached, remaining) else (remaining, detached))
        in (True, WinSplit (ascii ''tw-split-'' @ uid) (edge_direction edge) DEFAULT_RATIO_PERCENT first second))"
| "replace_leaf_with_edge_split uid target edge detached (WinSplit i d r a b) =
     first_or_second (WinSplit i d r)
       (replace_leaf_with_edge_split uid target edge detached a)
       (replace_leaf_with_edge_split uid target edge detached b) b"

text \<open>The clock is read for the new leaf first, then for the new split.\<close>

definition dock_tab_to_edge ::
  "(nat \<Rightarrow> u8 list) \<Rightarrow> nat \<Rightarrow> u8 list \<Rightarrow> u8 list \<Rightarrow> TabDockEdge \<Rightarrow> TerminalWindowNode \<Rightarrow>
   bool \<times> TerminalWindowNode" where
  "dock_tab_to_edge uuid k tab target edge t =
     (if leaf_tab_count_for tab t = Some (target, 1) then (False, t)
      else case remove_tab tab t of
             (_, None) \<Rightarrow> (True, win_leaf (uuid k) [tab] (Some tab))
           | (_, Some t1) \<Rightarrow>
               if target \<notin> set (leaf_ids t1) then (True, insert_tab_into_first_leaf tab t1)
               else replace_leaf_with_edge_split (uuid (Suc k)) target edge
                      (win_leaf (uuid k) [tab] (Some tab)) t1)"

definition dock_tab ::
  "(nat \<Rightarrow> u8 list) \<Rightarrow> nat \<Rightarrow> u8 list \<Rightarrow> u8 list \<Rightarrow> TabDockZone \<Rightarrow> TerminalWindowNode \<Rightarrow>
   bool \<times> TerminalWindowNode" where
  "dock_tab uuid k tab target zone t =
     (if tab = [] \<or> \<not> contains_tab tab t \<or> leaf_tabs target t = None then (False, t)
      else case zone of
             DockCenter \<Rightarrow> move_tab_to_leaf tab target t
           | DockEdge edge \<Rightarrow> dock_tab_to_edge uuid k tab target edge t)"

subsection \<open>Groups (groups.rs)\<close>

definition GROUP_MIN_WIDTH :: rat where "GROUP_MIN_WIDTH = 240"
definition GROUP_MIN_HEIGHT :: rat where "GROUP_MIN_HEIGHT = 160"
definition GROUP_DIVIDER_SIZE :: rat where "GROUP_DIVIDER_SIZE = 4"

lemmas group_sizes = GROUP_MIN_WIDTH_def GROUP_MIN_HEIGHT_def GROUP_DIVIDER_SIZE_def

primrec minimum_size :: "TerminalWindowNode \<Rightarrow> float \<times> float" where
  "minimum_size (WinLeaf i tabs act) = (Fin GROUP_MIN_WIDTH, Fin GROUP_MIN_HEIGHT)"
| "minimum_size (WinSplit i d r a b) =
     (let (w1, h1) = minimum_size a; (w2, h2) = minimum_size b
      in case d of
           Horizontal \<Rightarrow> (fmax w1 w2, fadd F32 (fadd F32 h1 h2) (Fin GROUP_DIVIDER_SIZE))
         | Vertical \<Rightarrow> (fadd F32 (fadd F32 w1 w2) (Fin GROUP_DIVIDER_SIZE), fmax h1 h2))"

primrec split_minimum_extents :: "u8 list \<Rightarrow> TerminalWindowNode \<Rightarrow> (float \<times> float) option" where
  "split_minimum_extents s (WinLeaf i tabs act) = None"
| "split_minimum_extents s (WinSplit i d r a b) =
     (if i = s
      then Some (case d of
             Horizontal \<Rightarrow> (snd (minimum_size a), snd (minimum_size b))
           | Vertical \<Rightarrow> (fst (minimum_size a), fst (minimum_size b)))
      else or_else (split_minimum_extents s a) (split_minimum_extents s b))"

primrec from_panes :: "(nat \<Rightarrow> u8 list) \<Rightarrow> WorkspacePaneNode \<Rightarrow> nat \<Rightarrow> TerminalWindowNode \<times> nat" where
  "from_panes uuid (PaneLeaf s) k = (win_leaf (uuid k) [s] (Some s), Suc k)"
| "from_panes uuid (PaneSplit i d r a b) k =
     (let (a', k1) = from_panes uuid a k; (b', k2) = from_panes uuid b k1
      in (WinSplit (ascii ''tw-legacy-'' @ i) d r a' b', k2))"

text \<open>The change made through \<open>first_leaf_mut\<close>; \<open>first_tabs[0]\<close> panics when there is no tab.\<close>

primrec relabel_first_leaf ::
  "u8 list \<Rightarrow> u8 list \<Rightarrow> u8 list list \<Rightarrow> u8 list option \<Rightarrow> TerminalWindowNode \<Rightarrow> TerminalWindowNode option" where
  "relabel_first_leaf tab i tabs act (WinLeaf i0 tabs0 act0) =
     (case tabs0 of
        [] \<Rightarrow> None
      | s # _ \<Rightarrow> Some (WinLeaf i (map (\<lambda>t. if t = tab then s else t) tabs)
                     (map_option (\<lambda>t. if t = tab then s else t) act)))"
| "relabel_first_leaf tab i tabs act (WinSplit j d r a b) =
     map_option (\<lambda>a'. WinSplit j d r a' b) (relabel_first_leaf tab i tabs act a)"

primrec expand_pane_tab ::
  "(nat \<Rightarrow> u8 list) \<Rightarrow> nat \<Rightarrow> u8 list \<Rightarrow> WorkspacePaneNode \<Rightarrow> TerminalWindowNode \<Rightarrow>
   (bool \<times> TerminalWindowNode) option" where
  "expand_pane_tab uuid k tab panes (WinLeaf i tabs act) =
     (if tab \<in> set tabs
      then map_option (\<lambda>t. (True, t)) (relabel_first_leaf tab i tabs act (fst (from_panes uuid panes k)))
      else Some (False, WinLeaf i tabs act))"
| "expand_pane_tab uuid k tab panes (WinSplit i d r a b) =
     (case expand_pane_tab uuid k tab panes a of
        None \<Rightarrow> None
      | Some (True, a') \<Rightarrow> Some (True, WinSplit i d r a' b)
      | Some (False, a') \<Rightarrow>
          map_option (\<lambda>(ok, b'). (ok, WinSplit i d r a' b')) (expand_pane_tab uuid k tab panes b))"

datatype SmartSplitMode = SmartAuto | SmartHorizontal | SmartVertical

definition tile_direction :: "SmartSplitMode \<Rightarrow> float \<Rightarrow> float \<Rightarrow> WorkspaceSplitDirection option" where
  "tile_direction mode width height =
     (let horizontal = fle (fadd F32 (fmul F32 (Fin GROUP_MIN_HEIGHT) (Fin 2)) (Fin GROUP_DIVIDER_SIZE)) height;
          vertical = fle (fadd F32 (fmul F32 (Fin GROUP_MIN_WIDTH) (Fin 2)) (Fin GROUP_DIVIDER_SIZE)) width
      in case mode of
           SmartHorizontal \<Rightarrow> if horizontal then Some Horizontal else None
         | SmartVertical \<Rightarrow> if vertical then Some Vertical else None
         | SmartAuto \<Rightarrow>
             if horizontal \<or> vertical
             then Some (if vertical \<and> (\<not> horizontal \<or>
                         fle (fdiv F32 height (Fin GROUP_MIN_HEIGHT)) (fdiv F32 width (Fin GROUP_MIN_WIDTH)))
                        then Vertical else Horizontal)
             else None)"

text \<open>The extent that is divided, the least extent of a group, and the percentage for the first
  part; \<open>Ord::clamp\<close> panics when its limits are not in order.\<close>

definition tile_extent :: "WorkspaceSplitDirection \<Rightarrow> float \<Rightarrow> float \<Rightarrow> float" where
  "tile_extent d width height =
     fsub F32 (case d of Horizontal \<Rightarrow> height | Vertical \<Rightarrow> width) (Fin GROUP_DIVIDER_SIZE)"

definition tile_minimum :: "WorkspaceSplitDirection \<Rightarrow> rat" where
  "tile_minimum d = (case d of Horizontal \<Rightarrow> GROUP_MIN_HEIGHT | Vertical \<Rightarrow> GROUP_MIN_WIDTH)"

definition tile_percent :: "rat \<Rightarrow> float \<Rightarrow> nat \<Rightarrow> nat \<Rightarrow> u8 option" where
  "tile_percent minimum extent mid len =
     (let ratio = fdiv F32 (fl F32 (of_nat mid)) (fl F32 (of_nat len));
          q = fdiv F32 (Fin minimum) extent;
          lo = as_u8 (fint ceiling (fmul F32 q (Fin 100)));
          hi = as_u8 (fint floor (fmul F32 (fsub F32 (Fin 1) q) (Fin 100)))
      in if hi < lo then None
         else Some (clamp lo hi (as_u8 (fint round_away (fmul F32 ratio (Fin 100))))))"

definition tile_parts ::
  "WorkspaceSplitDirection \<Rightarrow> float \<Rightarrow> float \<Rightarrow> float \<Rightarrow> u8 \<Rightarrow> (float \<times> float) \<times> float \<times> float" where
  "tile_parts d width height extent percent =
     (let ratio = fdiv F32 (fl F32 (of_nat (unat percent))) (Fin 100);
          x = fmul F32 extent ratio;
          y = fmul F32 extent (fsub F32 (Fin 1) ratio)
      in case d of Horizontal \<Rightarrow> ((width, x), (width, y)) | Vertical \<Rightarrow> ((x, height), (y, height)))"

function tile_groups ::
  "(nat \<Rightarrow> u8 list) \<Rightarrow> SmartSplitMode \<Rightarrow> u8 list list \<Rightarrow> float \<Rightarrow> float \<Rightarrow> nat \<Rightarrow>
   (TerminalWindowNode \<times> nat) option" where
  "tile_groups uuid mode tabs width height k =
     (case (if 1 < length tabs then tile_direction mode width height else None) of
        None \<Rightarrow> Some (win_leaf (uuid k) tabs None, Suc k)
      | Some d \<Rightarrow>
          let mid = (length tabs + 1) div 2; extent = tile_extent d width height
          in case tile_percent (tile_minimum d) extent mid (length tabs) of
               None \<Rightarrow> None
             | Some percent \<Rightarrow>
                 let ((w1, h1), (w2, h2)) = tile_parts d width height extent percent
                 in case tile_groups uuid mode (take mid tabs) w1 h1 (Suc k) of
                      None \<Rightarrow> None
                    | Some (a, k1) \<Rightarrow>
                        (case tile_groups uuid mode (drop mid tabs) w2 h2 k1 of
                           None \<Rightarrow> None
                         | Some (b, k2) \<Rightarrow>
                             Some (WinSplit (ascii ''tw-split-'' @ uuid k) d percent a b, k2)))"
  by pat_completeness auto
termination
  by (relation "measure (\<lambda>(uuid, mode, tabs, width, height, k). length tabs)")
    (auto split: if_splits)

declare tile_groups.simps [simp del]

definition tile_in_bounds ::
  "(nat \<Rightarrow> u8 list) \<Rightarrow> nat \<Rightarrow> u8 list list \<Rightarrow> SmartSplitMode \<Rightarrow> float \<Rightarrow> float \<Rightarrow>
   (TerminalWindowNode option \<times> nat) option" where
  "tile_in_bounds uuid k tabs mode width height =
     (let tabs = unique_tabs tabs
      in if tabs = [] then Some (None, k)
         else map_option (\<lambda>(t, k'). (Some t, k'))
                (tile_groups uuid mode tabs (fmax width (Fin 0)) (fmax height (Fin 0)) k))"

subsection \<open>Saving and restoring (persistence.rs)\<close>

datatype RestorableTerminalWindowNode =
    StoredLeaf "nat list" "nat option"
  | StoredSplit "u8 list" float RestorableTerminalWindowNode RestorableTerminalWindowNode

primrec tab_indexes_loop :: "(u8 list \<Rightarrow> nat option) \<Rightarrow> nat set \<Rightarrow> u8 list list \<Rightarrow> nat list" where
  "tab_indexes_loop idx seen [] = []"
| "tab_indexes_loop idx seen (t # ts) =
     (case idx t of
        None \<Rightarrow> tab_indexes_loop idx seen ts
      | Some n \<Rightarrow> if n \<in> seen then tab_indexes_loop idx seen ts
                  else n # tab_indexes_loop idx (insert n seen) ts)"

definition win_stored_ratio :: "u8 \<Rightarrow> float" where
  "win_stored_ratio r = fclamp (fl F64 (1 / 100)) (fl F64 (99 / 100))
     (fdiv F64 (fl F64 (of_nat (unat (clamp 1 99 r)))) (Fin 100))"

primrec win_serialize_layout_with ::
  "(u8 list \<Rightarrow> nat option) \<Rightarrow> TerminalWindowNode \<Rightarrow> RestorableTerminalWindowNode option" where
  "win_serialize_layout_with idx (WinLeaf i tabs act) =
     (let ns = tab_indexes_loop idx {} tabs
      in if ns = [] then None
         else Some (StoredLeaf ns (or_else (Option.bind act idx) (Some (hd ns)))))"
| "win_serialize_layout_with idx (WinSplit i d r a b) =
     join_children (StoredSplit (direction_name d) (win_stored_ratio r))
       (win_serialize_layout_with idx a) (win_serialize_layout_with idx b)"

definition win_serialize_layout :: "u8 list list \<Rightarrow> TerminalWindowNode \<Rightarrow> RestorableTerminalWindowNode option" where
  "win_serialize_layout ids t =
     (if ids = [] then None else win_serialize_layout_with (index_by_id ids) t)"

primrec restore_tabs_loop :: "u8 list list \<Rightarrow> u8 list set \<Rightarrow> nat list \<Rightarrow> u8 list list \<times> u8 list set" where
  "restore_tabs_loop ids used [] = ([], used)"
| "restore_tabs_loop ids used (n # ns) =
     (if n < length ids \<and> ids ! n \<notin> used
      then (let (ts, used') = restore_tabs_loop ids (insert (ids ! n) used) ns in (ids ! n # ts, used'))
      else restore_tabs_loop ids used ns)"

primrec win_restore_layout_inner ::
  "(nat \<Rightarrow> u8 list) \<Rightarrow> u8 list list \<Rightarrow> RestorableTerminalWindowNode \<Rightarrow> u8 list set \<times> nat \<Rightarrow>
   TerminalWindowNode option \<times> u8 list set \<times> nat" where
  "win_restore_layout_inner uuid ids (StoredLeaf ns act) st =
     (let (tabs, used) = restore_tabs_loop ids (fst st) ns
      in if tabs = [] then (None, used, snd st)
         else
           let active = or_else
             (filter_tab tabs (Option.bind act (\<lambda>n. if n < length ids then Some (ids ! n) else None)))
             (first_tab tabs)
           in (Some (win_leaf (uuid (snd st)) tabs active), used, Suc (snd st)))"
| "win_restore_layout_inner uuid ids (StoredSplit dir ratio a b) st =
     (case parse_direction dir of
        None \<Rightarrow> (None, st)
      | Some d \<Rightarrow>
          if \<not> is_finite ratio then (None, st)
          else
            let (x, st1) = win_restore_layout_inner uuid ids a st;
                (y, st2) = win_restore_layout_inner uuid ids b st1
            in case (x, y) of
                 (Some p, Some q) \<Rightarrow>
                   (Some (WinSplit (ascii ''tw-split-'' @ uuid (snd st2)) d (clamp 1 99 (percent_of ratio)) p q),
                    fst st2, Suc (snd st2))
               | (Some only, None) \<Rightarrow> (Some only, st2)
               | (None, Some only) \<Rightarrow> (Some only, st2)
               | (None, None) \<Rightarrow> (None, st2))"

definition win_restore_layout ::
  "(nat \<Rightarrow> u8 list) \<Rightarrow> u8 list list \<Rightarrow> RestorableTerminalWindowNode \<Rightarrow> nat \<Rightarrow> TerminalWindowNode option" where
  "win_restore_layout uuid ids layout k =
     (if ids = [] then None
      else case win_restore_layout_inner uuid ids layout ({}, k) of
             (None, _) \<Rightarrow> None
           | (Some t, used, _) \<Rightarrow> if \<exists>i \<in> set ids. i \<notin> used then None else Some t)"

section \<open>Groups of tabs\<close>

text \<open>The abstract view of a window: its groups in order, each with its id, tabs and active tab.\<close>

type_synonym group = "u8 list \<times> u8 list list \<times> u8 list option"

primrec groups :: "TerminalWindowNode \<Rightarrow> group list" where
  "groups (WinLeaf i tabs act) = [(i, tabs, act)]"
| "groups (WinSplit i d r a b) = groups a @ groups b"

definition tabs_of :: "group \<Rightarrow> u8 list list" where
  "tabs_of g = fst (snd g)"

lemma tabs_of_simp [simp]: "tabs_of (i, ts, act) = ts"
  by (simp add: tabs_of_def)

fun group_ok :: "group \<Rightarrow> bool" where
  "group_ok (i, ts, act) \<longleftrightarrow> (\<exists>a \<in> set ts. act = Some a)"

primrec win_ratios_ok :: "TerminalWindowNode \<Rightarrow> bool" where
  "win_ratios_ok (WinLeaf i tabs act) \<longleftrightarrow> True"
| "win_ratios_ok (WinSplit i d r a b) \<longleftrightarrow> 1 \<le> r \<and> r \<le> 99 \<and> win_ratios_ok a \<and> win_ratios_ok b"

text \<open>No tab and no group occurs twice, every group shows one of its tabs, and ratios are
  percentages.\<close>

definition groups_ok :: "group list \<Rightarrow> bool" where
  "groups_ok gs \<longleftrightarrow> distinct (concat (map tabs_of gs)) \<and> distinct (map fst gs) \<and> (\<forall>g \<in> set gs. group_ok g)"

definition win_ok :: "TerminalWindowNode \<Rightarrow> bool" where
  "win_ok t \<longleftrightarrow> groups_ok (groups t) \<and> win_ratios_ok t"

lemma groups_nonempty [simp]: "groups t \<noteq> []"
  by (induction t) auto

lemma collect_tab_ids_groups: "collect_tab_ids t = concat (map tabs_of (groups t))"
  by (induction t) auto

lemma contains_tab_groups: "contains_tab tab t \<longleftrightarrow> tab \<in> set (collect_tab_ids t)"
  by (induction t) auto

lemma leaf_ids_groups: "leaf_ids t = map fst (groups t)"
  by (induction t) auto

lemma leaf_tabs_groups: "leaf_tabs leaf t = map_of (groups t) leaf"
  by (induction t) (auto simp: or_else_def map_add_def split: option.splits)

lemma leaf_tabs_None: "leaf_tabs leaf t = None \<longleftrightarrow> leaf \<notin> set (leaf_ids t)"
  by (auto simp: leaf_tabs_groups leaf_ids_groups map_of_eq_None_iff)

text \<open>Changing one group.\<close>

definition upd_group :: "u8 list \<Rightarrow> (group \<Rightarrow> group) \<Rightarrow> group list \<Rightarrow> group list" where
  "upd_group leaf f gs = map (\<lambda>g. if fst g = leaf then f g else g) gs"

lemma upd_group_absent: "leaf \<notin> fst ` set gs \<Longrightarrow> upd_group leaf f gs = gs"
  unfolding upd_group_def by (rule map_idI) force

lemma upd_group_append [simp]: "upd_group leaf f (xs @ ys) = upd_group leaf f xs @ upd_group leaf f ys"
  by (simp add: upd_group_def)

lemma first_or_second_simps:
  "fst (first_or_second mk x y b) \<longleftrightarrow> fst x \<or> fst y"
  "snd (first_or_second mk x y b) = (if fst x then mk (snd x) b else mk (snd x) (snd y))"
  by (simp_all add: first_or_second_def)

definition g_add :: "u8 list \<Rightarrow> group \<Rightarrow> group" where
  "g_add tab g = (case g of (i, ts, act) \<Rightarrow> (i, if tab \<in> set ts then ts else ts @ [tab], Some tab))"

lemma insert_tab_into_leaf_found: "fst (insert_tab_into_leaf leaf tab t) \<longleftrightarrow> leaf \<in> set (leaf_ids t)"
  by (induction t) (auto simp: first_or_second_simps)

lemma insert_tab_into_leaf_absent: "leaf \<notin> set (leaf_ids t) \<Longrightarrow> snd (insert_tab_into_leaf leaf tab t) = t"
  by (induction t) (auto simp: first_or_second_simps insert_tab_into_leaf_found)

lemma insert_tab_into_leaf_groups:
  "distinct (leaf_ids t) \<Longrightarrow> groups (snd (insert_tab_into_leaf leaf tab t)) = upd_group leaf (g_add tab) (groups t)"
proof (induction t)
  case (WinLeaf i tabs act)
  then show ?case by (simp add: upd_group_def g_add_def)
next
  case (WinSplit i d r a b)
  have "upd_group leaf f (groups b) = groups b" if "leaf \<in> set (leaf_ids a)" for f
    using that WinSplit.prems by (intro upd_group_absent) (auto simp: leaf_ids_groups)
  with WinSplit show ?case
    by (auto simp: first_or_second_simps insert_tab_into_leaf_found insert_tab_into_leaf_absent)
qed

lemma insert_tab_into_leaf_ratios: "win_ratios_ok (snd (insert_tab_into_leaf leaf tab t)) \<longleftrightarrow> win_ratios_ok t"
  by (induction t) (auto simp: first_or_second_simps)

definition g_add_first :: "u8 list \<Rightarrow> group \<Rightarrow> group" where
  "g_add_first tab g = (case g of (i, ts, act) \<Rightarrow>
     (i, if tab \<in> set ts then ts else ts @ [tab], if act = None then Some tab else act))"

lemma insert_first_groups:
  "groups (insert_tab_into_first_leaf tab t) = g_add_first tab (hd (groups t)) # tl (groups t)"
  by (induction t) (auto simp: g_add_first_def)

lemma insert_first_ratios: "win_ratios_ok (insert_tab_into_first_leaf tab t) \<longleftrightarrow> win_ratios_ok t"
  by (induction t) auto

lemma set_active_found: "fst (set_active_tab tab t) \<longleftrightarrow> tab \<in> set (collect_tab_ids t)"
  by (induction t) (auto simp: first_or_second_simps)

lemma set_active_absent: "tab \<notin> set (collect_tab_ids t) \<Longrightarrow> snd (set_active_tab tab t) = t"
  by (induction t) (auto simp: first_or_second_simps set_active_found)

text \<open>Changing the group that holds a tab.\<close>

definition upd_holder :: "u8 list \<Rightarrow> (group \<Rightarrow> group) \<Rightarrow> group list \<Rightarrow> group list" where
  "upd_holder tab f gs = map (\<lambda>g. if tab \<in> set (tabs_of g) then f g else g) gs"

lemma upd_holder_absent: "tab \<notin> set (concat (map tabs_of gs)) \<Longrightarrow> upd_holder tab f gs = gs"
  unfolding upd_holder_def by (rule map_idI) auto

lemma upd_holder_append [simp]: "upd_holder tab f (xs @ ys) = upd_holder tab f xs @ upd_holder tab f ys"
  by (simp add: upd_holder_def)

lemma set_active_groups:
  "distinct (collect_tab_ids t) \<Longrightarrow>
   groups (snd (set_active_tab tab t)) = upd_holder tab (\<lambda>(i, ts, act). (i, ts, Some tab)) (groups t)"
proof (induction t)
  case (WinLeaf i tabs act)
  then show ?case by (simp add: upd_holder_def)
next
  case (WinSplit i d r a b)
  have "upd_holder tab f (groups b) = groups b" if "tab \<in> set (collect_tab_ids a)" for f
    using that WinSplit.prems by (intro upd_holder_absent) (auto simp: collect_tab_ids_groups)
  with WinSplit show ?case
    by (auto simp: first_or_second_simps set_active_found set_active_absent)
qed

lemma set_active_ratios: "win_ratios_ok (snd (set_active_tab tab t)) \<longleftrightarrow> win_ratios_ok t"
  by (induction t) (auto simp: first_or_second_simps)

subsection \<open>Closing a tab\<close>

text \<open>The tab that is shown after \<open>tab\<close> was closed: the one that takes its place, or the last.\<close>

definition neighbour :: "u8 list \<Rightarrow> u8 list list \<Rightarrow> u8 list option" where
  "neighbour tab ts =
     (let ts' = filter (\<lambda>t. t \<noteq> tab) ts; n = min (case tab_position tab ts of Some n \<Rightarrow> n | None \<Rightarrow> 0) (length ts' - 1)
      in if n < length ts' then Some (ts' ! n) else None)"

definition g_drop :: "u8 list \<Rightarrow> group \<Rightarrow> group" where
  "g_drop tab g = (case g of (i, ts, act) \<Rightarrow>
     if tab \<in> set ts then (i, filter (\<lambda>t. t \<noteq> tab) ts, if act = Some tab then neighbour tab ts else act) else g)"

definition g_remove :: "u8 list \<Rightarrow> group list \<Rightarrow> group list" where
  "g_remove tab gs = filter (\<lambda>g. tabs_of g \<noteq> []) (map (g_drop tab) gs)"

lemma g_remove_append: "g_remove tab (xs @ ys) = g_remove tab xs @ g_remove tab ys"
  by (simp add: g_remove_def)

lemma remove_tab_groups:
  "(\<forall>g \<in> set (groups t). tabs_of g \<noteq> []) \<Longrightarrow>
   case snd (remove_tab tab t) of
     None \<Rightarrow> g_remove tab (groups t) = []
   | Some t' \<Rightarrow> groups t' = g_remove tab (groups t) \<and> (win_ratios_ok t \<longrightarrow> win_ratios_ok t')"
proof (induction t)
  case (WinLeaf i tabs act)
  then show ?case by (auto simp: g_remove_def g_drop_def neighbour_def Let_def)
next
  case (WinSplit i d r a b)
  then show ?case
    by (cases "snd (remove_tab tab a)"; cases "snd (remove_tab tab b)")
      (auto simp: join_children_def g_remove_append)
qed

lemma tab_position_Some: "tab_position tab ts = Some n \<Longrightarrow> n < length ts \<and> ts ! n = tab \<and> tab \<notin> set (take n ts)"
  by (induction ts arbitrary: n) (auto split: if_splits)

lemma tab_position_None: "tab_position tab ts = None \<longleftrightarrow> tab \<notin> set ts"
  by (induction ts) auto

lemma tab_position_mem: "tab_position tab ts = Some n \<Longrightarrow> tab \<in> set ts"
  using tab_position_None [of tab ts] by auto

lemma neighbour_in: "filter (\<lambda>t. t \<noteq> tab) ts \<noteq> [] \<Longrightarrow> \<exists>a \<in> set ts - {tab}. neighbour tab ts = Some a"
proof -
  assume ne: "filter (\<lambda>t. t \<noteq> tab) ts \<noteq> []"
  define ts' where "ts' = filter (\<lambda>t. t \<noteq> tab) ts"
  define n where "n = min (case tab_position tab ts of Some n \<Rightarrow> n | None \<Rightarrow> 0) (length ts' - 1)"
  have "0 < length ts'" using ne by (simp add: ts'_def)
  then have n: "n < length ts'" unfolding n_def by linarith
  then have "neighbour tab ts = Some (ts' ! n)"
    unfolding neighbour_def ts'_def [symmetric] Let_def n_def [symmetric] by simp
  moreover from n have "ts' ! n \<in> set ts'" by (rule nth_mem)
  ultimately show ?thesis by (auto simp: ts'_def)
qed

lemma tabs_of_drop [simp]: "tabs_of (g_drop tab g) = filter (\<lambda>t. t \<noteq> tab) (tabs_of g)"
  by (cases g) (auto simp: g_drop_def intro: filter_True [symmetric])

lemma fst_g_drop [simp]: "fst (g_drop tab g) = fst g"
  by (cases g) (simp add: g_drop_def)

lemma group_ok_drop: "group_ok g \<Longrightarrow> tabs_of (g_drop tab g) \<noteq> [] \<Longrightarrow> group_ok (g_drop tab g)"
  using neighbour_in [of tab "tabs_of g"] by (cases g) (auto simp: g_drop_def filter_empty_conv)

lemma concat_nonempty: "concat (map tabs_of (filter (\<lambda>g. tabs_of g \<noteq> []) gs)) = concat (map tabs_of gs)"
  by (induction gs) auto

lemma tabs_g_remove: "concat (map tabs_of (g_remove tab gs)) = filter (\<lambda>t. t \<noteq> tab) (concat (map tabs_of gs))"
  by (simp add: g_remove_def concat_nonempty filter_concat comp_def)

lemma ids_g_remove: "map fst (g_remove tab gs) = map fst (filter (\<lambda>g. tabs_of (g_drop tab g) \<noteq> []) gs)"
  by (simp add: g_remove_def filter_map comp_def)

lemma distinct_ids_g_remove: "distinct (map fst gs) \<Longrightarrow> distinct (map fst (g_remove tab gs))"
  by (simp add: ids_g_remove distinct_map_filter)

lemma groups_ok_remove: "groups_ok gs \<Longrightarrow> groups_ok (g_remove tab gs)"
proof -
  assume ok: "groups_ok gs"
  have "group_ok g" if "g \<in> set (g_remove tab gs)" for g
  proof -
    from that obtain h where h: "g = g_drop tab h" "h \<in> set gs" "tabs_of (g_drop tab h) \<noteq> []"
      unfolding g_remove_def by fastforce
    with ok have "group_ok h" unfolding groups_ok_def by blast
    then show ?thesis unfolding h(1) using h(3) by (rule group_ok_drop)
  qed
  with ok show ?thesis by (simp add: groups_ok_def tabs_g_remove distinct_ids_g_remove)
qed

lemma groups_okD: "groups_ok gs \<Longrightarrow> g \<in> set gs \<Longrightarrow> tabs_of g \<noteq> []"
  by (cases g) (auto simp: groups_ok_def)

lemma win_ok_leaf_ids: "win_ok t \<Longrightarrow> distinct (leaf_ids t)"
  by (simp add: win_ok_def groups_ok_def leaf_ids_groups)

lemma win_ok_tabs: "win_ok t \<Longrightarrow> distinct (collect_tab_ids t)"
  by (simp add: win_ok_def groups_ok_def collect_tab_ids_groups)

lemma remove_tab_Some:
  assumes "win_ok t" and "snd (remove_tab tab t) = Some t'"
  shows "groups t' = g_remove tab (groups t)" and "win_ok t'"
proof -
  have "\<forall>g \<in> set (groups t). tabs_of g \<noteq> []" using assms(1) groups_okD unfolding win_ok_def by blast
  from remove_tab_groups [OF this, of tab] assms(2)
  have "groups t' = g_remove tab (groups t) \<and> (win_ratios_ok t \<longrightarrow> win_ratios_ok t')" by simp
  with assms(1) groups_ok_remove show "groups t' = g_remove tab (groups t)" and "win_ok t'"
    by (simp_all add: win_ok_def)
qed

lemma remove_tab_None:
  assumes "win_ok t"
  shows "snd (remove_tab tab t) = None \<longleftrightarrow> collect_tab_ids t = [tab]"
proof -
  have ne: "\<forall>g \<in> set (groups t). tabs_of g \<noteq> []" using assms groups_okD unfolding win_ok_def by blast
  have *: "g_remove tab (groups t) = [] \<longleftrightarrow> filter (\<lambda>x. x \<noteq> tab) (collect_tab_ids t) = []"
    using tabs_g_remove [of tab "groups t"]
    by (auto simp: collect_tab_ids_groups g_remove_def filter_empty_conv)
  obtain x xs where x: "collect_tab_ids t = x # xs"
    using ne groups_nonempty [of t] by (cases "groups t") (auto simp: collect_tab_ids_groups neq_Nil_conv)
  have "filter (\<lambda>x. x \<noteq> tab) (collect_tab_ids t) = [] \<longleftrightarrow> collect_tab_ids t = [tab]"
    using win_ok_tabs [OF assms] by (cases xs) (auto simp: x)
  moreover have "snd (remove_tab tab t) = None \<longleftrightarrow> g_remove tab (groups t) = []"
    using remove_tab_groups [OF ne, of tab] by (cases "snd (remove_tab tab t)") auto
  ultimately show ?thesis using * by simp
qed

subsection \<open>Moving a tab\<close>

text \<open>The tab goes to the end of the group \<open>leaf\<close> and is shown there.\<close>

definition g_move :: "u8 list \<Rightarrow> u8 list \<Rightarrow> group list \<Rightarrow> group list" where
  "g_move tab leaf gs = filter (\<lambda>g. tabs_of g \<noteq> [])
     (map (\<lambda>g. if fst g = leaf then (leaf, filter (\<lambda>t. t \<noteq> tab) (tabs_of g) @ [tab], Some tab) else g_drop tab g) gs)"

lemma list_remove_position:
  "tab_position tab ts = Some n \<Longrightarrow> distinct ts \<Longrightarrow> list_remove n ts = filter (\<lambda>t. t \<noteq> tab) ts"
proof (induction ts arbitrary: n)
  case (Cons t ts)
  then show ?case
    by (cases "t = tab") (auto simp: list_remove_def intro: filter_True [symmetric])
qed simp

lemma move_existing_None:
  "move_existing_tab_to_leaf_end tab leaf t = None \<longleftrightarrow> \<not> (\<exists>g \<in> set (groups t). fst g = leaf \<and> tab \<in> set (tabs_of g))"
  by (induction t) (auto simp: tab_position_None dest: tab_position_mem split: option.splits)

lemma g_drop_absent: "tab \<notin> set (tabs_of g) \<Longrightarrow> g_drop tab g = g"
  by (cases g) (simp add: g_drop_def)

lemma move_existing_groups:
  assumes "distinct (collect_tab_ids t)" and "distinct (leaf_ids t)"
    and "move_existing_tab_to_leaf_end tab leaf t = Some (ok, t')"
  shows "ok \<and> groups t' = upd_group leaf (\<lambda>g. (leaf, filter (\<lambda>t. t \<noteq> tab) (tabs_of g) @ [tab], Some tab)) (groups t)
    \<and> (win_ratios_ok t' \<longleftrightarrow> win_ratios_ok t)"
  using assms
proof (induction t arbitrary: t')
  case (WinLeaf i tabs act)
  then show ?case
    by (auto simp: upd_group_def list_remove_position split: if_splits option.splits)
next
  case (WinSplit i d r a b)
  show ?case
  proof (cases "move_existing_tab_to_leaf_end tab leaf a")
    case None
    with WinSplit.prems obtain b' where b': "move_existing_tab_to_leaf_end tab leaf b = Some (ok, b')"
      "t' = WinSplit i d r a b'" by auto
    then obtain g where "g \<in> set (groups b)" "fst g = leaf"
      using move_existing_None [of tab leaf b] by auto
    then have "leaf \<notin> fst ` set (groups a)" using WinSplit.prems(2) by (auto simp: leaf_ids_groups)
    with b' WinSplit show ?thesis by (simp add: upd_group_absent)
  next
    case (Some x)
    with WinSplit.prems obtain a' where a': "move_existing_tab_to_leaf_end tab leaf a = Some (ok, a')"
      "t' = WinSplit i d r a' b" by (cases x) auto
    then obtain g where "g \<in> set (groups a)" "fst g = leaf"
      using move_existing_None [of tab leaf a] by auto
    then have "leaf \<notin> fst ` set (groups b)" using WinSplit.prems(2) by (auto simp: leaf_ids_groups)
    with a' WinSplit show ?thesis by (simp add: upd_group_absent)
  qed
qed

text \<open>A change of all groups that takes a tab out of every group and puts it into one.\<close>

lemma mset_rearranged:
  assumes "\<And>g. g \<in> set gs \<Longrightarrow> mset (tabs_of (F g)) = mset (filter (\<lambda>t. t \<noteq> tab) (tabs_of g)) + (if P g then {#tab#} else {#})"
  shows "mset (concat (map tabs_of (map F gs))) =
    mset (filter (\<lambda>t. t \<noteq> tab) (concat (map tabs_of gs))) + replicate_mset (length (filter P gs)) tab"
  using assms by (induction gs) (auto simp: union_ac)

lemma mset_filter_tab:
  "distinct xs \<Longrightarrow> tab \<in> set xs \<Longrightarrow> add_mset tab (mset (filter (\<lambda>t. t \<noteq> tab) xs)) = mset xs"
proof (induction xs)
  case (Cons x xs)
  have id: "filter (\<lambda>t. t \<noteq> tab) xs = xs" if "tab \<notin> set xs" using that by (auto intro: filter_True)
  from Cons show ?case by (cases "x = tab") (auto simp: id)
qed simp

lemma groups_rearranged:
  assumes "groups_ok gs" and "tab \<in> set (concat (map tabs_of gs))" and "length (filter P gs) = 1"
    and "\<And>g. g \<in> set gs \<Longrightarrow> mset (tabs_of (F g)) = mset (filter (\<lambda>t. t \<noteq> tab) (tabs_of g)) + (if P g then {#tab#} else {#})"
    and "\<And>g. g \<in> set gs \<Longrightarrow> fst (F g) = fst g"
    and "\<And>g. g \<in> set gs \<Longrightarrow> tabs_of (F g) \<noteq> [] \<Longrightarrow> group_ok (F g)"
  defines "gs' \<equiv> filter (\<lambda>g. tabs_of g \<noteq> []) (map F gs)"
  shows "groups_ok gs' \<and> mset (concat (map tabs_of gs')) = mset (concat (map tabs_of gs))"
proof -
  have d: "distinct (concat (map tabs_of gs))" "distinct (map fst gs)" using assms(1) by (auto simp: groups_ok_def)
  have "mset (concat (map tabs_of gs')) = mset (concat (map tabs_of (map F gs)))"
    by (simp add: gs'_def concat_nonempty)
  also have "\<dots> = mset (concat (map tabs_of gs))"
    using mset_rearranged [of gs F tab P, OF assms(4)] assms(3) mset_filter_tab [OF d(1) assms(2)] by simp
  finally have m: "mset (concat (map tabs_of gs')) = mset (concat (map tabs_of gs))" .
  have "map fst gs' = map fst (filter (\<lambda>g. tabs_of (F g) \<noteq> []) gs)"
    using assms(5) by (auto simp: gs'_def filter_map comp_def)
  then have "distinct (map fst gs')" using d(2) by (simp add: distinct_map_filter)
  moreover have "distinct (concat (map tabs_of gs'))" using m d(1) by (metis mset_eq_imp_distinct_iff)
  moreover have "group_ok g" if "g \<in> set gs'" for g
  proof -
    from that obtain h where "g = F h" "h \<in> set gs" "tabs_of (F h) \<noteq> []" unfolding gs'_def by fastforce
    then show ?thesis using assms(6) by blast
  qed
  ultimately show ?thesis using m by (simp add: groups_ok_def)
qed

lemma one_group:
  "distinct (map fst gs) \<Longrightarrow> leaf \<in> fst ` set gs \<Longrightarrow> length (filter (\<lambda>g. fst g = leaf) gs) = 1"
proof (induction gs)
  case (Cons g gs)
  have "filter (\<lambda>g. fst g = leaf) gs = []" if "leaf \<notin> fst ` set gs" using that by (auto simp: filter_empty_conv)
  with Cons show ?case by (cases "fst g = leaf") auto
qed simp

lemma one_holder:
  "distinct (concat (map tabs_of gs)) \<Longrightarrow> tab \<in> set (concat (map tabs_of gs)) \<Longrightarrow>
   length (filter (\<lambda>g. tab \<in> set (tabs_of g)) gs) = 1"
proof (induction gs)
  case (Cons g gs)
  show ?case
  proof (cases "tab \<in> set (tabs_of g)")
    case True
    then have "filter (\<lambda>g. tab \<in> set (tabs_of g)) gs = []" using Cons.prems(1) by (auto simp: filter_empty_conv)
    with True show ?thesis by simp
  qed (use Cons in auto)
qed simp

lemma tab_in_other_group:
  assumes "distinct (concat (map tabs_of gs))" and "g \<in> set gs" and "h \<in> set gs" and "tab \<in> set (tabs_of g)"
    and "fst g \<noteq> fst h"
  shows "tab \<notin> set (tabs_of h)"
proof
  assume "tab \<in> set (tabs_of h)"
  then have "g \<in> set (filter (\<lambda>g. tab \<in> set (tabs_of g)) gs)" "h \<in> set (filter (\<lambda>g. tab \<in> set (tabs_of g)) gs)"
    using assms by auto
  moreover have "length (filter (\<lambda>g. tab \<in> set (tabs_of g)) gs) = 1" using assms by (intro one_holder) auto
  then obtain x where "filter (\<lambda>g. tab \<in> set (tabs_of g)) gs = [x]" by (auto simp: length_Suc_conv)
  ultimately show False using assms(5) by auto
qed

lemma g_move_ok:
  assumes "groups_ok gs" and "tab \<in> set (concat (map tabs_of gs))" and "leaf \<in> fst ` set gs"
  shows "groups_ok (g_move tab leaf gs) \<and>
    mset (concat (map tabs_of (g_move tab leaf gs))) = mset (concat (map tabs_of gs))"
  unfolding g_move_def
proof (rule groups_rearranged [OF assms(1,2), where P = "\<lambda>g. fst g = leaf"])
  show "length (filter (\<lambda>g. fst g = leaf) gs) = 1"
    using assms by (intro one_group) (auto simp: groups_ok_def)
  fix g assume g: "g \<in> set gs"
  let ?F = "\<lambda>g. if fst g = leaf then (leaf, filter (\<lambda>t. t \<noteq> tab) (tabs_of g) @ [tab], Some tab) else g_drop tab g"
  show "mset (tabs_of (?F g)) = mset (filter (\<lambda>t. t \<noteq> tab) (tabs_of g)) + (if fst g = leaf then {#tab#} else {#})"
    by simp
  show "fst (?F g) = fst g" by simp
  show "group_ok (?F g)" if "tabs_of (?F g) \<noteq> []"
    using that g assms(1) group_ok_drop [of g tab] by (auto simp: groups_ok_def)
qed

text \<open>The group that already holds the tab.\<close>

lemma g_move_same:
  assumes "groups_ok gs" and "g \<in> set gs" and "fst g = leaf" and "tab \<in> set (tabs_of g)"
  shows "g_move tab leaf gs = upd_group leaf (\<lambda>g. (leaf, filter (\<lambda>t. t \<noteq> tab) (tabs_of g) @ [tab], Some tab)) gs"
proof -
  have "g_drop tab h = h \<and> tabs_of h \<noteq> []" if "h \<in> set gs" "fst h \<noteq> leaf" for h
    using that assms tab_in_other_group [of gs g h tab] groups_okD [of gs h]
    by (auto simp: groups_ok_def intro: g_drop_absent)
  then show ?thesis
    unfolding g_move_def upd_group_def
    by (subst filter_True) (auto intro!: map_cong)
qed

lemma g_move_other:
  assumes "\<And>g. g \<in> set gs \<Longrightarrow> fst g = leaf \<Longrightarrow> tab \<notin> set (tabs_of g) \<and> tabs_of g \<noteq> []"
  shows "g_move tab leaf gs = upd_group leaf (g_add tab) (g_remove tab gs)"
  using assms
proof (induction gs)
  case (Cons g gs)
  have "g_drop tab g = g" if "fst g = leaf" using that Cons.prems [of g] by (auto intro: g_drop_absent)
  moreover have "filter (\<lambda>t. t \<noteq> tab) (tabs_of g) = tabs_of g" if "fst g = leaf"
    using that Cons.prems [of g] by (auto intro: filter_True)
  moreover have "g_move tab leaf gs = upd_group leaf (g_add tab) (g_remove tab gs)" using Cons by auto
  ultimately show ?case
    using Cons.prems [of g]
    by (cases g) (auto simp: g_move_def g_remove_def upd_group_def g_add_def)
qed (simp add: g_move_def g_remove_def upd_group_def)

lemma move_tab_groups:
  assumes ok: "win_ok t" and tab: "tab \<in> set (collect_tab_ids t)" and leaf: "leaf \<in> set (leaf_ids t)"
  shows "\<exists>t'. move_tab_to_leaf tab leaf t = (True, t') \<and> groups t' = g_move tab leaf (groups t) \<and> win_ratios_ok t'"
proof -
  have g: "groups_ok (groups t)" "win_ratios_ok t" using ok by (auto simp: win_ok_def)
  obtain gl where gl: "gl \<in> set (groups t)" "fst gl = leaf" using leaf by (auto simp: leaf_ids_groups)
  have start: "contains_tab tab t" "leaf_tabs leaf t \<noteq> None"
    using tab leaf by (auto simp: contains_tab_groups leaf_tabs_None)
  show ?thesis
  proof (cases "move_existing_tab_to_leaf_end tab leaf t")
    case (Some x)
    then obtain b t' where x: "move_existing_tab_to_leaf_end tab leaf t = Some (b, t')" by (cases x) auto
    then obtain h where "h \<in> set (groups t)" "fst h = leaf" "tab \<in> set (tabs_of h)"
      using move_existing_None [of tab leaf t] by auto
    with g_move_same [OF g(1)] move_existing_groups [OF win_ok_tabs [OF ok] win_ok_leaf_ids [OF ok] x] start x g(2)
    show ?thesis by (auto simp: move_tab_to_leaf_def)
  next
    case None
    have free: "tab \<notin> set (tabs_of h) \<and> tabs_of h \<noteq> []" if "h \<in> set (groups t)" "fst h = leaf" for h
      using that None move_existing_None [of tab leaf t] groups_okD [OF g(1), of h] by auto
    have "collect_tab_ids t \<noteq> [tab]"
    proof
      assume eq: "collect_tab_ids t = [tab]"
      have "set (tabs_of gl) \<subseteq> set (collect_tab_ids t)" using gl by (auto simp: collect_tab_ids_groups)
      with eq free [OF gl] show False by (cases "tabs_of gl") auto
    qed
    then obtain t1 where t1: "snd (remove_tab tab t) = Some t1" using remove_tab_None [OF ok, of tab] by auto
    note r = remove_tab_Some [OF ok t1]
    have "gl \<in> set (groups t1)"
      unfolding r(1) g_remove_def using gl(1) free [OF gl] g_drop_absent [of tab gl] by force
    then have "fst (insert_tab_into_leaf leaf tab t1)"
      using gl(2) by (auto simp: insert_tab_into_leaf_found leaf_ids_groups)
    moreover have "groups (snd (insert_tab_into_leaf leaf tab t1)) = g_move tab leaf (groups t)"
      using insert_tab_into_leaf_groups [OF win_ok_leaf_ids [OF r(2)], of leaf tab] g_move_other [of "groups t" leaf tab] free
      by (simp add: r(1))
    moreover have "win_ratios_ok (snd (insert_tab_into_leaf leaf tab t1))"
      using r(2) by (simp add: win_ok_def insert_tab_into_leaf_ratios)
    ultimately show ?thesis
      using None start t1 by (auto simp: move_tab_to_leaf_def split: prod.splits)
  qed
qed

subsection \<open>Placing a tab before another\<close>

primrec ins_before :: "'a \<Rightarrow> 'a \<Rightarrow> 'a list \<Rightarrow> 'a list" where
  "ins_before b x [] = []"
| "ins_before b x (z # zs) = (if z = b then x # z # zs else z # ins_before b x zs)"

lemma list_insert_position: "tab_position b ts = Some n \<Longrightarrow> list_insert n x ts = ins_before b x ts"
  by (induction ts arbitrary: n) (auto simp: list_insert_def split: if_splits)

lemma mset_ins_before: "b \<in> set ts \<Longrightarrow> mset (ins_before b x ts) = add_mset x (mset ts)"
  by (induction ts) auto

definition g_place :: "u8 list \<Rightarrow> u8 list \<Rightarrow> group list \<Rightarrow> group list" where
  "g_place tab before gs = filter (\<lambda>g. tabs_of g \<noteq> [])
     (map (\<lambda>g. if before \<in> set (tabs_of g)
        then (fst g, ins_before before tab (filter (\<lambda>t. t \<noteq> tab) (tabs_of g)), Some tab) else g_drop tab g) gs)"

lemma g_place_ok:
  assumes "groups_ok gs" and "tab \<in> set (concat (map tabs_of gs))" and "before \<in> set (concat (map tabs_of gs))"
    and "before \<noteq> tab"
  shows "groups_ok (g_place tab before gs) \<and>
    mset (concat (map tabs_of (g_place tab before gs))) = mset (concat (map tabs_of gs))"
  unfolding g_place_def
proof (rule groups_rearranged [OF assms(1,2), where P = "\<lambda>g. before \<in> set (tabs_of g)"])
  show "length (filter (\<lambda>g. before \<in> set (tabs_of g)) gs) = 1"
    using assms by (intro one_holder) (auto simp: groups_ok_def)
  fix g assume g: "g \<in> set gs"
  let ?F = "\<lambda>g. if before \<in> set (tabs_of g)
    then (fst g, ins_before before tab (filter (\<lambda>t. t \<noteq> tab) (tabs_of g)), Some tab) else g_drop tab g"
  show "mset (tabs_of (?F g)) = mset (filter (\<lambda>t. t \<noteq> tab) (tabs_of g)) + (if before \<in> set (tabs_of g) then {#tab#} else {#})"
    using assms(4) by (simp add: mset_ins_before)
  show "fst (?F g) = fst g" by simp
  have in_set: "tab \<in> set (ins_before before tab ts)" if "before \<in> set ts" for ts
  proof -
    have "tab \<in># mset (ins_before before tab ts)" using that by (simp add: mset_ins_before)
    then show ?thesis by simp
  qed
  show "group_ok (?F g)" if "tabs_of (?F g) \<noteq> []"
    using that g assms(1,4) group_ok_drop [of g tab] in_set [of "filter (\<lambda>t. t \<noteq> tab) (tabs_of g)"]
    by (auto simp: groups_ok_def)
qed

lemma insert_tab_before_found: "fst (insert_tab_before before tab t) \<longleftrightarrow> before \<in> set (collect_tab_ids t)"
  by (induction t) (auto simp: first_or_second_simps tab_position_None dest: tab_position_mem split: option.splits)

lemma insert_tab_before_absent: "before \<notin> set (collect_tab_ids t) \<Longrightarrow> snd (insert_tab_before before tab t) = t"
  by (induction t) (auto simp: first_or_second_simps insert_tab_before_found dest: tab_position_mem split: option.splits)

lemma insert_tab_before_ratios: "win_ratios_ok (snd (insert_tab_before before tab t)) \<longleftrightarrow> win_ratios_ok t"
  by (induction t) (auto simp: first_or_second_simps split: option.splits)

lemma insert_tab_before_groups:
  "distinct (collect_tab_ids t) \<Longrightarrow> tab \<notin> set (collect_tab_ids t) \<Longrightarrow>
   groups (snd (insert_tab_before before tab t)) =
     upd_holder before (\<lambda>g. (fst g, ins_before before tab (tabs_of g), Some tab)) (groups t)"
proof (induction t)
  case (WinLeaf i tabs act)
  then show ?case
    by (auto simp: upd_holder_def list_insert_position tab_position_None dest: tab_position_mem split: option.splits)
next
  case (WinSplit i d r a b)
  have "upd_holder before f (groups b) = groups b" if "before \<in> set (collect_tab_ids a)" for f
    using that WinSplit.prems by (intro upd_holder_absent) (auto simp: collect_tab_ids_groups)
  with WinSplit show ?case
    by (auto simp: first_or_second_simps insert_tab_before_found insert_tab_before_absent)
qed

lemma g_place_remove:
  assumes "before \<noteq> tab"
  shows "upd_holder before (\<lambda>g. (fst g, ins_before before tab (tabs_of g), Some tab)) (g_remove tab gs) =
    g_place tab before gs"
proof (induction gs)
  case (Cons g gs)
  have "ins_before before tab ts \<noteq> []" if "before \<in> set ts" for ts
    using that by (cases ts) auto
  with Cons assms show ?case
    by (auto simp: upd_holder_def g_place_def g_remove_def filter_empty_conv)
qed (simp add: upd_holder_def g_place_def g_remove_def)

lemma place_tab_groups:
  assumes ok: "win_ok t" and tabs: "tab \<in> set (collect_tab_ids t)" "before \<in> set (collect_tab_ids t)"
    and ne: "tab \<noteq> []" "before \<noteq> []" "before \<noteq> tab"
  shows "\<exists>t'. place_tab_before tab before t = (True, t') \<and> win_ratios_ok t' \<and>
    groups t' = (if already_before tab before t then groups t else g_place tab before (groups t))"
proof (cases "already_before tab before t")
  case True
  with assms show ?thesis by (auto simp: place_tab_before_def contains_tab_groups win_ok_def)
next
  case False
  have "collect_tab_ids t \<noteq> [tab]" using tabs(2) ne(3) by auto
  then obtain t1 where t1: "snd (remove_tab tab t) = Some t1" using remove_tab_None [OF ok, of tab] by auto
  note r = remove_tab_Some [OF ok t1]
  have tabs1: "collect_tab_ids t1 = filter (\<lambda>x. x \<noteq> tab) (collect_tab_ids t)"
    by (simp add: collect_tab_ids_groups r(1) tabs_g_remove)
  then have "before \<in> set (collect_tab_ids t1)" "tab \<notin> set (collect_tab_ids t1)" using tabs(2) ne(3) by auto
  then have "fst (insert_tab_before before tab t1)"
    "groups (snd (insert_tab_before before tab t1)) = g_place tab before (groups t)"
    using insert_tab_before_groups [OF win_ok_tabs [OF r(2)], of tab before] g_place_remove [OF ne(3)]
    by (simp_all add: insert_tab_before_found r(1))
  moreover have "win_ratios_ok (snd (insert_tab_before before tab t1))"
    using r(2) by (simp add: insert_tab_before_ratios win_ok_def)
  ultimately show ?thesis
    using False tabs ne t1 \<open>before \<in> set (collect_tab_ids t1)\<close>
    by (cases "insert_tab_before before tab t1"; cases "remove_tab tab t")
      (auto simp: place_tab_before_def contains_tab_groups)
qed

subsection \<open>Docking a tab to an edge\<close>

definition dropped_group :: "u8 list \<Rightarrow> u8 list \<Rightarrow> group" where
  "dropped_group uid tab = (ascii ''tw-leaf-'' @ uid, [tab], Some tab)"

lemma win_leaf_single: "win_leaf uid [tab] (Some tab) = WinLeaf (ascii ''tw-leaf-'' @ uid) [tab] (Some tab)"
  by (simp add: win_leaf_def unique_tabs_def filter_tab_def or_else_def)

text \<open>The dropped tab gets a group of its own next to the target.\<close>

definition g_beside :: "u8 list \<Rightarrow> TabDockEdge \<Rightarrow> group \<Rightarrow> group list \<Rightarrow> group list" where
  "g_beside target edge new gs =
     concat (map (\<lambda>g. if fst g = target then (if first_is_dropped edge then [new, g] else [g, new]) else [g]) gs)"

lemma g_beside_append [simp]: "g_beside target edge new (xs @ ys) = g_beside target edge new xs @ g_beside target edge new ys"
  by (simp add: g_beside_def)

lemma g_beside_absent: "target \<notin> fst ` set gs \<Longrightarrow> g_beside target edge new gs = gs"
  by (induction gs) (auto simp: g_beside_def)

lemma edge_split_found: "fst (replace_leaf_with_edge_split uid target edge x t) \<longleftrightarrow> target \<in> set (leaf_ids t)"
  by (induction t) (auto simp: first_or_second_simps Let_def)

lemma edge_split_absent: "target \<notin> set (leaf_ids t) \<Longrightarrow> snd (replace_leaf_with_edge_split uid target edge x t) = t"
  by (induction t) (auto simp: first_or_second_simps edge_split_found)

lemma edge_split_ratios:
  "win_ratios_ok x \<Longrightarrow> win_ratios_ok t \<Longrightarrow> win_ratios_ok (snd (replace_leaf_with_edge_split uid target edge x t))"
  by (induction t) (auto simp: first_or_second_simps pane_ratios Let_def)

lemma edge_split_groups:
  "distinct (leaf_ids t) \<Longrightarrow> groups x = [new] \<Longrightarrow>
   groups (snd (replace_leaf_with_edge_split uid target edge x t)) = g_beside target edge new (groups t)"
proof (induction t)
  case (WinLeaf i tabs act)
  then show ?case by (auto simp: g_beside_def)
next
  case (WinSplit i d r a b)
  have "g_beside target edge new (groups b) = groups b" if "target \<in> set (leaf_ids a)"
    using that WinSplit.prems by (intro g_beside_absent) (auto simp: leaf_ids_groups)
  with WinSplit show ?case by (auto simp: first_or_second_simps edge_split_found edge_split_absent)
qed

lemma leaf_tab_count_groups:
  assumes "distinct (collect_tab_ids t)"
  shows "leaf_tab_count_for tab t = Some (leaf, n) \<longleftrightarrow>
    (\<exists>g \<in> set (groups t). fst g = leaf \<and> length (tabs_of g) = n \<and> tab \<in> set (tabs_of g))"
proof -
  have none: "leaf_tab_count_for tab t = None \<longleftrightarrow> tab \<notin> set (collect_tab_ids t)" for t
    by (induction t) (auto simp: or_else_def split: option.splits)
  show ?thesis
    using assms
  proof (induction t)
    case (WinSplit i d r a b)
    then show ?case
      using none [of a] by (cases "leaf_tab_count_for tab a") (auto simp: or_else_def collect_tab_ids_groups)
  qed auto
qed

lemma g_beside_ok:
  assumes "groups_ok gs" and "target \<in> fst ` set gs" and "group_ok new" and "distinct (tabs_of new)"
    and "fst new \<notin> fst ` set gs" and "set (tabs_of new) \<inter> set (concat (map tabs_of gs)) = {}"
  shows "groups_ok (g_beside target edge new gs) \<and>
    mset (concat (map tabs_of (g_beside target edge new gs))) = mset (tabs_of new) + mset (concat (map tabs_of gs))"
proof -
  let ?gs' = "g_beside target edge new gs"
  have "mset (g_beside target edge new hs) =
      replicate_mset (length (filter (\<lambda>g. fst g = target) hs)) new + mset hs" for hs
    by (induction hs) (auto simp: g_beside_def union_ac)
  moreover have "length (filter (\<lambda>g. fst g = target) gs) = 1"
    using assms by (intro one_group) (auto simp: groups_ok_def)
  ultimately have m: "mset ?gs' = mset (new # gs)" by simp
  have cat: "mset (concat (map tabs_of hs)) = \<Sum>\<^sub># (image_mset (\<lambda>g. mset (tabs_of g)) (mset hs))" for hs
    by (induction hs) auto
  have tabs: "mset (concat (map tabs_of ?gs')) = mset (concat (map tabs_of (new # gs)))"
    using m cat [of ?gs'] cat [of "new # gs"] by metis
  have "distinct (concat (map tabs_of (new # gs)))" using assms by (auto simp: groups_ok_def)
  then have d1: "distinct (concat (map tabs_of ?gs'))" using mset_eq_imp_distinct_iff [OF tabs] by simp
  have "mset (map fst ?gs') = mset (map fst (new # gs))" using m by (simp only: mset_map)
  from mset_eq_imp_distinct_iff [OF this] have d2: "distinct (map fst ?gs')"
    using assms by (auto simp: groups_ok_def)
  have "set ?gs' = insert new (set gs)" using mset_eq_setD [OF m] by simp
  with d1 d2 show ?thesis using assms(1,3) tabs by (simp add: groups_ok_def)
qed

lemma dock_edge_groups:
  assumes ok: "win_ok t" and tab: "tab \<in> set (collect_tab_ids t)" and target: "target \<in> set (leaf_ids t)"
    and sole: "leaf_tab_count_for tab t \<noteq> Some (target, 1)"
  shows "\<exists>t'. dock_tab_to_edge uuid k tab target edge t = (True, t') \<and> win_ratios_ok t' \<and>
    groups t' = g_beside target edge (dropped_group (uuid k) tab) (g_remove tab (groups t))"
    and "target \<in> fst ` set (g_remove tab (groups t))"
proof -
  have g: "groups_ok (groups t)" "win_ratios_ok t" using ok by (auto simp: win_ok_def)
  obtain gt where gt: "gt \<in> set (groups t)" "fst gt = target" using target by (auto simp: leaf_ids_groups)
  have stays: "tabs_of (g_drop tab gt) \<noteq> []"
  proof
    assume "tabs_of (g_drop tab gt) = []"
    then have "set (tabs_of gt) \<subseteq> {tab}" by (auto simp: filter_empty_conv)
    moreover have "distinct (tabs_of gt)" using g(1) gt(1) by (auto simp: groups_ok_def distinct_concat_iff)
    moreover have "tabs_of gt \<noteq> []" using groups_okD [OF g(1) gt(1)] .
    ultimately have "tabs_of gt = [tab]" by (cases "tabs_of gt" rule: remdups_adj.cases) auto
    with gt sole leaf_tab_count_groups [OF win_ok_tabs [OF ok], of tab target 1] show False by auto
  qed
  then have "g_drop tab gt \<in> set (g_remove tab (groups t))" using gt(1) by (auto simp: g_remove_def)
  then have "fst (g_drop tab gt) \<in> fst ` set (g_remove tab (groups t))" by (rule imageI)
  with gt(2) show left: "target \<in> fst ` set (g_remove tab (groups t))" by simp
  then have "g_remove tab (groups t) \<noteq> []" by auto
  have "collect_tab_ids t \<noteq> [tab]"
  proof
    assume "collect_tab_ids t = [tab]"
    then have "concat (map tabs_of (g_remove tab (groups t))) = []"
      by (simp add: tabs_g_remove collect_tab_ids_groups [symmetric])
    with left show False using groups_okD [OF groups_ok_remove [OF g(1), of tab]] by (auto simp: concat_eq_Nil_conv)
  qed
  then obtain t1 where t1: "snd (remove_tab tab t) = Some t1" using remove_tab_None [OF ok, of tab] by auto
  note r = remove_tab_Some [OF ok t1]
  let ?x = "win_leaf (uuid k) [tab] (Some tab)"
  have "target \<in> set (leaf_ids t1)" using left by (auto simp: leaf_ids_groups r(1))
  moreover from this have "fst (replace_leaf_with_edge_split (uuid (Suc k)) target edge ?x t1)"
    by (simp add: edge_split_found)
  moreover have "groups (snd (replace_leaf_with_edge_split (uuid (Suc k)) target edge ?x t1)) =
      g_beside target edge (dropped_group (uuid k) tab) (g_remove tab (groups t))"
    using edge_split_groups [OF win_ok_leaf_ids [OF r(2)], of ?x "dropped_group (uuid k) tab"]
    by (simp add: r(1) dropped_group_def win_leaf_single)
  moreover have "win_ratios_ok (snd (replace_leaf_with_edge_split (uuid (Suc k)) target edge ?x t1))"
    using r(2) by (intro edge_split_ratios) (simp_all add: win_leaf_single win_ok_def)
  ultimately show "\<exists>t'. dock_tab_to_edge uuid k tab target edge t = (True, t') \<and> win_ratios_ok t' \<and>
    groups t' = g_beside target edge (dropped_group (uuid k) tab) (g_remove tab (groups t))"
    using sole t1
    by (cases "replace_leaf_with_edge_split (uuid (Suc k)) target edge ?x t1"; cases "remove_tab tab t")
      (auto simp: dock_tab_to_edge_def)
qed

subsection \<open>Activating, adding and renaming\<close>

lemma set_active_ok:
  assumes "win_ok t"
  shows "win_ok (snd (set_active_tab tab t))" and "collect_tab_ids (snd (set_active_tab tab t)) = collect_tab_ids t"
proof -
  let ?f = "\<lambda>g :: group. if tab \<in> set (tabs_of g) then (case g of (i, ts, act) \<Rightarrow> (i, ts, Some tab)) else g"
  have g: "groups (snd (set_active_tab tab t)) = map ?f (groups t)"
    using set_active_groups [OF win_ok_tabs [OF assms], of tab] by (simp add: upd_holder_def)
  have f: "tabs_of \<circ> ?f = tabs_of" "fst \<circ> ?f = fst" by (auto simp: fun_eq_iff)
  have "group_ok (?f h)" if "group_ok h" for h using that by (cases h) auto
  with assms show "win_ok (snd (set_active_tab tab t))"
    by (auto simp: win_ok_def groups_ok_def g f set_active_ratios)
  show "collect_tab_ids (snd (set_active_tab tab t)) = collect_tab_ids t"
    by (simp add: collect_tab_ids_groups g f)
qed

lemma groups_added:
  assumes "groups_ok gs" and "tab \<notin> set (concat (map tabs_of gs))" and "leaf \<in> fst ` set gs"
  shows "groups_ok (upd_group leaf (g_add tab) gs) \<and>
    mset (concat (map tabs_of (upd_group leaf (g_add tab) gs))) = add_mset tab (mset (concat (map tabs_of gs)))"
  using assms
proof (induction gs)
  case (Cons g gs)
  obtain i ts act where g: "g = (i, ts, act)" by (cases g)
  show ?case
  proof (cases "i = leaf")
    case True
    then have "leaf \<notin> fst ` set gs" using Cons.prems(1) by (auto simp: groups_ok_def g)
    then have "upd_group leaf (g_add tab) gs = gs" by (rule upd_group_absent)
    then have "upd_group leaf (g_add tab) (g # gs) = (i, ts @ [tab], Some tab) # gs"
      using True Cons.prems(2) by (simp add: upd_group_def g g_add_def)
    with Cons.prems show ?thesis by (auto simp: groups_ok_def g)
  next
    case False
    have sub: "groups_ok gs" "tab \<notin> set (concat (map tabs_of gs))" "leaf \<in> fst ` set gs"
      using Cons.prems False by (auto simp: groups_ok_def g)
    note IH = Cons.IH [OF this]
    have upd: "upd_group leaf (g_add tab) (g # gs) = g # upd_group leaf (g_add tab) gs"
      using False by (simp add: upd_group_def g)
    have ids: "map fst (upd_group leaf (g_add tab) gs) = map fst gs" by (auto simp: upd_group_def g_add_def)
    have set: "set (concat (map tabs_of (upd_group leaf (g_add tab) gs))) = insert tab (set (concat (map tabs_of gs)))"
      using IH by (metis set_mset_add_mset_insert set_mset_mset)
    from Cons.prems have "tab \<notin> set ts" "distinct ts" "set ts \<inter> set (concat (map tabs_of gs)) = {}" "group_ok g"
      "i \<notin> fst ` set gs" by (auto simp: groups_ok_def g)
    then show ?thesis
      using IH set ids unfolding upd groups_ok_def by (auto simp: g)
  qed
qed simp

lemma ensure_tab_ok:
  assumes ok: "win_ok t"
  shows "win_ok (ensure_tab tab preferred t)"
    and "mset (collect_tab_ids (ensure_tab tab preferred t)) =
      (if tab \<in> set (collect_tab_ids t) then mset (collect_tab_ids t) else add_mset tab (mset (collect_tab_ids t)))"
proof -
  have g: "groups_ok (groups t)" "win_ratios_ok t" using ok by (auto simp: win_ok_def)
  have first: "win_ok (insert_tab_into_first_leaf tab t) \<and>
      mset (collect_tab_ids (insert_tab_into_first_leaf tab t)) = add_mset tab (mset (collect_tab_ids t))"
    if "tab \<notin> set (collect_tab_ids t)"
  proof -
    obtain i ts act gs where gs: "groups t = (i, ts, act) # gs" by (cases "groups t") auto
    with that g(1) have "groups (insert_tab_into_first_leaf tab t) = (i, ts @ [tab], act) # gs"
      by (auto simp: insert_first_groups g_add_first_def collect_tab_ids_groups groups_ok_def)
    with that g gs show ?thesis
      by (auto simp: win_ok_def groups_ok_def collect_tab_ids_groups insert_first_ratios)
  qed
  have leaf: "win_ok (snd (insert_tab_into_leaf l tab t)) \<and>
      mset (collect_tab_ids (snd (insert_tab_into_leaf l tab t))) = add_mset tab (mset (collect_tab_ids t))"
    if "tab \<notin> set (collect_tab_ids t)" "fst (insert_tab_into_leaf l tab t)" for l
    using that g groups_added [of "groups t" tab l] insert_tab_into_leaf_groups [OF win_ok_leaf_ids [OF ok], of l tab]
    by (simp add: win_ok_def collect_tab_ids_groups insert_tab_into_leaf_found leaf_ids_groups insert_tab_into_leaf_ratios)
  have absent: "snd (insert_tab_into_leaf l tab t) = t" if "\<not> fst (insert_tab_into_leaf l tab t)" for l
    using that by (simp add: insert_tab_into_leaf_found insert_tab_into_leaf_absent)
  have "win_ok (ensure_tab tab preferred t) \<and> mset (collect_tab_ids (ensure_tab tab preferred t)) =
      (if tab \<in> set (collect_tab_ids t) then mset (collect_tab_ids t) else add_mset tab (mset (collect_tab_ids t)))"
  proof (cases "tab \<in> set (collect_tab_ids t)")
    case False
    then show ?thesis
      using first leaf absent by (auto simp: ensure_tab_def contains_tab_groups case_prod_unfold Let_def split: option.split)
  qed (use ok in \<open>simp add: ensure_tab_def contains_tab_groups\<close>)
  then show "win_ok (ensure_tab tab preferred t)"
    and "mset (collect_tab_ids (ensure_tab tab preferred t)) =
      (if tab \<in> set (collect_tab_ids t) then mset (collect_tab_ids t) else add_mset tab (mset (collect_tab_ids t)))"
    by auto
qed

lemma win_set_ratio_groups: "groups (snd (win_set_ratio_for_split s v t)) = groups t"
  by (induction t) (auto simp: first_or_second_simps)

lemma win_set_ratio_ok: "win_ratios_ok t \<Longrightarrow> win_ratios_ok (snd (win_set_ratio_for_split s v t))"
  using clamp_bounds [of "1 :: u8" 99 v] by (induction t) (auto simp: first_or_second_simps)

lemma replace_tab_found: "fst (replace_tab_id old new t) \<longleftrightarrow> old \<in> set (collect_tab_ids t)"
  by (induction t) (auto simp: first_or_second_simps tab_position_None dest: tab_position_mem split: option.splits)

lemma replace_tab_absent: "old \<notin> set (collect_tab_ids t) \<Longrightarrow> snd (replace_tab_id old new t) = t"
  by (induction t) (auto simp: first_or_second_simps replace_tab_found dest: tab_position_mem split: option.splits)

lemma replace_tab_ratios: "win_ratios_ok (snd (replace_tab_id old new t)) \<longleftrightarrow> win_ratios_ok t"
  by (induction t) (auto simp: first_or_second_simps split: option.splits)

definition g_rename :: "u8 list \<Rightarrow> u8 list \<Rightarrow> group \<Rightarrow> group" where
  "g_rename old new g = (case g of (i, ts, act) \<Rightarrow>
     (i, map (\<lambda>t. if t = old then new else t) ts, map_option (\<lambda>t. if t = old then new else t) act))"

lemma list_update_position:
  "tab_position old ts = Some n \<Longrightarrow> distinct ts \<Longrightarrow> ts[n := new] = map (\<lambda>t. if t = old then new else t) ts"
proof (induction ts arbitrary: n)
  case (Cons t ts)
  have "map (\<lambda>t. if t = old then new else t) ts = ts" if "old \<notin> set ts" using that by (auto intro: map_idI)
  with Cons show ?case by (cases "t = old") auto
qed simp

lemma replace_tab_groups:
  "distinct (collect_tab_ids t) \<Longrightarrow> new \<notin> set (collect_tab_ids t) \<Longrightarrow>
   groups (snd (replace_tab_id old new t)) = upd_holder old (g_rename old new) (groups t)"
proof (induction t)
  case (WinLeaf i tabs act)
  then show ?case
    by (cases act) (auto simp: upd_holder_def g_rename_def tab_position_None list_update_position
        dest: tab_position_mem split: option.splits)
next
  case (WinSplit i d r a b)
  have "upd_holder old f (groups b) = groups b" if "old \<in> set (collect_tab_ids a)" for f
    using that WinSplit.prems by (intro upd_holder_absent) (auto simp: collect_tab_ids_groups)
  with WinSplit show ?case
    by (auto simp: first_or_second_simps replace_tab_found replace_tab_absent)
qed

subsection \<open>Tiling\<close>

lemma unique_loop_spec:
  "distinct (unique_loop seen ts) \<and> set (unique_loop seen ts) = set ts - seen"
  by (induction ts arbitrary: seen) auto

lemma distinct_unique_tabs [simp]: "distinct (unique_tabs ts)"
  and set_unique_tabs [simp]: "set (unique_tabs ts) = set ts"
  using unique_loop_spec [of "{}" ts] by (simp_all add: unique_tabs_def)

lemma unique_loop_id: "distinct ts \<Longrightarrow> set ts \<inter> seen = {} \<Longrightarrow> unique_loop seen ts = ts"
  by (induction ts arbitrary: seen) auto

lemma unique_tabs_id [simp]: "distinct ts \<Longrightarrow> unique_tabs ts = ts"
  by (simp add: unique_tabs_def unique_loop_id)

lemma groups_win_leaf:
  assumes "distinct ts" and "ts \<noteq> []"
  shows "groups (win_leaf uid ts act) = [(ascii ''tw-leaf-'' @ uid, ts, or_else (filter_tab ts act) (first_tab ts))]"
    and "group_ok (ascii ''tw-leaf-'' @ uid, ts, or_else (filter_tab ts act) (first_tab ts))"
  using assms by (auto simp: win_leaf_def or_else_def filter_tab_def first_tab_def split: option.splits list.splits)

lemma as_u8_floor: "0 \<le> x \<Longrightarrow> x \<le> 255 \<Longrightarrow> unat (as_u8 (Fin x)) = nat \<lfloor>x\<rfloor>"
proof -
  assume x: "0 \<le> x" "x \<le> 255"
  then have "0 \<le> \<lfloor>x\<rfloor>" "\<lfloor>x\<rfloor> \<le> 255" by (auto simp: floor_le_iff)
  with x(1) have "as_u8 (Fin x) = word_of_int \<lfloor>x\<rfloor>" by (simp add: clamp_def)
  moreover have "uint (word_of_int \<lfloor>x\<rfloor> :: u8) = \<lfloor>x\<rfloor> mod 256" by (simp add: uint_word_of_int)
  ultimately show ?thesis using \<open>0 \<le> \<lfloor>x\<rfloor>\<close> \<open>\<lfloor>x\<rfloor> \<le> 255\<close> by (simp add: unat_eq_nat_uint)
qed

lemma fl_le: "0 \<le> x \<Longrightarrow> x \<le> of_nat n \<Longrightarrow> n < 2 ^ 24 \<Longrightarrow> fl fm x = Fin (fround fm x) \<and> 0 \<le> fround fm x \<and> fround fm x \<le> of_nat n"
proof -
  assume x: "0 \<le> x" "x \<le> of_nat n" and n: "n < 2 ^ 24"
  have "(of_nat n :: rat) \<le> of_nat (2 ^ 24)" using n by (simp only: of_nat_le_iff)
  also have "\<dots> \<le> 2 ^ 100" by simp
  finally have "x \<le> 2 ^ 100" using x(2) by linarith
  with x(1) have "fl fm x = Fin (fround fm x)" by (rule fl_small)
  moreover have "fround fm x \<le> of_nat n" using fround_mono [OF x, of fm] fround_nat [OF n, of fm] by simp
  ultimately show ?thesis using fround_nonneg [OF x(1)] by simp
qed

text \<open>The extent to be divided is infinite, or at least twice the least extent of a group.\<close>

definition divisible :: "rat \<Rightarrow> float \<Rightarrow> bool" where
  "divisible m e \<longleftrightarrow> e = PInf \<or> (\<exists>x. e = Fin x \<and> 2 * m \<le> x)"

lemma fl_at_least:
  assumes "of_nat n \<le> x" and "n < 2 ^ 24"
  shows "fl fm x = PInf \<or> (\<exists>y. fl fm x = Fin y \<and> of_nat n \<le> y)"
proof -
  have "of_nat n \<le> fround fm x" using fround_mono [of "of_nat n" x fm] assms fround_nat [OF assms(2), of fm] by simp
  moreover have "\<not> fround fm x \<le> - (2 powi max_exp fm)"
  proof
    assume "fround fm x \<le> - (2 powi max_exp fm)"
    moreover have "0 < (2 :: rat) powi max_exp fm" by simp
    moreover have "0 \<le> (of_nat n :: rat)" by simp
    ultimately show False using \<open>of_nat n \<le> fround fm x\<close> by linarith
  qed
  ultimately show ?thesis by (auto simp: fl_def Let_def)
qed

lemma tile_threshold:
  "fadd F32 (fmul F32 (Fin GROUP_MIN_HEIGHT) (Fin 2)) (Fin GROUP_DIVIDER_SIZE) = Fin 324"
  "fadd F32 (fmul F32 (Fin GROUP_MIN_WIDTH) (Fin 2)) (Fin GROUP_DIVIDER_SIZE) = Fin 484"
  by (simp_all add: group_sizes fl_small)

lemma extent_divisible:
  assumes "fle (Fin (of_nat n + 4)) s" and "n < 2 ^ 24"
  shows "fsub F32 s (Fin GROUP_DIVIDER_SIZE) = PInf \<or>
    (\<exists>x. fsub F32 s (Fin GROUP_DIVIDER_SIZE) = Fin x \<and> of_nat n \<le> x)"
  using assms fl_at_least [of n _ F32] by (cases s) (auto simp: fsub_def GROUP_DIVIDER_SIZE_def)

lemma tile_extent_divisible:
  assumes "tile_direction mode w h = Some d"
  shows "divisible (tile_minimum d) (tile_extent d w h)"
proof -
  have "fle (Fin (of_nat 320 + 4)) h \<or> d \<noteq> Horizontal" "fle (Fin (of_nat 480 + 4)) w \<or> d \<noteq> Vertical"
    using assms unfolding tile_direction_def tile_threshold Let_def
    by (auto split: SmartSplitMode.splits if_splits)
  then show ?thesis
    using extent_divisible [of 320 h] extent_divisible [of 480 w]
    by (cases d) (auto simp: divisible_def tile_extent_def tile_minimum_def group_sizes)
qed

text \<open>The limits of the percentage are in order, whatever the extent is.\<close>

lemma tile_limits:
  assumes "divisible m e" and "0 < m"
  shows "\<exists>q. fdiv F32 (Fin m) e = Fin q \<and> 0 \<le> q \<and> q \<le> 1 / 2"
proof (cases "e = PInf")
  case False
  with assms(1) obtain x where x: "e = Fin x" "2 * m \<le> x" by (auto simp: divisible_def)
  with assms(2) have q: "0 \<le> m / x" "m / x \<le> 1 / 2" by (auto simp: field_simps)
  then have "m / x \<le> 2 ^ 100" by (intro order_trans [OF q(2)]) simp
  with q(1) have "fl F32 (m / x) = Fin (fround F32 (m / x))" by (rule fl_small)
  moreover have "fround F32 (m / x) \<le> 1 / 2" using fround_mono [OF q, of F32] by simp
  ultimately show ?thesis using x assms(2) fround_nonneg [OF q(1)] by auto
qed simp

lemma tile_bounds:
  assumes "0 \<le> q" and "q \<le> 1 / 2"
  shows "unat (as_u8 (fint ceiling (fmul F32 (Fin q) (Fin 100)))) \<le> 50"
    and "50 \<le> unat (as_u8 (fint floor (fmul F32 (fsub F32 (Fin 1) (Fin q)) (Fin 100))))"
    and "fsub F32 (Fin 1) (Fin q) = Fin (fround F32 (1 - q))"
    and "fmul F32 (Fin (fround F32 (1 - q))) (Fin 100) = Fin (fround F32 (fround F32 (1 - q) * 100))"
    and "fround F32 (fround F32 (1 - q) * 100) \<le> 100"
proof -
  have z: "fl F32 (q * 100) = Fin (fround F32 (q * 100)) \<and> 0 \<le> fround F32 (q * 100) \<and> fround F32 (q * 100) \<le> of_nat 50"
    using assms by (intro fl_le) auto
  then have "0 \<le> \<lceil>fround F32 (q * 100)\<rceil>" "\<lceil>fround F32 (q * 100)\<rceil> \<le> 50" by (auto simp: ceiling_le_iff le_ceiling_iff)
  then show "unat (as_u8 (fint ceiling (fmul F32 (Fin q) (Fin 100)))) \<le> 50"
    using z as_u8_floor [of "of_int \<lceil>fround F32 (q * 100)\<rceil>"] by (simp del: as_u8.simps add: nat_le_iff)
  have s: "fl F32 (1 - q) = Fin (fround F32 (1 - q)) \<and> 0 \<le> fround F32 (1 - q) \<and> fround F32 (1 - q) \<le> of_nat 1"
    using assms by (intro fl_le) auto
  have s2: "1 / 2 \<le> fround F32 (1 - q)" using fround_mono [of "1 / 2" "1 - q" F32] assms by simp
  show sub: "fsub F32 (Fin 1) (Fin q) = Fin (fround F32 (1 - q))" using s by (simp add: fsub_def)
  have w: "fl F32 (fround F32 (1 - q) * 100) = Fin (fround F32 (fround F32 (1 - q) * 100)) \<and>
      0 \<le> fround F32 (fround F32 (1 - q) * 100) \<and> fround F32 (fround F32 (1 - q) * 100) \<le> of_nat 100"
    using s by (intro fl_le) auto
  then show mul: "fmul F32 (Fin (fround F32 (1 - q))) (Fin 100) = Fin (fround F32 (fround F32 (1 - q) * 100))"
    and le: "fround F32 (fround F32 (1 - q) * 100) \<le> 100" by simp_all
  have "50 \<le> fround F32 (fround F32 (1 - q) * 100)" using fround_mono [of 50 "fround F32 (1 - q) * 100" F32] s2 by simp
  then have "50 \<le> \<lfloor>fround F32 (fround F32 (1 - q) * 100)\<rfloor>" by (simp add: le_floor_iff)
  moreover have "\<lfloor>fround F32 (fround F32 (1 - q) * 100)\<rfloor> \<le> 100" using le by (simp add: floor_le_iff)
  ultimately show "50 \<le> unat (as_u8 (fint floor (fmul F32 (fsub F32 (Fin 1) (Fin q)) (Fin 100))))"
    using as_u8_floor [of "of_int \<lfloor>fround F32 (fround F32 (1 - q) * 100)\<rfloor>"] by (simp add: sub conjunct1 [OF w] le_nat_iff del: as_u8.simps)
qed

lemma fround_three_quarters: "fround F32 (3 / 4) = 3 / 4"
  using fround_dyadic [of 3 "- 2" F32] by (simp add: power_int_def power_one_over)

lemma tile_ratio:
  assumes "2 \<le> len" and "len < 2 ^ 24"
  shows "50 \<le> unat (as_u8 (fint round_away (fmul F32
      (fdiv F32 (fl F32 (of_nat ((len + 1) div 2))) (fl F32 (of_nat len))) (Fin 100))))"
    and "unat (as_u8 (fint round_away (fmul F32
      (fdiv F32 (fl F32 (of_nat ((len + 1) div 2))) (fl F32 (of_nat len))) (Fin 100)))) \<le> 75"
proof -
  define mid where "mid = (len + 1) div 2"
  define x :: rat where "x = of_nat mid / of_nat len"
  have "len \<le> 2 * mid" "4 * mid \<le> 3 * len" using assms(1) by (auto simp: mid_def)
  then have "(of_nat len :: rat) \<le> of_nat (2 * mid)" "(of_nat (4 * mid) :: rat) \<le> of_nat (3 * len)"
    by (simp_all only: of_nat_le_iff)
  moreover have "0 < (of_nat len :: rat)" using assms(1) by simp
  ultimately have x: "1 / 2 \<le> x" "x \<le> 3 / 4" by (simp_all add: x_def field_simps)
  define y where "y = fround F32 x"
  have fx: "fl F32 x = Fin y" using x fl_le [of x 1 F32] by (simp add: y_def)
  have y: "1 / 2 \<le> y" "y \<le> 3 / 4"
    using x fround_mono [of "1 / 2" x F32] fround_mono [of x "3 / 4" F32] by (simp_all add: y_def fround_three_quarters)
  define z where "z = fround F32 (y * 100)"
  have fz: "fl F32 (y * 100) = Fin z" using y fl_le [of "y * 100" 75 F32] by (simp add: z_def)
  have z: "50 \<le> z" "z \<le> 75"
    using y fround_mono [of 50 "y * 100" F32] fround_mono [of "y * 100" 75 F32] by (simp_all add: z_def)
  then have r: "50 \<le> round_away z" "round_away z \<le> 75" by (auto simp: round_away_def le_floor_iff floor_le_iff)
  have "mid < 2 ^ 24" using assms by (auto simp: mid_def)
  then have "fdiv F32 (fl F32 (of_nat mid)) (fl F32 (of_nat len)) = Fin y"
    using assms fx by (simp add: fl_nat x_def)
  then have "as_u8 (fint round_away (fmul F32 (fdiv F32 (fl F32 (of_nat mid)) (fl F32 (of_nat len))) (Fin 100))) =
      as_u8 (Fin (of_int (round_away z)))" using fz by simp
  moreover have "unat (as_u8 (Fin (of_int (round_away z)))) = nat (round_away z)"
    using r as_u8_floor [of "of_int (round_away z)"] by simp
  ultimately show "50 \<le> unat (as_u8 (fint round_away (fmul F32
      (fdiv F32 (fl F32 (of_nat ((len + 1) div 2))) (fl F32 (of_nat len))) (Fin 100))))"
    and "unat (as_u8 (fint round_away (fmul F32
      (fdiv F32 (fl F32 (of_nat ((len + 1) div 2))) (fl F32 (of_nat len))) (Fin 100)))) \<le> 75"
    using r unfolding mid_def by simp_all
qed

lemma tile_percent_ok:
  assumes "divisible m e" and "0 < m" and "2 \<le> len" and "len < 2 ^ 24"
  shows "\<exists>p q. tile_percent m e ((len + 1) div 2) len = Some p \<and> 50 \<le> unat p \<and> unat p \<le> 75 \<and>
    fdiv F32 (Fin m) e = Fin q \<and> of_nat (unat p) \<le> fround F32 (fround F32 (1 - q) * 100)"
proof -
  obtain q where q: "fdiv F32 (Fin m) e = Fin q" "0 \<le> q" "q \<le> 1 / 2" using tile_limits [OF assms(1,2)] by auto
  define lo where "lo = as_u8 (fint ceiling (fmul F32 (Fin q) (Fin 100)))"
  define hi where "hi = as_u8 (fint floor (fmul F32 (fsub F32 (Fin 1) (Fin q)) (Fin 100)))"
  define x where "x = as_u8 (fint round_away (fmul F32
      (fdiv F32 (fl F32 (of_nat ((len + 1) div 2))) (fl F32 (of_nat len))) (Fin 100)))"
  note b = tile_bounds [OF q(2,3)]
  have lo: "unat lo \<le> 50" and hi: "50 \<le> unat hi" and x: "50 \<le> unat x" "unat x \<le> 75"
    using b(1,2) tile_ratio [OF assms(3,4)] by (simp_all only: lo_def hi_def x_def)
  define p where "p = clamp lo hi x"
  have "\<not> hi < lo" using lo hi by (simp add: word_less_nat_alt)
  then have P: "tile_percent m e ((len + 1) div 2) len = Some p"
    unfolding tile_percent_def q(1) Let_def p_def lo_def hi_def x_def by simp
  have p: "50 \<le> unat p" "unat p \<le> 75" "unat p \<le> unat hi"
    using lo hi x by (auto simp: p_def clamp_def word_less_nat_alt)
  have le: "0 \<le> fround F32 (fround F32 (1 - q) * 100)"
    using q(3) by (intro fround_nonneg mult_nonneg_nonneg) auto
  let ?w = "fround F32 (fround F32 (1 - q) * 100)"
  have "hi = as_u8 (Fin (of_int \<lfloor>?w\<rfloor>))" by (simp only: hi_def b(3,4) fint.simps)
  moreover have "0 \<le> \<lfloor>?w\<rfloor>" "\<lfloor>?w\<rfloor> \<le> 255" using le b(5) by (auto simp: floor_le_iff)
  ultimately have "unat hi = nat \<lfloor>?w\<rfloor>" using as_u8_floor [of "of_int \<lfloor>?w\<rfloor>"] by (simp del: as_u8.simps)
  with p(3) have "int (unat p) \<le> \<lfloor>?w\<rfloor>" using \<open>0 \<le> \<lfloor>?w\<rfloor>\<close> by linarith
  then have "of_nat (unat p) \<le> ?w" by (simp add: le_floor_iff)
  with P p q(1) show ?thesis by blast
qed

lemma ulp_F32: "ulp_exp F32 1 = - 23" "ulp_exp F32 128 = - 16" "ulp_exp F32 1024 = - 13"
proof -
  have "(1 :: rat) = 2 powi 0" "(128 :: rat) = 2 powi 7" "(1024 :: rat) = 2 powi 10" by simp_all
  then have "ilog2 1 = 0" "ilog2 128 = 7" "ilog2 1024 = 10" by (metis ilog2_powi)+
  then show "ulp_exp F32 1 = - 23" "ulp_exp F32 128 = - 16" "ulp_exp F32 1024 = - 13"
    by (simp_all add: ulp_exp_def)
qed

lemma close_F32:
  "0 \<le> x \<Longrightarrow> x \<le> 1 \<Longrightarrow> \<bar>fround F32 x - x\<bar> \<le> 1 / 2 ^ 24"
  "0 \<le> x \<Longrightarrow> x \<le> 128 \<Longrightarrow> \<bar>fround F32 x - x\<bar> \<le> 1 / 2 ^ 17"
  "0 \<le> x \<Longrightarrow> x \<le> 1024 \<Longrightarrow> \<bar>fround F32 x - x\<bar> \<le> 1 / 2 ^ 14"
  using fround_close [of x 1 F32] fround_close [of x 128 F32] fround_close [of x 1024 F32]
  by (simp_all add: ulp_F32 power_int_def power_one_over)

text \<open>The share of the second part, up to rounding.\<close>

lemma second_share:
  assumes "0 \<le> q" and "q \<le> 1 / 2" and "\<bar>q - c\<bar> \<le> 1 / 2 ^ 24" and "p \<le> fround F32 (fround F32 (1 - q) * 100)"
    and "50 \<le> p" and "p \<le> 75"
  shows "c - 1 / 2 ^ 21 \<le> fround F32 (1 - fround F32 (p / 100))"
proof -
  define s where "s = fround F32 (1 - q)"
  define r where "r = fround F32 (p / 100)"
  have s: "\<bar>s - (1 - q)\<bar> \<le> 1 / 2 ^ 24" using close_F32(1) [of "1 - q"] assms(1,2) by (simp add: s_def)
  have s1: "0 \<le> s" "s \<le> 1" using assms(1,2) fround_nonneg [of "1 - q"] fround_mono [of "1 - q" 1 F32] by (simp_all add: s_def)
  have t: "\<bar>fround F32 (s * 100) - s * 100\<bar> \<le> 1 / 2 ^ 17" using s1 close_F32(2) [of "s * 100"] by simp
  have r: "\<bar>r - p / 100\<bar> \<le> 1 / 2 ^ 24" using close_F32(1) [of "p / 100"] assms(5,6) by (simp add: r_def)
  have r1: "0 \<le> r" "r \<le> 1"
    using assms(5,6) fround_nonneg [of "p / 100"] fround_mono [of "p / 100" 1 F32] by (simp_all add: r_def)
  have u: "\<bar>fround F32 (1 - r) - (1 - r)\<bar> \<le> 1 / 2 ^ 24" using close_F32(1) [of "1 - r"] r1 by simp
  have "s \<le> 1 - q + 1 / 16777216" using s unfolding abs_le_iff by simp
  moreover have "fround F32 (s * 100) \<le> s * 100 + 1 / 131072" using t unfolding abs_le_iff by simp
  moreover have "r \<le> p / 100 + 1 / 16777216" using r unfolding abs_le_iff by simp
  moreover have "c \<le> q + 1 / 16777216" using assms(3) unfolding abs_le_iff by simp
  moreover have "1 - r \<le> fround F32 (1 - r) + 1 / 16777216" using u unfolding abs_le_iff by simp
  moreover have "p \<le> fround F32 (s * 100)" using assms(4) by (simp add: s_def)
  ultimately have "c - 1 / 2097152 \<le> fround F32 (1 - r)" by linarith
  then have "c - 1 / 2 ^ 21 \<le> fround F32 (1 - r)" by simp
  then show ?thesis by (simp add: r_def)
qed

text \<open>A size that is, up to a thousandth, at least \<open>m\<close>.\<close>

definition roomy :: "rat \<Rightarrow> float \<Rightarrow> bool" where
  "roomy m x \<longleftrightarrow> fle (Fin (m - 1 / 1000)) x"

lemma roomy_fl:
  assumes "of_nat m \<le> x" and "m < 2 ^ 24"
  shows "roomy (of_nat m) (fl fm x)"
  using fl_at_least [OF assms, of fm] by (auto simp: roomy_def)

lemma tile_ratio_parts:
  assumes "50 \<le> n" and "n \<le> 75"
  shows "\<exists>r. fdiv F32 (fl F32 (of_nat n)) (Fin 100) = Fin r \<and> r = fround F32 (of_nat n / 100) \<and>
    fsub F32 (Fin 1) (Fin r) = Fin (fround F32 (1 - r)) \<and> 1 / 2 \<le> r \<and> 1 / 4 \<le> fround F32 (1 - r) \<and> fround F32 (1 - r) \<le> 1"
proof -
  define x :: rat where "x = of_nat n / 100"
  have "(of_nat 50 :: rat) \<le> of_nat n" "(of_nat n :: rat) \<le> of_nat 75"
    using assms by (simp_all only: of_nat_le_iff)
  then have x: "1 / 2 \<le> x" "x \<le> 3 / 4" by (simp_all add: x_def)
  define r where "r = fround F32 x"
  have r: "1 / 2 \<le> r" "r \<le> 3 / 4"
    using x fround_mono [of "1 / 2" x F32] fround_mono [of x "3 / 4" F32] by (simp_all add: r_def fround_three_quarters)
  have quarter: "fround F32 (1 / 4) = 1 / 4" using fround_dyadic [of 1 "- 2" F32] by (simp add: power_int_def power_one_over)
  have "fl F32 x = Fin r" using x fl_le [of x 1 F32] by (simp add: r_def)
  then have "fdiv F32 (fl F32 (of_nat n)) (Fin 100) = Fin r" using assms by (simp add: fl_nat x_def)
  moreover have "fl F32 (1 - r) = Fin (fround F32 (1 - r))" using r fl_le [of "1 - r" 1 F32] by simp
  moreover have "1 / 4 \<le> fround F32 (1 - r)" "fround F32 (1 - r) \<le> 1"
    using r fround_mono [of "1 / 4" "1 - r" F32] fround_mono [of "1 - r" 1 F32] by (simp_all add: quarter)
  ultimately show ?thesis using r by (simp add: fsub_def r_def x_def)
qed

lemma part_sizes:
  assumes e: "divisible (of_nat m) e" and m: "0 < m" "m \<le> 240" and p: "50 \<le> n" "n \<le> 75"
    and q: "fdiv F32 (Fin (of_nat m)) e = Fin q" "of_nat n \<le> fround F32 (fround F32 (1 - q) * 100)"
  defines "ratio \<equiv> fdiv F32 (fl F32 (of_nat n)) (Fin 100)"
  shows "roomy (of_nat m) (fmul F32 e ratio) \<and> roomy (of_nat m) (fmul F32 e (fsub F32 (Fin 1) ratio))"
proof -
  obtain r where r: "ratio = Fin r" "r = fround F32 (of_nat n / 100)"
    "fsub F32 (Fin 1) ratio = Fin (fround F32 (1 - r))" "1 / 2 \<le> r" "1 / 4 \<le> fround F32 (1 - r)" "fround F32 (1 - r) \<le> 1"
    using tile_ratio_parts [OF p] by (auto simp: ratio_def)
  define s where "s = fround F32 (1 - r)"
  have s: "1 / 4 \<le> s" "s \<le> 1" using r by (simp_all add: s_def)
  show ?thesis
  proof (cases "e = PInf")
    case True
    then show ?thesis using r s by (simp add: roomy_def sgn_inf_def s_def [symmetric])
  next
    case False
    with e obtain E where E: "e = Fin E" "2 * of_nat m \<le> E" by (auto simp: divisible_def)
    have Ep: "0 < E" using E(2) m(1) by (simp add: order_less_le_trans [of 0 "2 * of_nat m"])
    have "of_nat m \<le> E * r" using mult_mono [of "2 * of_nat m" E "1 / 2" r] E(2) r(4) Ep by simp
    then have 1: "roomy (of_nat m) (fl F32 (E * r))" using m(2) by (intro roomy_fl) auto
    have 2: "roomy (of_nat m) (fl F32 (E * s))"
    proof (cases "4 * of_nat m \<le> E")
      case True
      then have "of_nat m \<le> E * s" using mult_mono [of "4 * of_nat m" E "1 / 4" s] s(1) Ep by simp
      then show ?thesis using m(2) by (intro roomy_fl) auto
    next
      case small: False
      have "(of_nat m :: rat) \<le> of_nat 240" using m(2) by (simp only: of_nat_le_iff)
      with small have E960: "E \<le> 960" by simp
      define c where "c = of_nat m / E"
      have c: "0 \<le> c" "c \<le> 1 / 2" using E(2) Ep by (simp_all add: c_def field_simps)
      have "q = fround F32 c" using q(1) E(1) Ep c fl_le [of c 1 F32] by (simp add: c_def)
      then have "\<bar>q - c\<bar> \<le> 1 / 2 ^ 24" "0 \<le> q" "q \<le> 1 / 2"
        using c close_F32(1) [of c] fround_nonneg [OF c(1)] fround_mono [OF c, of F32] by simp_all
      moreover have "(of_nat 50 :: rat) \<le> of_nat n" "(of_nat n :: rat) \<le> of_nat 75"
        using p by (simp_all only: of_nat_le_iff)
      ultimately have "c - 1 / 2 ^ 21 \<le> s" using second_share [of q c "of_nat n"] q(2) by (simp add: s_def r(2))
      then have "E * (c - 1 / 2097152) \<le> E * s" using Ep by (intro mult_left_mono) auto
      moreover have "E * c = of_nat m" using Ep by (simp add: c_def)
      ultimately have "of_nat m - E / 2097152 \<le> E * s" by (simp add: right_diff_distrib)
      with E960 have low: "of_nat m - 1 / 2000 \<le> E * s" by linarith
      have "E * s \<le> E * 1" using Ep s(2) by (intro mult_left_mono) auto
      with E960 have top: "E * s \<le> 1024" by simp
      have nn: "0 \<le> E * s" using Ep s(1) by simp
      then have "\<bar>fround F32 (E * s) - E * s\<bar> \<le> 1 / 2 ^ 14" using top by (intro close_F32) auto
      then have "E * s - 1 / 16384 \<le> fround F32 (E * s)" unfolding abs_le_iff by simp
      moreover have "fl F32 (E * s) = Fin (fround F32 (E * s))"
        using nn top by (intro fl_small) (auto intro: order_trans [of _ 1024])
      ultimately show ?thesis using low by (simp add: roomy_def)
    qed
    show ?thesis using 1 2 r E(1) by (simp add: s_def)
  qed
qed

text \<open>Every group of the tree gets the least size of a group when the tree is laid out.\<close>

primrec fits :: "TerminalWindowNode \<Rightarrow> float \<Rightarrow> float \<Rightarrow> bool" where
  "fits (WinLeaf i tabs act) w h \<longleftrightarrow> roomy GROUP_MIN_WIDTH w \<and> roomy GROUP_MIN_HEIGHT h"
| "fits (WinSplit i d p a b) w h \<longleftrightarrow>
     (let ((w1, h1), (w2, h2)) = tile_parts d w h (tile_extent d w h) p in fits a w1 h1 \<and> fits b w2 h2)"

lemma tile_parts_roomy:
  assumes "tile_direction mode w h = Some d" and "2 \<le> len" and "len < 2 ^ 24"
  shows "\<exists>p. tile_percent (tile_minimum d) (tile_extent d w h) ((len + 1) div 2) len = Some p \<and> 1 \<le> p \<and> p \<le> 99 \<and>
    (\<forall>w1 h1 w2 h2. tile_parts d w h (tile_extent d w h) p = ((w1, h1), (w2, h2)) \<longrightarrow>
       roomy GROUP_MIN_WIDTH w \<and> roomy GROUP_MIN_HEIGHT h \<longrightarrow>
       roomy GROUP_MIN_WIDTH w1 \<and> roomy GROUP_MIN_HEIGHT h1 \<and> roomy GROUP_MIN_WIDTH w2 \<and> roomy GROUP_MIN_HEIGHT h2)"
proof -
  define m :: nat where "m = (case d of Horizontal \<Rightarrow> 160 | Vertical \<Rightarrow> 240)"
  have m: "tile_minimum d = of_nat m" "0 < m" "m \<le> 240"
    by (cases d; simp add: m_def tile_minimum_def group_sizes)+
  note e = tile_extent_divisible [OF assms(1)]
  obtain p q where p: "tile_percent (tile_minimum d) (tile_extent d w h) ((len + 1) div 2) len = Some p"
    "50 \<le> unat p" "unat p \<le> 75" "fdiv F32 (Fin (tile_minimum d)) (tile_extent d w h) = Fin q"
    "of_nat (unat p) \<le> fround F32 (fround F32 (1 - q) * 100)"
    using tile_percent_ok [OF e _ assms(2,3)] m by auto
  from part_sizes [OF e [unfolded m(1)] m(2,3) p(2,3) p(4) [unfolded m(1)] p(5)]
  have "roomy (of_nat m) (fmul F32 (tile_extent d w h) (fdiv F32 (fl F32 (of_nat (unat p))) (Fin 100)))"
    "roomy (of_nat m) (fmul F32 (tile_extent d w h) (fsub F32 (Fin 1) (fdiv F32 (fl F32 (of_nat (unat p))) (Fin 100))))"
    by auto
  then have "\<forall>w1 h1 w2 h2. tile_parts d w h (tile_extent d w h) p = ((w1, h1), (w2, h2)) \<longrightarrow>
       roomy GROUP_MIN_WIDTH w \<and> roomy GROUP_MIN_HEIGHT h \<longrightarrow>
       roomy GROUP_MIN_WIDTH w1 \<and> roomy GROUP_MIN_HEIGHT h1 \<and> roomy GROUP_MIN_WIDTH w2 \<and> roomy GROUP_MIN_HEIGHT h2"
    unfolding tile_parts_def Let_def by (cases d) (auto simp: m_def group_sizes)
  with p show ?thesis by (auto simp: word_le_nat_alt)
qed

definition leaf_name :: "(nat \<Rightarrow> u8 list) \<Rightarrow> nat \<Rightarrow> u8 list" where
  "leaf_name uuid j = ascii ''tw-leaf-'' @ uuid j"

text \<open>The leaves are named by the clock readings from \<open>k\<close> to \<open>k'\<close>, each once.\<close>

definition fresh_leaves :: "(nat \<Rightarrow> u8 list) \<Rightarrow> nat \<Rightarrow> nat \<Rightarrow> TerminalWindowNode \<Rightarrow> bool" where
  "fresh_leaves uuid k k' t \<longleftrightarrow> (\<exists>js. leaf_ids t = map (leaf_name uuid) js \<and> distinct js \<and> set js \<subseteq> {k..<k'})"

lemma fresh_leaves_split:
  assumes "fresh_leaves uuid k k1 a" and "fresh_leaves uuid k1 k2 b" and "k0 \<le> k" and "k \<le> k1" and "k1 \<le> k2" and "k2 \<le> k3"
  shows "fresh_leaves uuid k0 k3 (WinSplit i d r a b)"
proof -
  obtain js1 js2 where js: "leaf_ids a = map (leaf_name uuid) js1" "distinct js1" "set js1 \<subseteq> {k..<k1}"
    "leaf_ids b = map (leaf_name uuid) js2" "distinct js2" "set js2 \<subseteq> {k1..<k2}"
    using assms(1,2) by (auto simp: fresh_leaves_def)
  then have "set js1 \<inter> set js2 = {}" by fastforce
  with js assms(3-6) show ?thesis
    unfolding fresh_leaves_def by (intro exI [of _ "js1 @ js2"]) auto
qed

lemma fresh_leaves_distinct: "inj uuid \<Longrightarrow> fresh_leaves uuid k k' t \<Longrightarrow> distinct (leaf_ids t)"
  by (auto simp: fresh_leaves_def distinct_map leaf_name_def inj_eq intro!: inj_onI)

lemma tile_groups_ok:
  assumes "distinct tabs" and "tabs \<noteq> []" and "length tabs < 2 ^ 24"
  shows "\<exists>t k'. tile_groups uuid mode tabs w h k = Some (t, k') \<and> k < k' \<and> collect_tab_ids t = tabs \<and>
    (\<forall>g \<in> set (groups t). group_ok g) \<and> win_ratios_ok t \<and> fresh_leaves uuid k k' t \<and>
    (roomy GROUP_MIN_WIDTH w \<and> roomy GROUP_MIN_HEIGHT h \<longrightarrow> fits t w h)"
  using assms
proof (induction "length tabs" arbitrary: tabs w h k rule: less_induct)
  case less
  show ?case
  proof (cases "if 1 < length tabs then tile_direction mode w h else None")
    case None
    note g = groups_win_leaf [OF less.prems(1,2), of "uuid k" None]
    have "tile_groups uuid mode tabs w h k = Some (win_leaf (uuid k) tabs None, Suc k)"
      using None by (subst tile_groups.simps) simp
    moreover have "fresh_leaves uuid k (Suc k) (win_leaf (uuid k) tabs None)"
      using g(1) by (auto simp: fresh_leaves_def leaf_ids_groups leaf_name_def intro!: exI [of _ "[k]"])
    moreover have "\<exists>i ts act. win_leaf (uuid k) tabs None = WinLeaf i ts act" by (simp add: win_leaf_def Let_def)
    ultimately show ?thesis using g by (auto simp: collect_tab_ids_groups)
  next
    case (Some d)
    then have len: "2 \<le> length tabs" and d: "tile_direction mode w h = Some d" by (auto split: if_splits)
    define mid where "mid = (length tabs + 1) div 2"
    have mid: "0 < mid" "mid < length tabs" using len by (auto simp: mid_def)
    obtain p where p: "tile_percent (tile_minimum d) (tile_extent d w h) mid (length tabs) = Some p" "1 \<le> p" "p \<le> 99"
      and room: "\<And>w1 h1 w2 h2. tile_parts d w h (tile_extent d w h) p = ((w1, h1), (w2, h2)) \<Longrightarrow>
        roomy GROUP_MIN_WIDTH w \<and> roomy GROUP_MIN_HEIGHT h \<Longrightarrow>
        roomy GROUP_MIN_WIDTH w1 \<and> roomy GROUP_MIN_HEIGHT h1 \<and> roomy GROUP_MIN_WIDTH w2 \<and> roomy GROUP_MIN_HEIGHT h2"
      using tile_parts_roomy [OF d len less.prems(3)] unfolding mid_def by blast
    obtain w1 h1 w2 h2 where parts: "tile_parts d w h (tile_extent d w h) p = ((w1, h1), (w2, h2))"
      by (metis prod.collapse)
    obtain a k1 where a: "tile_groups uuid mode (take mid tabs) w1 h1 (Suc k) = Some (a, k1)" "Suc k < k1"
      "collect_tab_ids a = take mid tabs" "\<forall>g \<in> set (groups a). group_ok g" "win_ratios_ok a"
      "fresh_leaves uuid (Suc k) k1 a" "roomy GROUP_MIN_WIDTH w1 \<and> roomy GROUP_MIN_HEIGHT h1 \<longrightarrow> fits a w1 h1"
      using less.hyps [of "take mid tabs" w1 h1 "Suc k"] less.prems mid by auto
    obtain b k2 where b: "tile_groups uuid mode (drop mid tabs) w2 h2 k1 = Some (b, k2)" "k1 < k2"
      "collect_tab_ids b = drop mid tabs" "\<forall>g \<in> set (groups b). group_ok g" "win_ratios_ok b"
      "fresh_leaves uuid k1 k2 b" "roomy GROUP_MIN_WIDTH w2 \<and> roomy GROUP_MIN_HEIGHT h2 \<longrightarrow> fits b w2 h2"
    proof -
      have "length tabs - mid < 16777216" using less.prems(3) by simp
      then show ?thesis using that less.hyps [of "drop mid tabs" w2 h2 k1] less.prems mid by auto
    qed
    have "tile_groups uuid mode tabs w h k = Some (WinSplit (ascii ''tw-split-'' @ uuid k) d p a b, k2)"
      using Some p(1) parts a(1) b(1) 
      unfolding tile_groups.simps [of uuid mode tabs] mid_def by simp
    moreover have "fresh_leaves uuid k k2 (WinSplit (ascii ''tw-split-'' @ uuid k) d p a b)"
      using a(2,6) b(2,6) by (intro fresh_leaves_split) auto
    ultimately show ?thesis
      using a b p(2,3) parts room [OF parts] by auto
  qed
qed

subsection \<open>Saving and restoring\<close>

lemma tab_indexes:
  assumes "\<And>t. t \<in> set ts \<Longrightarrow> idx t \<noteq> None" and "inj_on idx (set ts)" and "distinct ts"
    and "\<And>t. t \<in> set ts \<Longrightarrow> the (idx t) \<notin> seen"
  shows "tab_indexes_loop idx seen ts = map (the \<circ> idx) ts"
  using assms
proof (induction ts arbitrary: seen)
  case (Cons t ts)
  obtain n where n: "idx t = Some n" using Cons.prems(1) [of t] by auto
  have "n \<notin> seen" using Cons.prems(4) [of t] n by simp
  moreover have "the (idx x) \<notin> insert n seen" if "x \<in> set ts" for x
  proof -
    have "idx x \<noteq> idx t" using that Cons.prems(2,3) by (metis distinct.simps(2) inj_onD list.set_intros)
    moreover have "idx x \<noteq> None" using Cons.prems(1) that by simp
    then obtain m where "idx x = Some m" by blast
    ultimately show ?thesis using Cons.prems(4) [of x] that n by auto
  qed
  ultimately show ?case using Cons n by auto
qed simp

lemma restore_tabs:
  assumes "\<And>n. n \<in> set ns \<Longrightarrow> n < length ids" and "distinct (map ((!) ids) ns)"
    and "used \<inter> set (map ((!) ids) ns) = {}"
  shows "restore_tabs_loop ids used ns = (map ((!) ids) ns, used \<union> set (map ((!) ids) ns))"
  using assms by (induction ns arbitrary: used) auto

lemma index_inj: "inj_on (index_by_id ids) (set ids)"
proof (rule inj_onI)
  fix x y assume x: "x \<in> set ids" and y: "y \<in> set ids" and eq: "index_by_id ids x = index_by_id ids y"
  obtain n where n: "index_by_id ids x = Some n" using x index_by_id_None [of ids x] by auto
  with eq have m: "index_by_id ids y = Some n" by simp
  have "x = ids ! n" using index_by_id_Some [OF n] by (rule conjunct2 [THEN sym])
  also have "\<dots> = y" using index_by_id_Some [OF m] by (rule conjunct2)
  finally show "x = y" .
qed

lemma index_nth: "t \<in> set ids \<Longrightarrow> the (index_by_id ids t) < length ids \<and> ids ! the (index_by_id ids t) = t"
  using index_by_id_None [of ids t] index_by_id_Some [of ids t] by (cases "index_by_id ids t") auto

lemma win_stored_ratio_eq: "win_stored_ratio r = Fin (fround F64 (of_nat (unat (clamp 1 99 r)) / 100))"
  and percent_of_win_stored: "percent_of (win_stored_ratio r) = clamp 1 99 r"
proof -
  have n: "1 \<le> unat (clamp 1 99 r)" "unat (clamp 1 99 r) \<le> 99"
    using clamp_bounds [of "1 :: u8" 99 r] by (simp_all add: word_le_nat_alt)
  then show eq: "win_stored_ratio r = Fin (fround F64 (of_nat (unat (clamp 1 99 r)) / 100))"
    using stored_fraction [of 1 "unat (clamp 1 99 r)" 99] by (simp add: win_stored_ratio_def)
  show "percent_of (win_stored_ratio r) = clamp 1 99 r"
    using percent_of_fraction [of "unat (clamp 1 99 r)"] n(2) by (simp add: eq)
qed

lemma finite_win_stored: "is_finite (win_stored_ratio r)"
  by (simp add: win_stored_ratio_eq is_finite_def)

text \<open>The tree without the ids of its nodes, which are not stored.\<close>

primrec unnamed :: "TerminalWindowNode \<Rightarrow> TerminalWindowNode" where
  "unnamed (WinLeaf i tabs act) = WinLeaf [] tabs act"
| "unnamed (WinSplit i d r a b) = WinSplit [] d r (unnamed a) (unnamed b)"

lemma win_restore_serialized:
  assumes "groups_ok (groups t)" and "win_ratios_ok t" and "set (collect_tab_ids t) \<subseteq> set ids"
  shows "\<exists>l. win_serialize_layout_with (index_by_id ids) t = Some l \<and>
    (\<forall>used k. used \<inter> set (collect_tab_ids t) = {} \<longrightarrow>
      (\<exists>t' k'. win_restore_layout_inner uuid ids l (used, k) = (Some t', used \<union> set (collect_tab_ids t), k') \<and>
        unnamed t' = unnamed t))"
  using assms
proof (induction t)
  case (WinLeaf i tabs act)
  let ?idx = "index_by_id ids" and ?ns = "map (the \<circ> index_by_id ids) tabs"
  have d: "distinct tabs" and sub: "set tabs \<subseteq> set ids" using WinLeaf.prems by (auto simp: groups_ok_def)
  obtain a where a: "act = Some a" "a \<in> set tabs" using WinLeaf.prems(1) by (auto simp: groups_ok_def)
  obtain n where n: "?idx a = Some n" using a sub index_by_id_None [of ids a] by auto
  note an = index_by_id_Some [OF n]
  have "tab_indexes_loop ?idx {} tabs = ?ns"
    using d sub inj_on_subset [OF index_inj sub] index_by_id_None [of ids] by (intro tab_indexes) auto
  then have ser: "win_serialize_layout_with ?idx (WinLeaf i tabs act) = Some (StoredLeaf ?ns (Some n))"
    using a n by (auto simp: or_else_def Let_def)
  have nth: "map ((!) ids) ?ns = tabs" unfolding map_map by (rule map_idI) (use sub index_nth [of _ ids] in auto)
  have "restore_tabs_loop ids used ?ns = (tabs, used \<union> set tabs)" if "used \<inter> set tabs = {}" for used
    using restore_tabs [of ?ns ids used] sub index_nth [of _ ids] d that unfolding nth by auto
  then show ?case
    using ser a an d
    by (fastforce simp: win_leaf_def filter_tab_def or_else_def)
next
  case (WinSplit i d r a b)
  have sub: "groups_ok (groups a)" "groups_ok (groups b)" "set (collect_tab_ids a) \<inter> set (collect_tab_ids b) = {}"
    using WinSplit.prems(1) by (auto simp: groups_ok_def collect_tab_ids_groups)
  obtain la where la: "win_serialize_layout_with (index_by_id ids) a = Some la"
    "\<And>used k. used \<inter> set (collect_tab_ids a) = {} \<Longrightarrow>
      \<exists>t' k'. win_restore_layout_inner uuid ids la (used, k) = (Some t', used \<union> set (collect_tab_ids a), k') \<and> unnamed t' = unnamed a"
    using WinSplit.IH(1) sub(1) WinSplit.prems by auto
  obtain lb where lb: "win_serialize_layout_with (index_by_id ids) b = Some lb"
    "\<And>used k. used \<inter> set (collect_tab_ids b) = {} \<Longrightarrow>
      \<exists>t' k'. win_restore_layout_inner uuid ids lb (used, k) = (Some t', used \<union> set (collect_tab_ids b), k') \<and> unnamed t' = unnamed b"
    using WinSplit.IH(2) sub(2) WinSplit.prems by auto
  have r: "clamp 1 99 (clamp 1 99 r) = r" using WinSplit.prems(2) by (simp add: clamp_id)
  have "\<exists>t' k'. win_restore_layout_inner uuid ids (StoredSplit (direction_name d) (win_stored_ratio r) la lb) (used, k) =
      (Some t', used \<union> set (collect_tab_ids (WinSplit i d r a b)), k') \<and> unnamed t' = unnamed (WinSplit i d r a b)"
    if u: "used \<inter> set (collect_tab_ids (WinSplit i d r a b)) = {}" for used k
  proof -
    obtain a' k1 where 1: "win_restore_layout_inner uuid ids la (used, k) = (Some a', used \<union> set (collect_tab_ids a), k1)"
      "unnamed a' = unnamed a" using la(2) [of used k] u by auto
    obtain b' k2 where 2: "win_restore_layout_inner uuid ids lb (used \<union> set (collect_tab_ids a), k1) =
        (Some b', used \<union> set (collect_tab_ids a) \<union> set (collect_tab_ids b), k2)" "unnamed b' = unnamed b"
      using lb(2) [of "used \<union> set (collect_tab_ids a)" k1] u sub(3) by (auto simp: Int_Un_distrib2)
    from 1 2 r show ?thesis
      by (simp add: percent_of_win_stored finite_win_stored Un_assoc)
  qed
  with la lb show ?case by (simp add: join_children_def)
qed

lemma restore_tabs_spec:
  "case restore_tabs_loop ids used ns of (ts, used') \<Rightarrow>
     distinct ts \<and> set ts \<inter> used = {} \<and> used' = used \<union> set ts \<and> set ts \<subseteq> set ids"
proof (induction ns arbitrary: used)
  case (Cons n ns)
  obtain ts u where "restore_tabs_loop ids (insert (ids ! n) used) ns = (ts, u)"
    by (cases "restore_tabs_loop ids (insert (ids ! n) used) ns")
  with Cons.IH [of "insert (ids ! n) used"] Cons.IH [of used] show ?case by auto
qed simp

text \<open>What is known of a tree that was made from tabs not used before.\<close>

definition built :: "(nat \<Rightarrow> u8 list) \<Rightarrow> u8 list list \<Rightarrow> u8 list set \<times> nat \<Rightarrow> u8 list set \<times> nat \<Rightarrow> TerminalWindowNode \<Rightarrow> bool" where
  "built uuid ids st st' t \<longleftrightarrow>
     fst st' = fst st \<union> set (collect_tab_ids t) \<and> set (collect_tab_ids t) \<inter> fst st = {} \<and>
     set (collect_tab_ids t) \<subseteq> set ids \<and> distinct (collect_tab_ids t) \<and> (\<forall>g \<in> set (groups t). group_ok g) \<and>
     win_ratios_ok t \<and> fresh_leaves uuid (snd st) (snd st') t"

lemma built_split:
  assumes "built uuid ids st st1 a" and "built uuid ids st1 st2 b" and "snd st \<le> snd st1" and "snd st1 \<le> snd st2"
    and "1 \<le> r" and "r \<le> 99"
  shows "built uuid ids st (fst st2, Suc (snd st2)) (WinSplit i d r a b)"
  using assms fresh_leaves_split [of uuid "snd st" "snd st1" a "snd st2" b "snd st" "Suc (snd st2)" i d r]
  by (auto simp: built_def)

lemma fresh_leaves_mono: "fresh_leaves uuid k k' t \<Longrightarrow> l \<le> k \<Longrightarrow> k' \<le> l' \<Longrightarrow> fresh_leaves uuid l l' t"
  by (force simp: fresh_leaves_def)

lemma win_restore_inner_ok:
  "case win_restore_layout_inner uuid ids l st of (x, st') \<Rightarrow>
     snd st \<le> snd st' \<and> (case x of None \<Rightarrow> fst st' = fst st | Some t \<Rightarrow> built uuid ids st st' t)"
proof (induction l arbitrary: st)
  case (StoredLeaf ns act)
  obtain ts used where r: "restore_tabs_loop ids (fst st) ns = (ts, used)" by (cases "restore_tabs_loop ids (fst st) ns")
  with restore_tabs_spec [where ids = ids and used = "fst st" and ns = ns]
  have ts: "distinct ts" "set ts \<inter> fst st = {}" "used = fst st \<union> set ts" "set ts \<subseteq> set ids" by auto
  show ?case
  proof (cases "ts = []")
    case False
    note g = groups_win_leaf [OF ts(1) False, of "uuid (snd st)"]
    have "fresh_leaves uuid (snd st) (Suc (snd st)) (win_leaf (uuid (snd st)) ts act)" for act
      using g(1) by (auto simp: fresh_leaves_def leaf_ids_groups leaf_name_def intro!: exI [of _ "[snd st]"])
    moreover have "\<exists>i tabs a. win_leaf (uuid (snd st)) ts act = WinLeaf i tabs a" for act by (simp add: win_leaf_def Let_def)
    then have "win_ratios_ok (win_leaf (uuid (snd st)) ts act)" for act by (metis win_ratios_ok.simps(1))
    ultimately show ?thesis using r False ts g by (simp add: built_def collect_tab_ids_groups Let_def)
  qed (use r ts in simp)
next
  case (StoredSplit dir ratio a b)
  obtain x st1 where a: "win_restore_layout_inner uuid ids a st = (x, st1)" by (cases "win_restore_layout_inner uuid ids a st")
  obtain y st2 where b: "win_restore_layout_inner uuid ids b st1 = (y, st2)" by (cases "win_restore_layout_inner uuid ids b st1")
  have c: "1 \<le> clamp 1 99 v" "clamp 1 99 v \<le> 99" for v :: u8 using clamp_bounds [of "1 :: u8" 99 v] by simp_all
  have one: "built uuid ids st1 st2 q \<Longrightarrow> fst st1 = fst st \<Longrightarrow> snd st \<le> snd st1 \<Longrightarrow> built uuid ids st st2 q"
    "built uuid ids st st1 p \<Longrightarrow> fst st2 = fst st1 \<Longrightarrow> snd st1 \<le> snd st2 \<Longrightarrow> built uuid ids st st2 p" for p q
    by (auto simp: built_def intro: fresh_leaves_mono)
  from StoredSplit.IH(1) [of st] a have IHa: "snd st \<le> snd st1"
    "case x of None \<Rightarrow> fst st1 = fst st | Some t \<Rightarrow> built uuid ids st st1 t" by auto
  from StoredSplit.IH(2) [of st1] b have IHb: "snd st1 \<le> snd st2"
    "case y of None \<Rightarrow> fst st2 = fst st1 | Some t \<Rightarrow> built uuid ids st1 st2 t" by auto
  show ?case
  proof (cases "parse_direction dir = None \<or> \<not> is_finite ratio")
    case False
    then show ?thesis
      using a b IHa IHb c one built_split [of uuid ids st st1 _ st2] by (auto split: option.splits)
  qed (cases "parse_direction dir", auto)
qed

lemma win_restore_layout_ok:
  assumes "inj uuid" and "win_restore_layout uuid ids l k = Some t"
  shows "win_ok t \<and> set (collect_tab_ids t) = set ids"
proof -
  obtain used k' where r: "win_restore_layout_inner uuid ids l ({}, k) = (Some t, used, k')" "set ids \<subseteq> used"
    using assms(2) by (auto simp: win_restore_layout_def split: if_splits option.splits prod.splits)
  with win_restore_inner_ok [where uuid = uuid and ids = ids and l = l and st = "({}, k)"] have b: "built uuid ids ({}, k) (used, k') t" by simp
  with fresh_leaves_distinct [OF assms(1)] have "distinct (leaf_ids t)" by (auto simp: built_def)
  with b r(2) show ?thesis
    by (auto simp: built_def win_ok_def groups_ok_def collect_tab_ids_groups leaf_ids_groups)
qed

lemma g_rename_holder:
  assumes "\<And>g. g \<in> set gs \<Longrightarrow> group_ok g"
  shows "upd_holder old (g_rename old new) gs = map (g_rename old new) gs"
  unfolding upd_holder_def
proof (rule map_cong [OF refl])
  fix g assume "g \<in> set gs"
  with assms have "group_ok g" by simp
  then show "(if old \<in> set (tabs_of g) then g_rename old new g else g) = g_rename old new g"
    by (cases g) (auto simp: g_rename_def intro!: map_idI [symmetric])
qed

lemma replace_tab_ok:
  assumes "win_ok t" and "new \<notin> set (collect_tab_ids t)"
  shows "win_ok (snd (replace_tab_id old new t)) \<and>
    collect_tab_ids (snd (replace_tab_id old new t)) = map (\<lambda>x. if x = old then new else x) (collect_tab_ids t)"
proof -
  let ?f = "\<lambda>x. if x = old then new else x"
  have ok: "groups_ok (groups t)" "win_ratios_ok t" using assms(1) by (auto simp: win_ok_def)
  then have g: "groups (snd (replace_tab_id old new t)) = map (g_rename old new) (groups t)"
    using replace_tab_groups [OF win_ok_tabs [OF assms(1)] assms(2), of old] g_rename_holder [of "groups t"]
    by (simp add: groups_ok_def)
  have f: "tabs_of \<circ> g_rename old new = map ?f \<circ> tabs_of" "fst \<circ> g_rename old new = fst"
    by (auto simp: fun_eq_iff g_rename_def)
  then have tabs: "collect_tab_ids (snd (replace_tab_id old new t)) = map ?f (collect_tab_ids t)"
    by (simp add: collect_tab_ids_groups g map_concat)
  have "inj_on ?f (set (collect_tab_ids t))" using assms(2) by (auto simp: inj_on_def)
  then have "distinct (map ?f (collect_tab_ids t))" using win_ok_tabs [OF assms(1)] by (simp add: distinct_map)
  moreover have "group_ok (g_rename old new h)" if "group_ok h" for h using that by (cases h) (auto simp: g_rename_def)
  ultimately show ?thesis
    using ok f tabs by (auto simp: win_ok_def groups_ok_def g replace_tab_ratios collect_tab_ids_groups)
qed

subsection \<open>Expanding panes into groups\<close>

lemma from_panes_groups:
  "map tabs_of (groups (fst (from_panes uuid p k))) = map (\<lambda>s. [s]) (session_ids p)"
  by (induction p arbitrary: k) (auto simp: win_leaf_single case_prod_unfold Let_def)

lemma relabel_groups:
  "groups t = (i0, s # ss, act0) # gs \<Longrightarrow>
   \<exists>t'. relabel_first_leaf tab i tabs act t = Some t' \<and>
     groups t' = (i, map (\<lambda>x. if x = tab then s else x) tabs, map_option (\<lambda>x. if x = tab then s else x) act) # gs"
proof (induction t arbitrary: gs)
  case (WinSplit j d r a b)
  obtain g gs' where "groups a = g # gs'" by (cases "groups a") auto
  with WinSplit.prems have "groups a = (i0, s # ss, act0) # gs'" "gs = gs' @ groups b" by auto
  with WinSplit.IH(1) [of gs'] show ?case by auto
qed auto

lemma mset_rename:
  "distinct ts \<Longrightarrow> tab \<in> set ts \<Longrightarrow>
   add_mset tab (mset (map (\<lambda>x. if x = tab then s else x) ts)) = add_mset s (mset ts)"
proof (induction ts)
  case (Cons t ts)
  have "map (\<lambda>x. if x = tab then s else x) ts = ts" if "tab \<notin> set ts" using that by (auto intro!: map_idI)
  with Cons show ?case by (cases "t = tab") (auto simp: add_mset_commute)
qed simp

lemma expand_absent: "tab \<notin> set (collect_tab_ids t) \<Longrightarrow> expand_pane_tab uuid k tab panes t = Some (False, t)"
  by (induction t) auto

lemma expand_pane_tabs:
  assumes "distinct (collect_tab_ids t)" and "tab \<in> set (collect_tab_ids t)"
  shows "\<exists>t'. expand_pane_tab uuid k tab panes t = Some (True, t') \<and>
    add_mset tab (mset (collect_tab_ids t')) = mset (collect_tab_ids t) + mset (session_ids panes)"
  using assms
proof (induction t)
  case (WinLeaf i tabs act)
  obtain s ss where s: "session_ids panes = s # ss" by (cases "session_ids panes") auto
  let ?e = "fst (from_panes uuid panes k)"
  obtain g gs where g: "groups ?e = g # gs" by (cases "groups ?e") auto
  with from_panes_groups [of uuid panes k] s have t: "tabs_of g = [s]" "map tabs_of gs = map (\<lambda>s. [s]) ss" by auto
  obtain i0 act0 where "g = (i0, [s], act0)" using t(1) by (cases g) auto
  with g relabel_groups [of ?e i0 s "[]" act0 gs tab i tabs act] obtain t' where t': "relabel_first_leaf tab i tabs act ?e = Some t'"
    "groups t' = (i, map (\<lambda>x. if x = tab then s else x) tabs, map_option (\<lambda>x. if x = tab then s else x) act) # gs" by auto
  have "concat (map (\<lambda>s. [s]) ss) = ss" by (induction ss) auto
  with t' t(2) have "collect_tab_ids t' = map (\<lambda>x. if x = tab then s else x) tabs @ ss"
    by (simp add: collect_tab_ids_groups)
  with t'(1) WinLeaf mset_rename [of tabs tab s] s show ?case by auto
next
  case (WinSplit i d r a b)
  show ?case
  proof (cases "tab \<in> set (collect_tab_ids a)")
    case True
    with WinSplit.IH(1) WinSplit.prems obtain a' where "expand_pane_tab uuid k tab panes a = Some (True, a')"
      "add_mset tab (mset (collect_tab_ids a')) = mset (collect_tab_ids a) + mset (session_ids panes)" by auto
    then show ?thesis by (auto simp flip: union_mset_add_mset_left simp: union_ac)
  next
    case False
    with WinSplit.IH(2) WinSplit.prems obtain b' where "expand_pane_tab uuid k tab panes b = Some (True, b')"
      "add_mset tab (mset (collect_tab_ids b')) = mset (collect_tab_ids b) + mset (session_ids panes)" by auto
    then show ?thesis using expand_absent [OF False] by (auto simp flip: union_mset_add_mset_right simp: union_ac)
  qed
qed

section \<open>Properties\<close>

lemma move_tab_ok:
  assumes "win_ok t"
  shows "win_ok (snd (move_tab_to_leaf tab leaf t)) \<and>
    mset (collect_tab_ids (snd (move_tab_to_leaf tab leaf t))) = mset (collect_tab_ids t)"
proof (cases "tab \<in> set (collect_tab_ids t) \<and> leaf \<in> set (leaf_ids t)")
  case True
  then obtain t' where t': "move_tab_to_leaf tab leaf t = (True, t')" "groups t' = g_move tab leaf (groups t)" "win_ratios_ok t'"
    using move_tab_groups [OF assms] by blast
  with True g_move_ok [of "groups t" tab leaf] assms show ?thesis
    by (simp add: win_ok_def collect_tab_ids_groups leaf_ids_groups)
next
  case False
  then show ?thesis using assms by (auto simp: move_tab_to_leaf_def contains_tab_groups leaf_tabs_None)
qed

lemma place_tab_ok:
  assumes "win_ok t"
  shows "win_ok (snd (place_tab_before tab before t)) \<and>
    mset (collect_tab_ids (snd (place_tab_before tab before t))) = mset (collect_tab_ids t)"
proof (cases "tab \<in> set (collect_tab_ids t) \<and> before \<in> set (collect_tab_ids t) \<and> tab \<noteq> [] \<and> before \<noteq> [] \<and> before \<noteq> tab")
  case True
  then obtain t' where t': "place_tab_before tab before t = (True, t')" "win_ratios_ok t'"
    "groups t' = (if already_before tab before t then groups t else g_place tab before (groups t))"
    using place_tab_groups [OF assms] by blast
  with True g_place_ok [of "groups t" tab before] assms show ?thesis
    by (simp add: win_ok_def collect_tab_ids_groups)
next
  case False
  then show ?thesis using assms by (auto simp: place_tab_before_def contains_tab_groups)
qed

lemma dock_tab_ok:
  assumes "win_ok t" and "leaf_name uuid k \<notin> set (leaf_ids t)"
  shows "win_ok (snd (dock_tab uuid k tab leaf zone t)) \<and>
    mset (collect_tab_ids (snd (dock_tab uuid k tab leaf zone t))) = mset (collect_tab_ids t)"
proof (cases "tab = [] \<or> tab \<notin> set (collect_tab_ids t) \<or> leaf \<notin> set (leaf_ids t) \<or> zone = DockCenter \<or>
    leaf_tab_count_for tab t = Some (leaf, 1)")
  case True
  then show ?thesis
    using assms(1) move_tab_ok [OF assms(1), of tab leaf]
    by (auto simp: dock_tab_def dock_tab_to_edge_def contains_tab_groups leaf_tabs_None split: TabDockZone.split)
next
  case False
  then obtain edge where edge: "zone = DockEdge edge" by (cases zone) auto
  let ?gs = "g_remove tab (groups t)" and ?new = "dropped_group (uuid k) tab"
  obtain t' where t': "dock_tab_to_edge uuid k tab leaf edge t = (True, t')" "win_ratios_ok t'"
    "groups t' = g_beside leaf edge ?new ?gs"
    using dock_edge_groups(1) [OF assms(1)] False by blast
  have g: "groups_ok (groups t)" "groups_ok ?gs" using assms(1) groups_ok_remove by (auto simp: win_ok_def)
  have tabs: "concat (map tabs_of ?gs) = filter (\<lambda>x. x \<noteq> tab) (collect_tab_ids t)"
    by (simp add: tabs_g_remove collect_tab_ids_groups)
  have target: "leaf \<in> fst ` set ?gs" using dock_edge_groups(2) [OF assms(1), of tab leaf] False by auto
  have "fst ?new \<notin> fst ` set ?gs"
  proof
    assume "fst ?new \<in> fst ` set ?gs"
    then have "leaf_name uuid k \<in> set (map fst ?gs)" by (simp add: dropped_group_def leaf_name_def)
    then have "leaf_name uuid k \<in> set (leaf_ids t)" by (auto simp: ids_g_remove leaf_ids_groups)
    with assms(2) show False ..
  qed
  then have "groups_ok (groups t') \<and> mset (collect_tab_ids t') = mset [tab] + mset (filter (\<lambda>x. x \<noteq> tab) (collect_tab_ids t))"
    using g_beside_ok [OF g(2) target, of ?new edge] tabs t'(3)
    by (auto simp: dropped_group_def collect_tab_ids_groups)
  moreover have "mset [tab] + mset (filter (\<lambda>x. x \<noteq> tab) (collect_tab_ids t)) = mset (collect_tab_ids t)"
    using mset_filter_tab [OF win_ok_tabs [OF assms(1)]] False by auto
  moreover have "dock_tab uuid k tab leaf zone t = (True, t')"
    using False edge t'(1) by (auto simp: dock_tab_def contains_tab_groups leaf_tabs_None)
  ultimately show ?thesis using t'(2) by (simp add: win_ok_def)
qed

definition demo_window :: TerminalWindowNode where
  "demo_window = WinSplit [1] Vertical 50 (WinLeaf [2] [[0x61], [0x62]] (Some [0x61])) (WinLeaf [3] [[0x63]] (Some [0x63]))"

definition demo_uuid :: "nat \<Rightarrow> u8 list" where
  "demo_uuid k = replicate k 0x30"

lemma demo_window_ok:
  "win_ok demo_window" "collect_tab_ids demo_window = [[0x61], [0x62], [0x63]]" "leaf_ids demo_window = [[2], [3]]"
  by (simp_all add: demo_window_def win_ok_def groups_ok_def)



text \<open>(C12) What moving, reordering and docking do to the groups. Moving a tab to a group puts it at the end of
  that group and shows it; placing it before another tab puts it exactly there and shows it
  (when it is there already nothing changes); docking it to an edge gives it a group of its own
  directly before or after the target. In all three the other groups lose only this tab, keep
  their order, show the neighbour of the tab if it was shown, and vanish when it was their last.\<close>

theorem window_moves_refine:
  assumes "win_ok t" and "tab \<in> set (collect_tab_ids t)" and "leaf \<in> set (leaf_ids t)"
    and "before \<in> set (collect_tab_ids t)" and "tab \<noteq> []" and "before \<noteq> []" and "before \<noteq> tab"
    and "leaf_tab_count_for tab t \<noteq> Some (leaf, 1)"
  shows "(\<exists>t'. move_tab_to_leaf tab leaf t = (True, t') \<and> groups t' = g_move tab leaf (groups t)) \<and>
    (\<exists>t'. place_tab_before tab before t = (True, t') \<and>
      groups t' = (if already_before tab before t then groups t else g_place tab before (groups t))) \<and>
    (\<exists>t'. dock_tab uuid k tab leaf (DockEdge edge) t = (True, t') \<and>
      groups t' = g_beside leaf edge (dropped_group (uuid k) tab) (g_remove tab (groups t)))"
proof (intro conjI)
  show "\<exists>t'. move_tab_to_leaf tab leaf t = (True, t') \<and> groups t' = g_move tab leaf (groups t)"
    using move_tab_groups [OF assms(1-3)] by blast
  show "\<exists>t'. place_tab_before tab before t = (True, t') \<and>
      groups t' = (if already_before tab before t then groups t else g_place tab before (groups t))"
    using place_tab_groups [OF assms(1,2,4-7)] by blast
  show "\<exists>t'. dock_tab uuid k tab leaf (DockEdge edge) t = (True, t') \<and>
      groups t' = g_beside leaf edge (dropped_group (uuid k) tab) (g_remove tab (groups t))"
    using dock_edge_groups(1) [OF assms(1-3,8), of uuid k edge] assms(2,3,5)
    by (auto simp: dock_tab_def contains_tab_groups leaf_tabs_None)
qed

theorem window_moves_refine_witness:
  "\<exists>t'. dock_tab demo_uuid 0 [0x61] [3] (DockEdge DockLeft) demo_window = (True, t') \<and>
     groups t' = [([2], [[0x62]], Some [0x62]), dropped_group [] [0x61], ([3], [[0x63]], Some [0x63])]"
proof -
  have "leaf_tab_count_for [0x61] demo_window \<noteq> Some ([3], 1)" by (simp add: demo_window_def or_else_def)
  then show ?thesis
    using window_moves_refine [of demo_window "[0x61]" "[3]" "[0x62]" demo_uuid 0 DockLeft] demo_window_ok
    by (auto simp: demo_window_def demo_uuid_def g_remove_def g_drop_def g_beside_def neighbour_def)
qed


lemma demo_uuid_inj: "inj demo_uuid"
  by (rule injI) (metis demo_uuid_def length_replicate)




end
