(* ===== verification/Natural_Order.thy ===== *)
theory Natural_Order
  imports Char_Encoding "HOL-Library.Multiset"
begin

text \<open>
  The order in which names are listed (\<open>nyaterm-core/src/natural_order.rs\<close>): runs of digits by
  value, other characters case-insensitively, ties by the raw bytes. The code says that this is
  a total order, which is what \<open>sort_by\<close> requires of its comparison. A \<open>str\<close> is its UTF-8
  bytes; \<open>char::to_lowercase\<close>, a table of the Unicode standard, is the parameter \<open>lower\<close>.
\<close>

datatype Ordering = Less | Equal | Greater

primrec reverse :: "Ordering \<Rightarrow> Ordering" where
  "reverse Less = Greater"
| "reverse Equal = Equal"
| "reverse Greater = Less"

definition then_with :: "Ordering \<Rightarrow> Ordering \<Rightarrow> Ordering" where
  "then_with x y = (if x = Equal then y else x)"

definition ord_cmp :: "'a::linorder \<Rightarrow> 'a \<Rightarrow> Ordering" where
  "ord_cmp x y = (if x < y then Less else if x = y then Equal else Greater)"

text \<open>\<open>Ord::cmp\<close> and \<open>Iterator::cmp\<close> on sequences.\<close>

fun lex_cmp :: "('a \<Rightarrow> 'a \<Rightarrow> Ordering) \<Rightarrow> 'a list \<Rightarrow> 'a list \<Rightarrow> Ordering" where
  "lex_cmp c [] [] = Equal"
| "lex_cmp c [] (y # ys) = Less"
| "lex_cmp c (x # xs) [] = Greater"
| "lex_cmp c (x # xs) (y # ys) = then_with (c x y) (lex_cmp c xs ys)"

definition is_digit :: "u8 \<Rightarrow> bool" where
  "is_digit b \<longleftrightarrow> 0x30 \<le> b \<and> b \<le> 0x39"

definition starts_with_digit :: "u8 list \<Rightarrow> bool" where
  "starts_with_digit s = (case s of [] \<Rightarrow> False | b # _ \<Rightarrow> is_digit b)"

text \<open>Bytes of longer characters are never digits, so the run ends at a character boundary.\<close>

definition split_digit_run :: "u8 list \<Rightarrow> u8 list \<times> u8 list" where
  "split_digit_run s = (takeWhile is_digit s, dropWhile is_digit s)"

definition split_char :: "u8 list \<Rightarrow> nat \<times> u8 list" where
  "split_char s = (let n = max 1 (utf8_char_len s) in (code_point (take n s), drop n s))"

definition compare_digit_runs :: "u8 list \<Rightarrow> u8 list \<Rightarrow> Ordering" where
  "compare_digit_runs l r =
     (let lv = dropWhile (\<lambda>b. b = 0x30) l; rv = dropWhile (\<lambda>b. b = 0x30) r
      in then_with (then_with (ord_cmp (length lv) (length rv)) (lex_cmp ord_cmp lv rv))
           (ord_cmp (length l) (length r)))"

function natural_loop :: "(nat \<Rightarrow> nat list) \<Rightarrow> u8 list \<Rightarrow> u8 list \<Rightarrow> Ordering" where
  "natural_loop lower l r =
     (if l = [] \<and> r = [] then Equal
      else if l = [] then Less
      else if r = [] then Greater
      else if starts_with_digit l \<and> starts_with_digit r then
        (let (lrun, ltail) = split_digit_run l; (rrun, rtail) = split_digit_run r;
             ordering = compare_digit_runs lrun rrun
         in if ordering \<noteq> Equal then ordering else natural_loop lower ltail rtail)
      else
        (let (lc, ltail) = split_char l; (rc, rtail) = split_char r;
             ordering = lex_cmp ord_cmp (lower lc) (lower rc)
         in if ordering \<noteq> Equal then ordering else natural_loop lower ltail rtail))"
  by pat_completeness auto
termination
proof (relation "measure (\<lambda>(lower, l, r). length l)", goal_cases)
  case (2 lower l r x ltail y rtail ordering)
  then obtain b bs where "l = b # bs" "is_digit b" by (cases l) (auto simp: starts_with_digit_def)
  with 2 show ?case
    using length_dropWhile_le [of is_digit bs] by (auto simp: split_digit_run_def less_Suc_eq_le)
next
  case (3 lower l r x ltail y rtail ordering)
  then show ?case by (cases l) (auto simp: split_char_def Let_def max_def split: if_splits)
qed simp

declare natural_loop.simps [simp del]

definition natural_compare :: "(nat \<Rightarrow> nat list) \<Rightarrow> u8 list \<Rightarrow> u8 list \<Rightarrow> Ordering" where
  "natural_compare lower l r = then_with (natural_loop lower l r) (lex_cmp ord_cmp l r)"

section \<open>Comparisons\<close>

text \<open>What \<open>sort_by\<close> requires of a comparison, and what it then gives: the sorted order of a
  list does not depend on the order it came in.\<close>

locale comparison =
  fixes cmp :: "'a \<Rightarrow> 'a \<Rightarrow> Ordering"
  assumes cmp_self: "cmp x x = Equal"
    and cmp_reverse: "cmp x y = reverse (cmp y x)"
    and cmp_trans: "cmp x y \<noteq> Greater \<Longrightarrow> cmp y z \<noteq> Greater \<Longrightarrow> cmp x z \<noteq> Greater"
begin

lemma cmp_Less_trans:
  assumes "cmp x y = Less" and "cmp y z \<noteq> Greater"
  shows "cmp x z = Less"
proof (rule ccontr)
  assume "cmp x z \<noteq> Less"
  moreover have "cmp x z \<noteq> Greater" using cmp_trans [of x y z] assms by simp
  ultimately have "cmp x z = Equal" by (cases "cmp x z") auto
  then have "cmp z x \<noteq> Greater" using cmp_reverse [of z x] by simp
  with assms(2) have "cmp y x \<noteq> Greater" using cmp_trans [of y z x] by simp
  with assms(1) cmp_reverse [of y x] show False by simp
qed

lemma cmp_Equal_left:
  assumes "cmp x y = Equal"
  shows "cmp x z = cmp y z"
proof -
  have yx: "cmp y x = Equal" using assms cmp_reverse [of y x] by simp
  have flip: "cmp z v = reverse (cmp v z)" for v using cmp_reverse [of z v] .
  show ?thesis
  proof (cases "cmp x z")
    case Less
    then have "cmp y z \<noteq> Greater" using cmp_trans [of y x z] yx by simp
    moreover have "cmp y z \<noteq> Equal"
    proof
      assume "cmp y z = Equal"
      then have "cmp z y \<noteq> Greater" using flip by simp
      with yx have "cmp z x \<noteq> Greater" using cmp_trans [of z y x] by simp
      with Less flip show False by simp
    qed
    ultimately show ?thesis using Less by (cases "cmp y z") auto
  next
    case Equal
    then have "cmp y z \<noteq> Greater" "cmp z y \<noteq> Greater"
      using cmp_trans [of y x z] cmp_trans [of z x y] assms yx flip [of x] by simp_all
    with flip [of y] Equal show ?thesis by (cases "cmp y z") auto
  next
    case Greater
    then have "cmp z x = Less" using flip by simp
    then have "cmp z y = Less" using cmp_Less_trans [of z x y] assms by simp
    with flip [of y] Greater show ?thesis by (cases "cmp y z") auto
  qed
qed

end

text \<open>A comparison that tells different things apart makes sorting deterministic.\<close>

locale total_comparison = comparison +
  assumes cmp_Equal: "cmp x y = Equal \<Longrightarrow> x = y"
begin

lemma sorted_unique:
  "sorted_wrt (\<lambda>x y. cmp x y \<noteq> Greater) xs \<Longrightarrow> sorted_wrt (\<lambda>x y. cmp x y \<noteq> Greater) ys \<Longrightarrow>
   mset xs = mset ys \<Longrightarrow> xs = ys"
proof (induction xs arbitrary: ys)
  case (Cons x xs)
  then obtain y ys' where ys: "ys = y # ys'" by (cases ys) auto
  have "x \<in> set ys" "y \<in> set (x # xs)" using Cons.prems(3) ys by (metis list.set_intros(1) mset_eq_setD)+
  then have "cmp x y \<noteq> Greater" "cmp y x \<noteq> Greater"
    using Cons.prems(1,2) ys cmp_self by auto
  then have "cmp x y = Equal" using cmp_reverse [of y x] by (cases "cmp x y") auto
  then have "x = y" by (rule cmp_Equal)
  with Cons ys show ?case by simp
qed simp

end

lemma reverse_reverse [simp]: "reverse (reverse x) = x"
  by (cases x) auto

lemma reverse_then_with: "reverse (then_with x y) = then_with (reverse x) (reverse y)"
  by (cases x) (auto simp: then_with_def)

lemma comparison_ord: "comparison ord_cmp"
  by unfold_locales (auto simp: ord_cmp_def split: if_splits)

lemma comparison_lex:
  assumes "comparison c"
  shows "comparison (lex_cmp c)"
proof
  show "lex_cmp c x x = Equal" for x
    by (induction x) (auto simp: then_with_def comparison.cmp_self [OF assms])
  show "lex_cmp c x y = reverse (lex_cmp c y x)" for x y
  proof (induction x arbitrary: y)
    case Nil
    show ?case by (cases y) auto
  next
    case (Cons a x)
    then show ?case
      using comparison.cmp_reverse [OF assms, of a] by (cases y) (auto simp: reverse_then_with)
  qed
  show "lex_cmp c x z \<noteq> Greater" if "lex_cmp c x y \<noteq> Greater" "lex_cmp c y z \<noteq> Greater" for x y z
    using that
  proof (induction x arbitrary: y z)
    case Nil
    then show ?case by (cases z) auto
  next
    case (Cons a x)
    obtain b y' where y: "y = b # y'" using Cons.prems(1) by (cases y) auto
    obtain d z' where z: "z = d # z'" using Cons.prems(2) y by (cases z) auto
    have ab: "c a b \<noteq> Greater" "c b d \<noteq> Greater" using Cons.prems y z by (auto simp: then_with_def split: if_splits)
    show ?case
    proof (cases "c a b = Less \<or> c b d = Less")
      case True
      then have "c a d = Less"
      proof
        assume "c b d = Less"
        show ?thesis
        proof (cases "c a b = Equal")
          case True
          with comparison.cmp_Equal_left [OF assms True, of d] \<open>c b d = Less\<close> show ?thesis by simp
        next
          case False
          with ab have "c a b = Less" by (cases "c a b") auto
          then show ?thesis using comparison.cmp_Less_trans [OF assms _ ab(2)] by simp
        qed
      qed (use comparison.cmp_Less_trans [OF assms _ ab(2)] in simp)
      then show ?thesis by (simp add: z then_with_def)
    next
      case False
      with ab have eq: "c a b = Equal" "c b d = Equal" by (cases "c a b"; cases "c b d"; simp)+
      with comparison.cmp_Equal_left [OF assms eq(1), of d] have "c a d = Equal" by simp
      moreover have "lex_cmp c x z' \<noteq> Greater"
        using Cons.IH [of y' z'] Cons.prems eq by (simp add: y z then_with_def)
      ultimately show ?thesis by (simp add: z then_with_def)
    qed
  qed
qed

text \<open>Comparing keys first, and breaking ties by a second comparison.\<close>

lemma comparison_key: "comparison c \<Longrightarrow> comparison (\<lambda>x y. c (f x) (f y))"
  unfolding comparison_def by blast

lemma comparison_then_with:
  assumes "comparison c" and "comparison d"
  shows "comparison (\<lambda>x y. then_with (c x y) (d x y))"
proof
  fix x y z
  show "then_with (c x x) (d x x) = Equal"
    by (simp add: then_with_def comparison.cmp_self [OF assms(1)] comparison.cmp_self [OF assms(2)])
  show "then_with (c x y) (d x y) = reverse (then_with (c y x) (d y x))"
    by (simp add: reverse_then_with comparison.cmp_reverse [OF assms(1), of x y] comparison.cmp_reverse [OF assms(2), of x y])
  assume xy: "then_with (c x y) (d x y) \<noteq> Greater" and yz: "then_with (c y z) (d y z) \<noteq> Greater"
  then have ng: "c x y \<noteq> Greater" "c y z \<noteq> Greater" by (auto simp: then_with_def split: if_splits)
  consider "c x y = Less" | "c x y = Equal" "c y z = Less" | "c x y = Equal" "c y z = Equal"
    using ng by (cases "c x y"; cases "c y z") auto
  then show "then_with (c x z) (d x z) \<noteq> Greater"
  proof cases
    case 1
    then have "c x z = Less" using comparison.cmp_Less_trans [OF assms(1) _ ng(2)] by simp
    then show ?thesis by (simp add: then_with_def)
  next
    case 2
    with comparison.cmp_Equal_left [OF assms(1) 2(1), of z] show ?thesis by (simp add: then_with_def)
  next
    case 3
    with comparison.cmp_Equal_left [OF assms(1) 3(1), of z] have "c x z = Equal" by simp
    with 3 xy yz comparison.cmp_trans [OF assms(2), of x y z] show ?thesis by (simp add: then_with_def)
  qed
qed

lemma lex_cmp_Equal: "(\<And>x y. c x y = Equal \<Longrightarrow> x = y) \<Longrightarrow> lex_cmp c xs ys = Equal \<Longrightarrow> xs = ys"
  by (induction c xs ys rule: lex_cmp.induct) (auto simp: then_with_def split: if_splits)

section \<open>Keys of names\<close>

text \<open>What the order needs of the Unicode table: digits are their own lower case, and the lower
  case of no other character starts with a digit.\<close>

definition case_table :: "(nat \<Rightarrow> nat list) \<Rightarrow> bool" where
  "case_table lower \<longleftrightarrow>
     (\<forall>c. if 0x30 \<le> c \<and> c \<le> 0x39 then lower c = [c]
          else lower c \<noteq> [] \<and> \<not> (0x30 \<le> hd (lower c) \<and> hd (lower c) \<le> 0x39))"

definition digit_key :: "u8 list \<Rightarrow> nat list" where
  "digit_key d = (let v = dropWhile (\<lambda>b. b = 0x30) d in 1 # length v # map unat v @ [length d])"

definition char_key :: "nat list \<Rightarrow> nat list" where
  "char_key cs = (if hd cs < 0x30 then 0 else 2) # cs"

function name_key :: "(nat \<Rightarrow> nat list) \<Rightarrow> u8 list \<Rightarrow> nat list list" where
  "name_key lower s =
     (if s = [] then []
      else if starts_with_digit s then digit_key (takeWhile is_digit s) # name_key lower (dropWhile is_digit s)
      else char_key (lower (fst (split_char s))) # name_key lower (snd (split_char s)))"
  by pat_completeness auto
termination
proof (relation "measure (\<lambda>(lower, s). length s)", goal_cases)
  case (2 lower s)
  then obtain b bs where "s = b # bs" "is_digit b" by (cases s) (auto simp: starts_with_digit_def)
  then show ?case using length_dropWhile_le [of is_digit bs] by (auto simp: less_Suc_eq_le)
next
  case (3 lower s)
  then show ?case by (cases s) (auto simp: split_char_def Let_def max_def)
qed simp

declare name_key.simps [simp del]

lemma ord_cmp_unat: "ord_cmp (x :: u8) y = ord_cmp (unat x) (unat y)"
  by (simp add: ord_cmp_def word_less_nat_alt word_unat_eq_iff)

lemma ord_cmp_self [simp]: "ord_cmp x x = Equal"
  by (simp add: ord_cmp_def)

lemma lex_cmp_unat: "lex_cmp ord_cmp (xs :: u8 list) ys = lex_cmp ord_cmp (map unat xs) (map unat ys)"
proof (induction xs arbitrary: ys)
  case (Cons x xs)
  then show ?case by (cases ys) (auto simp: ord_cmp_unat)
qed (case_tac ys; simp)

lemma lex_cmp_append:
  "length xs = length ys \<Longrightarrow> lex_cmp c (xs @ us) (ys @ vs) = then_with (lex_cmp c xs ys) (lex_cmp c us vs)"
  by (induction xs ys rule: list_induct2) (auto simp: then_with_def)

lemma compare_digit_runs_key: "compare_digit_runs l r = lex_cmp ord_cmp (digit_key l) (digit_key r)"
proof -
  let ?lv = "dropWhile (\<lambda>b. b = 0x30) l" and ?rv = "dropWhile (\<lambda>b. b = 0x30) r"
  show ?thesis
  proof (cases "length ?lv = length ?rv")
    case True
    then show ?thesis
      using lex_cmp_append [of "map unat ?lv" "map unat ?rv" ord_cmp "[length l]" "[length r]"]
      by (simp add: compare_digit_runs_def digit_key_def Let_def lex_cmp_unat [of ?lv] then_with_def)
  next
    case False
    then show ?thesis
      by (simp add: compare_digit_runs_def digit_key_def Let_def then_with_def ord_cmp_def)
  qed
qed

lemma mod_sub:
  fixes x q m :: nat
  assumes "q * m \<le> x" and "x < q * m + m"
  shows "x mod m = x - q * m"
proof -
  obtain k where k: "x = q * m + k" using assms(1) le_Suc_ex by blast
  with assms(2) have "k < m" by simp
  with k show ?thesis by simp
qed

lemma code_point_wide:
  "utf8_2 a b \<Longrightarrow> 128 \<le> unat a mod 32 * 64 + unat b mod 64"
  "utf8_3 a b c \<Longrightarrow> 128 \<le> (unat a mod 16 * 64 + unat b mod 64) * 64 + unat c mod 64"
  "utf8_4 a b c d \<Longrightarrow> 128 \<le> ((unat a mod 8 * 64 + unat b mod 64) * 64 + unat c mod 64) * 64 + unat d mod 64"
proof -
  assume "utf8_2 a b"
  then have "194 \<le> unat a" "unat a \<le> 223" by (auto simp: utf8_2_def word_le_nat_alt)
  then show "128 \<le> unat a mod 32 * 64 + unat b mod 64" using mod_sub [of 6 32 "unat a"] by simp
next
  assume "utf8_3 a b c"
  then have "224 \<le> unat a" "unat a \<le> 239" "unat a = 224 \<longrightarrow> 160 \<le> unat b" "128 \<le> unat b" "unat b \<le> 191"
    unfolding utf8_3_def is_cont_def word_le_nat_alt word_unat_eq_iff by simp_all
  then show "128 \<le> (unat a mod 16 * 64 + unat b mod 64) * 64 + unat c mod 64"
    using mod_sub [of 14 16 "unat a"] mod_sub [of 2 64 "unat b"] by (cases "unat a = 224") auto
next
  assume "utf8_4 a b c d"
  then have "240 \<le> unat a" "unat a \<le> 244" "unat a = 240 \<longrightarrow> 144 \<le> unat b" "128 \<le> unat b" "unat b \<le> 191"
    unfolding utf8_4_def is_cont_def word_le_nat_alt word_unat_eq_iff by simp_all
  then show "128 \<le> ((unat a mod 8 * 64 + unat b mod 64) * 64 + unat c mod 64) * 64 + unat d mod 64"
    using mod_sub [of 30 8 "unat a"] mod_sub [of 2 64 "unat b"] by (cases "unat a = 240") auto
qed

lemma split_char_digit:
  "starts_with_digit s \<Longrightarrow> 0x30 \<le> fst (split_char s) \<and> fst (split_char s) \<le> 0x39"
  by (cases s) (auto simp: starts_with_digit_def is_digit_def split_char_def Let_def utf8_char_len_def code_point_def
      word_le_nat_alt)

lemma split_char_other:
  assumes "s \<noteq> []" and "\<not> starts_with_digit s"
  shows "\<not> (0x30 \<le> fst (split_char s) \<and> fst (split_char s) \<le> 0x39)"
proof -
  obtain b0 r0 where s: "s = b0 # r0" using assms(1) by (cases s) auto
  have b0: "\<not> (0x30 \<le> unat b0 \<and> unat b0 \<le> 0x39)"
    using assms(2) by (simp add: s starts_with_digit_def is_digit_def word_le_nat_alt)
  have one: "?thesis" if "utf8_char_len s \<le> 1"
    using that b0 by (simp add: s split_char_def max_def code_point_def)
  have wide: "?thesis" if "128 \<le> fst (split_char s)" using that by simp
  show ?thesis
  proof (cases "utf8_char_len s \<le> 1")
    case False
    then have "128 \<le> fst (split_char s)"
      by (auto simp: s split_char_def utf8_char_len_def code_point_def Let_def dest: code_point_wide
          split: list.splits if_splits)
    then show ?thesis by (rule wide)
  qed (rule one)
qed

lemma char_key_cmp:
  assumes "cs \<noteq> []" and "ds \<noteq> []" and "\<not> (0x30 \<le> hd cs \<and> hd cs \<le> 0x39)" and "\<not> (0x30 \<le> hd ds \<and> hd ds \<le> 0x39)"
  shows "lex_cmp ord_cmp (char_key cs) (char_key ds) = lex_cmp ord_cmp cs ds"
proof -
  obtain c cs' d ds' where "cs = c # cs'" "ds = d # ds'" using assms(1,2) by (cases cs; cases ds) auto
  with assms(3,4) show ?thesis by (auto simp: char_key_def then_with_def ord_cmp_def)
qed

lemma digit_char_cmp:
  assumes "0x30 \<le> c" and "c \<le> 0x39" and "cs \<noteq> []" and "\<not> (0x30 \<le> hd cs \<and> hd cs \<le> 0x39)"
  shows "lex_cmp ord_cmp (digit_key d) (char_key cs) = lex_cmp ord_cmp [c] cs"
    and "lex_cmp ord_cmp (char_key cs) (digit_key d) = lex_cmp ord_cmp cs [c]"
    and "lex_cmp ord_cmp [c] cs \<noteq> Equal" and "lex_cmp ord_cmp cs [c] \<noteq> Equal"
proof -
  obtain e cs' where "cs = e # cs'" using assms(3) by (cases cs) auto
  with assms show "lex_cmp ord_cmp (digit_key d) (char_key cs) = lex_cmp ord_cmp [c] cs"
    and "lex_cmp ord_cmp (char_key cs) (digit_key d) = lex_cmp ord_cmp cs [c]"
    and "lex_cmp ord_cmp [c] cs \<noteq> Equal" and "lex_cmp ord_cmp cs [c] \<noteq> Equal"
    by (auto simp: digit_key_def char_key_def then_with_def ord_cmp_def Let_def)
qed

lemma case_table_digit: "case_table lower \<Longrightarrow> 0x30 \<le> c \<Longrightarrow> c \<le> 0x39 \<Longrightarrow> lower c = [c]"
  unfolding case_table_def by metis

lemma case_table_other:
  "case_table lower \<Longrightarrow> \<not> (0x30 \<le> c \<and> c \<le> 0x39) \<Longrightarrow>
   lower c \<noteq> [] \<and> \<not> (0x30 \<le> hd (lower c) \<and> hd (lower c) \<le> 0x39)"
  unfolding case_table_def by metis

lemma name_key_Nil [simp]: "name_key lower [] = []"
  by (simp add: name_key.simps)

lemma name_key_digit:
  "starts_with_digit s \<Longrightarrow>
   name_key lower s = digit_key (takeWhile is_digit s) # name_key lower (dropWhile is_digit s)"
  unfolding name_key.simps [of lower s] by (auto simp: starts_with_digit_def)

lemma name_key_char:
  "s \<noteq> [] \<Longrightarrow> \<not> starts_with_digit s \<Longrightarrow>
   name_key lower s = char_key (lower (fst (split_char s))) # name_key lower (snd (split_char s))"
  unfolding name_key.simps [of lower s] by simp

lemma natural_loop_digits:
  "starts_with_digit l \<Longrightarrow> starts_with_digit r \<Longrightarrow>
   natural_loop lower l r =
     then_with (compare_digit_runs (takeWhile is_digit l) (takeWhile is_digit r))
       (natural_loop lower (dropWhile is_digit l) (dropWhile is_digit r))"
  unfolding natural_loop.simps [of lower l r]
  by (auto simp: starts_with_digit_def split_digit_run_def then_with_def)

lemma natural_loop_chars:
  "l \<noteq> [] \<Longrightarrow> r \<noteq> [] \<Longrightarrow> \<not> (starts_with_digit l \<and> starts_with_digit r) \<Longrightarrow>
   natural_loop lower l r =
     then_with (lex_cmp ord_cmp (lower (fst (split_char l))) (lower (fst (split_char r))))
       (natural_loop lower (snd (split_char l)) (snd (split_char r)))"
  unfolding natural_loop.simps [of lower l r] by (auto simp: then_with_def case_prod_unfold Let_def)

lemma natural_loop_key:
  "case_table lower \<Longrightarrow>
   natural_loop lower l r = lex_cmp (lex_cmp ord_cmp) (name_key lower l) (name_key lower r)"
proof (induction lower l r rule: natural_loop.induct)
  case (1 lower l r)
  note table = \<open>case_table lower\<close>
  let ?lc = "fst (split_char l)" and ?rc = "fst (split_char r)"
  show ?case
  proof (cases "l = [] \<or> r = []")
    case True
    then show ?thesis
      unfolding natural_loop.simps [of lower l r] name_key.simps [of lower l] name_key.simps [of lower r] by auto
  next
    case False
    then have ne: "l \<noteq> []" "r \<noteq> []" by auto
    consider (digits) "starts_with_digit l" "starts_with_digit r"
      | (left) "starts_with_digit l" "\<not> starts_with_digit r"
      | (right) "\<not> starts_with_digit l" "starts_with_digit r"
      | (chars) "\<not> starts_with_digit l" "\<not> starts_with_digit r" by blast
    then show ?thesis
    proof cases
      case digits
      then have "compare_digit_runs (takeWhile is_digit l) (takeWhile is_digit r) = Equal \<Longrightarrow>
          natural_loop lower (dropWhile is_digit l) (dropWhile is_digit r) =
          lex_cmp (lex_cmp ord_cmp) (name_key lower (dropWhile is_digit l)) (name_key lower (dropWhile is_digit r))"
        using "1.IH"(1) ne table by (simp add: split_digit_run_def)
      with digits show ?thesis
        by (auto simp: natural_loop_digits name_key_digit compare_digit_runs_key then_with_def)
    next
      case left
      note lc = split_char_digit [OF left(1)] and rc = case_table_other [OF table split_char_other [OF ne(2) left(2)]]
      note d = digit_char_cmp [of ?lc "lower ?rc"]
      have "lower ?lc = [?lc]" using case_table_digit [OF table] lc by simp
      then show ?thesis
        using d lc rc left ne by (simp add: natural_loop_chars name_key_digit name_key_char then_with_def)
    next
      case right
      note rc = split_char_digit [OF right(2)] and lc = case_table_other [OF table split_char_other [OF ne(1) right(1)]]
      note d = digit_char_cmp [of ?rc "lower ?lc"]
      have "lower ?rc = [?rc]" using case_table_digit [OF table] rc by simp
      then show ?thesis
        using d lc rc right ne by (simp add: natural_loop_chars name_key_digit name_key_char then_with_def)
    next
      case chars
      note k = char_key_cmp [of "lower ?lc" "lower ?rc"]
        case_table_other [OF table split_char_other [OF ne(1) chars(1)]]
        case_table_other [OF table split_char_other [OF ne(2) chars(2)]]
      have "lex_cmp ord_cmp (lower ?lc) (lower ?rc) = Equal \<Longrightarrow>
          natural_loop lower (snd (split_char l)) (snd (split_char r)) =
          lex_cmp (lex_cmp ord_cmp) (name_key lower (snd (split_char l))) (name_key lower (snd (split_char r)))"
        using "1.IH"(2) ne chars table by (cases "split_char l"; cases "split_char r") simp
      with chars k ne show ?thesis by (auto simp: natural_loop_chars name_key_char then_with_def)
    qed
  qed
qed

lemma comparison_natural:
  assumes "case_table lower"
  shows "comparison (natural_compare lower)"
proof -
  have "comparison (\<lambda>l r. then_with (lex_cmp (lex_cmp ord_cmp) (name_key lower l) (name_key lower r)) (lex_cmp ord_cmp l r))"
    by (rule comparison_then_with [OF comparison_key [OF comparison_lex [OF comparison_lex [OF comparison_ord]]]
          comparison_lex [OF comparison_ord]])
  then show ?thesis
    by (simp add: natural_compare_def [abs_def] natural_loop_key [OF assms])
qed

lemma ord_cmp_Equal: "ord_cmp x y = Equal \<longleftrightarrow> x = y"
  by (simp add: ord_cmp_def)

lemma natural_compare_Equal: "natural_compare lower l r = Equal \<Longrightarrow> l = r"
  by (rule lex_cmp_Equal [of ord_cmp]) (auto simp: ord_cmp_Equal natural_compare_def then_with_def split: if_splits)

lemma total_comparison_natural: "case_table lower \<Longrightarrow> total_comparison (natural_compare lower)"
  by (intro total_comparison.intro total_comparison_axioms.intro comparison_natural natural_compare_Equal)

section \<open>Interpretations\<close>

text \<open>The Unicode tables the order is used with, as a type: the ASCII table is one of them.\<close>

definition ascii_lower :: "nat \<Rightarrow> nat list" where
  "ascii_lower c = [if 0x41 \<le> c \<and> c \<le> 0x5A then c + 0x20 else c]"

lemma case_table_ascii: "case_table ascii_lower"
  by (auto simp: case_table_def ascii_lower_def)

typedef case_folding = "{lower. case_table lower}"
  using case_table_ascii by blast

lemma Rep_case_folding_table: "case_table (Rep_case_folding t)"
  using Rep_case_folding [of t] by simp

interpretation raw: total_comparison "lex_cmp ord_cmp :: u8 list \<Rightarrow> u8 list \<Rightarrow> Ordering"
  by (intro total_comparison.intro total_comparison_axioms.intro comparison_lex comparison_ord)
    (rule lex_cmp_Equal [of ord_cmp], simp_all add: ord_cmp_Equal)

interpretation natural: total_comparison "natural_compare (Rep_case_folding t)" for t
  by (rule total_comparison_natural [OF Rep_case_folding_table])

lemma case_folding_obtain:
  assumes "case_table lower"
  obtains t where "Rep_case_folding t = lower"
  using assms by (metis Abs_case_folding_inverse mem_Collect_eq)

section \<open>Values of digit runs\<close>

definition run_value :: "u8 list \<Rightarrow> nat" where
  "run_value d = foldl (\<lambda>n b. 10 * n + (unat b - 48)) 0 d"

lemma run_value_snoc [simp]: "run_value (d @ [b]) = 10 * run_value d + (unat b - 48)"
  by (simp add: run_value_def)

lemma run_value_Nil [simp]: "run_value [] = 0"
  by (simp add: run_value_def)

lemma run_value_Cons: "run_value (b # d) = (unat b - 48) * 10 ^ length d + run_value d"
  by (induction d rule: rev_induct) (simp_all add: algebra_simps flip: append_Cons, simp add: run_value_def)

lemma run_value_zeros: "run_value (dropWhile (\<lambda>b. b = 0x30) d) = run_value d"
  by (induction d) (auto simp: run_value_Cons)

lemma is_digit_range: "is_digit b \<longleftrightarrow> 48 \<le> unat b \<and> unat b \<le> 57"
  by (simp add: is_digit_def word_le_nat_alt)

lemma run_value_less: "\<forall>b \<in> set d. is_digit b \<Longrightarrow> run_value d < 10 ^ length d"
proof (induction d)
  case (Cons b d)
  then have "unat b - 48 \<le> 9" and IH: "run_value d < 10 ^ length d" by (auto simp: is_digit_range)
  then have "(unat b - 48) * 10 ^ length d \<le> 9 * 10 ^ length d" by (intro mult_right_mono) auto
  with IH show ?case unfolding run_value_Cons list.size(4) add_Suc_right add_0_right power_Suc by linarith
qed simp

lemma run_value_ge: "is_digit b \<Longrightarrow> b \<noteq> 0x30 \<Longrightarrow> 10 ^ length d \<le> run_value (b # d)"
proof -
  assume "is_digit b" "b \<noteq> 0x30"
  then have "1 \<le> unat b - 48" by (auto simp: is_digit_range word_unat_eq_iff)
  then have "1 * 10 ^ length d \<le> (unat b - 48) * 10 ^ length d" by (intro mult_right_mono) auto
  then show ?thesis unfolding run_value_Cons by linarith
qed

lemma lex_cmp_run_value:
  "length l = length r \<Longrightarrow> \<forall>b \<in> set l \<union> set r. is_digit b \<Longrightarrow>
   lex_cmp ord_cmp l r = ord_cmp (run_value l) (run_value r)"
proof (induction l r rule: list_induct2)
  case (Cons x xs y ys)
  have lt: "run_value xs < 10 ^ length xs" "run_value ys < 10 ^ length xs"
    using run_value_less [of xs] run_value_less [of ys] Cons by auto
  have step: "a * m + u < b * m + v" if "a < b" "u < m" for a b u v m :: nat
  proof -
    have "Suc a * m \<le> b * m" using that(1) by (intro mult_right_mono) auto
    with that(2) show ?thesis by simp
  qed
  consider "unat x < unat y" | "unat y < unat x" | "x = y"
    using linorder_less_linear [of "unat x" "unat y"] by (auto simp: word_unat_eq_iff)
  then show ?case
  proof cases
    case 1
    then have "unat x - 48 < unat y - 48" using Cons.prems by (auto simp: is_digit_range)
    from step [OF this lt(1), of "run_value ys"] 1 Cons.hyps show ?thesis
      by (simp add: run_value_Cons then_with_def ord_cmp_def word_less_nat_alt)
  next
    case 2
    then have "unat y - 48 < unat x - 48" using Cons.prems by (auto simp: is_digit_range)
    from step [OF this lt(2), of "run_value xs"] 2 Cons.hyps show ?thesis
      by (auto simp add: run_value_Cons then_with_def ord_cmp_def word_less_nat_alt)
  next
    case 3
    then show ?thesis using Cons by (simp add: run_value_Cons then_with_def ord_cmp_def)
  qed
qed simp

lemma stripped_run:
  assumes "\<forall>b \<in> set d. is_digit b" and "v = dropWhile (\<lambda>b. b = 0x30) d"
  shows "\<forall>b \<in> set v. is_digit b" and "v \<noteq> [] \<Longrightarrow> 10 ^ (length v - 1) \<le> run_value v" and "run_value v < 10 ^ length v"
proof -
  show v: "\<forall>b \<in> set v. is_digit b" using assms set_dropWhileD by metis
  then show "run_value v < 10 ^ length v" by (rule run_value_less)
  assume "v \<noteq> []"
  then have "hd v \<noteq> 0x30" using assms(2) hd_dropWhile by blast
  with v \<open>v \<noteq> []\<close> show "10 ^ (length v - 1) \<le> run_value v"
    using run_value_ge [of "hd v" "tl v"] by (cases v) auto
qed

lemma shorter_run_value:
  assumes "\<forall>b \<in> set d \<union> set e. is_digit b"
    and "length (dropWhile (\<lambda>b. b = 0x30) d) < length (dropWhile (\<lambda>b. b = 0x30) e)"
  shows "run_value d < run_value e"
proof -
  let ?v = "dropWhile (\<lambda>b. b = 0x30) d" and ?w = "dropWhile (\<lambda>b. b = 0x30) e"
  have "run_value ?v < 10 ^ length ?v" using stripped_run(3) [of d] assms(1) by simp
  also have "\<dots> \<le> 10 ^ (length ?w - 1)" using assms(2) by (intro power_increasing) auto
  also have "\<dots> \<le> run_value ?w" 
  proof (rule stripped_run(2) [OF _ refl])
    show "\<forall>b \<in> set e. is_digit b" using assms(1) by blast
    show "?w \<noteq> []" using assms(2) by (metis less_nat_zero_code list.size(3))
  qed
  finally show ?thesis by (simp add: run_value_zeros)
qed

section \<open>The order of names\<close>

text \<open>(C31) The comparison of names is the total order the code promises, whatever Unicode table is
  used: two names compare equal only when they are the same bytes, swapping them reverses the
  answer, and it is transitive. So sorting is deterministic: two sorted arrangements of the same
  names are the same list.\<close>

theorem natural_total_order:
  assumes "case_table lower"
  shows "(natural_compare lower x y = Equal \<longleftrightarrow> x = y) \<and>
    natural_compare lower x y = reverse (natural_compare lower y x) \<and>
    (natural_compare lower x y \<noteq> Greater \<longrightarrow> natural_compare lower y z \<noteq> Greater \<longrightarrow>
      natural_compare lower x z \<noteq> Greater) \<and>
    (sorted_wrt (\<lambda>a b. natural_compare lower a b \<noteq> Greater) xs \<longrightarrow>
      sorted_wrt (\<lambda>a b. natural_compare lower a b \<noteq> Greater) ys \<longrightarrow> mset xs = mset ys \<longrightarrow> xs = ys)"
proof -
  obtain t where "lower = Rep_case_folding t" using case_folding_obtain [OF assms] by metis
  then show ?thesis
    using natural.cmp_self [of t x] natural.cmp_Equal [of t x y] natural.cmp_reverse [of t x y]
      natural.cmp_trans [of t x y z] natural.sorted_unique [of t xs ys] by blast
qed

text \<open>Three host names with an ASCII table: \<open>h2\<close>, \<open>H10\<close> and \<open>h010\<close> come in this order.\<close>

theorem natural_total_order_witness:
  "let h2 = [0x68, 0x32]; h10 = [0x48, 0x31, 0x30]; h010 = [0x68, 0x30, 0x31, 0x30]
   in case_table ascii_lower \<and>
      natural_compare ascii_lower h2 h10 = Less \<and> natural_compare ascii_lower h10 h010 = Less \<and>
      natural_compare ascii_lower h2 h010 \<noteq> Greater \<and> natural_compare ascii_lower h10 h2 = Greater"
proof -
  have *: "natural_compare ascii_lower [0x68, 0x32] [0x48, 0x31, 0x30] = Less"
    "natural_compare ascii_lower [0x48, 0x31, 0x30] [0x68, 0x30, 0x31, 0x30] = Less"
    by (simp_all add: natural_compare_def natural_loop_chars natural_loop_digits natural_loop.simps [of _ "[]" "[]"]
        starts_with_digit_def is_digit_def split_char_def utf8_char_len_def code_point_def ascii_lower_def
        compare_digit_runs_def then_with_def ord_cmp_def)
  show ?thesis
    using natural_total_order [OF case_table_ascii, of "[0x48, 0x31, 0x30]" "[0x68, 0x32]"]
      natural_total_order [OF case_table_ascii, of "[0x68, 0x32]" "[0x48, 0x31, 0x30]" "[0x68, 0x30, 0x31, 0x30]"]
    by (simp add: * case_table_ascii Let_def)
qed

text \<open>Comparing runs of digits without parsing them, as the code does so that no run can
  overflow, is comparing the numbers they denote; runs of the same number are ordered by their
  padding.\<close>

theorem digit_runs_by_value:
  assumes "\<forall>b \<in> set l \<union> set r. is_digit b"
  shows "compare_digit_runs l r =
    then_with (ord_cmp (run_value l) (run_value r)) (ord_cmp (length l) (length r))"
proof -
  let ?lv = "dropWhile (\<lambda>b. b = 0x30) l" and ?rv = "dropWhile (\<lambda>b. b = 0x30) r"
  have digits: "\<forall>b \<in> set ?lv \<union> set ?rv. is_digit b" using assms by (meson Un_iff set_dropWhileD)
  consider (shorter) "length ?lv < length ?rv" | (longer) "length ?rv < length ?lv" | (same) "length ?lv = length ?rv"
    by linarith
  then show ?thesis
  proof cases
    case shorter
    then have "run_value l < run_value r" using shorter_run_value assms by blast
    with shorter show ?thesis by (simp add: compare_digit_runs_def then_with_def ord_cmp_def)
  next
    case longer
    then have "run_value r < run_value l" using shorter_run_value [of r l] assms by blast
    with longer show ?thesis by (simp add: compare_digit_runs_def then_with_def ord_cmp_def)
  next
    case same
    then have "lex_cmp ord_cmp ?lv ?rv = ord_cmp (run_value l) (run_value r)"
      using lex_cmp_run_value [OF same digits] by (simp add: run_value_zeros)
    with same show ?thesis by (simp add: compare_digit_runs_def then_with_def)
  qed
qed

theorem digit_runs_by_value_witness:
  "compare_digit_runs [0x39, 0x39] [0x31, 0x30, 0x30] =
   then_with (ord_cmp (run_value [0x39, 0x39]) (run_value [0x31, 0x30, 0x30])) (ord_cmp (length [0x39, 0x39 :: u8]) (length [0x31, 0x30, 0x30 :: u8])) \<and>
   run_value [0x31, 0x30, 0x30] = 100"
  using digit_runs_by_value [of "[0x39, 0x39]" "[0x31, 0x30, 0x30]"]
  by (simp add: is_digit_def run_value_def)

end
