(* ===== verification/Btree_Map.thy ===== *)
theory Btree_Map
  imports Char_Encoding "HOL-Library.Multiset" "HOL-Library.List_Lexorder" "HOL-Library.Product_Lexorder"
begin

text \<open>
  The standard library's \<open>BTreeMap\<close>: the list of its entries in the order of the keys, which is
  what iterating over it yields. Strings are ordered by their bytes.
\<close>

type_synonym str = "u8 list"

definition bt_ok :: "('k::linorder \<times> 'v) list \<Rightarrow> bool" where
  "bt_ok m \<longleftrightarrow> sorted_wrt (<) (map fst m)"

fun bt_insert :: "'k::linorder \<Rightarrow> 'v \<Rightarrow> ('k \<times> 'v) list \<Rightarrow> ('k \<times> 'v) list" where
  "bt_insert k v [] = [(k, v)]"
| "bt_insert k v ((j, u) # m) =
     (if k < j then (k, v) # (j, u) # m
      else if k = j then (k, v) # m
      else (j, u) # bt_insert k v m)"

lemma bt_ok_simps [simp]:
  "bt_ok []"
  "bt_ok ((k, v) # m) \<longleftrightarrow> (\<forall>j \<in> fst ` set m. k < j) \<and> bt_ok m"
  by (auto simp: bt_ok_def)

lemma bt_ok_distinct: "bt_ok m \<Longrightarrow> distinct (map fst m)"
  by (simp add: bt_ok_def strict_sorted_iff)

lemma bt_ok_map_of: "bt_ok m \<Longrightarrow> (k, v) \<in> set m \<longleftrightarrow> map_of m k = Some v"
  by (auto dest: bt_ok_distinct map_of_SomeD)

lemma bt_insert_keys [simp]: "fst ` set (bt_insert k v m) = insert k (fst ` set m)"
  by (induction k v m rule: bt_insert.induct) (auto simp: image_iff)

lemma bt_insert_ok [simp]: "bt_ok m \<Longrightarrow> bt_ok (bt_insert k v m)"
  by (induction k v m rule: bt_insert.induct) auto

lemma bt_insert_map_of [simp]: "bt_ok m \<Longrightarrow> map_of (bt_insert k v m) = (map_of m)(k \<mapsto> v)"
proof (induction k v m rule: bt_insert.induct)
  case (2 k v j u m)
  then show ?case by (auto simp: fun_eq_iff)
qed simp

lemma bt_insert_set:
  "bt_ok m \<Longrightarrow> set (bt_insert k v m) = insert (k, v) {(j, u) \<in> set m. j \<noteq> k}"
proof (induction k v m rule: bt_insert.induct)
  case (2 k v j u m)
  then show ?case by (auto simp: image_iff)
qed simp

lemma bt_insert_new: "k \<notin> fst ` set m \<Longrightarrow> mset (bt_insert k v m) = add_mset (k, v) (mset m)"
  by (induction k v m rule: bt_insert.induct) auto

text \<open>A map built by inserting a list of entries, the last of equal keys winning.\<close>

definition bt_of_list :: "('k::linorder \<times> 'v) list \<Rightarrow> ('k \<times> 'v) list" where
  "bt_of_list xs = fold (\<lambda>(k, v). bt_insert k v) xs []"

lemma bt_fold_ok: "bt_ok m \<Longrightarrow> bt_ok (fold (\<lambda>(k, v). bt_insert k v) xs m)"
  by (induction xs arbitrary: m) auto

lemma bt_of_list_ok [simp]: "bt_ok (bt_of_list xs)"
  by (simp add: bt_of_list_def bt_fold_ok)

lemma bt_ok_ext:
  assumes "bt_ok m" and "bt_ok n" and "set m = set n"
  shows "m = n"
proof -
  have keys: "map fst m = map fst n"
    using assms sorted_distinct_set_unique [of "map fst m" "map fst n"] by (simp add: bt_ok_def strict_sorted_iff)
  have "inj_on fst (set m \<union> set n)"
    using assms(3) bt_ok_distinct [OF assms(1)] by (simp add: distinct_map)
  with keys show ?thesis by (rule map_inj_on)
qed

end
