(* ===== verification/Sync_Data.thy ===== *)
theory Sync_Data
  imports Btree_Map
begin

text \<open>
  The data of cloud synchronisation (\<open>nyaterm-core/src/cloud_sync\<close>, \<open>portable_snapshot\<close>):
  snapshots, the pointers to them, the state a device keeps, conflicts, and errors with their
  classification.
\<close>

section \<open>Data\<close>

record SnapshotSyncClock =
  counters :: "(str \<times> u64) list"
  legacy_revision :: "str option"

definition default_clock :: SnapshotSyncClock where
  "default_clock = \<lparr>counters = [], legacy_revision = None\<rparr>"

datatype PortableSnapshotKind = Sync | Backup

record PortableSnapshotMeta =
  m_schema_version :: u32
  m_snapshot_kind :: PortableSnapshotKind
  m_revision_id :: str
  m_device_id :: str
  m_device_name :: "str option"
  m_created_at_ms :: u64
  m_payload_hash :: str
  m_entities_hash :: "str option"
  m_sync_clock :: "SnapshotSyncClock option"
  m_app_version :: str

record RawPortableSnapshot =
  meta :: PortableSnapshotMeta
  entities :: "(str \<times> str) list"
  source_hash :: "str option"

definition source_payload_hash :: "RawPortableSnapshot \<Rightarrow> str" where
  "source_payload_hash s = (case source_hash s of Some h \<Rightarrow> h | None \<Rightarrow> m_payload_hash (meta s))"

record RemoteSyncPointer =
  p_schema_version :: u32
  p_revision_id :: str
  p_created_at_ms :: u64
  p_payload_hash :: str
  p_device_id :: str
  p_app_version :: str
  p_sync_clock :: "SnapshotSyncClock option"

record CloudSyncState =
  st_device_id :: str
  last_synced_payload_hash :: "str option"
  last_synced_content_hash :: "str option"
  last_synced_clock :: "SnapshotSyncClock option"
  last_applied_remote_revision :: "str option"
  last_checked_at_ms :: "u64 option"
  last_synced_at_ms :: "u64 option"
  last_validated_remote_revision :: "str option"
  last_full_validation_at_ms :: "u64 option"
  last_gc_attempt_at_ms :: "u64 option"

record LocalCloudSyncOptions =
  remote_dir :: str
  remote_root :: str
  o_device_id :: str
  o_device_name :: "str option"
  master_password :: str
  enabled :: bool

datatype CloudConflictKind = ContentConflict | RemoteInconsistent

record CloudEntityDiff =
  diff_entity :: str
  diff_added :: nat
  diff_removed :: nat
  diff_modified :: nat

record CloudConflictBranch =
  b_revision :: str
  b_device_id :: str
  b_device_name :: "str option"
  b_created_at_ms :: u64
  b_readable :: bool
  b_differences :: "CloudEntityDiff list"

record CloudConflictPreview =
  branches :: "CloudConflictBranch list"
  c_observed_revisions :: "str list"
  c_local_content_hash :: "str option"
  detected_at_ms :: u64
  c_provider :: str
  c_kind :: CloudConflictKind
  local_payload_hash :: str
  remote_payload_hash :: str
  remote_revision :: str
  remote_created_at_ms :: u64
  remote_device_id :: str
  recovery_revision :: "str option"
  recovery_payload_hash :: "str option"
  recovery_created_at_ms :: "u64 option"
  c_overwrite_blocked :: bool
  c_message :: str

datatype SnapshotUnreadableCause = PayloadNotAuthentic | MasterPasswordMismatch | UnknownCause

definition blocks_remote_overwrite :: "SnapshotUnreadableCause \<Rightarrow> bool" where
  "blocks_remote_overwrite c \<longleftrightarrow> c = MasterPasswordMismatch"

text \<open>Payloads that come from other crates (I/O, JSON, zip and base64 errors) are their text.\<close>

datatype PortableSnapshotError =
    MissingMasterPassword
  | CiphertextTooShort
  | UnsupportedEncryptionVersion u8
  | InvalidEncryptionEnvelope
  | Encrypt str
  | Decrypt str str
  | CorruptPayload
  | MissingMetadata
  | MissingEntity str
  | UnsupportedVersion u32
  | PayloadHashMismatch
  | EntitiesHashMismatch
  | CodecError str
  | ZipError str
  | SnapshotIo str
  | SnapshotJson str

datatype CloudStorageErrorKind =
    Dns | Connect | Tls | StorageTimeout | ConnectionReset | PermissionDenied | NotFound
  | StorageConflict | Unsupported | InvalidConfiguration | Unexpected

datatype CloudSyncError =
    Storage str str CloudStorageErrorKind
  | Http str str u16 "u64 option"
  | Authentication str str u16
  | CredentialsChanged
  | CredentialPersistence
  | Cancelled
  | GistCapacity
  | Disabled
  | AutoPullDeferred
  | LocalChangedDuringSync
  | StaleRemoteRevision
  | Conflict CloudConflictPreview
  | RemoteNewer
  | NoRemoteSnapshot
  | NoNewerRemoteSnapshot
  | SnapshotMissing str
  | RevisionMismatch str str
  | HashMismatch str str
  | ConcurrentUpdate "str option" "str option"
  | CorruptedSnapshot str str
  | RemoteSnapshotUnreadable str str nat str SnapshotUnreadableCause PortableSnapshotError
  | RemoteWriteDiverged str str nat str nat str
  | InvalidRemotePath str
  | RemoteError str
  | CreateDir str str
  | ReadFile str str
  | WriteFile str str
  | LocalStore str
  | PortableSnapshot PortableSnapshotError
  | JsonError str
  | Base64Error str
  | IoError str

fun storage_classification :: "CloudStorageErrorKind \<Rightarrow> str" where
  "storage_classification Dns = ascii ''dns''"
| "storage_classification Connect = ascii ''connect''"
| "storage_classification Tls = ascii ''tls''"
| "storage_classification StorageTimeout = ascii ''timeout''"
| "storage_classification ConnectionReset = ascii ''connection_reset''"
| "storage_classification PermissionDenied = ascii ''permission_denied''"
| "storage_classification NotFound = ascii ''not_found''"
| "storage_classification StorageConflict = ascii ''conflict''"
| "storage_classification Unsupported = ascii ''unsupported''"
| "storage_classification InvalidConfiguration = ascii ''invalid_configuration''"
| "storage_classification Unexpected = ascii ''remote''"

definition is_permanent :: "CloudStorageErrorKind \<Rightarrow> bool" where
  "is_permanent k \<longleftrightarrow> k \<in> {Tls, PermissionDenied, Unsupported, InvalidConfiguration}"

definition http_classification :: "u16 \<Rightarrow> u64 option \<Rightarrow> str" where
  "http_classification status retry =
     (if (status = 403 \<or> status = 429) \<and> retry \<noteq> None then ascii ''rate_limited''
      else if status = 401 then ascii ''authentication''
      else if status = 403 then ascii ''permission_denied''
      else if status = 404 then ascii ''not_found''
      else if status = 409 \<or> status = 412 then ascii ''conflict''
      else if status = 501 then ascii ''unsupported''
      else if status = 429 then ascii ''rate_limited''
      else if 500 \<le> status \<and> status \<le> 599 then ascii ''server''
      else ascii ''http'')"

definition classification :: "CloudSyncError \<Rightarrow> str" where
  "classification e = (case e of
     Storage _ _ k \<Rightarrow> storage_classification k
   | Authentication _ _ _ \<Rightarrow> ascii ''authentication''
   | Http _ _ status retry \<Rightarrow> http_classification status retry
   | Conflict _ \<Rightarrow> ascii ''conflict''
   | CredentialsChanged \<Rightarrow> ascii ''credentials_changed''
   | CredentialPersistence \<Rightarrow> ascii ''credential_persistence''
   | Cancelled \<Rightarrow> ascii ''cancelled''
   | GistCapacity \<Rightarrow> ascii ''gist_capacity''
   | LocalChangedDuringSync \<Rightarrow> ascii ''local_changed''
   | StaleRemoteRevision \<Rightarrow> ascii ''stale_remote''
   | IoError _ \<Rightarrow> ascii ''io''
   | LocalStore _ \<Rightarrow> ascii ''store''
   | PortableSnapshot _ \<Rightarrow> ascii ''snapshot''
   | _ \<Rightarrow> ascii ''sync'')"

text \<open>In seconds.\<close>

definition retry_after :: "CloudSyncError \<Rightarrow> u64 option" where
  "retry_after e = (case e of Http _ _ _ retry \<Rightarrow> retry | _ \<Rightarrow> None)"

end
