(* ===== verification/Sync_Clock.thy ===== *)
theory Sync_Clock
  imports Sync_Data
begin

text \<open>
  The causal clocks of snapshots (\<open>portable_snapshot/sync_clock.rs\<close>), the choice among the heads
  that devices published (\<open>cloud_sync/heads.rs\<close>), the decisions taken from them (\<open>mod.rs\<close>), and
  the plan of the garbage collector (\<open>gc.rs\<close>).
\<close>

section \<open>Clocks\<close>

definition count_of :: "SnapshotSyncClock \<Rightarrow> str \<Rightarrow> u64" where
  "count_of c device = (case map_of (counters c) device of Some n \<Rightarrow> n | None \<Rightarrow> 0)"

definition strictly_dominates :: "SnapshotSyncClock \<Rightarrow> SnapshotSyncClock \<Rightarrow> bool" where
  "strictly_dominates self other \<longleftrightarrow>
     list_all (\<lambda>(device, n). n \<le> count_of self device) (counters other) \<and>
     list_ex (\<lambda>(device, n). count_of other device < n) (counters self)"

definition merge_counter :: "str \<times> u64 \<Rightarrow> (str \<times> u64) list \<Rightarrow> (str \<times> u64) list" where
  "merge_counter e m = (case e of (device, n) \<Rightarrow>
     (case map_of m device of
        Some current \<Rightarrow> bt_insert device (max current n) m
      | None \<Rightarrow> bt_insert device n m))"

definition merge_clock :: "SnapshotSyncClock \<Rightarrow> SnapshotSyncClock \<Rightarrow> SnapshotSyncClock" where
  "merge_clock self other =
     \<lparr>counters = fold merge_counter (counters other) (counters self),
      legacy_revision = (if legacy_revision self = None then legacy_revision other else legacy_revision self)\<rparr>"

section \<open>Heads\<close>

definition MAX_DEVICES :: nat where "MAX_DEVICES = 256"

definition validate_clock :: "SnapshotSyncClock \<Rightarrow> CloudSyncError + unit" where
  "validate_clock c =
     (if counters c = [] \<or> length (counters c) > MAX_DEVICES \<or>
         list_ex (\<lambda>(device, n). device = [] \<or> length device > 256 \<or> n = 0) (counters c)
      then Inl (RemoteError (ascii ''invalid cloud sync causal clock''))
      else Inr ())"

definition dominates :: "RemoteSyncPointer \<Rightarrow> RemoteSyncPointer \<Rightarrow> bool" where
  "dominates new old = (case p_sync_clock new of
     None \<Rightarrow> False
   | Some n \<Rightarrow> (case p_sync_clock old of
       Some c \<Rightarrow> strictly_dominates n c
     | None \<Rightarrow> legacy_revision n = Some (p_revision_id old)))"

record RemoteHeads =
  compatibility :: "RemoteSyncPointer option"
  selected :: "RemoteSyncPointer option"
  concurrent :: bool
  heads :: "RemoteSyncPointer list"

definition maximal_heads :: "RemoteSyncPointer list \<Rightarrow> RemoteSyncPointer list" where
  "maximal_heads hs = filter (\<lambda>h. \<not> list_ex (\<lambda>other. dominates other h) hs) hs"

definition maximal :: "RemoteHeads \<Rightarrow> RemoteSyncPointer list" where
  "maximal r = maximal_heads (heads r)"

definition observed_revisions :: "RemoteHeads \<Rightarrow> str list" where
  "observed_revisions r = sort (map p_revision_id (maximal r))"

definition next_clock :: "RemoteHeads \<Rightarrow> SnapshotSyncClock option \<Rightarrow> str \<Rightarrow> CloudSyncError + SnapshotSyncClock" where
  "next_clock r previous device =
     (let c0 = (case previous of Some c \<Rightarrow> c | None \<Rightarrow> default_clock);
          c1 = fold (\<lambda>h c. case p_sync_clock h of Some other \<Rightarrow> merge_clock c other | None \<Rightarrow> c) (heads r) c0;
          c2 = (case compatibility r of
                  Some h \<Rightarrow> if p_sync_clock h = None then c1\<lparr>legacy_revision := Some (p_revision_id h)\<rparr> else c1
                | None \<Rightarrow> c1);
          n = count_of c2 device
      in if unat n = 2 ^ 64 - 1 then Inl (RemoteError (ascii ''cloud sync device counter exhausted''))
         else let c3 = c2\<lparr>counters := bt_insert device (n + 1) (counters c2)\<rparr>
              in rbind (validate_clock c3) (\<lambda>_. Inr c3))"

text \<open>The heads read from a remote, without the reads: one pointer per revision in the order of
  the revisions, two different pointers for one revision being an error; among the maximal ones
  the shared pointer's is selected, else the last.\<close>

fun unique_heads ::
  "RemoteSyncPointer list \<Rightarrow> (str \<times> RemoteSyncPointer) list \<Rightarrow>
   CloudSyncError + (str \<times> RemoteSyncPointer) list" where
  "unique_heads [] m = Inr m"
| "unique_heads (h # hs) m =
     (case map_of m (p_revision_id h) of
        Some previous \<Rightarrow>
          if previous \<noteq> h
          then Inl (RemoteError (ascii ''conflicting metadata for the same cloud revision''))
          else unique_heads hs (bt_insert (p_revision_id h) h m)
      | None \<Rightarrow> unique_heads hs (bt_insert (p_revision_id h) h m))"

definition select_head :: "RemoteSyncPointer option \<Rightarrow> RemoteSyncPointer list \<Rightarrow> RemoteSyncPointer option" where
  "select_head shared mx =
     (case (case shared of
              Some latest \<Rightarrow> find (\<lambda>h. p_revision_id h = p_revision_id latest) mx
            | None \<Rightarrow> None) of
        Some h \<Rightarrow> Some h
      | None \<Rightarrow> if mx = [] then None else Some (last mx))"

definition choose_heads ::
  "RemoteSyncPointer list \<Rightarrow> RemoteSyncPointer option \<Rightarrow> CloudSyncError + RemoteHeads" where
  "choose_heads device_heads shared =
     rbind (unique_heads (device_heads @ (case shared of Some p \<Rightarrow> [p] | None \<Rightarrow> [])) [])
       (\<lambda>unique.
          let hs = map snd unique; mx = maximal_heads hs
          in Inr \<lparr>compatibility = shared, selected = select_head shared mx,
                  concurrent = (1 < length mx), heads = hs\<rparr>)"

section \<open>Decisions\<close>

datatype CloudRemoteCheckDecision = UpToDate | LocalChanged | AutoPull | RemoteAvailable | DecideConflict

definition check_decision :: "bool \<Rightarrow> bool \<Rightarrow> bool \<Rightarrow> CloudRemoteCheckDecision" where
  "check_decision remote_changed local_changed allow_auto_pull =
     (if remote_changed \<and> local_changed then DecideConflict
      else if remote_changed then (if allow_auto_pull then AutoPull else RemoteAvailable)
      else if local_changed then LocalChanged
      else UpToDate)"

definition decide_cloud_remote_check ::
  "CloudSyncState \<Rightarrow> str \<Rightarrow> RemoteSyncPointer \<Rightarrow> bool \<Rightarrow> CloudRemoteCheckDecision" where
  "decide_cloud_remote_check state local_hash remote allow_auto_pull =
     (if p_payload_hash remote = local_hash then UpToDate
      else check_decision (last_applied_remote_revision state \<noteq> Some (p_revision_id remote))
             (last_synced_payload_hash state \<noteq> Some local_hash) allow_auto_pull)"

definition local_content_changed :: "CloudSyncState \<Rightarrow> str \<Rightarrow> bool" where
  "local_content_changed state content_hash \<longleftrightarrow> last_synced_content_hash state \<noteq> Some content_hash"

definition remote_precedes_baseline :: "CloudSyncState \<Rightarrow> RemoteSyncPointer \<Rightarrow> bool" where
  "remote_precedes_baseline state p = (case last_synced_clock state of
     Some baseline \<Rightarrow> (case p_sync_clock p of
         Some remote \<Rightarrow> strictly_dominates baseline remote
       | None \<Rightarrow> legacy_revision baseline = Some (p_revision_id p))
   | None \<Rightarrow> False)"

definition remote_concurrent_with_baseline :: "CloudSyncState \<Rightarrow> RemoteSyncPointer \<Rightarrow> bool" where
  "remote_concurrent_with_baseline state p =
     (if last_applied_remote_revision state = Some (p_revision_id p) then False
      else case last_synced_clock state of
        Some baseline \<Rightarrow> (case p_sync_clock p of
            Some remote \<Rightarrow> \<not> strictly_dominates baseline remote \<and> \<not> strictly_dominates remote baseline
          | None \<Rightarrow> \<not> remote_precedes_baseline state p)
      | None \<Rightarrow> False)"

definition normalized_state :: "CloudSyncState \<Rightarrow> str \<Rightarrow> CloudSyncState" where
  "normalized_state state device =
     (if str_trim (st_device_id state) = [] then state\<lparr>st_device_id := device\<rparr> else state)"

section \<open>Garbage collection plan\<close>

record SnapshotGcEntry =
  g_path :: str
  g_revision_id :: str
  g_created_at_ms :: u64
  g_deletable :: bool

definition SYNC_SNAPSHOT_KEEP_RECENT :: nat where "SYNC_SNAPSHOT_KEEP_RECENT = 5"

text \<open>In milliseconds.\<close>

definition SYNC_SNAPSHOT_GC_GRACE_PERIOD :: nat where
  "SYNC_SNAPSHOT_GC_GRACE_PERIOD = 24 * 60 * 60 * 1000"

definition u64_saturating_sub :: "u64 \<Rightarrow> u64 \<Rightarrow> u64" where
  "u64_saturating_sub a b = (if b \<le> a then a - b else 0)"

definition grace_ms :: "nat \<Rightarrow> u64" where
  "grace_ms grace_period = (if grace_period < 2 ^ 64 then word_of_nat grace_period else - 1)"

definition plan_snapshot_gc ::
  "SnapshotGcEntry list \<Rightarrow> str option \<Rightarrow> u64 \<Rightarrow> nat \<Rightarrow> nat \<Rightarrow> str list" where
  "plan_snapshot_gc snapshots latest_revision now keep_recent grace_period =
     (let sorted_snapshots = sort_key g_created_at_ms snapshots;
          protected = (case latest_revision of Some r \<Rightarrow> [r] | None \<Rightarrow> [])
            @ map g_revision_id (take keep_recent (rev sorted_snapshots))
      in map g_path
           (filter (\<lambda>s. u64_saturating_sub now (g_created_at_ms s) > grace_ms grace_period)
             (filter (\<lambda>s. g_revision_id s \<notin> set protected)
               (filter g_deletable sorted_snapshots))))"

definition causally_collectable :: "RawPortableSnapshot \<Rightarrow> SnapshotSyncClock list \<Rightarrow> bool" where
  "causally_collectable s clocks = (case m_sync_clock (meta s) of
     None \<Rightarrow> True
   | Some candidate \<Rightarrow> list_ex (\<lambda>c. strictly_dominates c candidate) clocks)"

text \<open>\<open>str::strip_suffix\<close>, and the revision named by the path of a snapshot.\<close>

definition strip_suffix :: "str \<Rightarrow> str \<Rightarrow> str option" where
  "strip_suffix suffix s = map_option rev (strip_prefix (rev suffix) (rev s))"

definition snapshot_revision_from_path :: "str \<Rightarrow> str option" where
  "snapshot_revision_from_path path =
     (case strip_suffix (ascii ''.redb.enc'') (last (split_on 0x2F path)) of
        Some revision \<Rightarrow> if revision = [] then None else Some revision
      | None \<Rightarrow> None)"

section \<open>The order of clocks\<close>

definition clock_ok :: "SnapshotSyncClock \<Rightarrow> bool" where
  "clock_ok c \<longleftrightarrow> bt_ok (counters c)"

lemma count_of_entry: "clock_ok c \<Longrightarrow> (d, n) \<in> set (counters c) \<Longrightarrow> count_of c d = n"
  by (simp add: clock_ok_def bt_ok_map_of count_of_def)

lemma count_of_pos: "0 < count_of c d \<Longrightarrow> (d, count_of c d) \<in> set (counters c)"
  by (auto simp: count_of_def map_of_SomeD split: option.splits)

text \<open>Domination is the strict product order of the counters.\<close>

lemma strictly_dominates_iff:
  assumes "clock_ok a" and "clock_ok b"
  shows "strictly_dominates a b \<longleftrightarrow> (\<forall>d. count_of b d \<le> count_of a d) \<and> (\<exists>d. count_of b d < count_of a d)"
proof -
  have "list_all (\<lambda>(d, n). n \<le> count_of a d) (counters b) \<longleftrightarrow> (\<forall>d. count_of b d \<le> count_of a d)"
  proof
    assume all: "list_all (\<lambda>(d, n). n \<le> count_of a d) (counters b)"
    show "\<forall>d. count_of b d \<le> count_of a d"
    proof
      fix d
      show "count_of b d \<le> count_of a d"
        using all count_of_pos [of b d] by (cases "count_of b d = 0") (auto simp: list_all_iff word_neq_0_conv)
    qed
  next
    assume "\<forall>d. count_of b d \<le> count_of a d"
    then show "list_all (\<lambda>(d, n). n \<le> count_of a d) (counters b)"
      using count_of_entry [OF assms(2)] by (fastforce simp: list_all_iff)
  qed
  moreover have "list_ex (\<lambda>(d, n). count_of b d < n) (counters a) \<longleftrightarrow> (\<exists>d. count_of b d < count_of a d)"
  proof
    assume "list_ex (\<lambda>(d, n). count_of b d < n) (counters a)"
    then show "\<exists>d. count_of b d < count_of a d"
      using count_of_entry [OF assms(1)] by (fastforce simp: list_ex_iff)
  next
    assume "\<exists>d. count_of b d < count_of a d"
    then obtain d where d: "count_of b d < count_of a d" by blast
    then have "0 < count_of a d" by (metis word_gt_0 word_not_simps(1))
    with d show "list_ex (\<lambda>(d, n). count_of b d < n) (counters a)"
      using count_of_pos [of a d] by (force simp: list_ex_iff)
  qed
  ultimately show ?thesis by (simp add: strictly_dominates_def)
qed

lemma strictly_dominates_irrefl: "clock_ok c \<Longrightarrow> \<not> strictly_dominates c c"
  by (simp add: strictly_dominates_iff)

lemma strictly_dominates_trans:
  assumes "clock_ok a" "clock_ok b" "clock_ok c" "strictly_dominates a b" "strictly_dominates b c"
  shows "strictly_dominates a c"
  using assms by (auto simp: strictly_dominates_iff intro: order_trans less_le_trans)

text \<open>What a causal order gives: among finitely many versions each has a newest one above it.\<close>

locale causal_order =
  fixes later :: "'a \<Rightarrow> 'a \<Rightarrow> bool" and valid :: "'a \<Rightarrow> bool"
  assumes later_irrefl: "valid x \<Longrightarrow> \<not> later x x"
    and later_trans: "valid x \<Longrightarrow> valid y \<Longrightarrow> valid z \<Longrightarrow> later x y \<Longrightarrow> later y z \<Longrightarrow> later x z"
begin

lemma later_asym: "valid x \<Longrightarrow> valid y \<Longrightarrow> later x y \<Longrightarrow> \<not> later y x"
  using later_irrefl later_trans by blast

lemma newest_above:
  assumes "finite S" and "\<forall>x \<in> S. valid x" and "x \<in> S"
  shows "\<exists>m \<in> S. (m = x \<or> later m x) \<and> (\<forall>y \<in> S. \<not> later y m)"
proof -
  let ?above = "\<lambda>x. {y \<in> S. later y x}"
  have "\<exists>m \<in> S. (m = x \<or> later m x) \<and> (\<forall>y \<in> S. \<not> later y m)" if "x \<in> S" for x
    using that
  proof (induction "card (?above x)" arbitrary: x rule: less_induct)
    case less
    show ?case
    proof (cases "?above x = {}")
      case True
      with less.prems show ?thesis by blast
    next
      case False
      then obtain y where y: "y \<in> S" "later y x" by blast
      have "?above y \<subset> ?above x"
        using y less.prems assms(2) later_irrefl later_trans by blast
      then have "card (?above y) < card (?above x)" using assms(1) by (intro psubset_card_mono) auto
      from less.hyps [OF this y(1)] obtain m where
        m: "m \<in> S" "m = y \<or> later m y" "\<forall>z \<in> S. \<not> later z m" by blast
      then have "later m x" using y less.prems assms(2) later_trans by blast
      with m show ?thesis by blast
    qed
  qed
  from this [OF assms(3)] show ?thesis .
qed

end

interpretation clock: causal_order strictly_dominates clock_ok
  by unfold_locales (fact strictly_dominates_irrefl strictly_dominates_trans)+

section \<open>Joining clocks\<close>

lemma merge_counter_ok [simp]: "bt_ok m \<Longrightarrow> bt_ok (merge_counter e m)"
  by (auto simp: merge_counter_def split: prod.split option.split)

lemma merge_counters_ok [simp]: "bt_ok m \<Longrightarrow> bt_ok (fold merge_counter xs m)"
  by (induction xs arbitrary: m) auto

definition get_count :: "(str \<times> u64) list \<Rightarrow> str \<Rightarrow> u64" where
  "get_count m d = (case map_of m d of Some n \<Rightarrow> n | None \<Rightarrow> 0)"

lemma count_of_get: "count_of c = get_count (counters c)"
  by (simp add: fun_eq_iff count_of_def get_count_def)

lemma get_count_merge_counter:
  "bt_ok m \<Longrightarrow> get_count (merge_counter (k, n) m) d = (if d = k then max (get_count m d) n else get_count m d)"
  by (auto simp: merge_counter_def get_count_def split: option.split)

lemma get_count_merge:
  assumes "bt_ok m" and "distinct (map fst xs)"
  shows "get_count (fold merge_counter xs m) d = max (get_count m d) (get_count xs d)"
  using assms
proof (induction xs arbitrary: m)
  case Nil
  then show ?case by (simp add: get_count_def)
next
  case (Cons e xs)
  obtain k n where e: "e = (k, n)" by (cases e)
  have "get_count (fold merge_counter xs (merge_counter e m)) d = max (get_count (merge_counter e m) d) (get_count xs d)"
    using Cons by simp
  also have "\<dots> = max (get_count m d) (get_count (e # xs) d)"
  proof (cases "d = k")
    case True
    have "map_of xs k = None" using Cons.prems(2) e by (simp add: map_of_eq_None_iff)
    with True e Cons.prems(1) show ?thesis by (simp add: get_count_merge_counter) (simp add: get_count_def)
  next
    case False
    with e Cons.prems(1) show ?thesis by (simp add: get_count_merge_counter) (simp add: get_count_def)
  qed
  finally show ?case by simp
qed

lemma clock_ok_merge [simp]: "clock_ok a \<Longrightarrow> clock_ok (merge_clock a b)"
  by (simp add: clock_ok_def merge_clock_def)

lemma count_of_merge:
  "clock_ok a \<Longrightarrow> clock_ok b \<Longrightarrow> count_of (merge_clock a b) d = max (count_of a d) (count_of b d)"
  unfolding count_of_get merge_clock_def clock_ok_def
  by (simp add: get_count_merge bt_ok_distinct)

definition pointer_ok :: "RemoteSyncPointer \<Rightarrow> bool" where
  "pointer_ok p \<longleftrightarrow> (\<forall>c. p_sync_clock p = Some c \<longrightarrow> clock_ok c)"

definition merge_head :: "RemoteSyncPointer \<Rightarrow> SnapshotSyncClock \<Rightarrow> SnapshotSyncClock" where
  "merge_head h c = (case p_sync_clock h of Some other \<Rightarrow> merge_clock c other | None \<Rightarrow> c)"

lemma merge_heads:
  assumes "clock_ok c" and "\<forall>h \<in> set hs. pointer_ok h"
  shows "clock_ok (fold merge_head hs c)"
    and "count_of c d \<le> count_of (fold merge_head hs c) d"
    and "h \<in> set hs \<Longrightarrow> p_sync_clock h = Some x \<Longrightarrow> count_of x d \<le> count_of (fold merge_head hs c) d"
proof -
  have "clock_ok (fold merge_head hs c) \<and> count_of c d \<le> count_of (fold merge_head hs c) d \<and>
    (\<forall>h \<in> set hs. \<forall>x. p_sync_clock h = Some x \<longrightarrow> count_of x d \<le> count_of (fold merge_head hs c) d)"
    using assms
  proof (induction hs arbitrary: c)
    case (Cons h hs)
    have ok: "clock_ok (merge_head h c)"
      using Cons.prems by (auto simp: merge_head_def pointer_ok_def split: option.split)
    have le: "count_of c d \<le> count_of (merge_head h c) d"
      "\<And>x. p_sync_clock h = Some x \<Longrightarrow> count_of x d \<le> count_of (merge_head h c) d"
      using Cons.prems by (auto simp: merge_head_def pointer_ok_def count_of_merge split: option.split)
    show ?case using Cons.IH [OF ok] Cons.prems le by (auto intro: order_trans)
  qed simp
  then show "clock_ok (fold merge_head hs c)" "count_of c d \<le> count_of (fold merge_head hs c) d"
    "h \<in> set hs \<Longrightarrow> p_sync_clock h = Some x \<Longrightarrow> count_of x d \<le> count_of (fold merge_head hs c) d" by blast+
qed

definition joined_clock :: "RemoteHeads \<Rightarrow> SnapshotSyncClock option \<Rightarrow> SnapshotSyncClock" where
  "joined_clock r previous =
     fold merge_head (heads r) (case previous of Some c \<Rightarrow> c | None \<Rightarrow> default_clock)"

lemma next_clock_Inr:
  assumes "next_clock r previous device = Inr c"
  shows "let j = joined_clock r previous; n = count_of j device in
    unat n < 2 ^ 64 - 1 \<and> counters c = bt_insert device (n + 1) (counters j) \<and>
    (\<forall>h. compatibility r = Some h \<longrightarrow> p_sync_clock h = None \<longrightarrow> legacy_revision c = Some (p_revision_id h)) \<and>
    validate_clock c = Inr ()"
proof -
  have j: "fold (\<lambda>h c. case p_sync_clock h of Some other \<Rightarrow> merge_clock c other | None \<Rightarrow> c) hs c0 =
      fold merge_head hs c0" for hs c0
    by (rule arg_cong [where f = "\<lambda>f. fold f hs c0"]) (simp add: fun_eq_iff merge_head_def)
  have n: "unat n < 2 ^ 64 - 1" if "unat n \<noteq> 2 ^ 64 - 1" for n :: u64 using that unat_u64 [of n] by simp
  show ?thesis
    using assms n [of "count_of (joined_clock r previous) device"]
    by (auto simp: next_clock_def joined_clock_def j Let_def count_of_def split: if_splits option.splits)
qed

lemma u64_less_suc:
  fixes n :: u64
  assumes "unat n < 2 ^ 64 - 1"
  shows "n < n + 1"
proof -
  have "unat n + unat (1 :: u64) < 2 ^ LENGTH(64)" using assms by simp
  then have "unat (n + 1) = unat n + unat (1 :: u64)" by (simp only: unat_add_lem)
  then show ?thesis by (simp add: word_less_nat_alt)
qed

text \<open>The clock of a new snapshot is valid and later than everything the device has seen.\<close>

lemma next_clock_later:
  assumes "next_clock r previous device = Inr c"
    and "\<forall>h \<in> set (heads r). pointer_ok h" and "\<forall>x. previous = Some x \<longrightarrow> clock_ok x"
  shows "clock_ok c" and "validate_clock c = Inr ()"
    and "previous = Some x \<Longrightarrow> strictly_dominates c x"
    and "h \<in> set (heads r) \<Longrightarrow> p_sync_clock h = Some x \<Longrightarrow> strictly_dominates c x"
proof -
  let ?c0 = "case previous of Some c \<Rightarrow> c | None \<Rightarrow> default_clock"
  let ?j = "joined_clock r previous"
  have c0: "clock_ok ?c0" using assms(3) by (auto simp: default_clock_def clock_ok_def split: option.split)
  note m = merge_heads [OF c0 assms(2), folded joined_clock_def]
  note nc = next_clock_Inr [OF assms(1), unfolded Let_def]
  show ok: "clock_ok c" using nc m(1) by (simp add: clock_ok_def)
  show "validate_clock c = Inr ()" using nc by simp
  have cnt: "count_of c d = (if d = device then count_of ?j device + 1 else count_of ?j d)" for d
    using nc m(1) by (simp add: count_of_get clock_ok_def) (simp add: get_count_def)
  have up: "count_of ?j device < count_of ?j device + 1"
    using nc by (intro u64_less_suc) simp
  have dom: "strictly_dominates c x" if "clock_ok x" "\<And>d. count_of x d \<le> count_of ?j d" for x
  proof -
    have "\<forall>d. count_of x d \<le> count_of c d"
      using that(2) order_trans [OF that(2) less_imp_le [OF up]] by (simp add: cnt)
    moreover have "count_of x device < count_of c device"
      using le_less_trans [OF that(2) up] by (simp add: cnt)
    ultimately show ?thesis unfolding strictly_dominates_iff [OF ok that(1)] by blast
  qed
  show "previous = Some x \<Longrightarrow> strictly_dominates c x"
    using dom assms(3) m(2) by simp
  show "h \<in> set (heads r) \<Longrightarrow> p_sync_clock h = Some x \<Longrightarrow> strictly_dominates c x"
    using dom assms(2) m(3) by (auto simp: pointer_ok_def)
qed

section \<open>Choosing among heads\<close>

lemma unique_heads_Inr:
  assumes "unique_heads hs m = Inr u" and "bt_ok m" and "\<forall>(k, h) \<in> set m. k = p_revision_id h"
  shows "bt_ok u" and "\<forall>(k, h) \<in> set u. k = p_revision_id h" and "snd ` set u = snd ` set m \<union> set hs"
proof -
  have "bt_ok u \<and> (\<forall>(k, h) \<in> set u. k = p_revision_id h) \<and> snd ` set u = snd ` set m \<union> set hs"
    using assms
  proof (induction hs m rule: unique_heads.induct)
    case (2 h hs m)
    let ?m = "bt_insert (p_revision_id h) h m"
    have rec: "unique_heads hs ?m = Inr u" and same: "map_of m (p_revision_id h) = Some h \<or> map_of m (p_revision_id h) = None"
      using "2.prems"(1) by (auto split: option.splits if_splits)
    have keys: "\<forall>(k, g) \<in> set ?m. k = p_revision_id g"
      using "2.prems"(2,3) by (auto simp: bt_insert_set)
    have "snd ` set ?m = insert h (snd ` set m)"
    proof -
      have "g \<in> insert h (snd ` {(j, u) \<in> set m. j \<noteq> p_revision_id h})" if "(k, g) \<in> set m" for k g
        using that same "2.prems"(2) by (cases "k = p_revision_id h") (force simp: bt_ok_map_of)+
      then show ?thesis unfolding bt_insert_set [OF "2.prems"(2)] by (force simp del: mem_Collect_eq)
    qed
    moreover have "bt_ok u \<and> (\<forall>(k, h) \<in> set u. k = p_revision_id h) \<and> snd ` set u = snd ` set ?m \<union> set hs"
      using same
    proof
      assume "map_of m (p_revision_id h) = Some h"
      from "2.IH"(2) [OF this _ rec _ keys] "2.prems"(2) show ?thesis by simp
    next
      assume "map_of m (p_revision_id h) = None"
      from "2.IH"(1) [OF this rec _ keys] "2.prems"(2) show ?thesis by simp
    qed
    ultimately show ?case by auto
  qed auto
  then show "bt_ok u" "\<forall>(k, h) \<in> set u. k = p_revision_id h" "snd ` set u = snd ` set m \<union> set hs" by blast+
qed

lemma maximal_heads_iff: "h \<in> set (maximal_heads hs) \<longleftrightarrow> h \<in> set hs \<and> (\<forall>o' \<in> set hs. \<not> dominates o' h)"
  by (auto simp: maximal_heads_def list_ex_iff)

text \<open>Every head is maximal or, through a chain of dominations, behind a maximal one.\<close>

lemma maximal_above:
  assumes "\<forall>h \<in> set hs. pointer_ok h" and "h \<in> set hs"
  shows "\<exists>m \<in> set (maximal_heads hs). dominates\<^sup>*\<^sup>* m h"
proof -
  have timed: "\<exists>m \<in> set (maximal_heads hs). m = h \<or> dominates m h" if h: "h \<in> set hs" "p_sync_clock h = Some c" for h c
  proof -
    let ?S = "{c. \<exists>h \<in> set hs. p_sync_clock h = Some c}"
    have "?S \<subseteq> (\<lambda>h. the (p_sync_clock h)) ` set hs" by force
    then have fin: "finite ?S" by (rule finite_subset) simp
    have valid: "\<forall>x \<in> ?S. clock_ok x" using assms(1) by (auto simp: pointer_ok_def)
    obtain m where m: "m \<in> ?S" "m = c \<or> strictly_dominates m c" "\<forall>y \<in> ?S. \<not> strictly_dominates y m"
      using clock.newest_above [OF fin valid, of c] h by blast
    show ?thesis
    proof (cases "m = c")
      case True
      then have "h \<in> set (maximal_heads hs)"
        using m(3) h by (force simp: maximal_heads_iff dominates_def split: option.splits)
      then show ?thesis by blast
    next
      case False
      from m(1) obtain g where g: "g \<in> set hs" "p_sync_clock g = Some m" by blast
      then have "g \<in> set (maximal_heads hs)"
        using m(3) by (force simp: maximal_heads_iff dominates_def split: option.splits)
      moreover have "dominates g h" using g h m(2) False by (simp add: dominates_def)
      ultimately show ?thesis by blast
    qed
  qed
  show ?thesis
  proof (cases "h \<in> set (maximal_heads hs)")
    case False
    with assms(2) obtain g where g: "g \<in> set hs" "dominates g h" by (auto simp: maximal_heads_iff)
    then obtain c where "p_sync_clock g = Some c" by (auto simp: dominates_def split: option.splits)
    from timed [OF g(1) this] g(2) show ?thesis by (metis converse_rtranclp_into_rtranclp r_into_rtranclp)
  qed blast
qed

lemma choose_heads_Inr:
  assumes "choose_heads ds shared = Inr r"
  shows "compatibility r = shared" and "set (heads r) = set ds \<union> set_option shared"
    and "sorted_wrt (<) (map p_revision_id (heads r))"
    and "selected r = select_head shared (maximal r)" and "concurrent r \<longleftrightarrow> 1 < length (maximal r)"
proof -
  obtain u where u: "unique_heads (ds @ (case shared of Some p \<Rightarrow> [p] | None \<Rightarrow> [])) [] = Inr u"
    and r: "r = \<lparr>compatibility = shared, selected = select_head shared (maximal_heads (map snd u)),
      concurrent = (1 < length (maximal_heads (map snd u))), heads = map snd u\<rparr>"
    using assms by (auto simp: choose_heads_def Let_def rbind_Inr_iff)
  note uh = unique_heads_Inr [OF u]
  have keys: "map p_revision_id (map snd u) = map fst u" using uh(2) by (auto intro!: map_cong)
  show "compatibility r = shared" "selected r = select_head shared (maximal r)"
    "concurrent r \<longleftrightarrow> 1 < length (maximal r)"
    by (simp_all add: r maximal_def)
  show "set (heads r) = set ds \<union> set_option shared" using uh(3) by (auto simp: r split: option.splits)
  show "sorted_wrt (<) (map p_revision_id (heads r))" using uh(1) unfolding bt_ok_def r by (simp add: keys [symmetric])
qed

lemma select_head_cases:
  "select_head shared mx = None \<longleftrightarrow> mx = []"
  "select_head shared mx = Some h \<Longrightarrow> h \<in> set mx"
  by (auto simp: select_head_def find_Some_iff find_None_iff split: option.splits if_splits)

lemma unique_heads_total:
  assumes "bt_ok m" and "\<forall>(k, h) \<in> set m. k = p_revision_id h"
    and "\<forall>g \<in> snd ` set m \<union> set hs. \<forall>h \<in> set hs. p_revision_id g = p_revision_id h \<longrightarrow> g = h"
  shows "\<exists>u. unique_heads hs m = Inr u"
  using assms
proof (induction hs arbitrary: m)
  case (Cons h hs)
  let ?m = "bt_insert (p_revision_id h) h m"
  have keys: "\<forall>(k, g) \<in> set ?m. k = p_revision_id g" using Cons.prems(1,2) by (auto simp: bt_insert_set)
  have sub: "snd ` set ?m \<subseteq> insert h (snd ` set m)" using Cons.prems(1) by (auto simp: bt_insert_set)
  have rec: "\<exists>u. unique_heads hs ?m = Inr u"
  proof (rule Cons.IH)
    show "\<forall>g \<in> snd ` set ?m \<union> set hs. \<forall>h \<in> set hs. p_revision_id g = p_revision_id h \<longrightarrow> g = h"
    proof (intro ballI impI)
      fix g k assume "g \<in> snd ` set ?m \<union> set hs" "k \<in> set hs" "p_revision_id g = p_revision_id k"
      moreover from this have "g \<in> snd ` set m \<union> set (h # hs)" using sub by auto
      ultimately show "g = k" using Cons.prems(3) by (meson list.set_intros(2))
    qed
  qed (use Cons.prems(1) keys in auto)
  have "previous = h" if "map_of m (p_revision_id h) = Some previous" for previous
  proof -
    have "(p_revision_id h, previous) \<in> set m" using that by (rule map_of_SomeD)
    then have "previous \<in> snd ` set m" "p_revision_id previous = p_revision_id h" using Cons.prems(2) by force+
    then show ?thesis using Cons.prems(3) by (metis Un_iff list.set_intros(1))
  qed
  with rec show ?case by (auto split: option.split)
qed simp

lemma choose_heads_total:
  assumes "\<forall>g \<in> set ds \<union> set_option shared. \<forall>h \<in> set ds \<union> set_option shared. p_revision_id g = p_revision_id h \<longrightarrow> g = h"
  shows "\<exists>r. choose_heads ds shared = Inr r"
proof -
  have "\<exists>u. unique_heads (ds @ (case shared of Some p \<Rightarrow> [p] | None \<Rightarrow> [])) [] = Inr u"
    by (rule unique_heads_total) (use assms in \<open>auto split: option.split\<close>)
  then show ?thesis by (auto simp: choose_heads_def Let_def)
qed

lemma singleton_list: "distinct xs \<Longrightarrow> set xs = {x} \<Longrightarrow> xs = [x]"
proof (cases xs)
  case (Cons y ys)
  assume "distinct xs" "set xs = {x}"
  with Cons have "y = x" "set ys \<subseteq> {x}" "x \<notin> set ys" by auto
  then have "ys = []" by (cases ys) auto
  with Cons \<open>y = x\<close> show "xs = [x]" by simp
qed simp


lemma new_head_dominates:
  assumes "choose_heads ds shared = Inr r" and "\<forall>h \<in> set ds \<union> set_option shared. pointer_ok h"
    and "\<forall>h \<in> set ds. p_sync_clock h \<noteq> None" and "\<forall>x. previous = Some x \<longrightarrow> clock_ok x"
    and "next_clock r previous device = Inr c" and "p_sync_clock p = Some c"
  shows "h \<in> set (heads r) \<Longrightarrow> dominates p h" and "\<not> dominates p p" and "h \<in> set (heads r) \<Longrightarrow> \<not> dominates h p"
proof -
  note ch = choose_heads_Inr [OF assms(1)]
  have hok: "\<forall>h \<in> set (heads r). pointer_ok h" using assms(2) ch(2) by simp
  note nc = next_clock_later [OF assms(5) hok assms(4)]
  show "dominates p h" if "h \<in> set (heads r)" for h
  proof (cases "p_sync_clock h")
    case None
    with that assms(3) ch(1,2) have "compatibility r = Some h" by auto
    with None assms(6) next_clock_Inr [OF assms(5), unfolded Let_def] show ?thesis by (simp add: dominates_def)
  next
    case (Some x)
    with assms(6) nc(4) [OF that] show ?thesis by (simp add: dominates_def)
  qed
  show "\<not> dominates p p" using assms(6) nc(1) by (simp add: dominates_def strictly_dominates_irrefl)
  show "\<not> dominates h p" if "h \<in> set (heads r)" for h
  proof (cases "p_sync_clock h")
    case (Some x)
    have "clock_ok x" using hok that Some by (auto simp: pointer_ok_def)
    then show ?thesis using Some assms(6) nc(1) nc(4) [OF that Some] clock.later_asym by (simp add: dominates_def)
  qed (simp add: dominates_def)
qed

text \<open>(C14) A new snapshot supersedes all a device has seen: its clock is valid, it is later than
  the device's own baseline and than every head that was read, counters never wrap, and as long
  as nobody else publishes, whoever reads the heads next selects it without a conflict, whether or
  not the shared pointer and the older heads have been overwritten yet.\<close>

theorem next_clock_supersedes:
  assumes "choose_heads ds shared = Inr r" and "\<forall>h \<in> set ds \<union> set_option shared. pointer_ok h"
    and "\<forall>h \<in> set ds. p_sync_clock h \<noteq> None" and "\<forall>x. previous = Some x \<longrightarrow> clock_ok x"
    and "next_clock r previous device = Inr c" and "p_sync_clock p = Some c"
    and "\<forall>h \<in> set ds \<union> set_option shared. p_revision_id h \<noteq> p_revision_id p"
    and "p \<in> set ds'" and "set ds' \<subseteq> insert p (set ds)" and "shared' \<in> {shared, Some p, None}"
  shows "clock_ok c \<and> validate_clock c = Inr () \<and> (\<forall>x. previous = Some x \<longrightarrow> strictly_dominates c x) \<and>
    (\<forall>h \<in> set (heads r). dominates p h) \<and>
    (\<exists>r'. choose_heads ds' shared' = Inr r' \<and> selected r' = Some p \<and> \<not> concurrent r' \<and> maximal r' = [p])"
proof -
  note ch = choose_heads_Inr [OF assms(1)]
  have hok: "\<forall>h \<in> set (heads r). pointer_ok h" using assms(2) ch(2) by simp
  note nc = next_clock_later [OF assms(5) hok assms(4)]
  note d = new_head_dominates [OF assms(1-6)]
  have all: "set ds' \<union> set_option shared' \<subseteq> insert p (set (heads r))"
    using assms(9,10) ch(2) by (auto split: if_splits)
  have inj: "g = h" if "g \<in> set (heads r)" "h \<in> set (heads r)" "p_revision_id g = p_revision_id h" for g h
    using ch(3) that by (metis distinct_map inj_onD strict_sorted_iff)
  have uniq: "g = h" if "g \<in> insert p (set (heads r))" "h \<in> insert p (set (heads r))" "p_revision_id g = p_revision_id h" for g h
    using that inj assms(7) ch(2) by (metis insert_iff)
  obtain r' where r': "choose_heads ds' shared' = Inr r'"
  proof -
    have "\<exists>r'. choose_heads ds' shared' = Inr r'"
    proof (intro choose_heads_total ballI impI)
      fix g h assume "g \<in> set ds' \<union> set_option shared'" "h \<in> set ds' \<union> set_option shared'" "p_revision_id g = p_revision_id h"
      then show "g = h" by (intro uniq subsetD [OF all])
    qed
    with that show ?thesis by blast
  qed
  note c' = choose_heads_Inr [OF r']
  have hs': "p \<in> set (heads r')" "set (heads r') \<subseteq> insert p (set (heads r))" using c'(2) all assms(8) by auto
  have "set (maximal r') = {p}"
  proof -
    have "h \<in> set (maximal r') \<longleftrightarrow> h = p" for h
      unfolding maximal_def maximal_heads_iff using hs' d by blast
    then show ?thesis by blast
  qed
  moreover have "distinct (maximal r')"
    using c'(3) by (simp add: maximal_def maximal_heads_def strict_sorted_iff distinct_map)
  ultimately have mx: "maximal r' = [p]" by (intro singleton_list)
  then have sel: "selected r' = Some p" "\<not> concurrent r'"
    using c'(4,5) select_head_cases [of shared' "[p]"] by (auto simp: select_head_def split: option.splits if_splits)
  from r' mx sel have "\<exists>r'. choose_heads ds' shared' = Inr r' \<and> selected r' = Some p \<and> \<not> concurrent r' \<and> maximal r' = [p]"
    by blast
  with nc(1-3) d(1) show ?thesis by blast
qed

text \<open>Two devices that published concurrently after a first, clockless snapshot.\<close>

definition head_ex :: "string \<Rightarrow> SnapshotSyncClock option \<Rightarrow> RemoteSyncPointer" where
  "head_ex r c = \<lparr>p_schema_version = 3, p_revision_id = ascii r, p_created_at_ms = 0, p_payload_hash = [],
     p_device_id = ascii r, p_app_version = [], p_sync_clock = c\<rparr>"

definition clock_ex :: "(string \<times> u64) list \<Rightarrow> string option \<Rightarrow> SnapshotSyncClock" where
  "clock_ex m l = \<lparr>counters = map (\<lambda>(d, n). (ascii d, n)) m, legacy_revision = map_option ascii l\<rparr>"

lemmas sync_ex_defs = head_ex_def clock_ex_def ascii_def pointer_ok_def clock_ok_def choose_heads_def
  maximal_heads_def maximal_def dominates_def strictly_dominates_def count_of_def select_head_def

lemma heads_ex_chosen:
  "choose_heads [head_ex ''b'' (Some (clock_ex [(''B'', 1)] (Some ''a''))),
      head_ex ''c'' (Some (clock_ex [(''C'', 1)] (Some ''a'')))] (Some (head_ex ''a'' None)) =
   Inr \<lparr>compatibility = Some (head_ex ''a'' None),
        selected = Some (head_ex ''c'' (Some (clock_ex [(''C'', 1)] (Some ''a'')))), concurrent = True,
        heads = [head_ex ''a'' None, head_ex ''b'' (Some (clock_ex [(''B'', 1)] (Some ''a''))),
          head_ex ''c'' (Some (clock_ex [(''C'', 1)] (Some ''a'')))]\<rparr>"
  by (simp add: sync_ex_defs)


lemma next_clock_ex:
  "next_clock \<lparr>compatibility = Some (head_ex ''a'' None),
        selected = Some (head_ex ''c'' (Some (clock_ex [(''C'', 1)] (Some ''a'')))), concurrent = True,
        heads = [head_ex ''a'' None, head_ex ''b'' (Some (clock_ex [(''B'', 1)] (Some ''a''))),
          head_ex ''c'' (Some (clock_ex [(''C'', 1)] (Some ''a'')))]\<rparr> None (ascii ''B'') =
   Inr (clock_ex [(''B'', 2), (''C'', 1)] (Some ''a''))"
  by (simp add: next_clock_def sync_ex_defs default_clock_def merge_clock_def merge_counter_def
      validate_clock_def MAX_DEVICES_def)

text \<open>Device \<open>B\<close> resolves the conflict with a snapshot \<open>d\<close>; its own head is replaced.\<close>

theorem next_clock_supersedes_witness:
  "\<exists>r'. choose_heads [head_ex ''d'' (Some (clock_ex [(''B'', 2), (''C'', 1)] (Some ''a''))),
      head_ex ''c'' (Some (clock_ex [(''C'', 1)] (Some ''a'')))] (Some (head_ex ''a'' None)) = Inr r' \<and>
    selected r' = Some (head_ex ''d'' (Some (clock_ex [(''B'', 2), (''C'', 1)] (Some ''a'')))) \<and> \<not> concurrent r'"
  using next_clock_supersedes [OF heads_ex_chosen _ _ _ next_clock_ex,
      of "head_ex ''d'' (Some (clock_ex [(''B'', 2), (''C'', 1)] (Some ''a'')))"
         "[head_ex ''d'' (Some (clock_ex [(''B'', 2), (''C'', 1)] (Some ''a''))),
           head_ex ''c'' (Some (clock_ex [(''C'', 1)] (Some ''a'')))]" "Some (head_ex ''a'' None)"]
  by (auto simp: pointer_ok_def clock_ok_def head_ex_def clock_ex_def ascii_def)

section \<open>The plan of the garbage collector\<close>

lemma sorted_take_rev:
  assumes "sorted (map f xs)" and "s \<in> set xs" and "s \<notin> set (take k (rev xs))" and "t \<in> set (take k (rev xs))"
  shows "f s \<le> f t"
proof -
  have split: "xs = take (length xs - k) xs @ drop (length xs - k) xs" by simp
  have late: "set (take k (rev xs)) = set (drop (length xs - k) xs)" by (simp add: take_rev)
  with assms(2,3) have "s \<in> set (take (length xs - k) xs)" by (metis Un_iff set_append split)
  moreover have "t \<in> set (drop (length xs - k) xs)" using assms(4) late by simp
  moreover have "sorted (map f (take (length xs - k) xs) @ map f (drop (length xs - k) xs))"
    using assms(1) by (simp only: map_append [symmetric] append_take_drop_id)
  ultimately show ?thesis by (auto simp: sorted_append)
qed

lemma newest_count:
  assumes "s \<in> set xs" and "g s \<notin> g ` set (take k (rev (sort_key f xs)))"
  shows "k \<le> length (filter (\<lambda>t. f s \<le> f t \<and> g t \<noteq> g s) xs)"
proof -
  let ?ys = "sort_key f xs"
  let ?P = "\<lambda>t. f s \<le> f t \<and> g t \<noteq> g s"
  have notin: "s \<notin> set (take k (rev ?ys))" using assms(2) by blast
  have all: "?P t" if "t \<in> set (take k (rev ?ys))" for t
  proof
    show "f s \<le> f t" by (rule sorted_take_rev [OF _ _ notin that]) (simp_all add: assms(1))
    show "g t \<noteq> g s" using assms(2) that by (metis image_eqI)
  qed
  have "k \<le> length xs"
  proof (rule ccontr)
    assume "\<not> k \<le> length xs"
    then have "take k (rev ?ys) = rev ?ys" by simp
    with notin assms(1) show False by simp
  qed
  then have "k = length (filter ?P (take k (rev ?ys)))" using all by (simp add: filter_True)
  also have "\<dots> \<le> length (filter ?P (take k (rev ?ys)) @ filter ?P (drop k (rev ?ys)))" by simp
  also have "\<dots> = length (filter ?P (rev ?ys))" by (metis append_take_drop_id filter_append)
  also have "\<dots> = size (filter_mset ?P (mset (rev ?ys)))" by (simp add: size_mset [symmetric] del: size_mset mset_rev)
  also have "\<dots> = length (filter ?P xs)" by (simp add: size_mset [symmetric] del: size_mset)
  finally show ?thesis .
qed

text \<open>(C33) The garbage collector plans to delete a snapshot only when it was read and found
  deletable, is not the latest revision, is strictly older than the grace period (a snapshot from
  the future never is), and at least \<open>keep_recent\<close> other snapshots are as new as it is.\<close>

theorem gc_plan_safe:
  assumes "path \<in> set (plan_snapshot_gc snapshots latest now keep_recent grace)"
  shows "\<exists>s \<in> set snapshots. g_path s = path \<and> g_deletable s \<and> latest \<noteq> Some (g_revision_id s) \<and>
    (grace < unat now - unat (g_created_at_ms s)) \<and>
    keep_recent \<le> length (filter (\<lambda>t. g_created_at_ms s \<le> g_created_at_ms t \<and> g_revision_id t \<noteq> g_revision_id s) snapshots)"
proof -
  obtain s where s: "s \<in> set snapshots" "g_path s = path" "g_deletable s" "latest \<noteq> Some (g_revision_id s)"
    "g_revision_id s \<notin> g_revision_id ` set (take keep_recent (rev (sort_key g_created_at_ms snapshots)))"
    "grace_ms grace < u64_saturating_sub now (g_created_at_ms s)"
    using assms by (auto simp: plan_snapshot_gc_def Let_def split: option.splits)
  have "grace < unat now - unat (g_created_at_ms s)"
  proof -
    have g: "grace < 2 ^ 64" using s(6) by (auto simp: grace_ms_def split: if_splits)
    then have "unat (grace_ms grace) = grace" by (simp add: grace_ms_def unat_of_nat)
    moreover have "unat (grace_ms grace) < unat (u64_saturating_sub now (g_created_at_ms s))"
      using s(6) by (simp add: word_less_nat_alt)
    moreover have "unat (u64_saturating_sub now (g_created_at_ms s)) = unat now - unat (g_created_at_ms s)"
      by (auto simp: u64_saturating_sub_def unat_sub word_le_nat_alt)
    ultimately show ?thesis by simp
  qed
  with s newest_count [OF s(1,5)] show ?thesis by blast
qed

theorem gc_plan_safe_witness:
  "\<exists>s :: SnapshotGcEntry. g_path s = ascii ''old'' \<and> (9 :: nat) < unat (100 :: u64) - unat (g_created_at_ms s)"
proof -
  have "ascii ''old'' \<in> set (plan_snapshot_gc
      [\<lparr>g_path = ascii ''old'', g_revision_id = ascii ''r1'', g_created_at_ms = 1, g_deletable = True\<rparr>,
       \<lparr>g_path = ascii ''new'', g_revision_id = ascii ''r2'', g_created_at_ms = 95, g_deletable = True\<rparr>]
      (Some (ascii ''r2'')) 100 1 9)"
    by (simp add: plan_snapshot_gc_def ascii_def u64_saturating_sub_def grace_ms_def insort_key.simps)
  from gc_plan_safe [OF this] show ?thesis by meson
qed

end
