(* ===== verification/Sync_Io.thy ===== *)
theory Sync_Io
  imports Sync_Clock
begin

text \<open>
  What a synchronisation run does to the world. The remote storage (\<open>CloudSyncRemote\<close>) and the
  local store (\<open>CloudLocalStore\<close>) are reached through trait objects, here records of operations.
  A raw operation asks the environment for an answer, which may depend on everything that has
  happened before, and writes what it did to a log, newest first: so an environment is an
  arbitrary, possibly failing, stale or lying, storage that other devices write to. Another
  thread may ask to cancel the run before any access to its control (\<open>control.rs\<close>).
\<close>

section \<open>The log and the environment\<close>

datatype CloudSyncCancellation = Stopping | FinishingCommit

datatype ctl = PREPARING | CANCELLED | COMMITTING

record CloudSyncBackupInfo =
  database_path :: str
  safety_backup_path :: "str option"

record RemoteFileCapacity =
  used :: nat
  limit :: nat

record DeviceHead =
  dh_device_id :: str
  dh_committed :: "RemoteSyncPointer option"
  dh_pending_revision :: "str option"

datatype event =
    ECapacity "CloudSyncError + RemoteFileCapacity option"
  | ECreateDir str "CloudSyncError + unit"
  | ERead str "CloudSyncError + u8 list option"
  | EWrite str "u8 list" "CloudSyncError + unit"
  | EDelete str "CloudSyncError + unit"
  | EList str "CloudSyncError + str list"
  | EEncode RawPortableSnapshot str "CloudSyncError + u8 list"
  | EDecode "u8 list" str "CloudSyncError + RawPortableSnapshot"
  | EEncodePointer RemoteSyncPointer "CloudSyncError + u8 list"
  | EDecodePointer "u8 list" "CloudSyncError + RemoteSyncPointer"
  | EBuild "CloudSyncError + RawPortableSnapshot"
  | EApply RawPortableSnapshot str CloudSyncState "CloudSyncError + CloudSyncBackupInfo \<times> CloudSyncState"
  | EPersist CloudSyncState "CloudSyncError + unit"
  | EVerifyPassword str "CloudSyncError + bool option"
  | EBeforeApply "CloudSyncError + unit"
  | ENow u64
  | EUuid str
  | ECancel
  | ECommit

text \<open>The receipts of checked snapshots that a cached check keeps (\<open>cache.rs\<close>).\<close>

record ValidatedSnapshot =
  v_pointer :: RemoteSyncPointer
  v_content_hash :: str
  v_validated_at_ms :: u64
  v_local_content_hash :: str
  v_remote_has_user_content :: bool
  v_branch :: CloudConflictBranch

record CloudSyncCheckCache =
  ck_context :: "str option"
  ck_preview_set :: "RemoteSyncPointer list"
  ck_entries :: "ValidatedSnapshot list"

record world =
  past :: "event list"
  control :: ctl
  cache :: CloudSyncCheckCache

type_synonym 'a io = "world \<Rightarrow> (CloudSyncError + 'a) \<times> world"

text \<open>The environment, and the pure functions of other crates and of the schema of the
  configuration: JSON of a device head, SHA-256, the fixed projection of a snapshot, the hashes of
  its entities, whether it holds user content, the differences shown to the user, and the texts of
  errors.\<close>

record env =
  e_provider :: str
  e_capacity :: "event list \<Rightarrow> CloudSyncError + RemoteFileCapacity option"
  e_create_dir :: "event list \<Rightarrow> str \<Rightarrow> CloudSyncError + unit"
  e_read :: "event list \<Rightarrow> str \<Rightarrow> CloudSyncError + u8 list option"
  e_write :: "event list \<Rightarrow> str \<Rightarrow> u8 list \<Rightarrow> CloudSyncError + unit"
  e_delete :: "event list \<Rightarrow> str \<Rightarrow> CloudSyncError + unit"
  e_list :: "event list \<Rightarrow> str \<Rightarrow> CloudSyncError + str list"
  e_encode :: "event list \<Rightarrow> RawPortableSnapshot \<Rightarrow> str \<Rightarrow> CloudSyncError + u8 list"
  e_decode :: "event list \<Rightarrow> u8 list \<Rightarrow> str \<Rightarrow> CloudSyncError + RawPortableSnapshot"
  e_encode_pointer :: "event list \<Rightarrow> RemoteSyncPointer \<Rightarrow> CloudSyncError + u8 list"
  e_decode_pointer :: "event list \<Rightarrow> u8 list \<Rightarrow> CloudSyncError + RemoteSyncPointer"
  e_build :: "event list \<Rightarrow> CloudSyncError + RawPortableSnapshot"
  e_apply :: "event list \<Rightarrow> RawPortableSnapshot \<Rightarrow> str \<Rightarrow> CloudSyncState \<Rightarrow>
    CloudSyncError + CloudSyncBackupInfo \<times> CloudSyncState"
  e_persist :: "event list \<Rightarrow> CloudSyncState \<Rightarrow> CloudSyncError + unit"
  e_verify_password :: "event list \<Rightarrow> str \<Rightarrow> CloudSyncError + bool option"
  e_before_apply :: "event list \<Rightarrow> CloudSyncError + unit"
  e_now :: "event list \<Rightarrow> u64"
  e_uuid :: "event list \<Rightarrow> str"
  e_cancel :: "event list \<Rightarrow> bool"
  e_context :: str

record lib =
  json_head :: "DeviceHead \<Rightarrow> CloudSyncError + u8 list"
  parse_head :: "u8 list \<Rightarrow> CloudSyncError + DeviceHead"
  sha256_hex :: "u8 list \<Rightarrow> str"
  project_fixed :: "RawPortableSnapshot \<Rightarrow> PortableSnapshotError + RawPortableSnapshot"
  raw_payload_hash :: "(str \<times> str) list \<Rightarrow> PortableSnapshotError + str"
  raw_entities_hash :: "(str \<times> str) list \<Rightarrow> PortableSnapshotError + str"
  has_user_content :: "RawPortableSnapshot \<Rightarrow> bool"
  summarize :: "RawPortableSnapshot \<Rightarrow> RawPortableSnapshot \<Rightarrow> CloudEntityDiff list"
  show_error :: "CloudSyncError \<Rightarrow> str"
  show_cause :: "SnapshotUnreadableCause \<Rightarrow> str"
  show_number :: "nat \<Rightarrow> str"

section \<open>Sequencing\<close>

text \<open>\<open>tryq m f\<close> is \<open>let x = m?; f(x)\<close>; \<open>attempt m f\<close> hands the result, error or not, to \<open>f\<close>.\<close>

definition ret :: "'a \<Rightarrow> 'a io" where
  "ret x w = (Inr x, w)"

definition fail :: "CloudSyncError \<Rightarrow> 'a io" where
  "fail e w = (Inl e, w)"

definition attempt :: "'a io \<Rightarrow> (CloudSyncError + 'a \<Rightarrow> 'b io) \<Rightarrow> 'b io" where
  "attempt m f w = (case m w of (r, w') \<Rightarrow> f r w')"

definition tryq :: "'a io \<Rightarrow> ('a \<Rightarrow> 'b io) \<Rightarrow> 'b io" where
  "tryq m f = attempt m (\<lambda>r. case r of Inr x \<Rightarrow> f x | Inl e \<Rightarrow> fail e)"

definition lift :: "CloudSyncError + 'a \<Rightarrow> 'a io" where
  "lift r w = (r, w)"

primrec for_each :: "'a list \<Rightarrow> 's \<Rightarrow> ('a \<Rightarrow> 's \<Rightarrow> 's io) \<Rightarrow> 's io" where
  "for_each [] s body = ret s"
| "for_each (x # xs) s body = tryq (body x s) (\<lambda>s'. for_each xs s' body)"

section \<open>Trait objects\<close>

record remote_ops =
  r_provider :: str
  r_capacity :: "RemoteFileCapacity option io"
  r_create_dir :: "str \<Rightarrow> unit io"
  r_read :: "str \<Rightarrow> u8 list option io"
  r_write :: "str \<Rightarrow> u8 list \<Rightarrow> unit io"
  r_delete :: "str \<Rightarrow> unit io"
  r_list :: "str \<Rightarrow> str list io"

record store_ops =
  s_encode :: "RawPortableSnapshot \<Rightarrow> str \<Rightarrow> u8 list io"
  s_decode :: "u8 list \<Rightarrow> str \<Rightarrow> RawPortableSnapshot io"
  s_encode_pointer :: "RemoteSyncPointer \<Rightarrow> u8 list io"
  s_decode_pointer :: "u8 list \<Rightarrow> RemoteSyncPointer io"
  s_build :: "RawPortableSnapshot io"
  s_apply_checked :: "RawPortableSnapshot \<Rightarrow> str \<Rightarrow> CloudSyncState \<Rightarrow> (CloudSyncBackupInfo \<times> CloudSyncState) io"
  s_persist :: "CloudSyncState \<Rightarrow> unit io"
  s_verify_password :: "str \<Rightarrow> bool option io"

text \<open>A raw operation: the environment answers from the log, and the answer is logged.\<close>

definition ask :: "(event list \<Rightarrow> CloudSyncError + 'a) \<Rightarrow> (CloudSyncError + 'a \<Rightarrow> event) \<Rightarrow> 'a io" where
  "ask answer log w = (let r = answer (past w) in (r, w\<lparr>past := log r # past w\<rparr>))"

definition raw_remote :: "env \<Rightarrow> remote_ops" where
  "raw_remote E =
     \<lparr>r_provider = e_provider E,
      r_capacity = ask (e_capacity E) ECapacity,
      r_create_dir = (\<lambda>p. ask (\<lambda>t. e_create_dir E t p) (ECreateDir p)),
      r_read = (\<lambda>p. ask (\<lambda>t. e_read E t p) (ERead p)),
      r_write = (\<lambda>p b. ask (\<lambda>t. e_write E t p b) (EWrite p b)),
      r_delete = (\<lambda>p. ask (\<lambda>t. e_delete E t p) (EDelete p)),
      r_list = (\<lambda>p. ask (\<lambda>t. e_list E t p) (EList p))\<rparr>"

definition raw_store :: "env \<Rightarrow> store_ops" where
  "raw_store E =
     \<lparr>s_encode = (\<lambda>s pw. ask (\<lambda>t. e_encode E t s pw) (EEncode s pw)),
      s_decode = (\<lambda>b pw. ask (\<lambda>t. e_decode E t b pw) (EDecode b pw)),
      s_encode_pointer = (\<lambda>p. ask (\<lambda>t. e_encode_pointer E t p) (EEncodePointer p)),
      s_decode_pointer = (\<lambda>b. ask (\<lambda>t. e_decode_pointer E t b) (EDecodePointer b)),
      s_build = ask (e_build E) EBuild,
      s_apply_checked = (\<lambda>s h st. ask (\<lambda>t. e_apply E t s h st) (EApply s h st)),
      s_persist = (\<lambda>st. ask (\<lambda>t. e_persist E t st) (EPersist st)),
      s_verify_password = (\<lambda>pw. ask (\<lambda>t. e_verify_password E t pw) (EVerifyPassword pw))\<rparr>"

definition before_apply :: "env \<Rightarrow> unit io" where
  "before_apply E = ask (e_before_apply E) EBeforeApply"

definition current_time_ms :: "env \<Rightarrow> u64 io" where
  "current_time_ms E w = (let n = e_now E (past w) in (Inr n, w\<lparr>past := ENow n # past w\<rparr>))"

definition uuid_v4 :: "env \<Rightarrow> str io" where
  "uuid_v4 E w = (let n = e_uuid E (past w) in (Inr n, w\<lparr>past := EUuid n # past w\<rparr>))"

section \<open>Cancellation\<close>

definition request_cancel :: "ctl \<Rightarrow> CloudSyncCancellation \<times> ctl" where
  "request_cancel c = (case c of
     PREPARING \<Rightarrow> (Stopping, CANCELLED)
   | CANCELLED \<Rightarrow> (Stopping, CANCELLED)
   | COMMITTING \<Rightarrow> (FinishingCommit, COMMITTING))"

text \<open>A request of another thread that arrived since the last access.\<close>

definition poll :: "env \<Rightarrow> world \<Rightarrow> world" where
  "poll E w = (if e_cancel E (past w)
     then w\<lparr>past := ECancel # past w, control := snd (request_cancel (control w))\<rparr> else w)"

definition checkpoint :: "env \<Rightarrow> unit io" where
  "checkpoint E w = (let w' = poll E w in
     (if control w' = CANCELLED then Inl Cancelled else Inr (), w'))"

definition begin_commit :: "env \<Rightarrow> unit io" where
  "begin_commit E w = (let w' = poll E w in
     case control w' of
       PREPARING \<Rightarrow> (Inr (), w'\<lparr>past := ECommit # past w', control := COMMITTING\<rparr>)
     | COMMITTING \<Rightarrow> (Inr (), w'\<lparr>past := ECommit # past w'\<rparr>)
     | CANCELLED \<Rightarrow> (Inl Cancelled, w'))"

definition guarded :: "env \<Rightarrow> 'a io \<Rightarrow> 'a io" where
  "guarded E m = tryq (checkpoint E) (\<lambda>_. m)"

definition guarded2 :: "env \<Rightarrow> 'a io \<Rightarrow> 'a io" where
  "guarded2 E m = tryq (checkpoint E) (\<lambda>_. tryq m (\<lambda>x. tryq (checkpoint E) (\<lambda>_. ret x)))"

definition controlled_remote :: "env \<Rightarrow> remote_ops \<Rightarrow> remote_ops" where
  "controlled_remote E R =
     \<lparr>r_provider = r_provider R,
      r_capacity = guarded E (r_capacity R),
      r_create_dir = (\<lambda>p. guarded E (r_create_dir R p)),
      r_read = (\<lambda>p. guarded2 E (r_read R p)),
      r_write = (\<lambda>p b. guarded E (r_write R p b)),
      r_delete = (\<lambda>p. guarded E (r_delete R p)),
      r_list = (\<lambda>p. guarded2 E (r_list R p))\<rparr>"

definition controlled_store :: "env \<Rightarrow> store_ops \<Rightarrow> store_ops" where
  "controlled_store E S =
     \<lparr>s_encode = (\<lambda>s pw. guarded E (s_encode S s pw)),
      s_decode = (\<lambda>b pw. guarded E (s_decode S b pw)),
      s_encode_pointer = (\<lambda>p. guarded E (s_encode_pointer S p)),
      s_decode_pointer = (\<lambda>b. guarded E (s_decode_pointer S b)),
      s_build = guarded2 E (s_build S),
      s_apply_checked = (\<lambda>s h st. tryq (begin_commit E) (\<lambda>_. s_apply_checked S s h st)),
      s_persist = (\<lambda>st. tryq (begin_commit E) (\<lambda>_. s_persist S st)),
      s_verify_password = s_verify_password S\<rparr>"

end
