(* ===== verification/Sync_Protocol.thy ===== *)
theory Sync_Protocol
  imports Sync_Io
begin

text \<open>
  The protocol on the remote storage: the files of a root (\<open>remote.rs\<close>), device heads
  (\<open>heads.rs\<close>), upload, verification and resolution of snapshots (\<open>protocol.rs\<close>), and garbage
  collection (\<open>gc.rs\<close>). \<open>L\<close> are the library functions, \<open>R\<close> the remote, \<open>S\<close> the local store and
  \<open>opts\<close> the options. Sleeping between attempts and the counting of requests (\<open>observe\<close>) do not
  change what is computed and are left out.
\<close>

section \<open>Paths\<close>

definition trim_slashes :: "str \<Rightarrow> str" where
  "trim_slashes s = rev (dropWhile (\<lambda>b. b = 0x2F) (rev (dropWhile (\<lambda>b. b = 0x2F) s)))"

definition remote_path :: "str \<Rightarrow> str \<Rightarrow> str" where
  "remote_path base_root child =
     (let root = trim_slashes (str_trim base_root);
          child = dropWhile (\<lambda>b. b = 0x2F) (str_trim child)
      in if root = [] then child else if child = [] then root else root @ [0x2F] @ child)"

definition SYNC_CURRENT_FILE :: str where "SYNC_CURRENT_FILE = ascii ''sync/current.redb.enc''"
definition SYNC_LATEST_FILE :: str where "SYNC_LATEST_FILE = ascii ''sync/latest.redb''"
definition SYNC_SNAPSHOTS_DIR :: str where "SYNC_SNAPSHOTS_DIR = ascii ''sync/snapshots/''"
definition HEADS_DIR :: str where "HEADS_DIR = ascii ''sync/heads/''"

definition legacy_sync_snapshot_file :: "str \<Rightarrow> str" where
  "legacy_sync_snapshot_file revision = SYNC_SNAPSHOTS_DIR @ revision @ ascii ''.redb.enc''"

definition device_head_path :: "lib \<Rightarrow> str \<Rightarrow> str \<Rightarrow> str" where
  "device_head_path L root device = remote_path root (HEADS_DIR @ sha256_hex L device @ ascii ''.json'')"

definition pending_head_path :: "lib \<Rightarrow> str \<Rightarrow> str \<Rightarrow> str" where
  "pending_head_path L root device =
     remote_path root (HEADS_DIR @ sha256_hex L device @ ascii ''.pending.json'')"

definition starts_with :: "str \<Rightarrow> str \<Rightarrow> bool" where
  "starts_with p s \<longleftrightarrow> strip_prefix p s \<noteq> None"

definition ends_with :: "str \<Rightarrow> str \<Rightarrow> bool" where
  "ends_with p s \<longleftrightarrow> strip_suffix p s \<noteq> None"

section \<open>Device heads\<close>

definition MAX_HEAD_BYTES :: nat where "MAX_HEAD_BYTES = 64 * 1024"

definition decode_record :: "lib \<Rightarrow> u8 list \<Rightarrow> CloudSyncError + DeviceHead" where
  "decode_record L bytes =
     (if length bytes > MAX_HEAD_BYTES then Inl (RemoteError (ascii ''cloud sync device head is too large''))
      else rbind (parse_head L bytes) (\<lambda>record.
        case dh_committed record of
          Some head \<Rightarrow>
            if p_device_id head \<noteq> dh_device_id record
            then Inl (RemoteError (ascii ''cloud sync device identity mismatch''))
            else rbind (ok_or (RemoteError (ascii ''cloud sync device head has no causal clock'')) (p_sync_clock head))
              (\<lambda>c. rbind (validate_clock c) (\<lambda>_. Inr record))
        | None \<Rightarrow> Inr record))"

definition is_head_file :: "str \<Rightarrow> str \<Rightarrow> bool" where
  "is_head_file prefix path \<longleftrightarrow> starts_with prefix path \<and> ends_with (ascii ''.json'') path"

definition expected_head_path :: "lib \<Rightarrow> str \<Rightarrow> DeviceHead \<Rightarrow> str" where
  "expected_head_path L root record =
     (if dh_committed record = None \<and> dh_pending_revision record \<noteq> None
      then pending_head_path L root (dh_device_id record)
      else device_head_path L root (dh_device_id record))"

definition read_record :: "lib \<Rightarrow> remote_ops \<Rightarrow> str \<Rightarrow> str \<Rightarrow> DeviceHead list \<Rightarrow> DeviceHead list io" where
  "read_record L R root path records =
     (if \<not> is_head_file (remote_path root HEADS_DIR) path then ret records
      else tryq (r_read R path) (\<lambda>r. case r of
          None \<Rightarrow> ret records
        | Some bytes \<Rightarrow> tryq (lift (decode_record L bytes)) (\<lambda>record.
            if path \<noteq> expected_head_path L root record
            then fail (RemoteError (ascii ''cloud sync device head path does not match its device''))
            else ret (records @ [record]))))"

definition read_records :: "lib \<Rightarrow> remote_ops \<Rightarrow> str \<Rightarrow> DeviceHead list io" where
  "read_records L R root =
     tryq (r_list R (remote_path root HEADS_DIR)) (\<lambda>paths.
       if length paths > MAX_DEVICES * 2 then fail (RemoteError (ascii ''too many cloud sync device heads''))
       else for_each paths [] (read_record L R root))"

definition read_device_heads :: "lib \<Rightarrow> remote_ops \<Rightarrow> str \<Rightarrow> RemoteSyncPointer list io" where
  "read_device_heads L R root =
     tryq (read_records L R root) (\<lambda>records. ret (List.map_filter dh_committed records))"

definition record_revisions :: "DeviceHead \<Rightarrow> str list" where
  "record_revisions record =
     (case dh_committed record of Some h \<Rightarrow> [p_revision_id h] | None \<Rightarrow> [])
     @ (case dh_pending_revision record of Some r \<Rightarrow> [r] | None \<Rightarrow> [])"

definition protected_revisions :: "lib \<Rightarrow> remote_ops \<Rightarrow> str \<Rightarrow> str list io" where
  "protected_revisions L R root =
     tryq (read_records L R root) (\<lambda>records. ret (concat (map record_revisions records)))"

definition load_sync_pointer_from_remote ::
  "store_ops \<Rightarrow> remote_ops \<Rightarrow> str \<Rightarrow> RemoteSyncPointer option io" where
  "load_sync_pointer_from_remote S R root =
     tryq (r_read R (remote_path root SYNC_LATEST_FILE)) (\<lambda>r. case r of
         None \<Rightarrow> ret None
       | Some bytes \<Rightarrow> tryq (s_decode_pointer S bytes) (\<lambda>p. ret (Some p)))"

definition is_decode_failure :: "CloudSyncError \<Rightarrow> bool" where
  "is_decode_failure e = (case e of PortableSnapshot _ \<Rightarrow> True | JsonError _ \<Rightarrow> True | _ \<Rightarrow> False)"

definition heads_read :: "lib \<Rightarrow> store_ops \<Rightarrow> remote_ops \<Rightarrow> str \<Rightarrow> RemoteHeads io" where
  "heads_read L S R root =
     tryq (read_device_heads L R root) (\<lambda>hs.
       attempt (load_sync_pointer_from_remote S R root) (\<lambda>r. case r of
           Inr pointer \<Rightarrow> lift (choose_heads hs pointer)
         | Inl e \<Rightarrow> if is_decode_failure e \<and> hs \<noteq> [] then lift (choose_heads hs None) else fail e))"

definition READBACK_VERIFY_ATTEMPTS :: nat where "READBACK_VERIFY_ATTEMPTS = 3"

primrec verify_readback :: "remote_ops \<Rightarrow> str \<Rightarrow> u8 list \<Rightarrow> nat \<Rightarrow> unit io" where
  "verify_readback R path bytes 0 =
     fail (RemoteError (ascii ''cloud sync device commit could not be verified''))"
| "verify_readback R path bytes (Suc n) =
     tryq (r_read R path) (\<lambda>r. if r = Some bytes then ret () else verify_readback R path bytes n)"

definition write_record :: "lib \<Rightarrow> remote_ops \<Rightarrow> str \<Rightarrow> DeviceHead \<Rightarrow> unit io" where
  "write_record L R path record =
     tryq (lift (json_head L record)) (\<lambda>bytes.
       if length bytes > MAX_HEAD_BYTES
       then fail (RemoteError (ascii ''cloud sync device head is too large''))
       else tryq (r_write R path bytes) (\<lambda>_. verify_readback R path bytes READBACK_VERIFY_ATTEMPTS))"

definition stage_head :: "lib \<Rightarrow> remote_ops \<Rightarrow> str \<Rightarrow> str \<Rightarrow> str \<Rightarrow> unit io" where
  "stage_head L R root device revision =
     write_record L R (pending_head_path L root device)
       \<lparr>dh_device_id = device, dh_committed = None, dh_pending_revision = Some revision\<rparr>"

definition publish :: "lib \<Rightarrow> remote_ops \<Rightarrow> str \<Rightarrow> RemoteSyncPointer \<Rightarrow> unit io" where
  "publish L R root head =
     tryq (write_record L R (device_head_path L root (p_device_id head))
            \<lparr>dh_device_id = p_device_id head, dh_committed = Some head, dh_pending_revision = None\<rparr>)
       (\<lambda>_. attempt (r_delete R (pending_head_path L root (p_device_id head))) (\<lambda>_. ret ()))"

section \<open>Snapshots\<close>

definition FIXED_SYNC_SNAPSHOT_SCHEMA_VERSION :: u32 where "FIXED_SYNC_SNAPSHOT_SCHEMA_VERSION = 4"
definition PORTABLE_SNAPSHOT_SCHEMA_VERSION :: u32 where "PORTABLE_SNAPSHOT_SCHEMA_VERSION = 3"
definition REMOTE_SYNC_POINTER_SCHEMA_VERSION :: u32 where "REMOTE_SYNC_POINTER_SCHEMA_VERSION = 3"
definition MIN_ENCRYPTED_SNAPSHOT_BYTES :: nat where "MIN_ENCRYPTED_SNAPSHOT_BYTES = 13"
definition MAX_ENCRYPTED_SNAPSHOT_BYTES :: nat where "MAX_ENCRYPTED_SNAPSHOT_BYTES = 64 * 1024 * 1024"

text \<open>Errors of the snapshot format become sync errors by \<open>?\<close>.\<close>

definition snap :: "PortableSnapshotError + 'a \<Rightarrow> 'a io" where
  "snap r = lift (case r of Inl e \<Rightarrow> Inl (PortableSnapshot e) | Inr x \<Rightarrow> Inr x)"

definition recalculate_hash :: "lib \<Rightarrow> RawPortableSnapshot \<Rightarrow> PortableSnapshotError + RawPortableSnapshot" where
  "recalculate_hash L s =
     rbind (raw_payload_hash L (entities s)) (\<lambda>p.
     rbind (raw_entities_hash L (entities s)) (\<lambda>e.
       Inr (s\<lparr>meta := (meta s)\<lparr>m_payload_hash := p, m_entities_hash := Some e\<rparr>, source_hash := None\<rparr>)))"

definition sync_content_hash :: "lib \<Rightarrow> RawPortableSnapshot \<Rightarrow> PortableSnapshotError + str" where
  "sync_content_hash L s =
     rbind (if m_snapshot_kind (meta s) = Sync
            then rbind (project_fixed L s) (\<lambda>fixed. raw_entities_hash L (entities fixed))
            else raw_entities_hash L (entities s))
       (\<lambda>h. Inr (ascii ''entities-v1:'' @ h))"

definition validate_raw_snapshot :: "lib \<Rightarrow> RawPortableSnapshot \<Rightarrow> PortableSnapshotError + unit" where
  "validate_raw_snapshot L s =
     (if m_schema_version (meta s) \<noteq> PORTABLE_SNAPSHOT_SCHEMA_VERSION \<and>
         \<not> (m_snapshot_kind (meta s) = Sync \<and> m_schema_version (meta s) = FIXED_SYNC_SNAPSHOT_SCHEMA_VERSION)
      then Inl (UnsupportedVersion (m_schema_version (meta s)))
      else rbind (raw_payload_hash L (entities s)) (\<lambda>expected.
        if expected \<noteq> m_payload_hash (meta s) then Inl PayloadHashMismatch
        else case m_entities_hash (meta s) of
          Some expected \<Rightarrow> rbind (raw_entities_hash L (entities s)) (\<lambda>h.
            if h \<noteq> expected then Inl EntitiesHashMismatch else Inr ())
        | None \<Rightarrow> Inr ()))"

definition pointer_from_snapshot :: "RawPortableSnapshot \<Rightarrow> RemoteSyncPointer" where
  "pointer_from_snapshot s =
     \<lparr>p_schema_version = REMOTE_SYNC_POINTER_SCHEMA_VERSION, p_revision_id = m_revision_id (meta s),
      p_created_at_ms = m_created_at_ms (meta s), p_payload_hash = source_payload_hash s,
      p_device_id = m_device_id (meta s), p_app_version = m_app_version (meta s),
      p_sync_clock = m_sync_clock (meta s)\<rparr>"

definition describe_payload :: "lib \<Rightarrow> str \<Rightarrow> u8 list \<Rightarrow> str" where
  "describe_payload L path bytes =
     ascii [CHR 0x27] @ path @ ascii [CHR 0x27] @ ascii '' ('' @ show_number L (length bytes) @ ascii '' bytes, sha256 ''
     @ sha256_hex L bytes @ ascii '')''"

definition validate_remote_snapshot_size :: "lib \<Rightarrow> u8 list \<Rightarrow> str \<Rightarrow> str \<Rightarrow> CloudSyncError + unit" where
  "validate_remote_snapshot_size L bytes path revision =
     (if MIN_ENCRYPTED_SNAPSHOT_BYTES \<le> length bytes \<and> length bytes \<le> MAX_ENCRYPTED_SNAPSHOT_BYTES then Inr ()
      else Inl (CorruptedSnapshot revision
        (describe_payload L path bytes @ ascii '' is outside the accepted 13..=67108864 byte range'')))"

definition decrypt_cause :: "store_ops \<Rightarrow> str \<Rightarrow> SnapshotUnreadableCause io" where
  "decrypt_cause S password =
     attempt (s_verify_password S password) (\<lambda>r. ret (case r of
         Inr (Some True) \<Rightarrow> PayloadNotAuthentic
       | Inr (Some False) \<Rightarrow> MasterPasswordMismatch
       | _ \<Rightarrow> UnknownCause))"

definition decode_remote_snapshot ::
  "lib \<Rightarrow> store_ops \<Rightarrow> u8 list \<Rightarrow> str \<Rightarrow> str \<Rightarrow> str \<Rightarrow> RawPortableSnapshot io" where
  "decode_remote_snapshot L S bytes password path revision =
     attempt (s_decode S bytes password) (\<lambda>r. case r of
         Inr s \<Rightarrow> ret s
       | Inl e \<Rightarrow> (case e of
           PortableSnapshot p \<Rightarrow> (case p of
               Decrypt _ _ \<Rightarrow> tryq (decrypt_cause S password) (\<lambda>cause.
                 fail (RemoteSnapshotUnreadable revision path (length bytes) (sha256_hex L bytes) cause p))
             | MissingMasterPassword \<Rightarrow> fail e
             | UnsupportedEncryptionVersion _ \<Rightarrow> fail e
             | InvalidEncryptionEnvelope \<Rightarrow> fail e
             | UnsupportedVersion _ \<Rightarrow> fail e
             | _ \<Rightarrow> fail (CorruptedSnapshot revision
                 (describe_payload L path bytes @ ascii '' could not be decoded: '' @ show_error L e)))
         | _ \<Rightarrow> fail (CorruptedSnapshot revision
             (describe_payload L path bytes @ ascii '' could not be decoded: '' @ show_error L e))))"

definition validate_snapshot_against_pointer ::
  "RemoteSyncPointer \<Rightarrow> RawPortableSnapshot \<Rightarrow> CloudSyncError + unit" where
  "validate_snapshot_against_pointer pointer s =
     (if m_revision_id (meta s) \<noteq> p_revision_id pointer
      then Inl (RevisionMismatch (p_revision_id pointer) (m_revision_id (meta s)))
      else if p_sync_clock pointer \<noteq> m_sync_clock (meta s)
      then Inl (RemoteError (ascii ''snapshot causal clock does not match its head''))
      else if source_payload_hash s \<noteq> p_payload_hash pointer
      then Inl (HashMismatch (p_payload_hash pointer) (source_payload_hash s))
      else Inr ())"

definition decode_and_validate_remote_snapshot ::
  "lib \<Rightarrow> store_ops \<Rightarrow> u8 list \<Rightarrow> LocalCloudSyncOptions \<Rightarrow> str \<Rightarrow> RemoteSyncPointer \<Rightarrow> RawPortableSnapshot io" where
  "decode_and_validate_remote_snapshot L S bytes opts path pointer =
     tryq (lift (validate_remote_snapshot_size L bytes path (p_revision_id pointer))) (\<lambda>_.
     tryq (decode_remote_snapshot L S bytes (master_password opts) path (p_revision_id pointer)) (\<lambda>s.
     tryq (lift (validate_snapshot_against_pointer pointer s)) (\<lambda>_. ret s)))"

definition snapshot_path :: "LocalCloudSyncOptions \<Rightarrow> RemoteSyncPointer \<Rightarrow> str" where
  "snapshot_path opts pointer = remote_path (remote_root opts) (legacy_sync_snapshot_file (p_revision_id pointer))"

definition verify_written_snapshot ::
  "lib \<Rightarrow> store_ops \<Rightarrow> remote_ops \<Rightarrow> LocalCloudSyncOptions \<Rightarrow> RemoteSyncPointer \<Rightarrow> u8 list \<Rightarrow> unit io" where
  "verify_written_snapshot L S R opts pointer written =
     (let path = snapshot_path opts pointer in
      tryq (r_read R path) (\<lambda>r. case r of
          None \<Rightarrow> fail (SnapshotMissing (p_revision_id pointer))
        | Some read_back \<Rightarrow>
            if read_back \<noteq> written
            then fail (RemoteWriteDiverged (p_revision_id pointer) path (length written) (sha256_hex L written)
                   (length read_back) (sha256_hex L read_back))
            else tryq (decode_and_validate_remote_snapshot L S read_back opts path pointer) (\<lambda>_. ret ())))"

definition read_snapshot_for_pointer ::
  "lib \<Rightarrow> store_ops \<Rightarrow> remote_ops \<Rightarrow> LocalCloudSyncOptions \<Rightarrow> RemoteSyncPointer \<Rightarrow> RawPortableSnapshot io" where
  "read_snapshot_for_pointer L S R opts pointer =
     (let path = snapshot_path opts pointer in
      tryq (r_read R path) (\<lambda>r. case r of
          None \<Rightarrow> fail (SnapshotMissing (p_revision_id pointer))
        | Some bytes \<Rightarrow> decode_and_validate_remote_snapshot L S bytes opts path pointer))"

definition read_current_sync_snapshot_compat ::
  "lib \<Rightarrow> store_ops \<Rightarrow> remote_ops \<Rightarrow> LocalCloudSyncOptions \<Rightarrow> RawPortableSnapshot option io" where
  "read_current_sync_snapshot_compat L S R opts =
     (let path = remote_path (remote_root opts) SYNC_CURRENT_FILE in
      tryq (r_read R path) (\<lambda>r. case r of
          None \<Rightarrow> ret None
        | Some bytes \<Rightarrow>
            tryq (lift (validate_remote_snapshot_size L bytes path (ascii ''current''))) (\<lambda>_.
            tryq (decode_remote_snapshot L S bytes (master_password opts) path (ascii ''current'')) (\<lambda>s. ret (Some s)))))"

definition ensure_remote_head_unchanged ::
  "store_ops \<Rightarrow> remote_ops \<Rightarrow> str \<Rightarrow> RemoteSyncPointer option \<Rightarrow> unit io" where
  "ensure_remote_head_unchanged S R root expected =
     tryq (load_sync_pointer_from_remote S R root) (\<lambda>actual.
       let er = map_option p_revision_id expected; ar = map_option p_revision_id actual
       in if er \<noteq> ar then fail (ConcurrentUpdate er ar) else ret ())"

record RemoteSnapshotUnreadableHead =
  u_reason :: str
  u_overwrite_blocked :: bool

definition unreadable_head :: "lib \<Rightarrow> CloudSyncError \<Rightarrow> RemoteSnapshotUnreadableHead" where
  "unreadable_head L e = (case e of
     RemoteSnapshotUnreadable revision path bytes digest cause _ \<Rightarrow>
       \<lparr>u_reason = ascii ''The remote snapshot '' @ revision @ ascii '' at '' @ ascii [CHR 0x27] @ path @ ascii [CHR 0x27]
          @ ascii '' ('' @ show_number L bytes @ ascii '' bytes, sha256 '' @ digest
          @ ascii '') could not be decrypted: '' @ show_cause L cause @ ascii ''.'',
        u_overwrite_blocked = blocks_remote_overwrite cause\<rparr>
   | _ \<Rightarrow> \<lparr>u_reason = ascii ''The remote snapshot could not be read: '' @ show_error L e,
            u_overwrite_blocked = False\<rparr>)"

section \<open>Garbage collection\<close>

definition authenticated_commit_clocks ::
  "lib \<Rightarrow> store_ops \<Rightarrow> remote_ops \<Rightarrow> LocalCloudSyncOptions \<Rightarrow> RemoteSyncPointer option \<Rightarrow> SnapshotSyncClock list io" where
  "authenticated_commit_clocks L S R opts latest =
     tryq (read_device_heads L R (remote_root opts)) (\<lambda>hs.
     tryq (for_each (hs @ (case latest of Some p \<Rightarrow> [p] | None \<Rightarrow> [])) ([], [])
       (\<lambda>head (seen, clocks).
          if p_sync_clock head \<noteq> None \<and> p_revision_id head \<notin> set seen
          then tryq (read_snapshot_for_pointer L S R opts head) (\<lambda>s.
            ret (p_revision_id head # seen,
                 clocks @ (case m_sync_clock (meta s) of Some c \<Rightarrow> [c] | None \<Rightarrow> [])))
          else ret (seen, clocks)))
       (\<lambda>(seen, clocks). ret clocks))"

definition gc_entry ::
  "lib \<Rightarrow> store_ops \<Rightarrow> remote_ops \<Rightarrow> LocalCloudSyncOptions \<Rightarrow> SnapshotSyncClock list \<Rightarrow> str \<Rightarrow> str \<Rightarrow> SnapshotGcEntry io" where
  "gc_entry L S R opts clocks path revision =
     (let undeletable = \<lparr>g_path = path, g_revision_id = revision, g_created_at_ms = 0, g_deletable = False\<rparr> in
      attempt (r_read R path) (\<lambda>r. case r of
          Inr (Some bytes) \<Rightarrow> attempt (s_decode S bytes (master_password opts)) (\<lambda>d. case d of
              Inr s \<Rightarrow>
                if m_revision_id (meta s) = revision
                then ret \<lparr>g_path = path, g_revision_id = revision, g_created_at_ms = m_created_at_ms (meta s),
                  g_deletable = (m_payload_hash (meta s) \<noteq> [] \<and>
                    m_schema_version (meta s) = FIXED_SYNC_SNAPSHOT_SCHEMA_VERSION \<and> causally_collectable s clocks)\<rparr>
                else ret undeletable
            | Inl _ \<Rightarrow> ret undeletable)
        | _ \<Rightarrow> ret undeletable))"

definition gc_delete ::
  "lib \<Rightarrow> store_ops \<Rightarrow> remote_ops \<Rightarrow> LocalCloudSyncOptions \<Rightarrow> str \<Rightarrow>
   str list \<times> CloudSyncError option \<Rightarrow> (str list \<times> CloudSyncError option) io" where
  "gc_delete L S R opts path st = (case st of (protected, first_error) \<Rightarrow>
     tryq (protected_revisions L R (remote_root opts)) (\<lambda>more.
     tryq (load_sync_pointer_from_remote S R (remote_root opts)) (\<lambda>head.
       let protected' = protected @ more @ (case head of Some h \<Rightarrow> [p_revision_id h] | None \<Rightarrow> [])
       in case snapshot_revision_from_path path of
            Some revision \<Rightarrow>
              if revision \<in> set protected' then ret (protected', first_error)
              else attempt (r_delete R path) (\<lambda>r. ret (protected',
                case r of Inl e \<Rightarrow> if first_error = None then Some e else first_error | Inr _ \<Rightarrow> first_error))
          | None \<Rightarrow> attempt (r_delete R path) (\<lambda>r. ret (protected',
                case r of Inl e \<Rightarrow> if first_error = None then Some e else first_error | Inr _ \<Rightarrow> first_error)))))"

definition cleanup_sync_snapshots ::
  "env \<Rightarrow> lib \<Rightarrow> store_ops \<Rightarrow> remote_ops \<Rightarrow> LocalCloudSyncOptions \<Rightarrow> RemoteSyncPointer option \<Rightarrow> unit io" where
  "cleanup_sync_snapshots E L S0 R0 opts latest =
     (let R = controlled_remote E R0; S = controlled_store E S0 in
      tryq (checkpoint E) (\<lambda>_.
      tryq (protected_revisions L R (remote_root opts)) (\<lambda>revs.
        let protected = revs @ (case latest of Some p \<Rightarrow> [p_revision_id p] | None \<Rightarrow> []) in
        tryq (authenticated_commit_clocks L S R opts latest) (\<lambda>clocks.
        tryq (r_list R (remote_path (remote_root opts) SYNC_SNAPSHOTS_DIR)) (\<lambda>paths.
        tryq (for_each paths [] (\<lambda>path snapshots.
          tryq (checkpoint E) (\<lambda>_.
            case snapshot_revision_from_path path of
              None \<Rightarrow> ret snapshots
            | Some revision \<Rightarrow>
                if revision \<in> set protected then ret snapshots
                else tryq (gc_entry L S R opts clocks path revision) (\<lambda>entry. ret (snapshots @ [entry])))))
          (\<lambda>snapshots.
        tryq (current_time_ms E) (\<lambda>now.
        tryq (for_each (plan_snapshot_gc snapshots (map_option p_revision_id latest) now
                 SYNC_SNAPSHOT_KEEP_RECENT SYNC_SNAPSHOT_GC_GRACE_PERIOD) (protected, None)
               (gc_delete L S R opts))
          (\<lambda>(_, first_error).
        tryq (checkpoint E) (\<lambda>_. case first_error of None \<Rightarrow> ret () | Some e \<Rightarrow> fail e)))))))))"

definition missing_files :: "remote_ops \<Rightarrow> str list \<Rightarrow> nat io" where
  "missing_files R paths =
     for_each paths 0 (\<lambda>path additional. tryq (r_read R path) (\<lambda>r. ret (additional + (if r = None then 1 else 0))))"

text \<open>The candidates for deletion under capacity pressure: time of creation, path and revision.\<close>

definition capacity_candidate ::
  "lib \<Rightarrow> store_ops \<Rightarrow> remote_ops \<Rightarrow> LocalCloudSyncOptions \<Rightarrow> SnapshotSyncClock list \<Rightarrow> str list \<Rightarrow> str \<Rightarrow> str \<Rightarrow>
   (u64 \<times> str \<times> str) list \<Rightarrow> (u64 \<times> str \<times> str) list io" where
  "capacity_candidate L S R opts clocks protected prefix path candidates =
     (case strip_prefix prefix path of
        None \<Rightarrow> ret candidates
      | Some name \<Rightarrow>
          if 0x2F \<in> set name then ret candidates
          else case snapshot_revision_from_path name of
            None \<Rightarrow> ret candidates
          | Some revision \<Rightarrow>
              if revision \<in> set protected then ret candidates
              else tryq (r_read R path) (\<lambda>r. case r of
                  None \<Rightarrow> ret candidates
                | Some bytes \<Rightarrow> attempt (s_decode S bytes (master_password opts)) (\<lambda>d. case d of
                    Inl _ \<Rightarrow> ret candidates
                  | Inr s \<Rightarrow>
                      if m_revision_id (meta s) = revision \<and>
                         m_schema_version (meta s) = FIXED_SYNC_SNAPSHOT_SCHEMA_VERSION \<and>
                         validate_raw_snapshot L s = Inr () \<and> causally_collectable s clocks
                      then ret (candidates @ [(m_created_at_ms (meta s), path, revision)])
                      else ret candidates)))"

fun free_candidates ::
  "lib \<Rightarrow> store_ops \<Rightarrow> remote_ops \<Rightarrow> LocalCloudSyncOptions \<Rightarrow> nat \<Rightarrow> (u64 \<times> str \<times> str) list \<Rightarrow>
   str list \<Rightarrow> nat \<Rightarrow> unit io" where
  "free_candidates L S R opts needed [] protected freed = fail GistCapacity"
| "free_candidates L S R opts needed ((created, path, revision) # rest) protected freed =
     tryq (load_sync_pointer_from_remote S R (remote_root opts)) (\<lambda>head.
     tryq (protected_revisions L R (remote_root opts)) (\<lambda>more.
       let protected' = protected @ (case head of Some h \<Rightarrow> [p_revision_id h] | None \<Rightarrow> []) @ more
       in if revision \<in> set protected' then free_candidates L S R opts needed rest protected' freed
          else tryq (r_delete R path) (\<lambda>_.
            tryq (r_read R path) (\<lambda>r.
              let freed' = freed + (if r = None then 1 else 0)
              in if needed \<le> freed' then ret ()
                 else free_candidates L S R opts needed rest protected' freed'))))"

definition reserve_snapshot_capacity ::
  "lib \<Rightarrow> store_ops \<Rightarrow> remote_ops \<Rightarrow> LocalCloudSyncOptions \<Rightarrow> RemoteSyncPointer option \<Rightarrow> str \<Rightarrow> unit io" where
  "reserve_snapshot_capacity L S R opts expected target_revision =
     (let root = remote_root opts in
      tryq (r_capacity R) (\<lambda>c. case c of
        None \<Rightarrow> ret ()
      | Some capacity \<Rightarrow>
          tryq (missing_files R
            [remote_path root (legacy_sync_snapshot_file target_revision), remote_path root SYNC_LATEST_FILE,
             remote_path root SYNC_CURRENT_FILE, device_head_path L root (o_device_id opts),
             pending_head_path L root (o_device_id opts)]) (\<lambda>additional.
          let needed = sat_add (used capacity) additional - limit capacity in
          if needed = 0 then ret ()
          else
            tryq (protected_revisions L R root) (\<lambda>revs.
            let protected = revs @ [target_revision]
              @ (case expected of Some p \<Rightarrow> [p_revision_id p] | None \<Rightarrow> []) in
            tryq (authenticated_commit_clocks L S R opts expected) (\<lambda>clocks.
            tryq (r_read R (remote_path root SYNC_CURRENT_FILE)) (\<lambda>cur.
            tryq (case cur of
                None \<Rightarrow> ret protected
              | Some bytes \<Rightarrow> attempt (s_decode S bytes (master_password opts)) (\<lambda>d. ret (case d of
                  Inr s \<Rightarrow> protected @ [m_revision_id (meta s)] | Inl _ \<Rightarrow> protected))) (\<lambda>protected.
            let prefix = rev (dropWhile (\<lambda>b. b = 0x2F) (rev (remote_path root SYNC_SNAPSHOTS_DIR))) @ [0x2F] in
            tryq (r_list R prefix) (\<lambda>paths.
            tryq (for_each paths [] (capacity_candidate L S R opts clocks protected prefix)) (\<lambda>candidates.
              free_candidates L S R opts needed (sort candidates) protected 0)))))))))"

section \<open>Upload and resolution\<close>

definition readback_retry_is_useful :: "CloudSyncError \<Rightarrow> bool" where
  "readback_retry_is_useful e \<longleftrightarrow> e \<noteq> Cancelled \<and> e \<noteq> Disabled \<and> e \<noteq> GistCapacity"

definition capacity_error :: "bool \<Rightarrow> CloudSyncError \<Rightarrow> CloudSyncError" where
  "capacity_error capacity_limited e =
     (case e of SnapshotMissing _ \<Rightarrow> if capacity_limited then GistCapacity else e | _ \<Rightarrow> e)"

text \<open>One round of the loop of \<open>upload_verified_snapshot\<close>: what runs before the write, and what
  follows it, given the rest of the loop.\<close>

definition prepare_upload ::
  "lib \<Rightarrow> store_ops \<Rightarrow> remote_ops \<Rightarrow> LocalCloudSyncOptions \<Rightarrow> RemoteSyncPointer \<Rightarrow> RemoteSyncPointer option \<Rightarrow> bool \<Rightarrow> unit io" where
  "prepare_upload L S R opts pointer expected stage_device =
     tryq (reserve_snapshot_capacity L S R opts expected (p_revision_id pointer)) (\<lambda>_.
       if stage_device then stage_head L R (remote_root opts) (o_device_id opts) (p_revision_id pointer) else ret ())"

definition verify_upload ::
  "lib \<Rightarrow> store_ops \<Rightarrow> remote_ops \<Rightarrow> LocalCloudSyncOptions \<Rightarrow> RemoteSyncPointer \<Rightarrow> u8 list \<Rightarrow> bool \<Rightarrow> bool \<Rightarrow> unit io \<Rightarrow> unit io" where
  "verify_upload L S R opts pointer bytes capacity_limited last_attempt next_round =
     attempt (verify_written_snapshot L S R opts pointer bytes) (\<lambda>r. case r of
         Inr _ \<Rightarrow> ret ()
       | Inl e \<Rightarrow>
           if last_attempt \<or> \<not> readback_retry_is_useful e then fail (capacity_error capacity_limited e)
           else next_round)"

fun upload_rounds ::
  "lib \<Rightarrow> store_ops \<Rightarrow> remote_ops \<Rightarrow> LocalCloudSyncOptions \<Rightarrow> RemoteSyncPointer \<Rightarrow> RemoteSyncPointer option \<Rightarrow>
   u8 list \<Rightarrow> bool \<Rightarrow> bool \<Rightarrow> nat \<Rightarrow> nat \<Rightarrow> unit io" where
  "upload_rounds L S R opts pointer expected bytes stage_device capacity_limited attempts 0 =
     fail (RemoteError (ascii ''remote snapshot '' @ snapshot_path opts pointer
       @ ascii '' could not be verified after '' @ show_number L attempts @ ascii '' attempts''))"
| "upload_rounds L S R opts pointer expected bytes stage_device capacity_limited attempts (Suc left) =
     (let first = (Suc left = attempts); last_attempt = (left = 0);
          next_round = upload_rounds L S R opts pointer expected bytes stage_device capacity_limited attempts left;
          verify = verify_upload L S R opts pointer bytes capacity_limited last_attempt next_round
      in if capacity_limited \<or> first
         then tryq (prepare_upload L S R opts pointer expected stage_device) (\<lambda>_.
           attempt (r_write R (snapshot_path opts pointer) bytes) (\<lambda>r. case r of
               Inl e \<Rightarrow>
                 if capacity_limited \<and> \<not> last_attempt then next_round
                 else fail (capacity_error capacity_limited e)
             | Inr _ \<Rightarrow> verify))
         else verify)"

definition upload_verified_snapshot ::
  "lib \<Rightarrow> store_ops \<Rightarrow> remote_ops \<Rightarrow> LocalCloudSyncOptions \<Rightarrow> RemoteSyncPointer \<Rightarrow> RemoteSyncPointer option \<Rightarrow>
   u8 list \<Rightarrow> bool \<Rightarrow> unit io" where
  "upload_verified_snapshot L S R opts pointer expected bytes stage_device =
     tryq (r_capacity R) (\<lambda>c.
       let capacity_limited = (c \<noteq> None); attempts = (if capacity_limited then 2 else READBACK_VERIFY_ATTEMPTS)
       in upload_rounds L S R opts pointer expected bytes stage_device capacity_limited attempts attempts)"

definition upload_sync_snapshot ::
  "lib \<Rightarrow> store_ops \<Rightarrow> remote_ops \<Rightarrow> LocalCloudSyncOptions \<Rightarrow> RawPortableSnapshot \<Rightarrow> RemoteSyncPointer option \<Rightarrow> u8 list io" where
  "upload_sync_snapshot L S R opts s expected =
     tryq (if m_schema_version (meta s) \<noteq> FIXED_SYNC_SNAPSHOT_SCHEMA_VERSION then ret True
           else tryq (snap (project_fixed L s)) (\<lambda>fixed. ret (entities fixed \<noteq> entities s))) (\<lambda>refused.
       if refused then fail (RemoteError (ascii ''Only fixed-scope snapshots can be published''))
       else tryq (s_encode S s (master_password opts)) (\<lambda>bytes.
         tryq (upload_verified_snapshot L S R opts (pointer_from_snapshot s) expected bytes True) (\<lambda>_. ret bytes)))"

datatype RemoteSnapshotResolution =
    Current RawPortableSnapshot
  | LegacyMigrated RawPortableSnapshot
  | Inconsistent RemoteSyncPointer "RawPortableSnapshot option" "RemoteSnapshotUnreadableHead option"

definition head_is_unusable :: "CloudSyncError \<Rightarrow> bool" where
  "head_is_unusable e = (case e of
     SnapshotMissing _ \<Rightarrow> True
   | CorruptedSnapshot _ _ \<Rightarrow> True
   | RevisionMismatch _ _ \<Rightarrow> True
   | HashMismatch _ _ \<Rightarrow> True
   | RemoteSnapshotUnreadable _ _ _ _ _ _ \<Rightarrow> True
   | _ \<Rightarrow> False)"

definition migrate_current ::
  "lib \<Rightarrow> store_ops \<Rightarrow> remote_ops \<Rightarrow> LocalCloudSyncOptions \<Rightarrow> RemoteSyncPointer \<Rightarrow> RawPortableSnapshot \<Rightarrow>
   RemoteSnapshotResolution io" where
  "migrate_current L S R opts pointer current =
     tryq (r_read R (remote_path (remote_root opts) SYNC_CURRENT_FILE)) (\<lambda>r.
     tryq (lift (ok_or (SnapshotMissing (ascii ''current'')) r)) (\<lambda>bytes.
     tryq (upload_verified_snapshot L S R opts pointer (Some pointer) bytes False) (\<lambda>_.
     tryq (read_snapshot_for_pointer L S R opts pointer) (\<lambda>_. ret (LegacyMigrated current)))))"

definition resolve_remote_snapshot ::
  "lib \<Rightarrow> store_ops \<Rightarrow> remote_ops \<Rightarrow> LocalCloudSyncOptions \<Rightarrow> RemoteSyncPointer \<Rightarrow> RemoteSnapshotResolution io" where
  "resolve_remote_snapshot L S R opts pointer =
     attempt (read_snapshot_for_pointer L S R opts pointer) (\<lambda>r. case r of
       Inr s \<Rightarrow> ret (Current s)
     | Inl e \<Rightarrow>
         if \<not> head_is_unusable e then fail e
         else let unreadable = unreadable_head L e in
           attempt (read_current_sync_snapshot_compat L S R opts) (\<lambda>c. case c of
             Inr (Some current) \<Rightarrow>
               let inconsistent = Inconsistent pointer (Some current) (Some unreadable) in
               if validate_snapshot_against_pointer pointer current = Inr () \<and>
                  m_schema_version (meta current) = FIXED_SYNC_SNAPSHOT_SCHEMA_VERSION
               then tryq (snap (project_fixed L current)) (\<lambda>fixed.
                 if entities fixed = entities current then migrate_current L S R opts pointer current
                 else ret inconsistent)
               else ret inconsistent
           | Inr None \<Rightarrow> ret (Inconsistent pointer None (Some unreadable))
           | Inl ce \<Rightarrow> (case ce of
               CorruptedSnapshot _ _ \<Rightarrow> ret (Inconsistent pointer None (Some unreadable))
             | RemoteSnapshotUnreadable _ _ _ _ _ _ \<Rightarrow>
                 let cu = unreadable_head L ce in
                 ret (Inconsistent pointer None (Some
                   \<lparr>u_reason = u_reason unreadable @ ascii '' '' @ u_reason cu,
                    u_overwrite_blocked = (u_overwrite_blocked unreadable \<or> u_overwrite_blocked cu)\<rparr>))
             | _ \<Rightarrow> fail ce)))"

fun pointer_rounds ::
  "store_ops \<Rightarrow> remote_ops \<Rightarrow> str \<Rightarrow> RemoteSyncPointer \<Rightarrow> u8 list \<Rightarrow> bool \<Rightarrow> nat \<Rightarrow> nat \<Rightarrow> CloudSyncError \<Rightarrow> unit io" where
  "pointer_rounds S R root pointer bytes capacity_limited attempts 0 unverified = fail unverified"
| "pointer_rounds S R root pointer bytes capacity_limited attempts (Suc left) unverified =
     tryq (if capacity_limited \<or> Suc left = attempts
           then r_write R (remote_path root SYNC_LATEST_FILE) bytes else ret ()) (\<lambda>_.
       attempt (load_sync_pointer_from_remote S R root) (\<lambda>r. case r of
           Inr readback \<Rightarrow>
             if readback = Some pointer then ret ()
             else pointer_rounds S R root pointer bytes capacity_limited attempts left unverified
         | Inl e \<Rightarrow>
             if is_decode_failure e
             then pointer_rounds S R root pointer bytes capacity_limited attempts left unverified
             else fail e))"

definition write_sync_pointer ::
  "lib \<Rightarrow> store_ops \<Rightarrow> remote_ops \<Rightarrow> str \<Rightarrow> RemoteSyncPointer \<Rightarrow> unit io" where
  "write_sync_pointer L S R root pointer =
     tryq (s_encode_pointer S pointer) (\<lambda>bytes.
     tryq (r_capacity R) (\<lambda>c.
       let capacity_limited = (c \<noteq> None); attempts = (if capacity_limited then 2 else READBACK_VERIFY_ATTEMPTS) in
       pointer_rounds S R root pointer bytes capacity_limited attempts attempts
         (if capacity_limited then GistCapacity
          else RemoteError (ascii ''remote head write '' @ remote_path root SYNC_LATEST_FILE
            @ ascii '' could not be verified after '' @ show_number L attempts @ ascii '' attempts''))))"

text \<open>What every publication ends with: the device head, then the shared files as far as possible.\<close>

definition commit_snapshot ::
  "env \<Rightarrow> lib \<Rightarrow> store_ops \<Rightarrow> remote_ops \<Rightarrow> LocalCloudSyncOptions \<Rightarrow> RemoteSyncPointer \<Rightarrow> u8 list \<Rightarrow> unit io" where
  "commit_snapshot E L S R opts pointer bytes =
     tryq (begin_commit E) (\<lambda>_.
     tryq (publish L R (remote_root opts) pointer) (\<lambda>_.
     attempt (write_sync_pointer L S R (remote_root opts) pointer) (\<lambda>_.
     attempt (r_write R (remote_path (remote_root opts) SYNC_CURRENT_FILE) bytes) (\<lambda>_. ret ()))))"

definition recover_current_remote_snapshot ::
  "env \<Rightarrow> lib \<Rightarrow> store_ops \<Rightarrow> remote_ops \<Rightarrow> LocalCloudSyncOptions \<Rightarrow> RawPortableSnapshot io" where
  "recover_current_remote_snapshot E L S R opts =
     tryq (read_current_sync_snapshot_compat L S R opts) (\<lambda>c.
     tryq (lift (ok_or (SnapshotMissing (ascii ''current'')) c)) (\<lambda>current.
     tryq (heads_read L S R (remote_root opts)) (\<lambda>hs.
     tryq (snap (project_fixed L current)) (\<lambda>fixed.
     tryq (uuid_v4 E) (\<lambda>revision.
     tryq (current_time_ms E) (\<lambda>now.
     tryq (lift (next_clock hs None (o_device_id opts))) (\<lambda>c.
     tryq (snap (recalculate_hash L (fixed\<lparr>meta := (meta fixed)\<lparr>m_revision_id := revision,
            m_device_id := o_device_id opts, m_created_at_ms := now, m_sync_clock := Some c\<rparr>\<rparr>))) (\<lambda>s.
     tryq (upload_sync_snapshot L S R opts s (compatibility hs)) (\<lambda>bytes.
     tryq (ensure_remote_head_unchanged S R (remote_root opts) (compatibility hs)) (\<lambda>_.
     tryq (commit_snapshot E L S R opts (pointer_from_snapshot s) bytes) (\<lambda>_. ret s)))))))))))"

end
