(* ===== verification/Sync_Engine.thy ===== *)
theory Sync_Engine
  imports Sync_Protocol
begin

text \<open>
  The operations of the synchronisation engine (\<open>cloud_sync/mod.rs\<close>, \<open>conflict.rs\<close>,
  \<open>cache.rs\<close>): pushing, pulling, checking with and without the cache, recovering, and resolving a
  conflict the user has decided. The definitions follow the code statement by statement; the
  stages of \<open>push\<close> and \<open>pull\<close> are named.
\<close>

section \<open>Previews and results\<close>

datatype CloudSyncOutcome = OutcomeUpToDate | Uploaded | Downloaded | Recovered

record CloudSyncStatus =
  ss_enabled :: bool
  ss_provider :: str
  ss_state :: str
  ss_message :: str
  ss_current_operation :: "str option"
  ss_last_checked_at_ms :: "u64 option"
  ss_last_synced_at_ms :: "u64 option"
  ss_conflict :: "CloudConflictPreview option"

record CloudSyncResult =
  res_state :: CloudSyncState
  res_status :: CloudSyncStatus
  res_pointer :: "RemoteSyncPointer option"
  res_backup :: "CloudSyncBackupInfo option"
  res_outcome :: CloudSyncOutcome

definition sync_result ::
  "CloudSyncState \<Rightarrow> str \<Rightarrow> str \<Rightarrow> RemoteSyncPointer option \<Rightarrow> CloudSyncBackupInfo option \<Rightarrow> CloudSyncOutcome \<Rightarrow> CloudSyncResult" where
  "sync_result state provider message pointer backup outcome =
     \<lparr>res_state = state,
      res_status = \<lparr>ss_enabled = True, ss_provider = provider, ss_state = ascii ''idle'', ss_message = message,
        ss_current_operation = None, ss_last_checked_at_ms = last_checked_at_ms state,
        ss_last_synced_at_ms = last_synced_at_ms state, ss_conflict = None\<rparr>,
      res_pointer = pointer, res_backup = backup, res_outcome = outcome\<rparr>"

definition conflict_preview ::
  "env \<Rightarrow> LocalCloudSyncOptions \<Rightarrow> str \<Rightarrow> str \<Rightarrow> RemoteSyncPointer \<Rightarrow> CloudConflictPreview io" where
  "conflict_preview E opts provider local_hash remote =
     tryq (current_time_ms E) (\<lambda>now. ret
       \<lparr>branches = [], c_observed_revisions = [], c_local_content_hash = None, detected_at_ms = now,
        c_provider = provider, c_kind = ContentConflict, local_payload_hash = local_hash,
        remote_payload_hash = p_payload_hash remote, remote_revision = p_revision_id remote,
        remote_created_at_ms = p_created_at_ms remote, remote_device_id = p_device_id remote,
        recovery_revision = None, recovery_payload_hash = None, recovery_created_at_ms = None,
        c_overwrite_blocked = False,
        c_message = ascii ''Both local and cloud state changed since last sync ('' @ remote_dir opts @ ascii '')''\<rparr>)"

definition remote_inconsistent_preview ::
  "env \<Rightarrow> str \<Rightarrow> str \<Rightarrow> RemoteSyncPointer \<Rightarrow> RawPortableSnapshot option \<Rightarrow> RemoteSnapshotUnreadableHead option \<Rightarrow>
   CloudConflictPreview io" where
  "remote_inconsistent_preview E provider local_hash pointer candidate unreadable =
     tryq (current_time_ms E) (\<lambda>now. ret
       \<lparr>branches = [], c_observed_revisions = [], c_local_content_hash = None, detected_at_ms = now,
        c_provider = provider, c_kind = RemoteInconsistent, local_payload_hash = local_hash,
        remote_payload_hash = p_payload_hash pointer, remote_revision = p_revision_id pointer,
        remote_created_at_ms = p_created_at_ms pointer, remote_device_id = p_device_id pointer,
        recovery_revision = map_option (\<lambda>s. m_revision_id (meta s)) candidate,
        recovery_payload_hash = map_option (\<lambda>s. m_payload_hash (meta s)) candidate,
        recovery_created_at_ms = map_option (\<lambda>s. m_created_at_ms (meta s)) candidate,
        c_overwrite_blocked = (case unreadable of Some u \<Rightarrow> u_overwrite_blocked u | None \<Rightarrow> False),
        c_message = (if candidate \<noteq> None
            then ascii ''Remote cloud sync metadata is inconsistent. A different current snapshot is available for explicit recovery.''
            else ascii ''Remote cloud sync metadata is inconsistent and no valid current snapshot is available.'')
          @ (case unreadable of Some u \<Rightarrow> ascii '' '' @ u_reason u | None \<Rightarrow> [])\<rparr>)"

text \<open>The \<open>expect\<close> of a missing selected head cannot fail: concurrent heads are at least two.\<close>

definition require_single ::
  "env \<Rightarrow> LocalCloudSyncOptions \<Rightarrow> RemoteHeads \<Rightarrow> str \<Rightarrow> str \<Rightarrow> unit io" where
  "require_single E opts hs provider local_hash =
     (if concurrent hs
      then case selected hs of
        Some p \<Rightarrow> tryq (conflict_preview E opts provider local_hash p) (\<lambda>preview.
          fail (Conflict (preview\<lparr>c_message := ascii (''Multiple devices published concurrent snapshots. Both branches are ''
            @ ''retained; explicitly choose local or cloud to resolve them.'')\<rparr>)))
      | None \<Rightarrow> fail (RemoteError (ascii ''concurrent heads''))
      else ret ())"

definition validate_remote_baseline ::
  "env \<Rightarrow> CloudSyncState \<Rightarrow> RemoteSyncPointer \<Rightarrow> LocalCloudSyncOptions \<Rightarrow> str \<Rightarrow> str \<Rightarrow> unit io" where
  "validate_remote_baseline E state pointer opts provider local_hash =
     (if remote_precedes_baseline state pointer then fail StaleRemoteRevision
      else if remote_concurrent_with_baseline state pointer
      then tryq (conflict_preview E opts provider local_hash pointer) (\<lambda>preview. fail (Conflict preview))
      else ret ())"

definition ensure_enabled :: "LocalCloudSyncOptions \<Rightarrow> unit io" where
  "ensure_enabled opts = (if enabled opts then ret () else fail Disabled)"

definition ensure_remote_layout :: "remote_ops \<Rightarrow> str \<Rightarrow> unit io" where
  "ensure_remote_layout R root =
     for_each [ascii ''sync'', SYNC_SNAPSHOTS_DIR, HEADS_DIR] () (\<lambda>child _. r_create_dir R (remote_path root child))"

record PreparedSync =
  prep_local :: RawPortableSnapshot
  prep_heads :: RemoteHeads
  prep_remote :: "RawPortableSnapshot option"

definition prepare_sync ::
  "lib \<Rightarrow> store_ops \<Rightarrow> remote_ops \<Rightarrow> str \<Rightarrow> PreparedSync option \<Rightarrow> PreparedSync io" where
  "prepare_sync L S R root prepared = (case prepared of
     Some p \<Rightarrow> ret p
   | None \<Rightarrow> tryq (s_build S) (\<lambda>local. tryq (heads_read L S R root) (\<lambda>hs.
       ret \<lparr>prep_local = local, prep_heads = hs, prep_remote = None\<rparr>)))"

definition report ::
  "store_ops \<Rightarrow> CloudSyncResult \<Rightarrow> CloudSyncResult io" where
  "report S r = tryq (s_persist S (res_state r)) (\<lambda>_. ret r)"

section \<open>Push\<close>

definition push_remote_snapshot ::
  "env \<Rightarrow> lib \<Rightarrow> store_ops \<Rightarrow> remote_ops \<Rightarrow> LocalCloudSyncOptions \<Rightarrow> bool \<Rightarrow> str \<Rightarrow> RemoteSyncPointer option \<Rightarrow>
   RawPortableSnapshot option \<Rightarrow> RawPortableSnapshot option io" where
  "push_remote_snapshot E L S R opts force local_hash latest cached =
     (if cached \<noteq> None then ret cached
      else case latest of
        None \<Rightarrow> ret None
      | Some pointer \<Rightarrow> tryq (resolve_remote_snapshot L S R opts pointer) (\<lambda>r. case r of
            Current s \<Rightarrow> ret (Some s)
          | LegacyMigrated s \<Rightarrow> ret (Some s)
          | Inconsistent p candidate unreadable \<Rightarrow>
              tryq (remote_inconsistent_preview E (r_provider R) local_hash p candidate unreadable) (\<lambda>preview.
                if force \<and> \<not> c_overwrite_blocked preview then ret None else fail (Conflict preview))))"

definition push_upload ::
  "env \<Rightarrow> lib \<Rightarrow> store_ops \<Rightarrow> remote_ops \<Rightarrow> LocalCloudSyncOptions \<Rightarrow> CloudSyncState \<Rightarrow> bool \<Rightarrow> RemoteHeads \<Rightarrow>
   RawPortableSnapshot \<Rightarrow> str \<Rightarrow> CloudSyncState \<Rightarrow> CloudSyncResult io" where
  "push_upload E L S R opts state force hs local content_hash next_state =
     tryq (lift (next_clock hs (last_synced_clock state) (o_device_id opts))) (\<lambda>c.
     let s = local\<lparr>meta := (meta local)\<lparr>m_device_name := o_device_name opts, m_sync_clock := Some c\<rparr>\<rparr> in
     tryq (upload_sync_snapshot L S R opts s (selected hs)) (\<lambda>uploaded.
     let pointer = pointer_from_snapshot s in
     tryq (current_time_ms E) (\<lambda>validated.
     tryq (if force then ret () else ensure_remote_head_unchanged S R (remote_root opts) (compatibility hs)) (\<lambda>_.
     tryq (commit_snapshot E L S R opts pointer uploaded) (\<lambda>_.
     tryq (current_time_ms E) (\<lambda>synced.
     tryq (current_time_ms E) (\<lambda>checked.
       report S (sync_result (next_state\<lparr>
           last_validated_remote_revision := Some (p_revision_id pointer),
           last_full_validation_at_ms := Some validated,
           last_synced_payload_hash := Some (p_payload_hash pointer),
           last_synced_content_hash := Some content_hash,
           last_synced_clock := p_sync_clock pointer,
           last_applied_remote_revision := Some (p_revision_id pointer),
           last_synced_at_ms := Some synced,
           last_checked_at_ms := Some checked\<rparr>)
         (r_provider R) (ascii ''Cloud sync snapshot uploaded'') (Some pointer) None Uploaded))))))))"

definition push_decide ::
  "env \<Rightarrow> lib \<Rightarrow> store_ops \<Rightarrow> remote_ops \<Rightarrow> LocalCloudSyncOptions \<Rightarrow> CloudSyncState \<Rightarrow> bool \<Rightarrow> RemoteHeads \<Rightarrow>
   RawPortableSnapshot \<Rightarrow> str \<Rightarrow> RawPortableSnapshot option \<Rightarrow> CloudSyncState \<Rightarrow> CloudSyncResult io" where
  "push_decide E L S R opts state force hs local content_hash remote_snapshot next_state =
     (let latest = selected hs;
          local_hash = m_payload_hash (meta local);
          remote_changed = (case latest of Some p \<Rightarrow> last_applied_remote_revision next_state \<noteq> Some (p_revision_id p)
                                         | None \<Rightarrow> False);
          local_changed = local_content_changed next_state content_hash;
          up_to_date = ascii ''Cloud sync is already up to date''
      in if latest \<noteq> None \<and> \<not> remote_changed \<and> \<not> local_changed \<and> \<not> force
         then tryq (current_time_ms E) (\<lambda>checked.
           report S (sync_result (next_state\<lparr>last_checked_at_ms := Some checked\<rparr>) (r_provider R) up_to_date latest None
             OutcomeUpToDate))
         else if remote_changed \<and> \<not> force \<and> local_changed \<and>
                 (case remote_snapshot of Some s \<Rightarrow> has_user_content L s | None \<Rightarrow> False)
         then tryq (conflict_preview E opts (r_provider R) local_hash (the latest)) (\<lambda>preview. fail (Conflict preview))
         else if remote_changed \<and> \<not> force \<and> \<not> local_changed then fail RemoteNewer
         else push_upload E L S R opts state force hs local content_hash next_state)"

definition push_snapshot_prepared ::
  "env \<Rightarrow> lib \<Rightarrow> store_ops \<Rightarrow> remote_ops \<Rightarrow> LocalCloudSyncOptions \<Rightarrow> CloudSyncState \<Rightarrow> bool \<Rightarrow> PreparedSync option \<Rightarrow>
   CloudSyncResult io" where
  "push_snapshot_prepared E L S0 R0 opts state force prepared =
     (let R = controlled_remote E R0; S = controlled_store E S0; root = remote_root opts;
          next_state = normalized_state state (o_device_id opts) in
      tryq (checkpoint E) (\<lambda>_.
      tryq (ensure_enabled opts) (\<lambda>_.
      tryq (ensure_remote_layout R root) (\<lambda>_.
      tryq (prepare_sync L S R root prepared) (\<lambda>prep.
      tryq (snap (project_fixed L (prep_local prep))) (\<lambda>fixed.
      tryq (snap (recalculate_hash L fixed)) (\<lambda>local.
      let hs = prep_heads prep; local_hash = m_payload_hash (meta local) in
      tryq (snap (sync_content_hash L local)) (\<lambda>content_hash.
      tryq (if force then ret () else require_single E opts hs (r_provider R) local_hash) (\<lambda>_.
      tryq (if force then ret () else case selected hs of
              Some p \<Rightarrow> validate_remote_baseline E state p opts (r_provider R) local_hash | None \<Rightarrow> ret ()) (\<lambda>_.
      tryq (push_remote_snapshot E L S R opts force local_hash (selected hs) (prep_remote prep)) (\<lambda>remote_snapshot.
      tryq (if force then ret False else case (selected hs, remote_snapshot) of
              (Some _, Some s) \<Rightarrow> tryq (snap (sync_content_hash L s)) (\<lambda>h. ret (h = content_hash))
            | _ \<Rightarrow> ret False) (\<lambda>same.
      if same then
        (let p = the (selected hs) in
         tryq (current_time_ms E) (\<lambda>checked.
         tryq (current_time_ms E) (\<lambda>validated.
           report S (sync_result (next_state\<lparr>
               last_synced_payload_hash := Some local_hash,
               last_synced_content_hash := Some content_hash,
               last_synced_clock := p_sync_clock p,
               last_applied_remote_revision := Some (p_revision_id p),
               last_checked_at_ms := Some checked,
               last_validated_remote_revision := Some (p_revision_id p),
               last_full_validation_at_ms := Some validated\<rparr>)
             (r_provider R) (ascii ''Cloud sync is already up to date'') (selected hs) None OutcomeUpToDate))))
      else push_decide E L S R opts state force hs local content_hash remote_snapshot next_state))))))))))))"

section \<open>Pull\<close>

text \<open>The stage of a pull that publishes the snapshot the user chose among concurrent ones.\<close>

definition pull_resolve ::
  "env \<Rightarrow> lib \<Rightarrow> store_ops \<Rightarrow> remote_ops \<Rightarrow> LocalCloudSyncOptions \<Rightarrow> CloudSyncState \<Rightarrow> RemoteHeads \<Rightarrow>
   RemoteSyncPointer \<Rightarrow> RawPortableSnapshot \<Rightarrow> (RawPortableSnapshot \<times> RemoteSyncPointer) io" where
  "pull_resolve E L S R opts state hs latest remote_snapshot =
     tryq (snap (project_fixed L remote_snapshot)) (\<lambda>fixed.
     tryq (uuid_v4 E) (\<lambda>revision.
     tryq (current_time_ms E) (\<lambda>now.
     tryq (lift (next_clock hs (last_synced_clock state) (o_device_id opts))) (\<lambda>c.
     tryq (snap (recalculate_hash L (fixed\<lparr>meta := (meta fixed)\<lparr>m_revision_id := revision, m_created_at_ms := now,
            m_device_id := o_device_id opts, m_device_name := o_device_name opts, m_sync_clock := Some c\<rparr>\<rparr>))) (\<lambda>s.
     tryq (upload_sync_snapshot L S R opts s (Some latest)) (\<lambda>uploaded.
     tryq (commit_snapshot E L S R opts (pointer_from_snapshot s) uploaded) (\<lambda>_.
       ret (s, pointer_from_snapshot s))))))))"

definition pull_apply ::
  "env \<Rightarrow> lib \<Rightarrow> store_ops \<Rightarrow> remote_ops \<Rightarrow> LocalCloudSyncOptions \<Rightarrow> CloudSyncState \<Rightarrow> RemoteHeads \<Rightarrow>
   RemoteSyncPointer \<Rightarrow> RawPortableSnapshot \<Rightarrow> bool \<Rightarrow> str \<Rightarrow> CloudSyncState \<Rightarrow> CloudSyncResult io" where
  "pull_apply E L S R opts state hs latest remote_snapshot requires_resolution content_hash next_state =
     tryq (before_apply E) (\<lambda>_.
     tryq (if requires_resolution then pull_resolve E L S R opts state hs latest remote_snapshot
           else ret (remote_snapshot, latest)) (\<lambda>(s, pointer).
     tryq (current_time_ms E) (\<lambda>synced.
     tryq (current_time_ms E) (\<lambda>checked.
     tryq (s_apply_checked S s content_hash (next_state\<lparr>
         last_synced_clock := p_sync_clock pointer,
         last_validated_remote_revision := Some (p_revision_id pointer),
         last_applied_remote_revision := Some (m_revision_id (meta s)),
         last_synced_at_ms := Some synced,
         last_checked_at_ms := Some checked\<rparr>)) (\<lambda>(backup, applied).
       ret (sync_result applied (r_provider R) (ascii ''Cloud sync snapshot downloaded'') (Some pointer) (Some backup)
              Downloaded))))))"

definition pull_remote_snapshot ::
  "env \<Rightarrow> lib \<Rightarrow> store_ops \<Rightarrow> remote_ops \<Rightarrow> LocalCloudSyncOptions \<Rightarrow> str \<Rightarrow> RemoteSyncPointer \<Rightarrow>
   RawPortableSnapshot option \<Rightarrow> RawPortableSnapshot io" where
  "pull_remote_snapshot E L S R opts local_hash latest cached = (case cached of
     Some s \<Rightarrow> ret s
   | None \<Rightarrow> tryq (resolve_remote_snapshot L S R opts latest) (\<lambda>r. case r of
         Current s \<Rightarrow> ret s
       | LegacyMigrated s \<Rightarrow> ret s
       | Inconsistent p candidate unreadable \<Rightarrow>
           tryq (remote_inconsistent_preview E (r_provider R) local_hash p candidate unreadable) (\<lambda>preview.
             fail (Conflict preview))))"

definition pull_decide ::
  "env \<Rightarrow> lib \<Rightarrow> store_ops \<Rightarrow> remote_ops \<Rightarrow> LocalCloudSyncOptions \<Rightarrow> CloudSyncState \<Rightarrow> bool \<Rightarrow> RemoteHeads \<Rightarrow>
   RemoteSyncPointer \<Rightarrow> RawPortableSnapshot \<Rightarrow> RawPortableSnapshot \<Rightarrow> CloudSyncState \<Rightarrow> CloudSyncResult io" where
  "pull_decide E L S R opts state force hs latest local remote_snapshot next_state =
     tryq (snap (sync_content_hash L local)) (\<lambda>content_hash.
     let requires_resolution = (concurrent hs \<or> remote_precedes_baseline state latest \<or>
           remote_concurrent_with_baseline state latest);
         up_to_date = ascii ''Cloud sync is already up to date'';
         local_hash = m_payload_hash (meta local) in
     tryq (if requires_resolution then ret False
           else tryq (snap (sync_content_hash L remote_snapshot)) (\<lambda>h. ret (h = content_hash))) (\<lambda>same.
     if same then
       tryq (current_time_ms E) (\<lambda>checked.
         report S (sync_result (next_state\<lparr>
             last_synced_payload_hash := Some local_hash,
             last_synced_content_hash := Some content_hash,
             last_synced_clock := p_sync_clock latest,
             last_applied_remote_revision := Some (p_revision_id latest),
             last_checked_at_ms := Some checked\<rparr>)
           (r_provider R) up_to_date (Some latest) None OutcomeUpToDate))
     else
       let local_changed = local_content_changed next_state content_hash;
           remote_changed = (last_applied_remote_revision next_state \<noteq> Some (p_revision_id latest))
       in if remote_changed \<and> local_changed \<and> \<not> force \<and> has_user_content L local then
            (if \<not> has_user_content L remote_snapshot then fail NoNewerRemoteSnapshot
             else tryq (conflict_preview E opts (r_provider R) local_hash latest) (\<lambda>preview. fail (Conflict preview)))
          else if \<not> remote_changed \<and> \<not> force then
            (if local_changed then fail NoNewerRemoteSnapshot
             else tryq (current_time_ms E) (\<lambda>checked.
               report S (sync_result (next_state\<lparr>last_checked_at_ms := Some checked\<rparr>) (r_provider R) up_to_date
                 (Some latest) None OutcomeUpToDate)))
          else pull_apply E L S R opts state hs latest remote_snapshot requires_resolution content_hash next_state))"

definition pull_snapshot_prepared ::
  "env \<Rightarrow> lib \<Rightarrow> store_ops \<Rightarrow> remote_ops \<Rightarrow> LocalCloudSyncOptions \<Rightarrow> CloudSyncState \<Rightarrow> bool \<Rightarrow> PreparedSync option \<Rightarrow>
   CloudSyncResult io" where
  "pull_snapshot_prepared E L S0 R0 opts state force prepared =
     (let R = controlled_remote E R0; S = controlled_store E S0; root = remote_root opts in
      tryq (checkpoint E) (\<lambda>_.
      tryq (ensure_enabled opts) (\<lambda>_.
      tryq (ensure_remote_layout R root) (\<lambda>_.
      tryq (prepare_sync L S R root prepared) (\<lambda>prep.
      let hs = prep_heads prep in
      tryq (lift (ok_or NoRemoteSnapshot (selected hs))) (\<lambda>latest.
      tryq (if force then ret ()
            else validate_remote_baseline E state latest opts (r_provider R) (m_payload_hash (meta (prep_local prep)))) (\<lambda>_.
      tryq (snap (recalculate_hash L (prep_local prep))) (\<lambda>local.
      tryq (if force then ret () else require_single E opts hs (r_provider R) (m_payload_hash (meta local))) (\<lambda>_.
      tryq (pull_remote_snapshot E L S R opts (m_payload_hash (meta local)) latest (prep_remote prep)) (\<lambda>remote_snapshot.
      tryq (current_time_ms E) (\<lambda>validated.
        pull_decide E L S R opts state force hs latest local remote_snapshot
          ((normalized_state state (o_device_id opts))\<lparr>
             last_validated_remote_revision := Some (p_revision_id latest),
             last_full_validation_at_ms := Some validated\<rparr>))))))))))))"

section \<open>Recovery\<close>

definition recover_current_snapshot ::
  "env \<Rightarrow> lib \<Rightarrow> store_ops \<Rightarrow> remote_ops \<Rightarrow> LocalCloudSyncOptions \<Rightarrow> CloudSyncResult io" where
  "recover_current_snapshot E L S0 R0 opts =
     (let R = controlled_remote E R0; S = controlled_store E S0 in
      tryq (checkpoint E) (\<lambda>_.
      tryq (ensure_enabled opts) (\<lambda>_.
      tryq (ensure_remote_layout R (remote_root opts)) (\<lambda>_.
      tryq (s_build S) (\<lambda>local.
      tryq (snap (sync_content_hash L local)) (\<lambda>content_hash.
      tryq (recover_current_remote_snapshot E L S R opts) (\<lambda>s.
      let pointer = pointer_from_snapshot s in
      tryq (current_time_ms E) (\<lambda>now.
      tryq (s_apply_checked S s content_hash
        \<lparr>st_device_id = o_device_id opts, last_synced_payload_hash = None, last_synced_content_hash = None,
         last_synced_clock = p_sync_clock pointer, last_applied_remote_revision = Some (p_revision_id pointer),
         last_checked_at_ms = Some now, last_synced_at_ms = Some now,
         last_validated_remote_revision = Some (p_revision_id pointer), last_full_validation_at_ms = Some now,
         last_gc_attempt_at_ms = None\<rparr>) (\<lambda>(backup, state).
        ret (sync_result state (r_provider R) (ascii ''Cloud sync metadata recovered'') (Some pointer) (Some backup)
               Recovered))))))))))"

section \<open>The cache of checks\<close>

definition FULL_VALIDATION_INTERVAL_MS :: u64 where "FULL_VALIDATION_INTERVAL_MS = 86400000"

definition with_cache :: "(CloudSyncCheckCache \<Rightarrow> CloudSyncCheckCache) \<Rightarrow> unit io" where
  "with_cache f w = (Inr (), w\<lparr>cache := f (cache w)\<rparr>)"

definition cache_scope :: "env \<Rightarrow> unit io" where
  "cache_scope E = with_cache (\<lambda>c. if ck_context c \<noteq> Some (e_context E)
     then \<lparr>ck_context = Some (e_context E), ck_preview_set = [], ck_entries = []\<rparr> else c)"

definition prepare_preview :: "RemoteSyncPointer list \<Rightarrow> unit io" where
  "prepare_preview pointers = with_cache (\<lambda>c. if ck_preview_set c \<noteq> pointers
     then c\<lparr>ck_preview_set := pointers, ck_entries := map (\<lambda>e. e\<lparr>v_local_content_hash := []\<rparr>) (ck_entries c)\<rparr> else c)"

definition receipt_fresh :: "u64 \<Rightarrow> ValidatedSnapshot \<Rightarrow> bool" where
  "receipt_fresh now e \<longleftrightarrow> v_validated_at_ms e \<le> now \<and> now - v_validated_at_ms e < FULL_VALIDATION_INTERVAL_MS"

fun take_receipt :: "RemoteSyncPointer \<Rightarrow> ValidatedSnapshot list \<Rightarrow> (ValidatedSnapshot \<times> ValidatedSnapshot list) option" where
  "take_receipt p [] = None"
| "take_receipt p (e # es) = (if v_pointer e = p then Some (e, es)
     else map_option (\<lambda>(x, rest). (x, e # rest)) (take_receipt p es))"

definition cache_get :: "env \<Rightarrow> RemoteSyncPointer \<Rightarrow> ValidatedSnapshot option io" where
  "cache_get E pointer = tryq (current_time_ms E) (\<lambda>now w.
     let es = filter (receipt_fresh now) (ck_entries (cache w)) in
     case take_receipt pointer es of
       None \<Rightarrow> (Inr None, w\<lparr>cache := (cache w)\<lparr>ck_entries := es\<rparr>\<rparr>)
     | Some (e, rest) \<Rightarrow> (Inr (Some e), w\<lparr>cache := (cache w)\<lparr>ck_entries := rest @ [e]\<rparr>\<rparr>))"

definition cache_branch :: "env \<Rightarrow> RemoteSyncPointer \<Rightarrow> str \<Rightarrow> CloudConflictBranch option io" where
  "cache_branch E pointer local_hash = tryq (cache_get E pointer) (\<lambda>r. ret (case r of
     Some e \<Rightarrow> if v_local_content_hash e = local_hash then Some (v_branch e) else None | None \<Rightarrow> None))"

definition cache_remove :: "RemoteSyncPointer \<Rightarrow> unit io" where
  "cache_remove pointer = with_cache (\<lambda>c.
     c\<lparr>ck_entries := filter (\<lambda>e. p_revision_id (v_pointer e) \<noteq> p_revision_id pointer) (ck_entries c)\<rparr>)"

definition cache_record ::
  "env \<Rightarrow> lib \<Rightarrow> RemoteSyncPointer \<Rightarrow> RawPortableSnapshot \<Rightarrow> RawPortableSnapshot \<Rightarrow> unit io" where
  "cache_record E L pointer s local =
     tryq (cache_remove pointer) (\<lambda>_.
     tryq (snap (sync_content_hash L s)) (\<lambda>content_hash.
     tryq (current_time_ms E) (\<lambda>now.
     tryq (snap (sync_content_hash L local)) (\<lambda>local_hash.
       with_cache (\<lambda>c. let es = ck_entries c @
           [\<lparr>v_pointer = pointer, v_content_hash = content_hash, v_validated_at_ms = now,
             v_local_content_hash = local_hash, v_remote_has_user_content = has_user_content L s,
             v_branch = \<lparr>b_revision = p_revision_id pointer, b_device_id = p_device_id pointer,
               b_device_name = m_device_name (meta s), b_created_at_ms = p_created_at_ms pointer, b_readable = True,
               b_differences = summarize L local s\<rparr>\<rparr>]
         in c\<lparr>ck_entries := drop (length es - 256) es\<rparr>)))))"

section \<open>Check\<close>

record CloudSyncCheck =
  chk_decision :: CloudRemoteCheckDecision
  chk_pointer :: "RemoteSyncPointer option"
  chk_state :: CloudSyncState
  chk_prepared :: PreparedSync

definition decide_snapshot_check ::
  "lib \<Rightarrow> CloudSyncState \<Rightarrow> RawPortableSnapshot \<Rightarrow> RawPortableSnapshot \<Rightarrow> RemoteSyncPointer \<Rightarrow> bool \<Rightarrow>
   PortableSnapshotError + CloudRemoteCheckDecision" where
  "decide_snapshot_check L state local remote pointer allow_auto_pull =
     rbind (sync_content_hash L local) (\<lambda>local_hash.
     rbind (sync_content_hash L remote) (\<lambda>remote_hash.
       if local_hash = remote_hash then Inr UpToDate
       else let local_changed = local_content_changed state local_hash;
                remote_changed = (last_applied_remote_revision state \<noteq> Some (p_revision_id pointer))
         in if remote_changed \<and> local_changed \<and> \<not> has_user_content L local
            then Inr (if allow_auto_pull then AutoPull else RemoteAvailable)
            else if remote_changed \<and> local_changed \<and> \<not> has_user_content L remote then Inr LocalChanged
            else Inr (check_decision remote_changed local_changed allow_auto_pull)))"

definition receipt_decision ::
  "lib \<Rightarrow> CloudSyncState \<Rightarrow> RawPortableSnapshot \<Rightarrow> str \<Rightarrow> ValidatedSnapshot \<Rightarrow> RemoteSyncPointer \<Rightarrow> bool \<Rightarrow>
   CloudRemoteCheckDecision" where
  "receipt_decision L state local local_hash receipt pointer allow_auto_pull =
     (if local_hash = v_content_hash receipt then UpToDate
      else let local_changed = local_content_changed state local_hash;
               remote_changed = (last_applied_remote_revision state \<noteq> Some (p_revision_id pointer))
        in if remote_changed \<and> local_changed \<and> \<not> has_user_content L local then
             (if allow_auto_pull then AutoPull else RemoteAvailable)
           else if remote_changed \<and> local_changed \<and> \<not> v_remote_has_user_content receipt then LocalChanged
           else check_decision remote_changed local_changed allow_auto_pull)"

definition synced_to ::
  "CloudSyncState \<Rightarrow> str \<Rightarrow> str \<Rightarrow> RemoteSyncPointer \<Rightarrow> CloudSyncState" where
  "synced_to state content_hash payload_hash pointer =
     state\<lparr>last_synced_content_hash := Some content_hash, last_synced_payload_hash := Some payload_hash,
       last_synced_clock := p_sync_clock pointer, last_applied_remote_revision := Some (p_revision_id pointer)\<rparr>"

definition check_cached ::
  "env \<Rightarrow> lib \<Rightarrow> LocalCloudSyncOptions \<Rightarrow> str \<Rightarrow> CloudSyncState \<Rightarrow> bool \<Rightarrow> RawPortableSnapshot \<Rightarrow> RemoteHeads \<Rightarrow>
   RemoteSyncPointer \<Rightarrow> CloudSyncState \<Rightarrow> ValidatedSnapshot \<Rightarrow> CloudSyncCheck io" where
  "check_cached E L opts provider state allow_auto_pull local hs pointer checked receipt =
     tryq (snap (sync_content_hash L local)) (\<lambda>local_hash.
     let decision = receipt_decision L state local local_hash receipt pointer allow_auto_pull in
     if decision = DecideConflict
     then tryq (conflict_preview E opts provider (m_payload_hash (meta local)) pointer) (\<lambda>preview. fail (Conflict preview))
     else ret \<lparr>chk_decision = decision, chk_pointer = Some pointer,
        chk_state = (if decision = UpToDate then synced_to checked local_hash (m_payload_hash (meta local)) pointer
                     else checked)\<lparr>last_validated_remote_revision := Some (p_revision_id pointer),
                       last_full_validation_at_ms := Some (v_validated_at_ms receipt)\<rparr>,
        chk_prepared = \<lparr>prep_local = local, prep_heads = hs, prep_remote = None\<rparr>\<rparr>)"

definition check_full ::
  "env \<Rightarrow> lib \<Rightarrow> store_ops \<Rightarrow> remote_ops \<Rightarrow> LocalCloudSyncOptions \<Rightarrow> CloudSyncState \<Rightarrow> bool \<Rightarrow> bool \<Rightarrow>
   RawPortableSnapshot \<Rightarrow> RemoteHeads \<Rightarrow> RemoteSyncPointer \<Rightarrow> CloudSyncState \<Rightarrow> CloudSyncCheck io" where
  "check_full E L S R opts state allow_auto_pull cached local hs pointer checked =
     tryq (resolve_remote_snapshot L S R opts pointer) (\<lambda>r.
     tryq (case r of
         Current s \<Rightarrow> ret s
       | LegacyMigrated s \<Rightarrow> ret s
       | Inconsistent p candidate unreadable \<Rightarrow>
           tryq (remote_inconsistent_preview E (r_provider R) (m_payload_hash (meta local)) p candidate unreadable)
             (\<lambda>preview. fail (Conflict preview))) (\<lambda>remote_snapshot.
     tryq (if cached then cache_record E L pointer remote_snapshot local else ret ()) (\<lambda>_.
     tryq (snap (decide_snapshot_check L state local remote_snapshot pointer allow_auto_pull)) (\<lambda>decision.
     if decision = DecideConflict
     then tryq (conflict_preview E opts (r_provider R) (m_payload_hash (meta local)) pointer) (\<lambda>preview.
       fail (Conflict preview))
     else tryq (if decision = UpToDate
           then tryq (snap (sync_content_hash L local)) (\<lambda>h.
             ret ((synced_to checked h (m_payload_hash (meta local)) pointer)\<lparr>
               last_validated_remote_revision := Some (p_revision_id pointer),
               last_full_validation_at_ms := last_checked_at_ms checked\<rparr>))
           else ret checked) (\<lambda>checked'.
       ret \<lparr>chk_decision = decision, chk_pointer = Some pointer, chk_state = checked',
            chk_prepared = \<lparr>prep_local = local, prep_heads = hs, prep_remote = Some remote_snapshot\<rparr>\<rparr>)))))"

definition check_snapshot_inner ::
  "env \<Rightarrow> lib \<Rightarrow> store_ops \<Rightarrow> remote_ops \<Rightarrow> LocalCloudSyncOptions \<Rightarrow> CloudSyncState \<Rightarrow> bool \<Rightarrow> bool \<Rightarrow> CloudSyncCheck io" where
  "check_snapshot_inner E L S R opts state allow_auto_pull cached =
     tryq (ensure_enabled opts) (\<lambda>_.
     tryq (s_build S) (\<lambda>built.
     tryq (snap (recalculate_hash L built)) (\<lambda>local.
     tryq (current_time_ms E) (\<lambda>now.
     let checked = state\<lparr>last_checked_at_ms := Some now\<rparr> in
     tryq (heads_read L S R (remote_root opts)) (\<lambda>hs.
     tryq (if cached then prepare_preview (maximal hs) else ret ()) (\<lambda>_.
     tryq (require_single E opts hs (r_provider R) (m_payload_hash (meta local))) (\<lambda>_.
     case selected hs of
       None \<Rightarrow> ret \<lparr>chk_decision = LocalChanged, chk_pointer = None, chk_state = checked,
                 chk_prepared = \<lparr>prep_local = local, prep_heads = hs, prep_remote = None\<rparr>\<rparr>
     | Some pointer \<Rightarrow>
         tryq (validate_remote_baseline E state pointer opts (r_provider R) (m_payload_hash (meta local))) (\<lambda>_.
         tryq (if cached then cache_get E pointer else ret None) (\<lambda>receipt. case receipt of
             Some r \<Rightarrow> check_cached E L opts (r_provider R) state allow_auto_pull local hs pointer checked r
           | None \<Rightarrow> tryq (if cached then cache_remove pointer else ret ()) (\<lambda>_.
               check_full E L S R opts state allow_auto_pull cached local hs pointer checked))))))))))"

section \<open>Conflict details\<close>

definition blocks_overwrite :: "CloudSyncError \<Rightarrow> bool" where
  "blocks_overwrite e = (case e of
     RemoteSnapshotUnreadable _ _ _ _ cause _ \<Rightarrow> blocks_remote_overwrite cause
   | PortableSnapshot p \<Rightarrow> (case p of
       MissingMasterPassword \<Rightarrow> True
     | UnsupportedEncryptionVersion _ \<Rightarrow> True
     | InvalidEncryptionEnvelope \<Rightarrow> True
     | UnsupportedVersion _ \<Rightarrow> True
     | _ \<Rightarrow> False)
   | _ \<Rightarrow> False)"

definition conflict_branch ::
  "env \<Rightarrow> lib \<Rightarrow> store_ops \<Rightarrow> remote_ops \<Rightarrow> LocalCloudSyncOptions \<Rightarrow> bool \<Rightarrow> RawPortableSnapshot \<Rightarrow> str \<Rightarrow>
   RemoteSyncPointer \<Rightarrow> CloudConflictBranch list \<times> bool \<Rightarrow> (CloudConflictBranch list \<times> bool) io" where
  "conflict_branch E L S R opts cached local local_hash pointer st = (case st of (acc, blocked) \<Rightarrow>
     tryq (if cached then cache_branch E pointer local_hash else ret None) (\<lambda>b. case b of
       Some branch \<Rightarrow> ret (acc @ [branch], blocked)
     | None \<Rightarrow> tryq (if cached then cache_remove pointer else ret ()) (\<lambda>_.
         attempt (read_snapshot_for_pointer L S R opts pointer) (\<lambda>d.
           tryq (case d of
               Inr s \<Rightarrow> if cached then attempt (cache_record E L pointer s local) (\<lambda>_. ret ()) else ret ()
             | Inl _ \<Rightarrow> ret ()) (\<lambda>_.
           ret (acc @ [\<lparr>b_revision = p_revision_id pointer, b_device_id = p_device_id pointer,
                  b_device_name = (case d of Inr s \<Rightarrow> m_device_name (meta s) | Inl _ \<Rightarrow> None),
                  b_created_at_ms = p_created_at_ms pointer,
                  b_readable = (case d of Inr _ \<Rightarrow> True | Inl _ \<Rightarrow> False),
                  b_differences = (case d of Inr s \<Rightarrow> summarize L local s | Inl _ \<Rightarrow> [])\<rparr>],
                blocked \<or> (case d of Inl e \<Rightarrow> blocks_overwrite e | Inr _ \<Rightarrow> False)))))))"

definition with_details ::
  "env \<Rightarrow> lib \<Rightarrow> store_ops \<Rightarrow> remote_ops \<Rightarrow> LocalCloudSyncOptions \<Rightarrow> bool \<Rightarrow> 'a io \<Rightarrow> 'a io" where
  "with_details E L S R opts cached m =
     attempt m (\<lambda>r. case r of
       Inr x \<Rightarrow> ret x
     | Inl e \<Rightarrow> (case e of
         Conflict preview \<Rightarrow>
           attempt (s_build S) (\<lambda>l.
           attempt (heads_read L S R (remote_root opts)) (\<lambda>h. case (l, h) of
               (Inr local, Inr hs) \<Rightarrow>
                 let lh = (case sync_content_hash L local of Inr x \<Rightarrow> Some x | Inl _ \<Rightarrow> None);
                     pointers = maximal hs in
                 tryq (if cached then prepare_preview pointers else ret ()) (\<lambda>_.
                 tryq (for_each pointers ([], c_overwrite_blocked preview)
                     (conflict_branch E L S R opts cached local (case lh of Some x \<Rightarrow> x | None \<Rightarrow> []))) (\<lambda>(bs, blocked).
                   fail (Conflict (preview\<lparr>branches := bs, c_observed_revisions := observed_revisions hs,
                     c_local_content_hash := lh, c_overwrite_blocked := blocked\<rparr>))))
             | _ \<Rightarrow> fail e))
       | _ \<Rightarrow> fail e))"

definition push_snapshot ::
  "env \<Rightarrow> lib \<Rightarrow> store_ops \<Rightarrow> remote_ops \<Rightarrow> LocalCloudSyncOptions \<Rightarrow> CloudSyncState \<Rightarrow> bool \<Rightarrow> PreparedSync option \<Rightarrow>
   CloudSyncResult io" where
  "push_snapshot E L S R opts state force prepared =
     with_details E L (controlled_store E S) (controlled_remote E R) opts False
       (push_snapshot_prepared E L S R opts state force prepared)"

definition pull_snapshot ::
  "env \<Rightarrow> lib \<Rightarrow> store_ops \<Rightarrow> remote_ops \<Rightarrow> LocalCloudSyncOptions \<Rightarrow> CloudSyncState \<Rightarrow> bool \<Rightarrow> PreparedSync option \<Rightarrow>
   CloudSyncResult io" where
  "pull_snapshot E L S R opts state force prepared =
     with_details E L (controlled_store E S) (controlled_remote E R) opts False
       (pull_snapshot_prepared E L S R opts state force prepared)"

definition check_snapshot ::
  "env \<Rightarrow> lib \<Rightarrow> store_ops \<Rightarrow> remote_ops \<Rightarrow> LocalCloudSyncOptions \<Rightarrow> CloudSyncState \<Rightarrow> bool \<Rightarrow> bool \<Rightarrow> CloudSyncCheck io" where
  "check_snapshot E L S R opts state allow_auto_pull cached =
     tryq (if cached then cache_scope E else ret ()) (\<lambda>_.
       with_details E L S R opts cached (check_snapshot_inner E L S R opts state allow_auto_pull cached))"

section \<open>Resolving a conflict\<close>

record CloudResolutionRequest =
  rq_observed_revisions :: "str list"
  rq_selected_revision :: "str option"
  rq_local_content_hash :: str

definition changed_preview ::
  "env \<Rightarrow> lib \<Rightarrow> store_ops \<Rightarrow> remote_ops \<Rightarrow> LocalCloudSyncOptions \<Rightarrow> 'a io" where
  "changed_preview E L S R opts =
     attempt (s_build S) (\<lambda>l. case l of
       Inl _ \<Rightarrow> fail LocalChangedDuringSync
     | Inr local \<Rightarrow> attempt (heads_read L S R (remote_root opts)) (\<lambda>h.
         let pointer = (case h of
             Inr hs \<Rightarrow> (case selected hs of Some p \<Rightarrow> p | None \<Rightarrow> pointer_from_snapshot local)
           | Inl _ \<Rightarrow> pointer_from_snapshot local) in
         tryq (conflict_preview E opts (r_provider R) (m_payload_hash (meta local)) pointer) (\<lambda>preview.
           fail (Conflict (preview\<lparr>c_message :=
             ascii ''Cloud sync changed; review the refreshed branches before confirming again''\<rparr>)))))"

definition validate_resolution ::
  "env \<Rightarrow> lib \<Rightarrow> store_ops \<Rightarrow> remote_ops \<Rightarrow> LocalCloudSyncOptions \<Rightarrow> CloudResolutionRequest \<Rightarrow> RemoteHeads io" where
  "validate_resolution E L S R opts request =
     tryq (heads_read L S R (remote_root opts)) (\<lambda>hs.
       if observed_revisions hs \<noteq> rq_observed_revisions request
       then case selected hs of
         Some pointer \<Rightarrow> tryq (conflict_preview E opts (r_provider R) [] pointer) (\<lambda>preview. fail (Conflict preview))
       | None \<Rightarrow> changed_preview E L S R opts
       else ret hs)"

definition guarded_write ::
  "env \<Rightarrow> lib \<Rightarrow> store_ops \<Rightarrow> remote_ops \<Rightarrow> LocalCloudSyncOptions \<Rightarrow> CloudResolutionRequest \<Rightarrow> str \<Rightarrow> u8 list \<Rightarrow> unit io" where
  "guarded_write E L S R opts request path bytes =
     (if path = device_head_path L (remote_root opts) (o_device_id opts)
      then tryq (validate_resolution E L S R opts request) (\<lambda>hs.
        tryq (s_build S) (\<lambda>local.
        tryq (snap (sync_content_hash L local)) (\<lambda>h.
          if h \<noteq> rq_local_content_hash request then changed_preview E L S R opts
          else case rq_selected_revision request of
            None \<Rightarrow> r_write R path bytes
          | Some revision \<Rightarrow>
              (case find (\<lambda>p. p_revision_id p = revision) (maximal hs) of
                 None \<Rightarrow> changed_preview E L S R opts
               | Some pointer \<Rightarrow> attempt (read_snapshot_for_pointer L S R opts pointer) (\<lambda>r. case r of
                     Inl _ \<Rightarrow> changed_preview E L S R opts
                   | Inr _ \<Rightarrow> r_write R path bytes)))))
      else r_write R path bytes)"

definition resolution_remote ::
  "env \<Rightarrow> lib \<Rightarrow> store_ops \<Rightarrow> remote_ops \<Rightarrow> LocalCloudSyncOptions \<Rightarrow> CloudResolutionRequest \<Rightarrow> remote_ops" where
  "resolution_remote E L S R opts request = R\<lparr>r_write := guarded_write E L S R opts request\<rparr>"

definition resolve_body ::
  "env \<Rightarrow> lib \<Rightarrow> store_ops \<Rightarrow> remote_ops \<Rightarrow> LocalCloudSyncOptions \<Rightarrow> CloudSyncState \<Rightarrow> CloudResolutionRequest \<Rightarrow>
   CloudSyncResult io" where
  "resolve_body E L S R opts state request =
     (let guard = resolution_remote E L S R opts request in
      tryq (checkpoint E) (\<lambda>_.
      tryq (validate_resolution E L S R opts request) (\<lambda>hs.
      tryq (s_build S) (\<lambda>local.
      tryq (snap (sync_content_hash L local)) (\<lambda>h.
      if h \<noteq> rq_local_content_hash request then changed_preview E L S R opts
      else case rq_selected_revision request of
        Some revision \<Rightarrow>
          tryq (lift (ok_or NoRemoteSnapshot (find (\<lambda>p. p_revision_id p = revision) (maximal hs)))) (\<lambda>pointer.
          tryq (read_snapshot_for_pointer L S R opts pointer) (\<lambda>s.
            pull_snapshot_prepared E L S guard opts state True
              (Some \<lparr>prep_local = local, prep_heads = hs\<lparr>selected := Some pointer\<rparr>, prep_remote = Some s\<rparr>)))
      | None \<Rightarrow>
          tryq (for_each (maximal hs) () (\<lambda>pointer _.
            attempt (read_snapshot_for_pointer L S R opts pointer) (\<lambda>r. case r of
                Inl e \<Rightarrow> if blocks_overwrite e then changed_preview E L S R opts else ret ()
              | Inr _ \<Rightarrow> ret ()))) (\<lambda>_.
            push_snapshot_prepared E L S guard opts state True
              (Some \<lparr>prep_local = local, prep_heads = hs, prep_remote = None\<rparr>)))))))"

definition resolution_stale :: "CloudSyncError \<Rightarrow> bool" where
  "resolution_stale e \<longleftrightarrow> e = NoRemoteSnapshot \<or> e = LocalChangedDuringSync \<or> head_is_unusable e"

definition resolve_with_remote ::
  "env \<Rightarrow> lib \<Rightarrow> store_ops \<Rightarrow> remote_ops \<Rightarrow> LocalCloudSyncOptions \<Rightarrow> CloudSyncState \<Rightarrow> CloudResolutionRequest \<Rightarrow>
   CloudSyncResult io" where
  "resolve_with_remote E L S0 R0 opts state request =
     (let R = controlled_remote E R0; S = controlled_store E S0 in
      tryq (checkpoint E) (\<lambda>_.
        with_details E L S R opts False
          (attempt (resolve_body E L S R opts state request) (\<lambda>r. case r of
              Inr x \<Rightarrow> ret x
            | Inl e \<Rightarrow> if resolution_stale e then changed_preview E L S R opts else fail e))))"

end
