(* ===== verification/Sync_Logic.thy ===== *)
theory Sync_Logic
  imports Sync_Engine "HOL-Library.Sublist"
begin

text \<open>
  Reasoning about runs of the engine. \<open>grows A m\<close>: whatever happens, \<open>m\<close> only adds events of
  \<open>A\<close> to the log. \<open>hoare P m Q X\<close>: from a world in \<open>P\<close>, \<open>m\<close> ends in \<open>Q x\<close> with a value \<open>x\<close> or
  in \<open>X e\<close> with an error \<open>e\<close>. The contracts of remotes and stores are locales, which the raw
  operations of any environment and their cancellable wrappers satisfy.
\<close>

section \<open>Growing logs\<close>

named_theorems grows_intros

definition grows :: "(event \<Rightarrow> bool) \<Rightarrow> 'a io \<Rightarrow> bool" where
  "grows A m \<longleftrightarrow> (\<forall>w. \<exists>es. past (snd (m w)) = es @ past w \<and> (\<forall>e \<in> set es. A e))"

lemma growsD: "grows A m \<Longrightarrow> m w = (r, w') \<Longrightarrow> \<exists>es. past w' = es @ past w \<and> (\<forall>e \<in> set es. A e)"
  unfolding grows_def by (metis snd_conv)

lemma growsI: "(\<And>w r w'. m w = (r, w') \<Longrightarrow> \<exists>es. past w' = es @ past w \<and> (\<forall>e \<in> set es. A e)) \<Longrightarrow> grows A m"
  unfolding grows_def by (metis prod.collapse)

lemma grows_mono: "grows A m \<Longrightarrow> (\<And>e. A e \<Longrightarrow> B e) \<Longrightarrow> grows B m"
  unfolding grows_def by meson

lemma grows_pure [grows_intros]: "grows A (ret x)" "grows A (fail e)" "grows A (lift r)"
  by (simp_all add: grows_def ret_def fail_def lift_def)

lemma grows_attempt [grows_intros]:
  assumes "grows A m" and "\<And>r. grows A (f r)"
  shows "grows A (attempt m f)"
proof (rule growsI)
  fix w r w'
  assume run: "attempt m f w = (r, w')"
  obtain r1 w1 where m: "m w = (r1, w1)" by (cases "m w")
  from growsD [OF assms(1) m] obtain es1 where 1: "past w1 = es1 @ past w" "\<forall>e \<in> set es1. A e" by blast
  have "f r1 w1 = (r, w')" using run m by (simp add: attempt_def)
  from growsD [OF assms(2) this] obtain es2 where "past w' = es2 @ past w1" "\<forall>e \<in> set es2. A e" by blast
  with 1 show "\<exists>es. past w' = es @ past w \<and> (\<forall>e \<in> set es. A e)" by (intro exI [of _ "es2 @ es1"]) auto
qed

lemma grows_tryq [grows_intros]:
  assumes "grows A m" and "\<And>x. grows A (f x)"
  shows "grows A (tryq m f)"
  unfolding tryq_def
proof (rule grows_attempt [OF assms(1)])
  show "grows A (case r of Inr x \<Rightarrow> f x | Inl e \<Rightarrow> fail e)" for r
    by (cases r) (simp_all add: assms(2) grows_pure)
qed

lemma grows_for_each [grows_intros]:
  assumes "\<And>x s. grows A (body x s)"
  shows "grows A (for_each xs s body)"
  by (induction xs arbitrary: s) (simp_all add: assms grows_intros)

lemma grows_if [grows_intros]: "(b \<Longrightarrow> grows A m) \<Longrightarrow> (\<not> b \<Longrightarrow> grows A n) \<Longrightarrow> grows A (if b then m else n)"
  by simp

lemma grows_case_option [grows_intros]:
  "grows A m \<Longrightarrow> (\<And>x. grows A (f x)) \<Longrightarrow> grows A (case r of None \<Rightarrow> m | Some x \<Rightarrow> f x)"
  by (cases r) auto

lemma grows_case_sum [grows_intros]:
  "(\<And>x. grows A (f x)) \<Longrightarrow> (\<And>x. grows A (g x)) \<Longrightarrow> grows A (case r of Inl x \<Rightarrow> f x | Inr x \<Rightarrow> g x)"
  by (cases r) auto

lemma grows_case_prod [grows_intros]: "(\<And>x y. grows A (f x y)) \<Longrightarrow> grows A (case p of (x, y) \<Rightarrow> f x y)"
  by (cases p) auto

lemma grows_case_resolution [grows_intros]:
  "(\<And>s. grows A (f s)) \<Longrightarrow> (\<And>s. grows A (g s)) \<Longrightarrow> (\<And>p c u. grows A (h p c u)) \<Longrightarrow>
   grows A (case r of Current s \<Rightarrow> f s | LegacyMigrated s \<Rightarrow> g s | Inconsistent p c u \<Rightarrow> h p c u)"
  by (cases r) auto

section \<open>Triples\<close>

definition hoare ::
  "(world \<Rightarrow> bool) \<Rightarrow> 'a io \<Rightarrow> ('a \<Rightarrow> world \<Rightarrow> bool) \<Rightarrow> (CloudSyncError \<Rightarrow> world \<Rightarrow> bool) \<Rightarrow> bool" where
  "hoare P m Q X \<longleftrightarrow> (\<forall>w. P w \<longrightarrow> (case m w of (Inr x, w') \<Rightarrow> Q x w' | (Inl e, w') \<Rightarrow> X e w'))"

lemma hoareI:
  "(\<And>w x w'. P w \<Longrightarrow> m w = (Inr x, w') \<Longrightarrow> Q x w') \<Longrightarrow> (\<And>w e w'. P w \<Longrightarrow> m w = (Inl e, w') \<Longrightarrow> X e w') \<Longrightarrow> hoare P m Q X"
  unfolding hoare_def by (auto split: prod.split sum.split)

lemma hoare_Inr: "hoare P m Q X \<Longrightarrow> P w \<Longrightarrow> m w = (Inr x, w') \<Longrightarrow> Q x w'"
  unfolding hoare_def by (fastforce split: prod.splits sum.splits)

lemma hoare_Inl: "hoare P m Q X \<Longrightarrow> P w \<Longrightarrow> m w = (Inl e, w') \<Longrightarrow> X e w'"
  unfolding hoare_def by (fastforce split: prod.splits sum.splits)

lemma hoare_conseq:
  "hoare P m Q X \<Longrightarrow> (\<And>w. P' w \<Longrightarrow> P w) \<Longrightarrow> (\<And>x w. Q x w \<Longrightarrow> Q' x w) \<Longrightarrow> (\<And>e w. X e w \<Longrightarrow> X' e w) \<Longrightarrow> hoare P' m Q' X'"
  unfolding hoare_def by (fastforce split: prod.splits sum.splits)

lemma hoare_ret: "(\<And>w. P w \<Longrightarrow> Q x w) \<Longrightarrow> hoare P (ret x) Q X"
  by (simp add: hoare_def ret_def)

lemma hoare_fail: "(\<And>w. P w \<Longrightarrow> X e w) \<Longrightarrow> hoare P (fail e) Q X"
  by (simp add: hoare_def fail_def)

lemma hoare_lift:
  "(\<And>x w. r = Inr x \<Longrightarrow> P w \<Longrightarrow> Q x w) \<Longrightarrow> (\<And>e w. r = Inl e \<Longrightarrow> P w \<Longrightarrow> X e w) \<Longrightarrow> hoare P (lift r) Q X"
  by (cases r) (auto simp: hoare_def lift_def)

lemma hoare_attempt:
  assumes "hoare P m Q X" and "\<And>x. hoare (Q x) (f (Inr x)) R Y" and "\<And>e. hoare (X e) (f (Inl e)) R Y"
  shows "hoare P (attempt m f) R Y"
  unfolding hoare_def attempt_def
proof (intro allI impI)
  fix w assume "P w"
  obtain r w1 where m: "m w = (r, w1)" by (cases "m w")
  show "case case m w of (r, w') \<Rightarrow> f r w' of (Inl e, w') \<Rightarrow> Y e w' | (Inr x, w') \<Rightarrow> R x w'"
  proof (cases r)
    case (Inl e)
    with assms(1) m \<open>P w\<close> have "X e w1" by (simp add: hoare_Inl)
    with assms(3) [of e] m Inl show ?thesis by (simp add: hoare_def)
  next
    case (Inr x)
    with assms(1) m \<open>P w\<close> have "Q x w1" by (simp add: hoare_Inr)
    with assms(2) [of x] m Inr show ?thesis by (simp add: hoare_def)
  qed
qed

lemma hoare_tryq:
  assumes "hoare P m Q X" and "\<And>x. hoare (Q x) (f x) R X"
  shows "hoare P (tryq m f) R X"
  unfolding tryq_def by (rule hoare_attempt [OF assms(1)]) (simp_all add: assms(2) hoare_fail)

lemma hoare_for_each:
  assumes "\<And>x s. x \<in> set xs \<Longrightarrow> hoare (I s) (body x s) I X"
  shows "hoare (I s) (for_each xs s body) I X"
  using assms
proof (induction xs arbitrary: s)
  case Nil
  show ?case by (simp add: hoare_ret)
next
  case (Cons x xs)
  show ?case unfolding for_each.simps
    by (rule hoare_tryq [where Q = I]) (simp_all add: Cons)
qed

lemma hoare_if: "(b \<Longrightarrow> hoare P m Q X) \<Longrightarrow> (\<not> b \<Longrightarrow> hoare P n Q X) \<Longrightarrow> hoare P (if b then m else n) Q X"
  by simp

text \<open>Facts about what has been logged since a moment, and those that certain events keep.\<close>

definition since :: "event list \<Rightarrow> (event list \<Rightarrow> bool) \<Rightarrow> world \<Rightarrow> bool" where
  "since t P w \<longleftrightarrow> (\<exists>es. past w = es @ t \<and> P es)"

definition stable :: "(event \<Rightarrow> bool) \<Rightarrow> (event list \<Rightarrow> bool) \<Rightarrow> bool" where
  "stable A P \<longleftrightarrow> (\<forall>e es. A e \<longrightarrow> P es \<longrightarrow> P (e # es))"

lemma stable_append: "stable A P \<Longrightarrow> \<forall>e \<in> set es. A e \<Longrightarrow> P fs \<Longrightarrow> P (es @ fs)"
  by (induction es) (auto simp: stable_def)

lemma grows_since:
  assumes "grows A m" and "stable A P" and "since t P w" and "m w = (r, w')"
  shows "since t P w'"
proof -
  obtain es fs where "past w' = es @ past w" "\<forall>e \<in> set es. A e" "past w = fs @ t" "P fs"
    using growsD [OF assms(1,4)] assms(3) by (auto simp: since_def)
  then show ?thesis using stable_append [OF assms(2)] by (auto simp: since_def)
qed

lemma hoare_grows: "grows A m \<Longrightarrow> stable A P \<Longrightarrow> hoare (since t P) m (\<lambda>_. since t P) (\<lambda>_. since t P)"
  by (rule hoareI) (auto intro: grows_since)

lemma subseq_stable: "stable A (\<lambda>es. subseq l es)"
  by (auto simp: stable_def)

lemma stable_conj: "stable A P \<Longrightarrow> stable A Q \<Longrightarrow> stable A (\<lambda>es. P es \<and> Q es)"
  by (auto simp: stable_def)

section \<open>Contracts\<close>

text \<open>The events that change neither the remote nor the local state.\<close>

definition harmless :: "event \<Rightarrow> bool" where
  "harmless e = (case e of
     ECreateDir _ _ \<Rightarrow> False | EWrite _ _ _ \<Rightarrow> False | EDelete _ _ \<Rightarrow> False
   | EApply _ _ _ _ \<Rightarrow> False | EPersist _ _ \<Rightarrow> False | ECommit \<Rightarrow> False | _ \<Rightarrow> True)"

lemma harmless_simps [simp]:
  "harmless (ECapacity a)" "harmless (ERead p b)" "harmless (EList p c)" "harmless (EEncode s pw d)"
  "harmless (EDecode bs pw f)" "harmless (EEncodePointer q d)" "harmless (EDecodePointer bs g)" "harmless (EBuild f)"
  "harmless (EVerifyPassword pw h)" "harmless (EBeforeApply i)" "harmless (ENow n)" "harmless (EUuid u)" "harmless ECancel"
  "\<not> harmless (ECreateDir p i)" "\<not> harmless (EWrite p bs i)" "\<not> harmless (EDelete p i)" "\<not> harmless (EApply s x st k)"
  "\<not> harmless (EPersist st i)" "\<not> harmless ECommit"
  by (simp_all add: harmless_def)

text \<open>\<open>performs C ev m\<close>: besides harmless events and those of \<open>C\<close>, \<open>m\<close> logs only \<open>ev\<close>, and it
  does log it when it succeeds.\<close>

definition performs :: "(event \<Rightarrow> bool) \<Rightarrow> (CloudSyncError + 'a \<Rightarrow> event) \<Rightarrow> 'a io \<Rightarrow> bool" where
  "performs C ev m \<longleftrightarrow> (\<forall>w r w'. m w = (r, w') \<longrightarrow>
     (\<exists>es. past w' = es @ past w \<and> (\<forall>e \<in> set es. harmless e \<or> C e \<or> (\<exists>r'. e = ev r')) \<and>
       (\<forall>x. r = Inr x \<longrightarrow> ev (Inr x) \<in> set es)))"

lemma performs_grows: "performs C ev m \<Longrightarrow> grows (\<lambda>e. harmless e \<or> C e \<or> (\<exists>r. e = ev r)) m"
  unfolding performs_def by (rule growsI) blast

lemma performs_ask: "performs C ev (ask answer ev)"
  by (auto simp: performs_def ask_def Let_def)

abbreviation plainly :: "event \<Rightarrow> bool" where "plainly \<equiv> \<lambda>_. False"

locale remote_contract =
  fixes R :: remote_ops
  assumes performs_capacity: "performs plainly ECapacity (r_capacity R)"
    and performs_create_dir: "performs plainly (ECreateDir p) (r_create_dir R p)"
    and performs_read: "performs plainly (ERead p) (r_read R p)"
    and performs_write: "performs plainly (EWrite p b) (r_write R p b)"
    and performs_delete: "performs plainly (EDelete p) (r_delete R p)"
    and performs_list: "performs plainly (EList p) (r_list R p)"

locale store_contract =
  fixes S :: store_ops
  assumes performs_encode: "performs plainly (EEncode s pw) (s_encode S s pw)"
    and performs_decode: "performs plainly (EDecode b pw) (s_decode S b pw)"
    and performs_encode_pointer: "performs plainly (EEncodePointer q) (s_encode_pointer S q)"
    and performs_decode_pointer: "performs plainly (EDecodePointer b) (s_decode_pointer S b)"
    and performs_build: "performs plainly EBuild (s_build S)"
    and performs_apply: "performs (\<lambda>e. e = ECommit) (EApply s h st) (s_apply_checked S s h st)"
    and performs_persist: "performs (\<lambda>e. e = ECommit) (EPersist st) (s_persist S st)"
    and performs_verify_password: "performs plainly (EVerifyPassword pw) (s_verify_password S pw)"

interpretation raw_remote: remote_contract "raw_remote E" for E
  by unfold_locales (simp_all add: raw_remote_def performs_ask)

interpretation raw_store: store_contract "raw_store E" for E
  by unfold_locales (simp_all add: raw_store_def performs_ask)

lemma performsD:
  "performs C ev m \<Longrightarrow> m w = (r, w') \<Longrightarrow>
   \<exists>es. past w' = es @ past w \<and> (\<forall>e \<in> set es. harmless e \<or> C e \<or> (\<exists>r'. e = ev r')) \<and>
     (\<forall>x. r = Inr x \<longrightarrow> ev (Inr x) \<in> set es)"
  by (simp add: performs_def)

lemma performs_mono: "performs C ev m \<Longrightarrow> (\<And>e. C e \<Longrightarrow> D e) \<Longrightarrow> performs D ev m"
  unfolding performs_def by meson

lemma performs_attempt:
  assumes "grows (\<lambda>e. harmless e \<or> C e) p" and "\<And>r. performs C ev (f r)"
  shows "performs C ev (attempt p f)"
  unfolding performs_def
proof (intro allI impI)
  fix w r w'
  assume run: "attempt p f w = (r, w')"
  obtain r1 w1 where p: "p w = (r1, w1)" by (cases "p w")
  from growsD [OF assms(1) p] obtain es1 where 1: "past w1 = es1 @ past w" "\<forall>e \<in> set es1. harmless e \<or> C e" by blast
  from run p have "f r1 w1 = (r, w')" by (simp add: attempt_def)
  from performsD [OF assms(2) this] obtain es2 where "past w' = es2 @ past w1"
    "\<forall>e \<in> set es2. harmless e \<or> C e \<or> (\<exists>r'. e = ev r')" "\<forall>x. r = Inr x \<longrightarrow> ev (Inr x) \<in> set es2" by blast
  with 1 show "\<exists>es. past w' = es @ past w \<and> (\<forall>e \<in> set es. harmless e \<or> C e \<or> (\<exists>r'. e = ev r')) \<and>
       (\<forall>x. r = Inr x \<longrightarrow> ev (Inr x) \<in> set es)" by (intro exI [of _ "es2 @ es1"]) auto
qed

lemma performs_fail: "performs C ev (fail e)"
  by (simp add: performs_def fail_def)

lemma performs_bind:
  "grows harmless p \<Longrightarrow> (\<And>r. performs C ev (f r)) \<Longrightarrow> performs C ev (attempt p f)"
  "grows harmless p \<Longrightarrow> (\<And>x. performs C ev (g x)) \<Longrightarrow> performs C ev (tryq p g)"
  unfolding tryq_def
  by (rule performs_attempt, auto elim: grows_mono intro: performs_fail split: sum.split)+

lemma performs_cases:
  "(b \<Longrightarrow> performs C ev m) \<Longrightarrow> (\<not> b \<Longrightarrow> performs C ev n) \<Longrightarrow> performs C ev (if b then m else n)"
  "performs C ev m \<Longrightarrow> (\<And>x. performs C ev (f x)) \<Longrightarrow> performs C ev (case q of None \<Rightarrow> m | Some x \<Rightarrow> f x)"
  "(\<And>x. performs C ev (g x)) \<Longrightarrow> (\<And>x. performs C ev (h x)) \<Longrightarrow> performs C ev (case s of Inl x \<Rightarrow> g x | Inr x \<Rightarrow> h x)"
  by (auto split: option.split sum.split)

lemma performs_after:
  assumes "grows (\<lambda>e. harmless e \<or> C e) p" and "performs C ev m"
  shows "performs C ev (tryq p (\<lambda>_. m))"
  unfolding tryq_def
  by (rule performs_attempt [OF assms(1)]) (auto intro: performs_fail assms(2) split: sum.split)

lemma performs_before:
  assumes "performs C ev m" and "grows (\<lambda>e. harmless e \<or> C e) q"
  shows "performs C ev (tryq m (\<lambda>x. tryq q (\<lambda>_. ret x)))"
  unfolding performs_def
proof (intro allI impI)
  fix w r w'
  assume run: "tryq m (\<lambda>x. tryq q (\<lambda>_. ret x)) w = (r, w')"
  obtain r1 w1 where m: "m w = (r1, w1)" by (cases "m w")
  from performsD [OF assms(1) m] obtain es1 where 1: "past w1 = es1 @ past w"
    "\<forall>e \<in> set es1. harmless e \<or> C e \<or> (\<exists>r'. e = ev r')" "\<forall>x. r1 = Inr x \<longrightarrow> ev (Inr x) \<in> set es1" by blast
  show "\<exists>es. past w' = es @ past w \<and> (\<forall>e \<in> set es. harmless e \<or> C e \<or> (\<exists>r'. e = ev r')) \<and>
       (\<forall>x. r = Inr x \<longrightarrow> ev (Inr x) \<in> set es)"
  proof (cases r1)
    case (Inl e)
    with run m have "r = Inl e" "w' = w1" by (auto simp: tryq_def attempt_def fail_def)
    with 1 show ?thesis by auto
  next
    case (Inr x)
    obtain r2 w2 where q: "q w1 = (r2, w2)" by (cases "q w1")
    from growsD [OF assms(2) q] obtain es2 where 2: "past w2 = es2 @ past w1" "\<forall>e \<in> set es2. harmless e \<or> C e" by blast
    have "w' = w2" "r = Inr x \<or> (\<exists>e. r = Inl e)"
      using run m Inr q by (auto simp: tryq_def attempt_def fail_def ret_def split: sum.splits)
    with 1 2 Inr show ?thesis by (intro exI [of _ "es2 @ es1"]) auto
  qed
qed

lemma performs_failing:
  assumes "grows (\<lambda>e. harmless e \<or> C e) m" and "\<And>w x. fst (m w) \<noteq> Inr x"
  shows "performs C ev m"
  unfolding performs_def
proof (intro allI impI)
  fix w r w'
  assume run: "m w = (r, w')"
  from growsD [OF assms(1) run] obtain es where "past w' = es @ past w" "\<forall>e \<in> set es. harmless e \<or> C e" by blast
  moreover have "r \<noteq> Inr x" for x using assms(2) [of w x] run by simp
  ultimately show "\<exists>es. past w' = es @ past w \<and> (\<forall>e \<in> set es. harmless e \<or> C e \<or> (\<exists>r'. e = ev r')) \<and>
       (\<forall>x. r = Inr x \<longrightarrow> ev (Inr x) \<in> set es)" by blast
qed

lemma performs_harmless: "performs plainly ev m \<Longrightarrow> (\<And>r. harmless (ev r)) \<Longrightarrow> grows harmless m"
  by (erule grows_mono [OF performs_grows]) auto

lemma grows_clock [grows_intros]: "grows harmless (current_time_ms E)" "grows harmless (uuid_v4 E)"
  "grows harmless (before_apply E)"
  by (auto simp: grows_def current_time_ms_def uuid_v4_def before_apply_def ask_def Let_def)

lemma grows_checkpoint [grows_intros]: "grows harmless (checkpoint E)"
  by (auto simp: grows_def checkpoint_def poll_def Let_def)

lemma grows_begin_commit: "grows (\<lambda>e. harmless e \<or> e = ECommit) (begin_commit E)"
  unfolding grows_def
proof
  fix w
  show "\<exists>es. past (snd (begin_commit E w)) = es @ past w \<and> (\<forall>e \<in> set es. harmless e \<or> e = ECommit)"
    by (cases "control (poll E w)") (auto simp: begin_commit_def poll_def Let_def)
qed

lemma performs_guarded: "performs C ev m \<Longrightarrow> performs C ev (guarded E m)"
  unfolding guarded_def by (rule performs_after) (auto intro: grows_mono [OF grows_checkpoint])

lemma performs_guarded2: "performs C ev m \<Longrightarrow> performs C ev (guarded2 E m)"
  unfolding guarded2_def
  by (intro performs_after performs_before) (auto intro: grows_mono [OF grows_checkpoint])

lemma performs_committed:
  "performs (\<lambda>e. e = ECommit) ev m \<Longrightarrow> performs (\<lambda>e. e = ECommit) ev (tryq (begin_commit E) (\<lambda>_. m))"
  by (rule performs_after [OF grows_begin_commit])

lemma controlled_remote_contract: "remote_contract R \<Longrightarrow> remote_contract (controlled_remote E R)"
  unfolding remote_contract_def by (auto simp: controlled_remote_def intro: performs_guarded performs_guarded2)

lemma controlled_store_contract: "store_contract S \<Longrightarrow> store_contract (controlled_store E S)"
  unfolding store_contract_def
  by (auto simp: controlled_store_def intro: performs_guarded performs_guarded2 performs_committed)

section \<open>Reading\<close>

locale sync_parties = remote_contract R + store_contract S for R :: remote_ops and S :: store_ops
begin

lemma grows_raw [grows_intros]:
  "grows harmless (r_capacity R)" "grows harmless (r_read R p)" "grows harmless (r_list R p)"
  "grows harmless (s_encode S s pw)" "grows harmless (s_decode S b pw)" "grows harmless (s_encode_pointer S q)"
  "grows harmless (s_decode_pointer S b)" "grows harmless (s_build S)" "grows harmless (s_verify_password S pw)"
  by (blast intro: performs_harmless performs_capacity performs_read performs_list performs_encode performs_decode
      performs_encode_pointer performs_decode_pointer performs_build performs_verify_password harmless_simps)+

lemma grows_snap [grows_intros]: "grows A (snap r)"
  by (simp add: snap_def grows_pure)

lemma grows_read_records [grows_intros]: "grows harmless (read_records L R root)"
  unfolding read_records_def read_record_def by (intro grows_intros)

lemma grows_heads_read [grows_intros]:
  "grows harmless (read_device_heads L R root)" "grows harmless (protected_revisions L R root)"
  "grows harmless (load_sync_pointer_from_remote S R root)" "grows harmless (heads_read L S R root)"
  unfolding read_device_heads_def protected_revisions_def load_sync_pointer_from_remote_def heads_read_def
  by (intro grows_intros)+

lemma grows_verify_readback [grows_intros]: "grows harmless (verify_readback R path bytes n)"
  by (induction n) (simp_all add: grows_intros)

lemma grows_decode [grows_intros]: "grows harmless (decode_remote_snapshot L S bytes password path revision)"
  unfolding decode_remote_snapshot_def decrypt_cause_def
  by (intro grows_intros) (auto intro!: grows_intros split: CloudSyncError.split PortableSnapshotError.split)

lemma grows_snapshots [grows_intros]:
  "grows harmless (decode_and_validate_remote_snapshot L S bytes opts path pointer)"
  "grows harmless (verify_written_snapshot L S R opts pointer bytes)"
  "grows harmless (read_snapshot_for_pointer L S R opts pointer)"
  "grows harmless (read_current_sync_snapshot_compat L S R opts)"
  "grows harmless (ensure_remote_head_unchanged S R root expected)"
  unfolding decode_and_validate_remote_snapshot_def verify_written_snapshot_def read_snapshot_for_pointer_def
    read_current_sync_snapshot_compat_def ensure_remote_head_unchanged_def Let_def
  by (intro grows_intros)+

lemma grows_gc [grows_intros]:
  "grows harmless (authenticated_commit_clocks L S R opts latest)" "grows harmless (gc_entry L S R opts clocks path revision)"
  "grows harmless (missing_files R paths)" "grows harmless (capacity_candidate L S R opts clocks prot pre path cands)"
  unfolding authenticated_commit_clocks_def gc_entry_def missing_files_def capacity_candidate_def Let_def
  by (intro grows_intros)+

lemma grows_previews [grows_intros]:
  "grows harmless (conflict_preview E opts provider h p)" "grows harmless (remote_inconsistent_preview E provider h p c u)"
  "grows harmless (require_single E opts hs provider h)" "grows harmless (validate_remote_baseline E state p opts provider h)"
  "grows harmless (ensure_enabled opts)" "grows harmless (prepare_sync L S R root prepared)"
  unfolding conflict_preview_def remote_inconsistent_preview_def require_single_def validate_remote_baseline_def
    ensure_enabled_def prepare_sync_def
  by (intro grows_intros)+

end

section \<open>Paths\<close>

lemma concat_chars [simp]: "concat (str_chars s) = s"
  by (induction s rule: str_chars.induct) (simp add: str_chars.simps)

lemma str_chars_eq_Nil [simp]: "str_chars s = [] \<longleftrightarrow> s = []"
  by (simp add: str_chars.simps)

lemma utf8_char_len_ascii: "b \<le> 0x7F \<Longrightarrow> utf8_char_len (b # bs) = 1"
  by (simp add: utf8_char_len_def)

lemma str_chars_first: "b \<le> 0x7F \<Longrightarrow> str_chars (b # bs) = [b] # str_chars bs"
  by (subst str_chars.simps) (simp add: utf8_char_len_ascii)

lemma str_chars_last: "z \<le> 0x7F \<Longrightarrow> \<exists>cs. str_chars (s @ [z]) = cs @ [[z]]"
proof (induction s rule: length_induct)
  case (1 s)
  let ?n = "max 1 (utf8_char_len (s @ [z]))"
  have step: "str_chars (s @ [z]) = take ?n (s @ [z]) # str_chars (drop ?n (s @ [z]))"
    by (subst str_chars.simps) simp
  show ?case
  proof (cases "?n \<le> length s")
    case True
    moreover have "1 \<le> ?n" by simp
    ultimately have "length (drop ?n s) < length s" unfolding length_drop by linarith
    with 1 obtain cs where "str_chars (drop ?n s @ [z]) = cs @ [[z]]" by blast
    with True step show ?thesis by (intro exI [of _ "take ?n (s @ [z]) # cs"]) simp
  next
    case False
    have "utf8_char_len (s @ [z]) \<le> length (s @ [z])" by (rule utf8_char_len_bound)
    with False have n: "?n = Suc (length s)" by (cases s) (auto simp: max_def split: if_splits)
    have "s = []"
    proof (rule ccontr)
      assume "s \<noteq> []"
      then have "is_cont ((s @ [z]) ! length s)"
        using n by (intro utf8_char_len_cont) (auto simp: max_def split: if_splits)
      with 1(2) lead_not_cont(2) show False by simp
    qed
    with 1(2) show ?thesis by (simp add: str_chars_first str_chars.simps [of "[]"])
  qed
qed

text \<open>The files of a root have plain names, which \<open>remote_path\<close> keeps apart.\<close>

definition plain_name :: "str \<Rightarrow> bool" where
  "plain_name c \<longleftrightarrow> (\<exists>a s z. c = a # s @ [z] \<and> a \<le> 0x7F \<and> z \<le> 0x7F \<and> a \<noteq> 0x2F \<and>
     [a] \<notin> set white_space \<and> [z] \<notin> set white_space)"

lemma str_trim_plain: "plain_name c \<Longrightarrow> str_trim c = c"
proof -
  assume "plain_name c"
  then obtain a s z where c: "c = a # s @ [z]" "a \<le> 0x7F" "z \<le> 0x7F" "[a] \<notin> set white_space" "[z] \<notin> set white_space"
    by (auto simp: plain_name_def)
  obtain cs where cs: "str_chars (s @ [z]) = cs @ [[z]]" using str_chars_last [OF c(3)] by blast
  have "concat (str_chars (s @ [z])) = s @ [z]" by (rule concat_chars)
  with c cs show ?thesis by (simp add: str_trim_def str_chars_first del: concat_chars)
qed

lemma remote_path_inj:
  assumes "plain_name c" and "plain_name d"
  shows "remote_path root c = remote_path root d \<longleftrightarrow> c = d"
proof -
  have "dropWhile (\<lambda>b. b = 0x2F) c = c" "dropWhile (\<lambda>b. b = 0x2F) d = d" "c \<noteq> []" "d \<noteq> []"
    using assms by (auto simp: plain_name_def)
  then show ?thesis by (auto simp: remote_path_def str_trim_plain assms Let_def)
qed

text \<open>What \<open>hex::encode\<close> of a SHA-256 digest gives.\<close>

definition hex_digests :: "lib \<Rightarrow> bool" where
  "hex_digests L \<longleftrightarrow> (\<forall>x. length (sha256_hex L x) = 64 \<and>
     (\<forall>b \<in> set (sha256_hex L x). (0x30 \<le> b \<and> b \<le> 0x39) \<or> (0x61 \<le> b \<and> b \<le> 0x66)))"

lemma plain_files:
  "plain_name SYNC_CURRENT_FILE" "plain_name SYNC_LATEST_FILE" "plain_name (legacy_sync_snapshot_file r)"
  "plain_name (HEADS_DIR @ h @ ascii ''.json'')" "plain_name (HEADS_DIR @ h @ ascii ''.pending.json'')"
proof -
  have shape: "plain_name (ascii ''s'' @ s @ ascii [z])"
    if "of_char z \<le> (0x7F :: nat)" "[word_of_nat (of_char z) :: u8] \<notin> set white_space" for s z
    unfolding plain_name_def using that
    by (intro exI [of _ "0x73"] exI [of _ s] exI [of _ "word_of_nat (of_char z)"])
      (simp add: ascii_def white_space_def word_le_nat_alt unat_of_nat)
  have split: "ascii (x @ y) = ascii x @ ascii y" for x y by (simp add: ascii_def)
  show "plain_name SYNC_CURRENT_FILE"
    using shape [of "CHR ''c''" "ascii ''ync/current.redb.en''"]
    by (simp add: SYNC_CURRENT_FILE_def ascii_def white_space_def)
  show "plain_name SYNC_LATEST_FILE"
    using shape [of "CHR ''b''" "ascii ''ync/latest.red''"] by (simp add: SYNC_LATEST_FILE_def ascii_def white_space_def)
  show "plain_name (legacy_sync_snapshot_file r)"
    using shape [of "CHR ''c''" "ascii ''ync/snapshots/'' @ r @ ascii ''.redb.en''"]
    by (simp add: legacy_sync_snapshot_file_def SYNC_SNAPSHOTS_DIR_def ascii_def white_space_def)
  show "plain_name (HEADS_DIR @ h @ ascii ''.json'')"
    using shape [of "CHR ''n''" "ascii ''ync/heads/'' @ h @ ascii ''.jso''"] by (simp add: HEADS_DIR_def ascii_def white_space_def)
  show "plain_name (HEADS_DIR @ h @ ascii ''.pending.json'')"
    using shape [of "CHR ''n''" "ascii ''ync/heads/'' @ h @ ascii ''.pending.jso''"]
    by (simp add: HEADS_DIR_def ascii_def white_space_def)
qed

lemma head_paths_apart:
  "device_head_path L root d \<noteq> remote_path root SYNC_CURRENT_FILE"
  "device_head_path L root d \<noteq> remote_path root SYNC_LATEST_FILE"
  "device_head_path L root d \<noteq> remote_path root (legacy_sync_snapshot_file r)"
  "hex_digests L \<Longrightarrow> device_head_path L root d \<noteq> pending_head_path L root e"
proof -
  show "device_head_path L root d \<noteq> remote_path root SYNC_CURRENT_FILE"
    "device_head_path L root d \<noteq> remote_path root SYNC_LATEST_FILE"
    "device_head_path L root d \<noteq> remote_path root (legacy_sync_snapshot_file r)"
    unfolding device_head_path_def remote_path_inj [OF plain_files(4) plain_files(1)]
      remote_path_inj [OF plain_files(4) plain_files(2)] remote_path_inj [OF plain_files(4) plain_files(3)]
    by (simp_all add: HEADS_DIR_def SYNC_CURRENT_FILE_def SYNC_LATEST_FILE_def legacy_sync_snapshot_file_def
        SYNC_SNAPSHOTS_DIR_def ascii_def)
  assume hex: "hex_digests L"
  show "device_head_path L root d \<noteq> pending_head_path L root e"
    unfolding device_head_path_def pending_head_path_def remote_path_inj [OF plain_files(4,5)]
  proof
    assume "HEADS_DIR @ sha256_hex L d @ ascii ''.json'' = HEADS_DIR @ sha256_hex L e @ ascii ''.pending.json''"
    then have "length (sha256_hex L d @ ascii ''.json'') = length (sha256_hex L e @ ascii ''.pending.json'')" by simp
    with hex show False by (simp add: hex_digests_def ascii_def)
  qed
qed

end
