(* ===== verification/Sync_Safety.thy ===== *)
theory Sync_Safety
  imports Sync_Logic
begin

text \<open>
  Safety of the synchronisation engine in every environment: what is published has been uploaded
  and verified before, publication and cancellation exclude each other, and the garbage collector
  deletes only what a fresh scan of the heads does not name and a later commit supersedes.
\<close>

section \<open>Preparing a publication\<close>

definition is_head_path :: "lib \<Rightarrow> str \<Rightarrow> str \<Rightarrow> bool" where
  "is_head_path L root path \<longleftrightarrow> (\<exists>d. path = device_head_path L root d)"

text \<open>The events before the point of no return.\<close>

definition preparing :: "lib \<Rightarrow> str \<Rightarrow> event \<Rightarrow> bool" where
  "preparing L root e = (case e of
     EWrite p _ _ \<Rightarrow> \<not> is_head_path L root p
   | ECommit \<Rightarrow> False | EApply _ _ _ _ \<Rightarrow> False | EPersist _ _ \<Rightarrow> False | _ \<Rightarrow> True)"

lemma preparing_simps [simp]:
  "preparing L root (EWrite p b r) \<longleftrightarrow> \<not> is_head_path L root p"
  "\<not> preparing L root ECommit" "\<not> preparing L root (EApply s x st k)" "\<not> preparing L root (EPersist st i)"
  "preparing L root (EDelete p i)" "preparing L root (ECreateDir p i)"
  by (simp_all add: preparing_def)

lemma harmless_preparing: "harmless e \<Longrightarrow> preparing L root e"
  by (auto simp: preparing_def harmless_def split: event.splits)

lemma to_preparing: "grows harmless m \<Longrightarrow> grows (preparing L root) m"
  by (erule grows_mono) (rule harmless_preparing)

lemma performs_preparing:
  "performs plainly ev m \<Longrightarrow> (\<And>r. preparing L root (ev r)) \<Longrightarrow> grows (preparing L root) m"
  by (rule grows_mono [OF performs_grows]) (auto simp: harmless_preparing)

lemma not_head_path:
  "\<not> is_head_path L root (remote_path root SYNC_CURRENT_FILE)" "\<not> is_head_path L root (remote_path root SYNC_LATEST_FILE)"
  "\<not> is_head_path L root (remote_path root (legacy_sync_snapshot_file r))"
  "hex_digests L \<Longrightarrow> \<not> is_head_path L root (pending_head_path L root d)"
  unfolding is_head_path_def using head_paths_apart by metis+

context sync_parties
begin

lemmas preparing_reads = grows_pure grows_snap grows_attempt grows_tryq grows_for_each grows_if grows_case_option
  grows_case_sum grows_case_prod grows_case_resolution grows_clock [THEN to_preparing] grows_checkpoint [THEN to_preparing]
  grows_raw [THEN to_preparing] grows_read_records [THEN to_preparing] grows_heads_read [THEN to_preparing]
  grows_verify_readback [THEN to_preparing] grows_decode [THEN to_preparing] grows_snapshots [THEN to_preparing]
  grows_gc [THEN to_preparing] grows_previews [THEN to_preparing]

lemma preparing_effects:
  "grows (preparing L root) (r_delete R p)" "grows (preparing L root) (r_create_dir R p)"
  "\<not> is_head_path L root p \<Longrightarrow> grows (preparing L root) (r_write R p b)"
  by (rule performs_preparing [OF performs_delete] performs_preparing [OF performs_create_dir]
      performs_preparing [OF performs_write]; simp)+

lemma preparing_free: "grows (preparing L' root) (free_candidates L S R opts needed cands prot freed)"
proof (induction cands arbitrary: prot freed)
  case Nil
  show ?case by (simp add: grows_pure)
next
  case (Cons c cands)
  obtain created path revision where c: "c = (created, path, revision)" by (cases c)
  show ?case unfolding c free_candidates.simps Let_def by (intro preparing_reads preparing_effects Cons)
qed

lemma preparing_reserve: "grows (preparing L' root) (reserve_snapshot_capacity L S R opts expected target)"
  unfolding reserve_snapshot_capacity_def Let_def by (intro preparing_reads preparing_free)

lemma preparing_stage: "hex_digests L \<Longrightarrow> grows (preparing L root) (stage_head L R root device revision)"
  unfolding stage_head_def write_record_def
  by (intro preparing_reads preparing_effects not_head_path)

lemma snapshot_path_off: "\<not> is_head_path L (remote_root opts) (snapshot_path opts p)"
  by (simp add: snapshot_path_def not_head_path)

lemma preparing_rounds:
  assumes "hex_digests L"
  shows "grows (preparing L (remote_root opts))
    (upload_rounds L S R opts p expected bytes stage_device cap attempts left)"
proof (induction left)
  case 0
  show ?case by (simp add: grows_pure)
next
  case (Suc left)
  show ?case
    unfolding upload_rounds.simps Let_def prepare_upload_def verify_upload_def
    by (intro preparing_reads preparing_effects preparing_reserve preparing_stage snapshot_path_off assms Suc)
qed

lemma preparing_upload:
  assumes "hex_digests L"
  shows "grows (preparing L (remote_root opts)) (upload_verified_snapshot L S R opts p expected bytes stage_device)"
    and "grows (preparing L (remote_root opts)) (upload_sync_snapshot L S R opts s expected)"
  unfolding upload_verified_snapshot_def upload_sync_snapshot_def Let_def
  by (intro preparing_reads preparing_rounds assms)+

lemma preparing_resolve:
  assumes "hex_digests L"
  shows "grows (preparing L (remote_root opts)) (resolve_remote_snapshot L S R opts p)"
proof -
  have "grows (preparing L (remote_root opts)) (migrate_current L S R opts p s)" for s
    unfolding migrate_current_def by (intro preparing_reads preparing_upload assms)
  then show ?thesis
    unfolding resolve_remote_snapshot_def Let_def
    by (intro preparing_reads) (auto intro!: preparing_reads split: CloudSyncError.split)
qed

lemma preparing_layout: "grows (preparing L root) (ensure_remote_layout R root')"
  unfolding ensure_remote_layout_def by (intro preparing_reads preparing_effects)

end

section \<open>What is published\<close>

text \<open>The bytes of a snapshot were written, read back unchanged and decoded to a snapshot that
  matches the pointer, in this order (logs have the newest event first).\<close>

definition verified_upload :: "LocalCloudSyncOptions \<Rightarrow> RemoteSyncPointer \<Rightarrow> event list \<Rightarrow> bool" where
  "verified_upload opts p es \<longleftrightarrow> (\<exists>s bytes. validate_snapshot_against_pointer p s = Inr () \<and>
     subseq [EDecode bytes (master_password opts) (Inr s), ERead (snapshot_path opts p) (Inr (Some bytes)),
             EWrite (snapshot_path opts p) bytes (Inr ())] es)"

text \<open>A write of a device head is justified by what was logged before it: it is the head of a
  verified snapshot, and the run has committed.\<close>

definition justified_head :: "lib \<Rightarrow> LocalCloudSyncOptions \<Rightarrow> str \<Rightarrow> u8 list \<Rightarrow> event list \<Rightarrow> bool" where
  "justified_head L opts path b es \<longleftrightarrow> ECommit \<in> set es \<and> (\<exists>p. path = device_head_path L (remote_root opts) (p_device_id p) \<and>
     json_head L \<lparr>dh_device_id = p_device_id p, dh_committed = Some p, dh_pending_revision = None\<rparr> = Inr b \<and>
     verified_upload opts p es)"

primrec publication_ok :: "lib \<Rightarrow> LocalCloudSyncOptions \<Rightarrow> event list \<Rightarrow> bool" where
  "publication_ok L opts [] = True"
| "publication_ok L opts (e # es) \<longleftrightarrow> publication_ok L opts es \<and> (case e of
     EWrite path b _ \<Rightarrow> is_head_path L (remote_root opts) path \<longrightarrow> justified_head L opts path b es
   | EApply _ _ _ _ \<Rightarrow> ECommit \<in> set es
   | EPersist _ _ \<Rightarrow> ECommit \<in> set es
   | _ \<Rightarrow> True)"

lemma publication_stable: "stable (\<lambda>e. preparing L (remote_root opts) e \<or> e = ECommit) (publication_ok L opts)"
  by (auto simp: stable_def preparing_def split: event.splits)

lemma verified_stable: "stable A (verified_upload opts p)"
  unfolding stable_def verified_upload_def by (metis list_emb_Cons)

primrec commit_first :: "event list \<Rightarrow> bool" where
  "commit_first [] = True"
| "commit_first (e # es) \<longleftrightarrow> commit_first es \<and> (case e of
     EApply _ _ _ _ \<Rightarrow> ECommit \<in> set es | EPersist _ _ \<Rightarrow> ECommit \<in> set es | EWrite _ _ _ \<Rightarrow> False | _ \<Rightarrow> True)"

lemma commit_first_publication: "commit_first es \<Longrightarrow> publication_ok L opts fs \<Longrightarrow> publication_ok L opts (es @ fs)"
  by (induction es) (auto split: event.splits)

lemma commit_first_harmless: "\<forall>e \<in> set es. harmless e \<or> e = ECommit \<Longrightarrow> commit_first es"
  by (induction es) (auto simp: harmless_def split: event.splits)

lemma commit_first_append: "commit_first es \<Longrightarrow> commit_first fs \<Longrightarrow> commit_first (es @ fs)"
  by (induction es) (auto split: event.splits)

text \<open>A store that commits before it changes anything.\<close>

locale committing_parties = sync_parties +
  assumes apply_commits: "s_apply_checked S s h st w = (r, w') \<Longrightarrow> \<exists>es. past w' = es @ past w \<and> commit_first es"
    and persist_commits: "s_persist S st w = (r', w') \<Longrightarrow> \<exists>es. past w' = es @ past w \<and> commit_first es"

definition keeps :: "(world \<Rightarrow> bool) \<Rightarrow> 'a io \<Rightarrow> bool" where
  "keeps I m \<longleftrightarrow> (\<forall>w. I w \<longrightarrow> I (snd (m w)))"

lemma keeps_hoare: "keeps I m \<longleftrightarrow> hoare I m (\<lambda>_. I) (\<lambda>_. I)"
proof
  assume k: "keeps I m"
  have "I w'" if "I w" "m w = (r, w')" for w r w' using k that unfolding keeps_def by (metis snd_conv)
  then show "hoare I m (\<lambda>_. I) (\<lambda>_. I)" by (blast intro: hoareI)
next
  assume h: "hoare I m (\<lambda>_. I) (\<lambda>_. I)"
  show "keeps I m" unfolding keeps_def
  proof (intro allI impI)
    fix w assume "I w"
    obtain r w' where "m w = (r, w')" by (cases "m w")
    with h \<open>I w\<close> show "I (snd (m w))" by (cases r) (auto dest: hoare_Inl hoare_Inr)
  qed
qed

lemma keeps_pure: "keeps I (ret x)" "keeps I (fail e)" "keeps I (lift r)" "keeps I (snap q)"
  by (simp_all add: keeps_def ret_def fail_def lift_def snap_def)

lemma keeps_attempt: "keeps I m \<Longrightarrow> (\<And>r. keeps I (f r)) \<Longrightarrow> keeps I (attempt m f)"
  unfolding keeps_def attempt_def by (simp add: case_prod_unfold)

lemma keeps_tryq: "keeps I m \<Longrightarrow> (\<And>x. keeps I (f x)) \<Longrightarrow> keeps I (tryq m f)"
  unfolding tryq_def by (rule keeps_attempt) (auto simp: keeps_pure split: sum.split)

lemma keeps_for_each: "(\<And>x s. keeps I (body x s)) \<Longrightarrow> keeps I (for_each xs s body)"
  by (induction xs arbitrary: s) (simp_all add: keeps_pure keeps_tryq)

lemma keeps_cases:
  "(b \<Longrightarrow> keeps I m) \<Longrightarrow> (\<not> b \<Longrightarrow> keeps I n) \<Longrightarrow> keeps I (if b then m else n)"
  "keeps I m \<Longrightarrow> (\<And>x. keeps I (f x)) \<Longrightarrow> keeps I (case q of None \<Rightarrow> m | Some x \<Rightarrow> f x)"
  "(\<And>x. keeps I (g x)) \<Longrightarrow> (\<And>x. keeps I (h x)) \<Longrightarrow> keeps I (case s of Inl x \<Rightarrow> g x | Inr x \<Rightarrow> h x)"
  "(\<And>x y. keeps I (k x y)) \<Longrightarrow> keeps I (case p of (x, y) \<Rightarrow> k x y)"
  "(\<And>s. keeps I (a s)) \<Longrightarrow> (\<And>s. keeps I (c s)) \<Longrightarrow> (\<And>p d u. keeps I (j p d u)) \<Longrightarrow>
   keeps I (case v of Current s \<Rightarrow> a s | LegacyMigrated s \<Rightarrow> c s | Inconsistent p d u \<Rightarrow> j p d u)"
  by (auto split: option.split sum.split prod.split RemoteSnapshotResolution.split)

lemmas keeps_intros = keeps_pure keeps_attempt keeps_tryq keeps_for_each keeps_cases

lemma keeps_grows: "grows A m \<Longrightarrow> stable A P \<Longrightarrow> keeps (since t P) m"
  unfolding keeps_hoare by (rule hoare_grows)

lemma keeps_preparing: "grows (preparing L (remote_root opts)) m \<Longrightarrow> keeps (since t (publication_ok L opts)) m"
  by (rule keeps_grows [OF _ publication_stable]) (auto elim: grows_mono)

lemma hoare_performs:
  assumes "performs C ev m"
  shows "hoare (since t (subseq l)) m (\<lambda>x. since t (subseq (ev (Inr x) # l))) (\<lambda>_ _. True)"
proof (rule hoareI)
  fix w x w'
  assume "since t (subseq l) w" and run: "m w = (Inr x, w')"
  then obtain es where es: "past w = es @ t" "subseq l es" by (auto simp: since_def)
  from performsD [OF assms run] obtain fs where "past w' = fs @ past w" "ev (Inr x) \<in> set fs" by blast
  moreover from this have "subseq ([ev (Inr x)] @ l) (fs @ es)"
    using es(2) by (intro list_emb_append_mono) (simp_all add: subseq_singleton_left)
  ultimately show "since t (subseq (ev (Inr x) # l)) w'" using es by (auto simp: since_def)
qed simp

section \<open>Uploads are verified\<close>

lemma hoare_true: "hoare P m (\<lambda>_ _. True) (\<lambda>_ _. True)"
  by (auto simp: hoare_def split: prod.split sum.split)

lemma hoare_weaken: "hoare P m Q X \<Longrightarrow> (\<And>x w. Q x w \<Longrightarrow> Q' x w) \<Longrightarrow> hoare P m Q' (\<lambda>_ _. True)"
  by (erule hoare_conseq) auto

context sync_parties
begin

lemma decode_logs:
  "hoare (since t (subseq l)) (decode_remote_snapshot L S bytes password path revision)
     (\<lambda>s. since t (subseq (EDecode bytes password (Inr s) # l))) (\<lambda>_ _. True)"
  unfolding decode_remote_snapshot_def
proof (rule hoare_attempt [OF hoare_performs [OF performs_decode]], goal_cases)
  case (1 s)
  show ?case by (simp add: hoare_ret)
next
  case (2 e)
  have fails: "hoare (\<lambda>_. True) (tryq (decrypt_cause S password) (\<lambda>c. fail (g c))) Q (\<lambda>_ _. True)"
    for g :: "SnapshotUnreadableCause \<Rightarrow> CloudSyncError" and Q :: "RawPortableSnapshot \<Rightarrow> world \<Rightarrow> bool"
    by (rule hoare_tryq [OF hoare_true]) (simp add: hoare_fail)
  show ?case by (auto simp: hoare_fail fails split: CloudSyncError.split PortableSnapshotError.split)
qed

lemma decode_validated:
  "hoare (since t (subseq l)) (decode_and_validate_remote_snapshot L S bytes opts path p)
     (\<lambda>s w. since t (subseq (EDecode bytes (master_password opts) (Inr s) # l)) w \<and>
        validate_snapshot_against_pointer p s = Inr ()) (\<lambda>_ _. True)"
  unfolding decode_and_validate_remote_snapshot_def
proof (rule hoare_tryq [where Q = "\<lambda>_. since t (subseq l)"], goal_cases)
  case 1
  show ?case by (rule hoare_lift) auto
next
  case (2 u)
  show ?case
  proof (rule hoare_tryq [OF decode_logs])
    fix s
    show "hoare (since t (subseq (EDecode bytes (master_password opts) (Inr s) # l)))
       (tryq (lift (validate_snapshot_against_pointer p s)) (\<lambda>_. ret s))
       (\<lambda>s w. since t (subseq (EDecode bytes (master_password opts) (Inr s) # l)) w \<and>
          validate_snapshot_against_pointer p s = Inr ()) (\<lambda>_ _. True)"
      by (rule hoare_tryq [OF hoare_lift [where Q = "\<lambda>_ w. since t (subseq (EDecode bytes (master_password opts) (Inr s) # l)) w \<and>
          validate_snapshot_against_pointer p s = Inr ()"]]) (auto intro: hoare_ret)
  qed
qed

lemma verify_written_verified:
  "hoare (since t (subseq [EWrite (snapshot_path opts p) bytes (Inr ())]))
     (verify_written_snapshot L S R opts p bytes) (\<lambda>_. since t (verified_upload opts p)) (\<lambda>_ _. True)"
  unfolding verify_written_snapshot_def Let_def
proof (rule hoare_tryq [OF hoare_performs [OF performs_read]])
  fix r
  show "hoare (since t (subseq (ERead (snapshot_path opts p) (Inr r) # [EWrite (snapshot_path opts p) bytes (Inr ())])))
     (case r of None \<Rightarrow> fail (SnapshotMissing (p_revision_id p))
      | Some read_back \<Rightarrow> if read_back \<noteq> bytes
          then fail (RemoteWriteDiverged (p_revision_id p) (snapshot_path opts p) (length bytes) (sha256_hex L bytes)
                 (length read_back) (sha256_hex L read_back))
          else tryq (decode_and_validate_remote_snapshot L S read_back opts (snapshot_path opts p) p) (\<lambda>_. ret ()))
     (\<lambda>_. since t (verified_upload opts p)) (\<lambda>_ _. True)"
  proof (cases "r = Some bytes")
    case True
    then show ?thesis
      by (auto intro!: hoare_tryq [OF decode_validated] hoare_ret simp: since_def verified_upload_def) metis
  qed (auto simp: hoare_fail split: option.split)
qed

lemma stable_True: "stable A (\<lambda>_. True)"
  by (simp add: stable_def)

lemma write_logs:
  "hoare (since t (\<lambda>_. True)) (r_write R p b) (\<lambda>_. since t (subseq [EWrite p b (Inr ())])) (\<lambda>_. since t (\<lambda>_. True))"
proof -
  have "hoare (since t (subseq [])) (r_write R p b) (\<lambda>_. since t (subseq [EWrite p b (Inr ())])) (\<lambda>_ _. True)"
    using hoare_performs [OF performs_write [of p b], of t "[]"] by (rule hoare_conseq) auto
  then show ?thesis
    using hoare_grows [OF performs_grows [OF performs_write [of p b]] stable_True, of t]
    by (fastforce simp: hoare_def split: prod.splits sum.splits)
qed

lemma verify_upload_verified:
  assumes "hoare (since t (subseq [EWrite (snapshot_path opts p) bytes (Inr ())])) next_round
    (\<lambda>_. since t (verified_upload opts p)) (\<lambda>_ _. True)"
  shows "hoare (since t (subseq [EWrite (snapshot_path opts p) bytes (Inr ())]))
    (verify_upload L S R opts p bytes cap b next_round) (\<lambda>_. since t (verified_upload opts p)) (\<lambda>_ _. True)"
proof -
  let ?written = "since t (subseq [EWrite (snapshot_path opts p) bytes (Inr ())])"
  have "hoare ?written (verify_written_snapshot L S R opts p bytes) (\<lambda>_ _. True) (\<lambda>_. ?written)"
    by (rule hoare_conseq [OF hoare_grows [OF grows_snapshots(2) subseq_stable]]) auto
  then have "hoare ?written (verify_written_snapshot L S R opts p bytes) (\<lambda>_. since t (verified_upload opts p)) (\<lambda>_. ?written)"
    using verify_written_verified [of t opts p bytes L] by (fastforce simp: hoare_def split: prod.splits sum.splits)
  then show ?thesis
    unfolding verify_upload_def by (rule hoare_attempt) (auto intro: hoare_ret hoare_fail assms)
qed

lemma upload_rounds_verified:
  assumes "hex_digests L"
  shows "hoare (since t (\<lambda>es. cap \<or> left = attempts \<or> subseq [EWrite (snapshot_path opts p) bytes (Inr ())] es))
    (upload_rounds L S R opts p expected bytes stage_device cap attempts left)
    (\<lambda>_. since t (verified_upload opts p)) (\<lambda>_ _. True)"
proof (induction left)
  case 0
  show ?case by (simp add: hoare_fail)
next
  case (Suc left)
  let ?sp = "snapshot_path opts p"
  let ?written = "since t (subseq [EWrite ?sp bytes (Inr ())])"
  let ?next = "upload_rounds L S R opts p expected bytes stage_device cap attempts left"
  have next_written: "hoare ?written ?next (\<lambda>_. since t (verified_upload opts p)) (\<lambda>_ _. True)"
    by (rule hoare_conseq [OF Suc]) (auto simp: since_def)
  note verify = verify_upload_verified [OF next_written, of L cap]
  have next_cap: "hoare (since t (\<lambda>_. True)) ?next (\<lambda>_. since t (verified_upload opts p)) (\<lambda>_ _. True)" if cap
    by (rule hoare_conseq [OF Suc]) (use that in \<open>auto simp: since_def\<close>)
  have prep: "grows (preparing L (remote_root opts)) (prepare_upload L S R opts p expected stage_device)"
    unfolding prepare_upload_def by (intro preparing_reads preparing_reserve preparing_stage assms)
  show ?case
  proof (cases "cap \<or> Suc left = attempts")
    case True
    have "hoare (since t (\<lambda>_. True)) (upload_rounds L S R opts p expected bytes stage_device cap attempts (Suc left))
        (\<lambda>_. since t (verified_upload opts p)) (\<lambda>_ _. True)"
      unfolding upload_rounds.simps Let_def if_P [OF True]
    proof (rule hoare_tryq [where Q = "\<lambda>_. since t (\<lambda>_. True)", OF hoare_weaken [OF hoare_grows [OF prep stable_True]]], assumption)
      show "hoare (since t (\<lambda>_. True)) (attempt (r_write R ?sp bytes) (\<lambda>r. case r of
            Inl e \<Rightarrow> if cap \<and> left \<noteq> 0 then ?next else fail (capacity_error cap e)
          | Inr _ \<Rightarrow> verify_upload L S R opts p bytes cap (left = 0) ?next))
        (\<lambda>_. since t (verified_upload opts p)) (\<lambda>_ _. True)"
      proof (rule hoare_attempt [OF write_logs], goal_cases)
        case 1
        show ?case unfolding sum.case by (rule verify)
      next
        case 2
        show ?case unfolding sum.case by (rule hoare_if, erule conjE, erule next_cap, simp add: hoare_fail)
      qed
    qed
    then show ?thesis by (rule hoare_conseq) (auto simp: since_def)
  next
    case False
    then show ?thesis using verify by (simp add: Let_def)
  qed
qed

lemma upload_verified:
  assumes "hex_digests L"
  shows "hoare (since t (\<lambda>_. True)) (upload_sync_snapshot L S R opts s expected)
    (\<lambda>_. since t (verified_upload opts (pointer_from_snapshot s))) (\<lambda>_ _. True)"
proof -
  have quiet: "grows harmless m \<Longrightarrow> hoare (since t (\<lambda>_. True)) m (\<lambda>_. since t (\<lambda>_. True)) (\<lambda>_ _. True)" for m :: "'x io"
    by (rule hoare_weaken [OF hoare_grows [OF _ stable_True]])
  have up: "hoare (since t (\<lambda>_. True)) (upload_verified_snapshot L S R opts p expected bytes b)
      (\<lambda>_. since t (verified_upload opts p)) (\<lambda>_ _. True)" for p bytes b
    unfolding upload_verified_snapshot_def Let_def
    by (rule hoare_tryq [OF quiet [OF grows_raw(1)]], rule hoare_conseq [OF upload_rounds_verified [OF assms]])
      (auto simp: since_def)
  show ?thesis
    unfolding upload_sync_snapshot_def
    by (intro hoare_tryq [OF quiet] hoare_if hoare_fail hoare_tryq [OF up] hoare_ret grows_intros) auto
qed

end

section \<open>Every publication is justified\<close>

lemma tryq_lift: "tryq (lift (Inr x)) f = f x" "tryq (lift (Inl e)) f = fail e"
  by (simp_all add: tryq_def attempt_def lift_def fun_eq_iff fail_def)

lemma hoare_begin_commit:
  assumes "stable (\<lambda>e. harmless e \<or> e = ECommit) P"
  shows "hoare (since t P) (begin_commit E) (\<lambda>_. since t (\<lambda>es. P es \<and> ECommit \<in> set es)) (\<lambda>_. since t P)"
proof (rule hoareI)
  fix w x w'
  assume s: "since t P w" and run: "begin_commit E w = (Inr x, w')"
  from grows_since [OF grows_begin_commit assms s run] obtain es where es: "past w' = es @ t" "P es"
    by (auto simp: since_def)
  obtain fs where fs: "past w = fs @ t" using s by (auto simp: since_def)
  have "\<exists>ds. past w' = ECommit # ds @ past w"
    using run by (auto simp: begin_commit_def poll_def Let_def split: ctl.splits if_splits)
  then obtain ds where "past w' = ECommit # ds @ past w" by blast
  with es fs have "ECommit \<in> set es" by auto
  with es show "since t (\<lambda>es. P es \<and> ECommit \<in> set es) w'" by (auto simp: since_def)
next
  fix w e w'
  assume "since t P w" and "begin_commit E w = (Inl e, w')"
  then show "since t P w'" by (rule grows_since [OF grows_begin_commit assms])
qed

definition published :: "lib \<Rightarrow> LocalCloudSyncOptions \<Rightarrow> event list \<Rightarrow> world \<Rightarrow> bool" where
  "published L opts t = since t (publication_ok L opts)"

definition ready :: "lib \<Rightarrow> LocalCloudSyncOptions \<Rightarrow> RemoteSyncPointer \<Rightarrow> event list \<Rightarrow> world \<Rightarrow> bool" where
  "ready L opts p t = since t (\<lambda>es. publication_ok L opts es \<and> verified_upload opts p es)"

lemma ready_published: "ready L opts p t w \<Longrightarrow> published L opts t w"
  by (auto simp: ready_def published_def since_def)

lemma ready_stable:
  "stable (\<lambda>e. preparing L (remote_root opts) e \<or> e = ECommit) (\<lambda>es. publication_ok L opts es \<and> verified_upload opts p es)"
  by (intro stable_conj publication_stable verified_stable)

lemma hoare_ready:
  assumes "grows (preparing L (remote_root opts)) m"
  shows "hoare (ready L opts p t) m (\<lambda>_. ready L opts p t) (\<lambda>_. published L opts t)"
proof -
  have "grows (\<lambda>e. preparing L (remote_root opts) e \<or> e = ECommit) m" using assms by (rule grows_mono) simp
  from hoare_grows [OF this ready_stable] show ?thesis
    by (rule hoare_conseq) (auto simp: ready_def published_def since_def)
qed

lemma keeps_published: "grows (preparing L (remote_root opts)) m \<Longrightarrow> keeps (published L opts t) m"
  unfolding published_def by (rule keeps_preparing)

lemma hoare_keeps: "keeps I m \<Longrightarrow> (\<And>w. P w \<Longrightarrow> I w) \<Longrightarrow> hoare P m (\<lambda>_. I) (\<lambda>_. I)"
  unfolding keeps_hoare by (erule hoare_conseq) auto

context sync_parties
begin

lemma preparing_pointer: "grows (preparing L root) (write_sync_pointer L S R root p)"
proof -
  have "grows (preparing L root) (pointer_rounds S R root p b cap n left e)" for b cap n left e
  proof (induction left)
    case (Suc left)
    show ?case unfolding pointer_rounds.simps
      by (intro preparing_reads preparing_effects not_head_path Suc)
  qed (simp add: grows_pure)
  then show ?thesis unfolding write_sync_pointer_def Let_def by (intro preparing_reads)
qed

lemma publish_keeps:
  assumes "hex_digests L"
  shows "hoare (since t (\<lambda>es. (publication_ok L opts es \<and> verified_upload opts p es) \<and> ECommit \<in> set es))
    (publish L R (remote_root opts) p) (\<lambda>_. published L opts t) (\<lambda>_. published L opts t)"
proof -
  let ?path = "device_head_path L (remote_root opts) (p_device_id p)"
  let ?committed = "\<lparr>dh_device_id = p_device_id p, dh_committed = Some p, dh_pending_revision = None\<rparr>"
  let ?P = "\<lambda>es. (publication_ok L opts es \<and> verified_upload opts p es) \<and> ECommit \<in> set es"
  have weak: "since t ?P w \<Longrightarrow> published L opts t w" for w by (auto simp: since_def published_def)
  have head: "hoare (since t ?P) (r_write R ?path b) (\<lambda>_. published L opts t) (\<lambda>_. published L opts t)"
    if "json_head L ?committed = Inr b" for b
  proof (rule hoare_conseq [OF hoare_grows [OF performs_grows [OF performs_write [of ?path b]]]])
    have "verified_upload opts p (e # es)" if "verified_upload opts p es" for e es
      using that verified_stable [of "\<lambda>_. True"] by (simp add: stable_def)
    then show "stable (\<lambda>e. harmless e \<or> plainly e \<or> (\<exists>r. e = EWrite ?path b r)) ?P"
      using that by (auto simp: stable_def justified_head_def harmless_def split: event.splits)
  qed (auto simp: weak)
  show ?thesis
    unfolding publish_def write_record_def
  proof (rule hoare_tryq [where Q = "\<lambda>_. published L opts t"], goal_cases)
    case 1
    show ?case
    proof (cases "json_head L ?committed")
      case (Inl e)
      then show ?thesis by (simp add: tryq_lift hoare_fail weak)
    next
      case (Inr b)
      have readback: "hoare (published L opts t) (verify_readback R ?path b n) (\<lambda>_. published L opts t) (\<lambda>_. published L opts t)" for n
        by (rule hoare_keeps [OF keeps_published [OF grows_verify_readback [THEN to_preparing]]])
      show ?thesis
        unfolding Inr tryq_lift by (intro hoare_if hoare_fail weak hoare_tryq [OF head [OF Inr] readback])
    qed
  next
    case 2
    show ?case
      by (rule hoare_keeps) (intro keeps_intros keeps_published preparing_effects)
  qed
qed

lemma commit_keeps:
  assumes "hex_digests L"
  shows "hoare (ready L opts p t) (commit_snapshot E L S R opts p bytes) (\<lambda>_. published L opts t) (\<lambda>_. published L opts t)"
  unfolding commit_snapshot_def
proof (rule hoare_tryq [where Q = "\<lambda>_. since t (\<lambda>es. (publication_ok L opts es \<and> verified_upload opts p es) \<and> ECommit \<in> set es)"],
    goal_cases)
  case 1
  have "stable (\<lambda>e. harmless e \<or> e = ECommit) (\<lambda>es. publication_ok L opts es \<and> verified_upload opts p es)"
    using ready_stable [of L opts p] harmless_preparing by (auto simp: stable_def)
  from hoare_begin_commit [OF this] show ?case
    by (rule hoare_conseq) (auto simp: ready_def published_def since_def)
next
  case 2
  show ?case
    by (rule hoare_tryq [OF publish_keeps [OF assms]], rule hoare_keeps)
      (auto intro!: keeps_published preparing_reads preparing_pointer preparing_effects not_head_path)
qed

lemma upload_ready:
  assumes "hex_digests L"
  shows "hoare (published L opts t) (upload_sync_snapshot L S R opts s expected)
    (\<lambda>_. ready L opts (pointer_from_snapshot s) t) (\<lambda>_. published L opts t)"
proof -
  have "keeps (published L opts t) (upload_sync_snapshot L S R opts s expected)"
    by (rule keeps_published [OF preparing_upload(2) [OF assms]])
  moreover have "hoare (since t (\<lambda>_. True)) (upload_sync_snapshot L S R opts s expected)
      (\<lambda>_. since t (verified_upload opts (pointer_from_snapshot s))) (\<lambda>_ _. True)"
    by (rule upload_verified [OF assms])
  ultimately show ?thesis
    unfolding keeps_hoare hoare_def published_def ready_def since_def
    by (fastforce split: prod.splits sum.splits)
qed

end

context committing_parties
begin

lemma commit_first_keeps:
  assumes "\<And>w r w'. m w = (r, w') \<Longrightarrow> \<exists>es. past w' = es @ past w \<and> commit_first es"
  shows "keeps (published L opts t) m"
  unfolding keeps_def published_def since_def
proof (intro allI impI)
  fix w :: world
  assume "\<exists>es. past w = es @ t \<and> publication_ok L opts es"
  then obtain es where es: "past w = es @ t" "publication_ok L opts es" by blast
  obtain fs where "past (snd (m w)) = fs @ past w" "commit_first fs"
    using assms [of w "fst (m w)" "snd (m w)"] by auto
  with es commit_first_publication show "\<exists>es. past (snd (m w)) = es @ t \<and> publication_ok L opts es" by fastforce
qed

lemma report_keeps: "keeps (published L opts t) (report S r)"
  unfolding report_def by (intro keeps_intros commit_first_keeps persist_commits)

lemma apply_keeps: "keeps (published L opts t) (s_apply_checked S s h st)"
  by (intro commit_first_keeps apply_commits)

lemma after_upload:
  assumes "hex_digests L" and "\<And>bytes. hoare (ready L opts (pointer_from_snapshot s) t) (rest bytes) (\<lambda>_. published L opts t) (\<lambda>_. published L opts t)"
  shows "keeps (published L opts t) (tryq (upload_sync_snapshot L S R opts s expected) rest)"
  unfolding keeps_hoare using upload_ready [OF assms(1)] assms(2) by (rule hoare_tryq)

lemma then_commit:
  assumes "hex_digests L" and "\<And>x. keeps (published L opts t) (rest x)"
  shows "hoare (ready L opts p t) (tryq (commit_snapshot E L S R opts p bytes) rest) (\<lambda>_. published L opts t) (\<lambda>_. published L opts t)"
  using commit_keeps [OF assms(1)] assms(2) [unfolded keeps_hoare] by (rule hoare_tryq)

lemma then_ready:
  assumes "grows (preparing L (remote_root opts)) m"
    and "\<And>x. hoare (ready L opts p t) (rest x) (\<lambda>_. published L opts t) (\<lambda>_. published L opts t)"
  shows "hoare (ready L opts p t) (tryq m rest) (\<lambda>_. published L opts t) (\<lambda>_. published L opts t)"
  using hoare_ready [OF assms(1)] assms(2) by (rule hoare_tryq)

lemmas keeps_reads = keeps_pure keeps_tryq keeps_attempt keeps_for_each keeps_cases report_keeps apply_keeps
  keeps_published [OF to_preparing [OF grows_clock(1)]] keeps_published [OF to_preparing [OF grows_clock(2)]]
  keeps_published [OF to_preparing [OF grows_clock(3)]] keeps_published [OF to_preparing [OF grows_checkpoint]]
  grows_raw [THEN to_preparing, THEN keeps_published] grows_heads_read [THEN to_preparing, THEN keeps_published]
  grows_snapshots [THEN to_preparing, THEN keeps_published] grows_previews [THEN to_preparing, THEN keeps_published]
  preparing_layout [THEN keeps_published] preparing_resolve [THEN keeps_published]

lemma push_keeps:
  assumes "hex_digests L"
  shows "keeps (published L opts t) (push_upload E L S R opts state force hs local content_hash next_state)"
    and "keeps (published L opts t) (push_decide E L S R opts state force hs local content_hash remote_snapshot next_state)"
    and "keeps (published L opts t) (push_remote_snapshot E L S R opts force local_hash latest cached)"
proof -
  show up: "keeps (published L opts t) (push_upload E L S R opts state force hs local content_hash next_state)"
    for hs local content_hash next_state
    unfolding push_upload_def Let_def
    by (intro keeps_tryq keeps_pure after_upload then_ready then_commit preparing_reads keeps_reads assms)
  show "keeps (published L opts t) (push_decide E L S R opts state force hs local content_hash remote_snapshot next_state)"
    unfolding push_decide_def Let_def by (intro keeps_reads up)
  show "keeps (published L opts t) (push_remote_snapshot E L S R opts force local_hash latest cached)"
    unfolding push_remote_snapshot_def by (intro keeps_reads assms)
qed

lemma pull_keeps:
  assumes "hex_digests L"
  shows "keeps (published L opts t) (pull_decide E L S R opts state force hs latest local remote_snapshot next_state)"
    and "keeps (published L opts t) (pull_remote_snapshot E L S R opts local_hash latest cached)"
    and "keeps (published L opts t) (recover_current_remote_snapshot E L S R opts)"
proof -
  have res: "keeps (published L opts t) (pull_resolve E L S R opts state hs latest remote_snapshot)"
    unfolding pull_resolve_def
    by (intro keeps_tryq keeps_pure after_upload then_ready then_commit preparing_reads keeps_reads assms)
  show "keeps (published L opts t) (pull_decide E L S R opts state force hs latest local remote_snapshot next_state)"
    unfolding pull_decide_def pull_apply_def Let_def by (intro keeps_reads res)
  show "keeps (published L opts t) (pull_remote_snapshot E L S R opts local_hash latest cached)"
    unfolding pull_remote_snapshot_def by (intro keeps_reads assms)
  show "keeps (published L opts t) (recover_current_remote_snapshot E L S R opts)"
    unfolding recover_current_remote_snapshot_def
    by (intro keeps_tryq keeps_pure after_upload then_ready then_commit preparing_reads keeps_reads assms)
qed

end

section \<open>The engine\<close>

lemma begin_commit_logs:
  assumes "begin_commit E w = (Inr x, w')"
  shows "\<exists>ds. past w' = ECommit # ds @ past w \<and> (\<forall>e \<in> set ds. harmless e)"
  using assms by (auto simp: begin_commit_def poll_def Let_def split: ctl.splits if_splits)

lemma commit_first_after:
  assumes "performs (\<lambda>e. e = ECommit) ev m" and "tryq (begin_commit E) (\<lambda>_. m) w = (r, w')"
    and "\<And>r. (\<exists>s h st k. ev r = EApply s h st k) \<or> (\<exists>st i. ev r = EPersist st i)"
  shows "\<exists>es. past w' = es @ past w \<and> commit_first es"
proof -
  obtain r1 w1 where b: "begin_commit E w = (r1, w1)" by (cases "begin_commit E w")
  show ?thesis
  proof (cases r1)
    case (Inl e)
    with assms(2) b have "w' = w1" by (simp add: tryq_def attempt_def fail_def)
    with growsD [OF grows_begin_commit b] show ?thesis by (auto intro: commit_first_harmless)
  next
    case (Inr x)
    with b obtain ds where ds: "past w1 = ECommit # ds @ past w" "\<forall>e \<in> set ds. harmless e"
      using begin_commit_logs by blast
    have "m w1 = (r, w')" using assms(2) b Inr by (simp add: tryq_def attempt_def)
    from performsD [OF assms(1) this] obtain es where
      es: "past w' = es @ past w1" "\<forall>e \<in> set es. harmless e \<or> e = ECommit \<or> (\<exists>r. e = ev r)" by blast
    have "commit_first (es @ ECommit # ds)" using es(2)
    proof (induction es)
      case Nil
      show ?case using ds(2) by (simp add: commit_first_harmless)
    next
      case (Cons e es)
      then have rest: "commit_first (es @ ECommit # ds)" by simp
      from Cons.prems consider "harmless e" | "e = ECommit" | r where "e = ev r" by auto
      then show ?case
      proof cases
        case 1
        with rest show ?thesis by (auto simp: harmless_def split: event.splits)
      next
        case 3
        with rest assms(3) [of r] show ?thesis by auto
      qed (use rest in simp)
    qed
    with es(1) ds(1) show ?thesis by (intro exI [of _ "es @ ECommit # ds"]) simp
  qed
qed


lemma controlled_parties:
  assumes "remote_contract R" and "store_contract S"
  shows "committing_parties (controlled_remote E R) (controlled_store E S)"
proof (intro committing_parties.intro sync_parties.intro committing_parties_axioms.intro)
  show "remote_contract (controlled_remote E R)" using assms(1) by (rule controlled_remote_contract)
  show "store_contract (controlled_store E S)" using assms(2) by (rule controlled_store_contract)
  show "\<exists>es. past w' = es @ past w \<and> commit_first es"
    if "s_apply_checked (controlled_store E S) s h st w = (r, w')" for s h st w r w'
    using store_contract.performs_apply [OF assms(2)] that [unfolded controlled_store_def store_ops.simps]
    by (rule commit_first_after) blast
  show "\<exists>es. past w' = es @ past w \<and> commit_first es"
    if "s_persist (controlled_store E S) st w = (r, w')" for st w r w'
    using store_contract.performs_persist [OF assms(2)] that [unfolded controlled_store_def store_ops.simps]
    by (rule commit_first_after) blast
qed

interpretation controlled: committing_parties "controlled_remote E (raw_remote E)" "controlled_store E (raw_store E)" for E
  by (rule controlled_parties) unfold_locales

lemma push_prepared_keeps:
  assumes "hex_digests L" and "remote_contract R" and "store_contract S"
  shows "keeps (published L opts t) (push_snapshot_prepared E L S R opts state force prepared)"
proof -
  note p = controlled_parties [OF assms(2,3), of E]
  show ?thesis
    unfolding push_snapshot_prepared_def Let_def
    by (intro committing_parties.keeps_reads [OF p] committing_parties.push_keeps [OF p] assms(1))
qed

lemma pull_prepared_keeps:
  assumes "hex_digests L" and "remote_contract R" and "store_contract S"
  shows "keeps (published L opts t) (pull_snapshot_prepared E L S R opts state force prepared)"
    and "keeps (published L opts t) (recover_current_snapshot E L S R opts)"
proof -
  note p = controlled_parties [OF assms(2,3), of E]
  show "keeps (published L opts t) (pull_snapshot_prepared E L S R opts state force prepared)"
    unfolding pull_snapshot_prepared_def Let_def
    by (intro committing_parties.keeps_reads [OF p] committing_parties.pull_keeps [OF p] assms(1))
  show "keeps (published L opts t) (recover_current_snapshot E L S R opts)"
    unfolding recover_current_snapshot_def Let_def
    by (intro committing_parties.keeps_reads [OF p] committing_parties.pull_keeps [OF p] assms(1))
qed

section \<open>Details and resolutions\<close>

lemma grows_with_cache: "grows A (with_cache f)"
  by (simp add: grows_def with_cache_def)

lemma grows_cache_get: "grows harmless (cache_get E p)"
  unfolding cache_get_def
  by (rule grows_tryq [OF grows_clock(1)]) (auto simp: grows_def Let_def split: option.split prod.split)

context sync_parties
begin

lemma grows_cache [grows_intros]:
  "grows harmless (cache_branch E p h)" "grows harmless (cache_remove p)" "grows harmless (cache_record E L p s l)"
  "grows harmless (prepare_preview ps)" "grows harmless (cache_scope E)"
  unfolding cache_branch_def cache_remove_def cache_record_def prepare_preview_def cache_scope_def
  by (intro grows_intros grows_with_cache grows_cache_get)+

lemma grows_conflict_branch [grows_intros]: "grows harmless (conflict_branch E L S R opts cached local h p st)"
  unfolding conflict_branch_def by (intro grows_intros)

lemma grows_resolution [grows_intros]:
  "grows harmless (changed_preview E L S R opts)" "grows harmless (validate_resolution E L S R opts request)"
proof -
  show "grows harmless (changed_preview E L S R opts)" for opts
    unfolding changed_preview_def Let_def by (intro grows_intros)
  then show "grows harmless (validate_resolution E L S R opts request)"
    unfolding validate_resolution_def by (intro grows_intros)
qed

lemma with_details_keeps:
  assumes "\<And>n :: 'a io. grows harmless n \<Longrightarrow> keeps I n" and "keeps I m"
  shows "keeps I (with_details E L S R opts cached (m :: 'a io))"
  unfolding with_details_def Let_def
  by (rule keeps_attempt [OF assms(2)], rule assms(1))
    (auto intro!: grows_intros split: CloudSyncError.split sum.split)

lemma changed_preview_fails: "fst (changed_preview E L S R opts w) \<noteq> Inr x"
  by (auto simp: changed_preview_def attempt_def tryq_def fail_def Let_def split: sum.splits prod.splits)

lemma performs_changed: "performs plainly ev (changed_preview E L S R opts)"
  by (rule performs_failing [OF grows_mono [OF grows_resolution(1)] changed_preview_fails]) simp

lemma performs_guarded_write: "performs plainly (EWrite p b) (guarded_write E L S R opts request p b)"
  unfolding guarded_write_def
  by (intro performs_cases performs_bind performs_changed performs_write) (simp_all add: grows_intros)

lemma resolution_contract: "remote_contract (resolution_remote E L S R opts request)"
  unfolding resolution_remote_def
  by unfold_locales (simp_all add: performs_guarded_write performs_capacity performs_create_dir performs_read
      performs_delete performs_list)

lemma resolve_body_keeps:
  assumes "hex_digests L"
  shows "keeps (published L opts t) (resolve_body E L S R opts state request)"
proof -
  note quiet = keeps_published [OF to_preparing]
  note prepared = push_prepared_keeps pull_prepared_keeps(1)
  show ?thesis
    unfolding resolve_body_def Let_def
    by (intro keeps_intros prepared assms resolution_contract store_contract_axioms)
      (intro quiet grows_intros)+
qed

lemma resolve_keeps:
  assumes "hex_digests L"
  shows "keeps (published L opts t) (with_details E L S R opts False
    (attempt (resolve_body E L S R opts state request) (\<lambda>r. case r of
       Inr x \<Rightarrow> ret x | Inl e \<Rightarrow> if resolution_stale e then changed_preview E L S R opts else fail e)))"
  by (intro with_details_keeps keeps_intros resolve_body_keeps assms)
    (blast intro: keeps_published to_preparing grows_resolution)+

end

section \<open>What a run publishes\<close>

text \<open>The events a run adds to the log.\<close>

definition run_log :: "'a io \<Rightarrow> world \<Rightarrow> event list" where
  "run_log m w = (let w' = snd (m w) in take (length (past w') - length (past w)) (past w'))"

lemma run_log_since: "(\<And>t. keeps (since t P) m) \<Longrightarrow> P [] \<Longrightarrow> P (run_log m w)"
proof -
  assume k: "\<And>t. keeps (since t P) m" and "P []"
  then have "since (past w) P w" by (simp add: since_def)
  with k [of "past w"] have "since (past w) P (snd (m w))" unfolding keeps_def by blast
  then show ?thesis by (auto simp: since_def run_log_def Let_def)
qed

lemma published_run:
  "(\<And>t. keeps (published L opts t) m) \<Longrightarrow> publication_ok L opts (run_log m w)"
  by (rule run_log_since) (simp_all add: published_def)

lemma engine_publishes:
  assumes "hex_digests L"
  shows "keeps (published L opts t) (push_snapshot E L (raw_store E) (raw_remote E) opts state force prepared)"
    and "keeps (published L opts t) (pull_snapshot E L (raw_store E) (raw_remote E) opts state force prepared)"
    and "keeps (published L opts t) (recover_current_snapshot E L (raw_store E) (raw_remote E) opts)"
    and "keeps (published L opts t) (resolve_with_remote E L (raw_store E) (raw_remote E) opts state request)"
proof -
  note raw = assms raw_remote.remote_contract_axioms raw_store.store_contract_axioms
  note quiet = keeps_published [OF to_preparing]
  show "keeps (published L opts t) (push_snapshot E L (raw_store E) (raw_remote E) opts state force prepared)"
    unfolding push_snapshot_def by (intro controlled.with_details_keeps push_prepared_keeps raw quiet)
  show "keeps (published L opts t) (pull_snapshot E L (raw_store E) (raw_remote E) opts state force prepared)"
    unfolding pull_snapshot_def by (intro controlled.with_details_keeps pull_prepared_keeps raw quiet)
  show "keeps (published L opts t) (recover_current_snapshot E L (raw_store E) (raw_remote E) opts)"
    by (rule pull_prepared_keeps [OF raw])
  show "keeps (published L opts t) (resolve_with_remote E L (raw_store E) (raw_remote E) opts state request)"
    unfolding resolve_with_remote_def Let_def
    by (intro keeps_tryq quiet [OF grows_checkpoint] controlled.resolve_keeps assms)
qed

end
