(* ===== verification/Sync_Cancel.thy ===== *)
theory Sync_Cancel
  imports Sync_Safety
begin

text \<open>
  Cancellation (\<open>control.rs\<close>). Another thread may ask to cancel at any access of a run; the request
  wins or the commit wins. Here: a run that reports \<open>Cancelled\<close>, or ends cancelled, has published and
  changed nothing, and a run that has passed the commit point never reports \<open>Cancelled\<close>.
\<close>

section \<open>Honest runs\<close>

text \<open>The control flag a log leads to, and that no commit follows an accepted request: both are read
  off the log, newest event first, whatever the flag of the run was set to.\<close>

fun ctl_of :: "ctl \<Rightarrow> event list \<Rightarrow> ctl" where
  "ctl_of c [] = c"
| "ctl_of c (ECancel # es) = (if ctl_of c es = COMMITTING then COMMITTING else CANCELLED)"
| "ctl_of c (ECommit # es) = COMMITTING"
| "ctl_of c (e # es) = ctl_of c es"

primrec legal :: "ctl \<Rightarrow> event list \<Rightarrow> bool" where
  "legal c [] = True"
| "legal c (e # es) \<longleftrightarrow> legal c es \<and> (e = ECommit \<longrightarrow> ctl_of c es \<noteq> CANCELLED)"

definition disciplined :: "world \<Rightarrow> world \<Rightarrow> bool" where
  "disciplined w w' \<longleftrightarrow> (\<exists>es. past w' = es @ past w \<and> control w' = ctl_of (control w) es \<and> legal (control w) es)"

definition honest_at :: "world \<Rightarrow> 'a io \<Rightarrow> bool" where
  "honest_at w m \<longleftrightarrow> (case m w of (r, w') \<Rightarrow>
     disciplined w w' \<and> (control w' = COMMITTING \<longrightarrow> r \<noteq> Inl Cancelled))"

definition honest :: "'a io \<Rightarrow> bool" where
  "honest m \<longleftrightarrow> (\<forall>w. honest_at w m)"

text \<open>What may follow an answer \<open>Cancelled\<close>, which is given only before the commit point.\<close>

definition tame :: "'a io \<Rightarrow> bool" where
  "tame m \<longleftrightarrow> (\<forall>w. control w \<noteq> COMMITTING \<longrightarrow> honest_at w m)"

lemma ctl_of_append: "ctl_of c (fs @ es) = ctl_of (ctl_of c es) fs"
  by (induction c fs rule: ctl_of.induct) simp_all

lemma legal_append: "legal c (fs @ es) \<longleftrightarrow> legal c es \<and> legal (ctl_of c es) fs"
  by (induction fs) (auto simp: ctl_of_append)

lemma ctl_of_quiet: "e \<noteq> ECancel \<Longrightarrow> e \<noteq> ECommit \<Longrightarrow> ctl_of c (e # es) = ctl_of c es"
  by (cases e) simp_all

lemma disciplined_refl [simp]: "disciplined w w"
  by (auto simp: disciplined_def)

lemma disciplined_cache: "disciplined w w' \<Longrightarrow> disciplined w (w'\<lparr>cache := c\<rparr>)"
  by (simp add: disciplined_def)

lemma disciplined_trans:
  assumes "disciplined w w1" and "disciplined w1 w'"
  shows "disciplined w w'"
proof -
  obtain es where es: "past w1 = es @ past w" "control w1 = ctl_of (control w) es" "legal (control w) es"
    using assms(1) by (auto simp: disciplined_def)
  obtain fs where fs: "past w' = fs @ past w1" "control w' = ctl_of (control w1) fs" "legal (control w1) fs"
    using assms(2) by (auto simp: disciplined_def)
  have "past w' = (fs @ es) @ past w \<and> control w' = ctl_of (control w) (fs @ es) \<and> legal (control w) (fs @ es)"
    using es fs by (simp add: ctl_of_append legal_append)
  then show ?thesis unfolding disciplined_def by blast
qed

lemma disciplined_event:
  assumes "e \<noteq> ECancel" and "e \<noteq> ECommit"
  shows "disciplined w (w\<lparr>past := e # past w\<rparr>)"
  unfolding disciplined_def
  by (rule exI [of _ "[e]"]) (simp add: assms ctl_of_quiet)

lemma honest_atD:
  assumes "honest_at w m" and "m w = (r, w')"
  shows "disciplined w w'" and "control w' = COMMITTING \<Longrightarrow> r \<noteq> Inl Cancelled"
  using assms by (auto simp: honest_at_def)

lemma tame_honest: "honest m \<Longrightarrow> tame m"
  by (simp add: honest_def tame_def)

lemma tame_fail: "tame (fail e)"
  by (simp add: tame_def honest_at_def fail_def)

lemma honest_ret: "honest (ret x)"
  by (simp add: honest_def honest_at_def ret_def)

lemma honest_fail: "e \<noteq> Cancelled \<Longrightarrow> honest (fail e)"
  by (simp add: honest_def honest_at_def fail_def)

definition uncancelled :: "CloudSyncError + 'a \<Rightarrow> bool" where
  "uncancelled r \<longleftrightarrow> r \<noteq> Inl Cancelled"

lemma honest_lift: "uncancelled r \<Longrightarrow> honest (lift r)"
  by (simp add: honest_def honest_at_def lift_def uncancelled_def)

lemma honest_snap: "honest (snap r)"
  unfolding snap_def by (rule honest_lift) (auto simp: uncancelled_def split: sum.split)

lemma honest_at_bind:
  assumes m: "honest_at w m" "m w = (r, w1)" and f: "honest_at w1 (f r)"
  shows "honest_at w (attempt m f)"
proof -
  obtain r' w' where run: "f r w1 = (r', w')" by (cases "f r w1")
  have "disciplined w w'" by (rule disciplined_trans [OF honest_atD(1) [OF m] honest_atD(1) [OF f run]])
  with honest_atD(2) [OF f run] show ?thesis by (simp add: honest_at_def attempt_def m(2) run)
qed

lemma honest_attempt:
  assumes "honest m" and "\<And>r. r \<noteq> Inl Cancelled \<Longrightarrow> honest (f r)" and "tame (f (Inl Cancelled))"
  shows "honest (attempt m f)"
  unfolding honest_def
proof
  fix w
  obtain r w1 where run: "m w = (r, w1)" by (cases "m w")
  have m: "honest_at w m" using assms(1) by (simp add: honest_def)
  have "honest_at w1 (f r)"
  proof (cases "r = Inl Cancelled")
    case True
    with honest_atD(2) [OF m run] assms(3) show ?thesis by (auto simp: tame_def)
  qed (use assms(2) in \<open>simp add: honest_def\<close>)
  with m run show "honest_at w (attempt m f)" by (rule honest_at_bind)
qed

lemma honest_tryq: "honest m \<Longrightarrow> (\<And>x. honest (f x)) \<Longrightarrow> honest (tryq m f)"
  unfolding tryq_def by (rule honest_attempt) (auto intro: honest_fail tame_fail split: sum.split)

lemma honest_for_each: "(\<And>x s. honest (body x s)) \<Longrightarrow> honest (for_each xs s body)"
  by (induction xs arbitrary: s) (simp_all add: honest_ret honest_tryq)

lemma honest_cases:
  "(b \<Longrightarrow> honest m) \<Longrightarrow> (\<not> b \<Longrightarrow> honest n) \<Longrightarrow> honest (if b then m else n)"
  "honest m \<Longrightarrow> (\<And>x. honest (f x)) \<Longrightarrow> honest (case q of None \<Rightarrow> m | Some x \<Rightarrow> f x)"
  "(\<And>x. s = Inl x \<Longrightarrow> honest (g x)) \<Longrightarrow> (\<And>x. honest (h x)) \<Longrightarrow> honest (case s of Inl x \<Rightarrow> g x | Inr x \<Rightarrow> h x)"
  "(\<And>x y. honest (k x y)) \<Longrightarrow> honest (case p of (x, y) \<Rightarrow> k x y)"
  "(\<And>s. honest (a s)) \<Longrightarrow> (\<And>s. honest (c s)) \<Longrightarrow> (\<And>p d u. honest (j p d u)) \<Longrightarrow>
   honest (case v of Current s \<Rightarrow> a s | LegacyMigrated s \<Rightarrow> c s | Inconsistent p d u \<Rightarrow> j p d u)"
  by (auto split: option.split sum.split prod.split RemoteSnapshotResolution.split)

lemma tame_cases:
  "tame m \<Longrightarrow> tame n \<Longrightarrow> tame (if b then m else n)"
  "tame (g x) \<Longrightarrow> tame (case Inl x of Inl x \<Rightarrow> g x | Inr x \<Rightarrow> h x)"
  by simp_all

lemmas honest_intros = honest_ret honest_snap honest_tryq honest_attempt honest_for_each honest_cases tame_cases tame_fail

section \<open>Control\<close>

lemma honest_clock: "honest (current_time_ms E)" "honest (uuid_v4 E)"
  by (simp_all add: honest_def honest_at_def current_time_ms_def uuid_v4_def Let_def disciplined_event)

lemma poll_disciplined: "disciplined w (poll E w)"
proof (cases "e_cancel E (past w)")
  case True
  then show ?thesis
    unfolding disciplined_def by (intro exI [of _ "[ECancel]"]) (simp add: poll_def request_cancel_def split: ctl.split)
qed (simp add: poll_def)

lemma honest_checkpoint: "honest (checkpoint E)"
  by (simp add: honest_def honest_at_def checkpoint_def Let_def poll_disciplined)

lemma honest_begin_commit: "honest (begin_commit E)"
  unfolding honest_def
proof
  fix w
  let ?w = "poll E w"
  have commit: "control ?w \<noteq> CANCELLED \<Longrightarrow> disciplined ?w (?w\<lparr>past := ECommit # past ?w, control := COMMITTING\<rparr>)"
    unfolding disciplined_def by (rule exI [of _ "[ECommit]"]) simp
  have same: "control ?w = COMMITTING \<Longrightarrow> ?w\<lparr>past := ECommit # past ?w, control := COMMITTING\<rparr> = ?w\<lparr>past := ECommit # past ?w\<rparr>"
    by simp
  show "honest_at w (begin_commit E)"
    using disciplined_trans [OF poll_disciplined [of w E] commit] same poll_disciplined [of w E]
    by (cases "control ?w") (simp_all add: honest_at_def begin_commit_def Let_def)
qed

lemma honest_guarded: "honest m \<Longrightarrow> honest (guarded E m)" "honest m \<Longrightarrow> honest (guarded2 E m)"
  unfolding guarded_def guarded2_def by (intro honest_intros honest_checkpoint; assumption)+

lemma honest_ask:
  "(\<And>t. uncancelled (answer t)) \<Longrightarrow> (\<And>r. ev r \<noteq> ECommit) \<Longrightarrow> (\<And>r. ev r \<noteq> ECancel) \<Longrightarrow> honest (ask answer ev)"
  by (simp add: honest_def honest_at_def ask_def uncancelled_def Let_def disciplined_event)

section \<open>The protocol\<close>

locale honest_parties =
  fixes L :: lib and R :: remote_ops and S :: store_ops
  assumes honest_remote: "honest (r_capacity R)" "honest (r_create_dir R p)" "honest (r_read R p)" "honest (r_write R p b)"
      "honest (r_delete R p)" "honest (r_list R p)"
    and honest_store: "honest (s_encode S s pw)" "honest (s_decode S b pw)" "honest (s_encode_pointer S q)"
      "honest (s_decode_pointer S b)" "honest (s_build S)" "honest (s_apply_checked S s h st)" "honest (s_persist S st)"
      "honest (s_verify_password S pw)"
    and honest_lib: "uncancelled (json_head L d)" "uncancelled (parse_head L b)"

lemma uncancelled_intros:
  "uncancelled (Inr x)" "e \<noteq> Cancelled \<Longrightarrow> uncancelled (Inl e)"
  "uncancelled r \<Longrightarrow> (\<And>x. uncancelled (f x)) \<Longrightarrow> uncancelled (rbind r f)"
  "uncancelled p \<Longrightarrow> uncancelled q \<Longrightarrow> uncancelled (if b then p else q)"
  "uncancelled p \<Longrightarrow> (\<And>x. uncancelled (g x)) \<Longrightarrow> uncancelled (case v of None \<Rightarrow> p | Some x \<Rightarrow> g x)"
  "e \<noteq> Cancelled \<Longrightarrow> uncancelled (ok_or e v)"
  by (auto simp: uncancelled_def ok_or_def rbind_def split: option.splits sum.splits)

lemma uncancelled_clocks:
  "uncancelled (validate_clock c)" "uncancelled (next_clock hs previous device)" "uncancelled (choose_heads hs' shared)"
proof -
  show v: "uncancelled (validate_clock c)" for c unfolding validate_clock_def by (intro uncancelled_intros) simp
  show "uncancelled (next_clock hs previous device)"
    unfolding next_clock_def Let_def by (intro uncancelled_intros v) simp
  have u: "uncancelled (unique_heads ps acc)" for ps acc
    by (induction ps acc rule: unique_heads.induct) (auto intro!: uncancelled_intros split: option.split)
  show "uncancelled (choose_heads hs' shared)"
    unfolding choose_heads_def Let_def by (intro uncancelled_intros u)
qed

lemma uncancelled_checks:
  "uncancelled (validate_remote_snapshot_size L b p r)" "uncancelled (validate_snapshot_against_pointer q s)"
  unfolding validate_remote_snapshot_size_def validate_snapshot_against_pointer_def by (intro uncancelled_intros; simp)+

context honest_parties
begin

lemma uncancelled_record: "uncancelled (decode_record L b)"
  unfolding decode_record_def by (intro uncancelled_intros honest_lib uncancelled_clocks; simp)

lemmas honest_steps = honest_intros honest_clock honest_checkpoint honest_begin_commit honest_remote honest_store

lemma honest_heads:
  "honest (read_records L R root)" "honest (read_device_heads L R root)" "honest (protected_revisions L R root)"
  "honest (load_sync_pointer_from_remote S R root)" "honest (heads_read L S R root)"
proof -
  show r: "honest (read_records L R root)"
    unfolding read_records_def read_record_def by (intro honest_steps honest_lift uncancelled_record honest_fail; simp)
  show d: "honest (read_device_heads L R root)" "honest (protected_revisions L R root)"
    unfolding read_device_heads_def protected_revisions_def by (intro honest_steps r)+
  show l: "honest (load_sync_pointer_from_remote S R root)"
    unfolding load_sync_pointer_from_remote_def by (intro honest_steps)
  show "honest (heads_read L S R root)"
    unfolding heads_read_def
    by (intro honest_steps d l honest_lift uncancelled_clocks tame_honest honest_fail) auto
qed

lemma honest_decode:
  "honest (decode_remote_snapshot L S b pw p r)" "honest (decode_and_validate_remote_snapshot L S b opts p q)"
proof -
  have c: "honest (decrypt_cause S pw)" for pw unfolding decrypt_cause_def by (intro honest_steps tame_honest)
  show d: "honest (decode_remote_snapshot L S b pw p r)" for pw p r
    unfolding decode_remote_snapshot_def
    by (rule honest_attempt)
      (auto intro!: honest_steps c honest_fail split: sum.split CloudSyncError.split PortableSnapshotError.split)
  show "honest (decode_and_validate_remote_snapshot L S b opts p q)"
    unfolding decode_and_validate_remote_snapshot_def by (intro honest_steps d honest_lift uncancelled_checks)
qed

lemma honest_snapshots:
  "honest (verify_written_snapshot L S R opts q b)" "honest (read_snapshot_for_pointer L S R opts q)"
  "honest (read_current_sync_snapshot_compat L S R opts)" "honest (ensure_remote_head_unchanged S R root expected)"
  unfolding verify_written_snapshot_def read_snapshot_for_pointer_def read_current_sync_snapshot_compat_def
    ensure_remote_head_unchanged_def Let_def
  by (intro honest_steps honest_decode honest_heads honest_lift uncancelled_checks honest_fail; simp)+

lemma honest_verify_readback: "honest (verify_readback R p b n)"
proof (induction n)
  case (Suc n)
  then show ?case unfolding verify_readback.simps by (intro honest_steps)
qed (simp add: honest_fail)

lemma honest_records: "honest (stage_head L R root d r)" "honest (publish L R root q)"
  unfolding stage_head_def publish_def write_record_def
  by (intro honest_steps honest_lift honest_lib honest_verify_readback honest_fail tame_honest; simp)+

end

context honest_parties
begin

lemmas honest_parts = honest_steps honest_heads honest_decode honest_snapshots honest_records honest_lift
  uncancelled_checks uncancelled_clocks uncancelled_intros

lemma honest_clocks: "honest (authenticated_commit_clocks L S R opts latest)"
  unfolding authenticated_commit_clocks_def by (intro honest_parts)

lemma honest_candidate: "honest (capacity_candidate L S R opts clocks prot pre path cands)"
  unfolding capacity_candidate_def by (intro honest_parts tame_honest)

lemma honest_free: "honest (free_candidates L S R opts needed cands prot freed)"
proof (induction cands arbitrary: prot freed)
  case Nil
  show ?case by (simp add: honest_fail)
next
  case (Cons c cands)
  obtain created path revision where c: "c = (created, path, revision)" by (cases c)
  show ?case unfolding c free_candidates.simps Let_def by (intro honest_parts Cons)
qed

lemma honest_reserve: "honest (reserve_snapshot_capacity L S R opts expected target)"
  unfolding reserve_snapshot_capacity_def missing_files_def Let_def
  by (intro honest_parts honest_clocks honest_candidate honest_free tame_honest)

lemma honest_verify_upload: "honest n \<Longrightarrow> honest (verify_upload L S R opts p b cap last_attempt n)"
  unfolding verify_upload_def
  by (intro honest_parts tame_honest honest_fail)
    (auto simp: capacity_error_def split: CloudSyncError.split)

lemma honest_rounds: "honest (upload_rounds L S R opts p expected b stage cap attempts left)"
proof (induction left)
  case 0
  show ?case by (simp add: honest_fail)
next
  case (Suc left)
  show ?case
    unfolding upload_rounds.simps Let_def prepare_upload_def
    by (intro honest_parts honest_reserve honest_verify_upload Suc honest_fail tame_honest [OF Suc])
      (auto simp: capacity_error_def split: CloudSyncError.split)
qed

lemma honest_upload:
  "honest (upload_verified_snapshot L S R opts p expected b stage)" "honest (upload_sync_snapshot L S R opts s expected)"
  unfolding upload_verified_snapshot_def upload_sync_snapshot_def Let_def
  by (intro honest_parts honest_rounds honest_fail; simp)+

lemma honest_resolve: "honest (resolve_remote_snapshot L S R opts p)"
proof -
  have m: "honest (migrate_current L S R opts p s)" for s
    unfolding migrate_current_def by (intro honest_parts honest_upload; simp)
  show ?thesis
    unfolding resolve_remote_snapshot_def Let_def
  proof (rule honest_attempt [OF honest_snapshots(2)], goal_cases)
    case (1 r)
    show ?case
      by (intro honest_parts m; insert 1)
        (auto intro!: honest_parts honest_fail split: CloudSyncError.split)
  next
    case 2
    show ?case by (simp add: head_is_unusable_def tame_fail)
  qed
qed

lemma honest_pointer: "honest (write_sync_pointer L S R root p)"
proof -
  have "honest (pointer_rounds S R root p b cap n left e)" if "e \<noteq> Cancelled" for b cap n left e
  proof (induction left)
    case (Suc left)
    show ?case unfolding pointer_rounds.simps by (intro honest_parts Suc honest_fail tame_honest [OF Suc]) auto
  qed (use that in \<open>simp add: honest_fail\<close>)
  then show ?thesis unfolding write_sync_pointer_def Let_def by (intro honest_parts) simp
qed

lemma honest_commit: "honest (commit_snapshot E L S R opts p b)"
  unfolding commit_snapshot_def by (intro honest_parts honest_pointer tame_honest)

lemma honest_recover: "honest (recover_current_remote_snapshot E L S R opts)"
  unfolding recover_current_remote_snapshot_def by (intro honest_parts honest_upload honest_commit; simp)

end

section \<open>The engine\<close>

lemma honest_with_cache: "honest (with_cache f)"
  by (simp add: honest_def honest_at_def with_cache_def disciplined_cache)

lemma honest_cache_get: "honest (cache_get E p)"
  unfolding cache_get_def
  by (rule honest_tryq [OF honest_clock(1)]) (auto simp: honest_def honest_at_def Let_def disciplined_cache split: option.split prod.split)

context honest_parties
begin

lemma honest_previews:
  "honest (conflict_preview E opts provider h p)" "honest (remote_inconsistent_preview E provider h p c u)"
  "honest (require_single E opts hs provider h)" "honest (validate_remote_baseline E state p opts provider h)"
  "honest (ensure_enabled opts)" "honest (prepare_sync L S R root prepared)" "honest (ensure_remote_layout R root)"
  unfolding conflict_preview_def remote_inconsistent_preview_def require_single_def validate_remote_baseline_def
    ensure_enabled_def prepare_sync_def ensure_remote_layout_def
  by (intro honest_parts honest_fail; simp)+

lemmas honest_stages = honest_parts honest_previews honest_resolve honest_upload honest_commit honest_recover

lemma honest_report: "honest (report S r)"
  unfolding report_def by (intro honest_parts)

lemma honest_push:
  "honest (push_decide E L S R opts state force hs local h remote next_state)"
  "honest (push_remote_snapshot E L S R opts force h latest cached)"
proof -
  have up: "honest (push_upload E L S R opts state force hs local h next_state)"
    unfolding push_upload_def Let_def by (intro honest_stages honest_report)
  show "honest (push_decide E L S R opts state force hs local h remote next_state)"
    unfolding push_decide_def Let_def by (intro honest_stages honest_report up honest_fail; simp)
  show "honest (push_remote_snapshot E L S R opts force h latest cached)"
    unfolding push_remote_snapshot_def by (intro honest_stages honest_fail; simp)
qed

lemma honest_pull:
  assumes "honest (before_apply E)"
  shows "honest (pull_decide E L S R opts state force hs latest local remote next_state)"
    and "honest (pull_remote_snapshot E L S R opts h latest cached)"
proof -
  have res: "honest (pull_resolve E L S R opts state hs latest remote)"
    unfolding pull_resolve_def by (intro honest_stages)
  show "honest (pull_decide E L S R opts state force hs latest local remote next_state)"
    unfolding pull_decide_def pull_apply_def Let_def
    by (intro honest_stages honest_report res assms honest_fail; simp)
  show "honest (pull_remote_snapshot E L S R opts h latest cached)"
    unfolding pull_remote_snapshot_def by (intro honest_stages honest_fail; simp)
qed

lemma honest_cache: "honest (cache_branch E p h)" "honest (cache_remove p)" "honest (cache_record E L p s l)"
  "honest (prepare_preview ps)"
  unfolding cache_branch_def cache_remove_def cache_record_def prepare_preview_def
  by (intro honest_parts honest_with_cache honest_cache_get)+

lemma honest_details: "honest m \<Longrightarrow> honest (with_details E L S R opts cached m)"
proof -
  assume m: "honest m"
  have b: "honest (conflict_branch E L S R opts cached local h p st)" for cached local h p st
    unfolding conflict_branch_def by (intro honest_parts honest_cache tame_honest)
  show ?thesis
    unfolding with_details_def Let_def
    by (rule honest_attempt [OF m])
      (auto intro!: honest_parts honest_cache b honest_fail tame_honest split: sum.split CloudSyncError.split)
qed

lemma honest_changed: "honest (changed_preview E L S R opts)"
  unfolding changed_preview_def Let_def by (intro honest_stages honest_fail tame_honest; simp)

lemma honest_validate: "honest (validate_resolution E L S R opts request)"
  unfolding validate_resolution_def by (intro honest_stages honest_fail honest_changed; simp)

lemma honest_guarded_write: "honest (guarded_write E L S R opts request p b)"
  unfolding guarded_write_def
  by (intro honest_stages honest_validate honest_changed tame_honest)

lemma resolution_honest: "honest_parties L (resolution_remote E L S R opts request) S"
  unfolding resolution_remote_def
  by unfold_locales (simp_all add: honest_guarded_write honest_remote honest_store honest_lib)

end

lemma controlled_honest: "honest_parties L R S \<Longrightarrow> honest_parties L (controlled_remote E R) (controlled_store E S)"
  unfolding honest_parties_def controlled_remote_def controlled_store_def
  by (auto intro: honest_guarded honest_tryq honest_begin_commit)

section \<open>Whole runs\<close>

text \<open>Only the control of a run produces \<open>Cancelled\<close>: the answers of the storage, of the local
  store and of the JSON library are other errors.\<close>

definition never_cancels :: "env \<Rightarrow> lib \<Rightarrow> bool" where
  "never_cancels E L \<longleftrightarrow>
     (\<forall>t. uncancelled (e_capacity E t) \<and> uncancelled (e_build E t) \<and> uncancelled (e_before_apply E t)) \<and>
     (\<forall>t p. uncancelled (e_create_dir E t p) \<and> uncancelled (e_read E t p) \<and> uncancelled (e_delete E t p) \<and>
       uncancelled (e_list E t p) \<and> uncancelled (e_decode_pointer E t p) \<and> uncancelled (e_verify_password E t p)) \<and>
     (\<forall>t p b. uncancelled (e_write E t p b) \<and> uncancelled (e_decode E t b p)) \<and>
     (\<forall>t s pw. uncancelled (e_encode E t s pw)) \<and> (\<forall>t q. uncancelled (e_encode_pointer E t q)) \<and>
     (\<forall>t s h st. uncancelled (e_apply E t s h st)) \<and> (\<forall>t st. uncancelled (e_persist E t st)) \<and>
     (\<forall>d. uncancelled (json_head L d)) \<and> (\<forall>b. uncancelled (parse_head L b))"

lemma raw_honest: "never_cancels E L \<Longrightarrow> honest_parties L (raw_remote E) (raw_store E)"
  unfolding never_cancels_def by unfold_locales (simp_all add: raw_remote_def raw_store_def honest_ask)

lemma before_apply_honest: "never_cancels E L \<Longrightarrow> honest (before_apply E)"
  unfolding never_cancels_def before_apply_def by (simp add: honest_ask)

lemma prepared_honest:
  assumes "honest_parties L R S" and "honest (before_apply E)"
  shows "honest (push_snapshot_prepared E L S R opts state force prepared)"
    and "honest (pull_snapshot_prepared E L S R opts state force prepared)"
    and "honest (recover_current_snapshot E L S R opts)"
proof -
  note p = controlled_honest [OF assms(1), of E]
  note stages = honest_parties.honest_stages [OF p] honest_parties.honest_report [OF p]
  show "honest (push_snapshot_prepared E L S R opts state force prepared)"
    unfolding push_snapshot_prepared_def Let_def by (intro stages honest_parties.honest_push [OF p]; simp)
  show "honest (pull_snapshot_prepared E L S R opts state force prepared)"
    unfolding pull_snapshot_prepared_def Let_def by (intro stages honest_parties.honest_pull [OF p] assms(2); simp)
  show "honest (recover_current_snapshot E L S R opts)"
    unfolding recover_current_snapshot_def Let_def by (intro stages)
qed

lemma resolve_honest:
  assumes "honest_parties L R S" and "honest (before_apply E)"
  shows "honest (resolve_with_remote E L S R opts state request)"
proof -
  note p = controlled_honest [OF assms(1), of E]
  note stages = honest_parties.honest_stages [OF p] honest_parties.honest_changed [OF p]
    honest_parties.honest_validate [OF p]
  note guard = prepared_honest [OF honest_parties.resolution_honest [OF p] assms(2)]
  have "honest (resolve_body E L (controlled_store E S) (controlled_remote E R) opts state request)"
    unfolding resolve_body_def Let_def by (intro stages guard tame_honest; simp)
  then show ?thesis
    unfolding resolve_with_remote_def Let_def
    by (intro stages honest_parties.honest_details [OF p] honest_fail tame_honest [OF honest_parties.honest_changed [OF p]])
      auto
qed

text \<open>A request to cancel that arrived before any commit, in the order of time: it was accepted.\<close>

fun accepted_cancel :: "event list \<Rightarrow> bool" where
  "accepted_cancel [] = False"
| "accepted_cancel (ECancel # es) = True"
| "accepted_cancel (ECommit # es) = False"
| "accepted_cancel (e # es) = accepted_cancel es"

lemma accepted_cancel_snoc: "accepted_cancel (es @ [e]) \<longleftrightarrow> accepted_cancel es \<or> e = ECancel \<and> ECommit \<notin> set es"
proof (induction es rule: accepted_cancel.induct)
  case 1
  show ?case by (cases e) simp_all
qed simp_all

lemma accepted_cancel_in: "accepted_cancel es \<Longrightarrow> ECancel \<in> set es"
  by (induction es rule: accepted_cancel.induct) simp_all

lemma legal_flag:
  assumes "legal c es" and "c \<noteq> COMMITTING"
  shows "ctl_of c es = (if ECommit \<in> set es then COMMITTING else if ECancel \<in> set es then CANCELLED else c)"
  using assms(1) assms(2) by (induction c es rule: ctl_of.induct) auto

lemma legal_accepted:
  assumes "legal c es" and "c \<noteq> COMMITTING" and "c = CANCELLED \<or> accepted_cancel (rev es)"
  shows "ECommit \<notin> set es"
  using assms(1,3)
proof (induction es)
  case (Cons e es)
  note flag = legal_flag [of c es, OF _ assms(2)]
  from Cons.prems consider "c = CANCELLED \<or> accepted_cancel (rev es)" | "e = ECancel" "ECommit \<notin> set es"
    by (auto simp: accepted_cancel_snoc)
  then show ?case
  proof cases
    case 1
    with Cons have no: "ECommit \<notin> set es" by simp
    from 1 have "c = CANCELLED \<or> ECancel \<in> set es" using accepted_cancel_in by fastforce
    with no flag Cons.prems(1) have "ctl_of c es = CANCELLED" by auto
    with Cons.prems(1) no show ?thesis by auto
  qed simp
qed simp

lemma honest_run:
  assumes "honest m" and "control w \<noteq> COMMITTING"
  shows "ECommit \<in> set (run_log m w) \<Longrightarrow> control (snd (m w)) = COMMITTING"
    and "control w = CANCELLED \<or> accepted_cancel (rev (run_log m w)) \<Longrightarrow> ECommit \<notin> set (run_log m w)"
    and "control (snd (m w)) = COMMITTING \<Longrightarrow> fst (m w) \<noteq> Inl Cancelled"
proof -
  obtain r w' where run: "m w = (r, w')" by (cases "m w")
  note h = honest_atD [OF assms(1) [unfolded honest_def, THEN spec] run]
  from h(1) obtain es where es: "past w' = es @ past w" "control w' = ctl_of (control w) es" "legal (control w) es"
    by (auto simp: disciplined_def)
  then have log: "run_log m w = es" using run by (simp add: run_log_def)
  show "control (snd (m w)) = COMMITTING" if "ECommit \<in> set (run_log m w)"
    using that es legal_flag [OF es(3) assms(2)] by (simp add: log run)
  show "ECommit \<notin> set (run_log m w)" if "control w = CANCELLED \<or> accepted_cancel (rev (run_log m w))"
    using legal_accepted [OF es(3) assms(2)] that by (simp add: log)
  show "fst (m w) \<noteq> Inl Cancelled" if "control (snd (m w)) = COMMITTING" using h(2) that run by simp
qed

lemma publication_preparing: "publication_ok L opts es \<Longrightarrow> ECommit \<notin> set es \<Longrightarrow> \<forall>e \<in> set es. preparing L (remote_root opts) e"
  by (induction es) (auto simp: preparing_def justified_head_def split: event.splits)

text \<open>A run that reports \<open>Cancelled\<close>, that ends cancelled or whose log has a request to cancel before
  any commit (or that was cancelled before it started) has written no device head, applied nothing to
  the local configuration and persisted no state; a run that committed does not report
  \<open>Cancelled\<close>.\<close>

definition cancellation_ok :: "lib \<Rightarrow> LocalCloudSyncOptions \<Rightarrow> 'a io \<Rightarrow> world \<Rightarrow> bool" where
  "cancellation_ok L opts m w \<longleftrightarrow>
     (fst (m w) = Inl Cancelled \<or> control (snd (m w)) = CANCELLED \<or> control w = CANCELLED \<or>
        accepted_cancel (rev (run_log m w)) \<longrightarrow>
        (\<forall>e \<in> set (run_log m w). preparing L (remote_root opts) e)) \<and>
     (ECommit \<in> set (run_log m w) \<longrightarrow> control (snd (m w)) = COMMITTING \<and> fst (m w) \<noteq> Inl Cancelled)"

lemma cancellation_run:
  assumes "honest m" and "\<And>t. keeps (published L opts t) m" and "control w \<noteq> COMMITTING"
  shows "cancellation_ok L opts m w"
proof -
  note h = honest_run [OF assms(1,3)]
  have "fst (m w) = Inl Cancelled \<or> control (snd (m w)) = CANCELLED \<or> control w = CANCELLED \<or>
      accepted_cancel (rev (run_log m w)) \<Longrightarrow> ECommit \<notin> set (run_log m w)"
    using h by (metis ctl.distinct(5))
  then show ?thesis
    unfolding cancellation_ok_def
    using h(1,3) publication_preparing [OF published_run [OF assms(2)]] by blast
qed

text \<open>The storage and the library as a party of the engine.\<close>

locale honest_storage =
  fixes E :: env and L :: lib
  assumes never_cancels: "never_cancels E L"

sublocale honest_storage \<subseteq> engine: honest_parties L "controlled_remote E (raw_remote E)" "controlled_store E (raw_store E)"
  by (rule controlled_honest [OF raw_honest [OF never_cancels]])

context honest_storage
begin

lemma engine_honest:
  "honest (push_snapshot E L (raw_store E) (raw_remote E) opts state force prepared)"
  "honest (pull_snapshot E L (raw_store E) (raw_remote E) opts state force prepared)"
  "honest (recover_current_snapshot E L (raw_store E) (raw_remote E) opts)"
  "honest (resolve_with_remote E L (raw_store E) (raw_remote E) opts state request)"
  unfolding push_snapshot_def pull_snapshot_def
  using raw_honest [OF never_cancels] before_apply_honest [OF never_cancels]
  by (simp_all add: engine.honest_details prepared_honest resolve_honest)

end

end
