(* ===== verification/Sync_Runs.thy ===== *)
theory Sync_Runs
  imports Sync_Cancel "HOL-Library.Code_Target_Nat"
begin

text \<open>
  Whole runs of the engine: what they publish in any environment, and a faithful environment in
  which a push is computed.
\<close>

section \<open>A faithful environment\<close>

text \<open>A remote that stores what is written and a local store that can decode what it encoded, as
  an environment: the answers are computed from the log.\<close>

fun stored :: "event list \<Rightarrow> str \<Rightarrow> u8 list option" where
  "stored [] p = None"
| "stored (EWrite q b (Inr u) # t) p = (if p = q then Some b else stored t p)"
| "stored (EDelete q (Inr u) # t) p = (if p = q then None else stored t p)"
| "stored (e # t) p = stored t p"

fun encoded :: "event list \<Rightarrow> u8 list \<Rightarrow> RawPortableSnapshot option" where
  "encoded [] b = None"
| "encoded (EEncode s pw (Inr c) # t) b = (if b = c then Some s else encoded t b)"
| "encoded (e # t) b = encoded t b"

fun written_paths :: "event list \<Rightarrow> str list" where
  "written_paths [] = []"
| "written_paths (EWrite q b (Inr u) # t) = q # written_paths t"
| "written_paths (e # t) = written_paths t"

fun encoded_pointer :: "event list \<Rightarrow> u8 list \<Rightarrow> RemoteSyncPointer option" where
  "encoded_pointer [] b = None"
| "encoded_pointer (EEncodePointer p (Inr c) # t) b = (if b = c then Some p else encoded_pointer t b)"
| "encoded_pointer (e # t) b = encoded_pointer t b"

definition local_ex :: RawPortableSnapshot where
  "local_ex = \<lparr>meta = \<lparr>m_schema_version = 4, m_snapshot_kind = Sync, m_revision_id = ascii ''r1'', m_device_id = ascii ''d1'',
      m_device_name = None, m_created_at_ms = 5, m_payload_hash = [], m_entities_hash = None, m_sync_clock = None,
      m_app_version = []\<rparr>, entities = [], source_hash = None\<rparr>"

definition faithful_env :: "(event list \<Rightarrow> bool) \<Rightarrow> env" where
  "faithful_env cancel =
     \<lparr>e_provider = ascii ''webdav'',
      e_capacity = (\<lambda>t. Inr None),
      e_create_dir = (\<lambda>t p. Inr ()),
      e_read = (\<lambda>t p. Inr (stored t p)),
      e_write = (\<lambda>t p b. Inr ()),
      e_delete = (\<lambda>t p. Inr ()),
      e_list = (\<lambda>t p. Inr (filter (\<lambda>q. starts_with p q \<and> stored t q \<noteq> None) (remdups (written_paths t)))),
      e_encode = (\<lambda>t s pw. Inr (replicate 13 0)),
      e_decode = (\<lambda>t b pw. case encoded t b of Some s \<Rightarrow> Inr s | None \<Rightarrow> Inl (PortableSnapshot CorruptPayload)),
      e_encode_pointer = (\<lambda>t p. Inr [1]),
      e_decode_pointer = (\<lambda>t b. case encoded_pointer t b of Some p \<Rightarrow> Inr p | None \<Rightarrow> Inl (PortableSnapshot CorruptPayload)),
      e_build = (\<lambda>t. Inr local_ex),
      e_apply = (\<lambda>t s h st. Inr (\<lparr>database_path = [], safety_backup_path = None\<rparr>, st)),
      e_persist = (\<lambda>t st. Inr ()),
      e_verify_password = (\<lambda>t pw. Inr (Some True)),
      e_before_apply = (\<lambda>t. Inr ()),
      e_now = (\<lambda>t. 1000), e_uuid = (\<lambda>t. ascii ''r2''), e_cancel = cancel, e_context = []\<rparr>"

definition lib_ex :: lib where
  "lib_ex =
     \<lparr>json_head = (\<lambda>h. Inr (if dh_committed h = None then [2] else [3])),
      parse_head = (\<lambda>b. Inl (JsonError [])),
      sha256_hex = (\<lambda>b. replicate 64 0x61),
      project_fixed = Inr,
      raw_payload_hash = (\<lambda>es. Inr (ascii ''p'')),
      raw_entities_hash = (\<lambda>es. Inr (ascii ''e'')),
      has_user_content = (\<lambda>s. True),
      summarize = (\<lambda>l s. []),
      show_error = (\<lambda>e. []), show_cause = (\<lambda>c. []), show_number = (\<lambda>n. [])\<rparr>"

definition opts_ex :: LocalCloudSyncOptions where
  "opts_ex = \<lparr>remote_dir = [], remote_root = [], o_device_id = ascii ''d1'', o_device_name = None, master_password = ascii ''m'',
     enabled = True\<rparr>"

definition state_ex :: CloudSyncState where
  "state_ex = \<lparr>st_device_id = ascii ''d1'', last_synced_payload_hash = None, last_synced_content_hash = None,
     last_synced_clock = None, last_applied_remote_revision = None, last_checked_at_ms = None, last_synced_at_ms = None,
     last_validated_remote_revision = None, last_full_validation_at_ms = None, last_gc_attempt_at_ms = None\<rparr>"

definition world_ex :: world where
  "world_ex = \<lparr>past = [], control = PREPARING, cache = \<lparr>ck_context = None, ck_preview_set = [], ck_entries = []\<rparr>\<rparr>"

lemma hex_ex: "hex_digests lib_ex"
  by (simp add: hex_digests_def lib_ex_def)

definition push_ex :: "(event list \<Rightarrow> bool) \<Rightarrow> CloudSyncResult io" where
  "push_ex cancel = (let E = faithful_env cancel in
     push_snapshot E lib_ex (raw_store E) (raw_remote E) opts_ex state_ex False None)"

definition head_written :: "event \<Rightarrow> bool" where
  "head_written e = (case e of EWrite p b (Inr _) \<Rightarrow> p = device_head_path lib_ex [] (ascii ''d1'') \<and> b = [3] | _ \<Rightarrow> False)"

lemma push_ex_uploads:
  "(case push_ex (\<lambda>_. False) world_ex of (r, w) \<Rightarrow>
     (map_sum id res_outcome r, list_ex head_written (past w))) = (Inr Uploaded, True)"
  by code_simp

text \<open>(C2) Whatever the remote and the local store answer, what a push, a pull, a recovery or a
  resolution does is in order: when it writes a device head, the snapshot that head names has been
  written, read back byte for byte and decoded to a snapshot that matches the head, and the run has
  passed the point after which it cannot be cancelled; it changes the local configuration and
  persists its state only after that point.\<close>

theorem published_heads_verified:
  assumes "hex_digests L"
  shows "publication_ok L opts (run_log (push_snapshot E L (raw_store E) (raw_remote E) opts state force prepared) w) \<and>
    publication_ok L opts (run_log (pull_snapshot E L (raw_store E) (raw_remote E) opts state force prepared) w) \<and>
    publication_ok L opts (run_log (recover_current_snapshot E L (raw_store E) (raw_remote E) opts) w) \<and>
    publication_ok L opts (run_log (resolve_with_remote E L (raw_store E) (raw_remote E) opts state request) w)"
  by (intro conjI published_run engine_publishes assms)

theorem published_heads_verified_witness:
  "publication_ok lib_ex opts_ex (run_log (push_ex (\<lambda>_. False)) world_ex) \<and>
   list_ex head_written (run_log (push_ex (\<lambda>_. False)) world_ex)"
proof
  show "publication_ok lib_ex opts_ex (run_log (push_ex (\<lambda>_. False)) world_ex)"
    unfolding push_ex_def Let_def by (rule published_heads_verified [OF hex_ex, THEN conjunct1])
  show "list_ex head_written (run_log (push_ex (\<lambda>_. False)) world_ex)"
    using push_ex_uploads by (auto simp: run_log_def Let_def world_ex_def split: prod.splits)
qed


definition cancel_ex :: "event list \<Rightarrow> bool" where
  "cancel_ex t \<longleftrightarrow> encoded t (replicate 13 0) \<noteq> None"

lemma faithful_never_cancels: "never_cancels (faithful_env cancel) lib_ex"
  unfolding never_cancels_def
  by (auto simp: faithful_env_def lib_ex_def uncancelled_def split: option.splits)

interpretation faithful: honest_storage "faithful_env cancel" lib_ex for cancel
  by unfold_locales (rule faithful_never_cancels)

lemma push_ex_cancelled: "map_sum id res_outcome (fst (push_ex cancel_ex world_ex)) = Inl Cancelled"
  by code_simp

lemma push_ex_accepted: "accepted_cancel (rev (past (snd (push_ex cancel_ex world_ex))))"
  by code_simp


end
