(* ===== verification/Sync_Collect.thy ===== *)
theory Sync_Collect
  imports Sync_Safety
begin

text \<open>
  Garbage collection (\<open>gc.rs\<close>) in any environment. Before a snapshot is deleted its file has been
  read and decoded, a committed snapshot that supersedes it has been read and authenticated, and a
  scan of all device heads and of the shared pointer, after which nothing else was done, did not
  name it.
\<close>

section \<open>Operations that log themselves once\<close>

definition cancels :: "event list \<Rightarrow> bool" where
  "cancels es \<longleftrightarrow> (\<forall>e \<in> set es. e = ECancel)"

lemma cancels_append [simp]: "cancels (a @ b) \<longleftrightarrow> cancels a \<and> cancels b" "cancels []"
  by (auto simp: cancels_def)

text \<open>Besides requests to cancel, \<open>m\<close> logs at most its event, and exactly once when it succeeds.\<close>

definition once :: "(CloudSyncError + 'a \<Rightarrow> event) \<Rightarrow> 'a io \<Rightarrow> bool" where
  "once ev m \<longleftrightarrow> (\<forall>w r w'. m w = (r, w') \<longrightarrow>
     (\<exists>a. cancels a \<and> past w' = a @ past w \<and> (\<forall>x. r \<noteq> Inr x)) \<or>
     (\<exists>a r' b. cancels a \<and> cancels b \<and> past w' = a @ ev r' # b @ past w \<and> (\<forall>x. r = Inr x \<longrightarrow> r' = Inr x)))"

lemma once_ask: "once ev (ask answer ev)"
  unfolding once_def ask_def Let_def by (auto intro!: exI [of _ "[]"])

lemma once_cases:
  assumes "once ev m" and "m w = (r, w')"
  obtains (silent) a where "cancels a" "past w' = a @ past w" "\<forall>x. r \<noteq> Inr x"
  | (logged) a r' b where "cancels a" "cancels b" "past w' = a @ ev r' # b @ past w" "\<forall>x. r = Inr x \<longrightarrow> r' = Inr x"
proof -
  have "(\<exists>a. cancels a \<and> past w' = a @ past w \<and> (\<forall>x. r \<noteq> Inr x)) \<or>
     (\<exists>a r' b. cancels a \<and> cancels b \<and> past w' = a @ ev r' # b @ past w \<and> (\<forall>x. r = Inr x \<longrightarrow> r' = Inr x))"
    using assms(1) [unfolded once_def, rule_format, OF assms(2)] .
  then show thesis by (elim disjE exE conjE) (rule silent logged; assumption)+
qed

lemma checkpoint_cancels: "checkpoint E w = (r, w') \<Longrightarrow> \<exists>a. cancels a \<and> past w' = a @ past w"
  by (auto simp: checkpoint_def poll_def cancels_def Let_def split: if_splits)

lemma once_guarded: "once ev m \<Longrightarrow> once ev (guarded E m)"
  unfolding once_def [of ev "guarded E m"]
proof (intro allI impI)
  fix w r w'
  assume m: "once ev m" and run: "guarded E m w = (r, w')"
  obtain r1 w1 where c: "checkpoint E w = (r1, w1)" by (cases "checkpoint E w")
  from checkpoint_cancels [OF c] obtain a where a: "cancels a" "past w1 = a @ past w" by blast
  show "(\<exists>a. cancels a \<and> past w' = a @ past w \<and> (\<forall>x. r \<noteq> Inr x)) \<or>
     (\<exists>a r' b. cancels a \<and> cancels b \<and> past w' = a @ ev r' # b @ past w \<and> (\<forall>x. r = Inr x \<longrightarrow> r' = Inr x))"
  proof (cases r1)
    case (Inl e)
    with run c have "r = Inl e" "w' = w1" by (auto simp: guarded_def tryq_def attempt_def fail_def)
    with a show ?thesis by auto
  next
    case (Inr x)
    with run c have "m w1 = (r, w')" by (simp add: guarded_def tryq_def attempt_def)
    with m show ?thesis
    proof (cases rule: once_cases)
      case (silent b)
      with a show ?thesis by (intro disjI1 exI [of _ "b @ a"]) simp
    next
      case (logged b r' d)
      with a show ?thesis by (intro disjI2 exI [of _ b] exI [of _ r'] exI [of _ "d @ a"]) simp
    qed
  qed
qed

lemma once_then_checkpoint: "once ev m \<Longrightarrow> once ev (tryq m (\<lambda>x. tryq (checkpoint E) (\<lambda>_. ret x)))"
  unfolding once_def [of ev "tryq m (\<lambda>x. tryq (checkpoint E) (\<lambda>_. ret x))"]
proof (intro allI impI)
  fix w r w'
  assume m: "once ev m" and run: "tryq m (\<lambda>x. tryq (checkpoint E) (\<lambda>_. ret x)) w = (r, w')"
  obtain r1 w1 where m1: "m w = (r1, w1)" by (cases "m w")
  obtain r2 w2 where c: "checkpoint E w1 = (r2, w2)" by (cases "checkpoint E w1")
  from checkpoint_cancels [OF c] obtain d where d: "cancels d" "past w2 = d @ past w1" by blast
  have "(w' = w1 \<and> r = r1 \<and> (\<forall>x. r \<noteq> Inr x)) \<or> (w' = w2 \<and> (\<exists>y. r1 = Inr y) \<and> (\<forall>x. r = Inr x \<longrightarrow> r1 = Inr x))"
    using run m1 c by (auto simp: tryq_def attempt_def fail_def ret_def split: sum.splits)
  then consider "w' = w1" "r = r1" | y where "w' = w2" "r1 = Inr y" "\<forall>x. r = Inr x \<longrightarrow> r1 = Inr x" by blast
  then show "(\<exists>a. cancels a \<and> past w' = a @ past w \<and> (\<forall>x. r \<noteq> Inr x)) \<or>
     (\<exists>a r' b. cancels a \<and> cancels b \<and> past w' = a @ ev r' # b @ past w \<and> (\<forall>x. r = Inr x \<longrightarrow> r' = Inr x))"
  proof cases
    case 1
    from m [unfolded once_def, rule_format, OF m1] show ?thesis unfolding 1 .
  next
    case 2
    from m m1 show ?thesis
    proof (cases rule: once_cases)
      case (logged a r' b)
      with 2 d show ?thesis by (intro disjI2 exI [of _ "d @ a"] exI [of _ r'] exI [of _ b]) auto
    qed (use 2 in simp)
  qed
qed

lemma once_guarded2: "once ev m \<Longrightarrow> once ev (guarded2 E m)"
  using once_guarded [OF once_then_checkpoint [where E = E]] unfolding guarded2_def guarded_def .

locale scanning_parties = sync_parties +
  assumes once_read: "once (ERead p) (r_read R p)" and once_list: "once (EList p) (r_list R p)"
    and once_delete: "once (EDelete p) (r_delete R p)" and once_decode_pointer: "once (EDecodePointer b) (s_decode_pointer S b)"

lemma controlled_scanning: "scanning_parties R S \<Longrightarrow> scanning_parties (controlled_remote E R) (controlled_store E S)"
  unfolding scanning_parties_def scanning_parties_axioms_def sync_parties_def
  using controlled_remote_contract controlled_store_contract
  by (auto simp: controlled_remote_def controlled_store_def intro: once_guarded once_guarded2)

interpretation raw_scan: scanning_parties "raw_remote E" "raw_store E" for E
  by unfold_locales (simp_all add: raw_remote_def raw_store_def once_ask)

section \<open>What a deletion rests on\<close>

definition reading :: "event \<Rightarrow> bool" where
  "reading e = (case e of ERead _ _ \<Rightarrow> True | EDecodePointer _ _ \<Rightarrow> True | ECancel \<Rightarrow> True | _ \<Rightarrow> False)"

lemma reading_simps [simp]: "reading (ERead p r)" "reading (EDecodePointer b r')" "reading ECancel"
  by (simp_all add: reading_def)

lemma cancels_reading: "cancels a \<Longrightarrow> \<forall>e \<in> set a. reading e"
  by (auto simp: cancels_def)

text \<open>Every listed head file was read after the listing, and none that exists names the revision.\<close>

definition heads_scanned :: "lib \<Rightarrow> str \<Rightarrow> str \<Rightarrow> event list \<Rightarrow> str list \<Rightarrow> bool" where
  "heads_scanned L root revision gs paths \<longleftrightarrow> (\<forall>q \<in> set paths. is_head_file (remote_path root HEADS_DIR) q \<longrightarrow>
     (\<exists>r. ERead q (Inr r) \<in> set gs \<and>
       (\<forall>b. r = Some b \<longrightarrow> (\<exists>record. decode_record L b = Inr record \<and> revision \<notin> set (record_revisions record)))))"

text \<open>The shared pointer was read, and if there is one it names another revision.\<close>

definition pointer_scanned :: "str \<Rightarrow> str \<Rightarrow> event list \<Rightarrow> bool" where
  "pointer_scanned root revision gs \<longleftrightarrow> (\<exists>r. ERead (remote_path root SYNC_LATEST_FILE) (Inr r) \<in> set gs \<and>
     (\<forall>b. r = Some b \<longrightarrow> (\<exists>p. EDecodePointer b (Inr p) \<in> set gs \<and> p_revision_id p \<noteq> revision)))"

text \<open>The last thing that was done was such a scan.\<close>

definition unnamed :: "lib \<Rightarrow> str \<Rightarrow> str \<Rightarrow> event list \<Rightarrow> bool" where
  "unnamed L root revision es \<longleftrightarrow> (\<exists>gs paths ps hs.
     es = gs @ EList (remote_path root HEADS_DIR) (Inr paths) # ps @ hs \<and> (\<forall>e \<in> set gs \<union> set ps. reading e) \<and>
     heads_scanned L root revision gs paths \<and> pointer_scanned root revision (gs @ ps))"

text \<open>A commit: a device head that was read from its place, or the shared pointer \<open>known\<close> to the caller.\<close>

definition commit_seen :: "lib \<Rightarrow> str \<Rightarrow> RemoteSyncPointer option \<Rightarrow> RemoteSyncPointer \<Rightarrow> event list \<Rightarrow> bool" where
  "commit_seen L root known p es \<longleftrightarrow> known = Some p \<or> (\<exists>b record. decode_record L b = Inr record \<and>
     dh_committed record = Some p \<and> ERead (expected_head_path L root record) (Inr (Some b)) \<in> set es)"

text \<open>The clock of a commit whose snapshot was read, decoded and found to match it.\<close>

definition authenticated :: "lib \<Rightarrow> LocalCloudSyncOptions \<Rightarrow> RemoteSyncPointer option \<Rightarrow> SnapshotSyncClock \<Rightarrow> event list \<Rightarrow> bool" where
  "authenticated L opts known c es \<longleftrightarrow> (\<exists>p b s. commit_seen L (remote_root opts) known p es \<and> p_sync_clock p = Some c \<and>
     ERead (snapshot_path opts p) (Inr (Some b)) \<in> set es \<and> EDecode b (master_password opts) (Inr s) \<in> set es \<and>
     validate_snapshot_against_pointer p s = Inr ())"

text \<open>The file was read and decoded to a snapshot of this revision, which has no causal clock or
  one that an authenticated commit strictly dominates.\<close>

definition superseded ::
  "lib \<Rightarrow> LocalCloudSyncOptions \<Rightarrow> RemoteSyncPointer option \<Rightarrow> str \<Rightarrow> str \<Rightarrow> event list \<Rightarrow> bool" where
  "superseded L opts known path revision es \<longleftrightarrow> (\<exists>b s. ERead path (Inr (Some b)) \<in> set es \<and>
     EDecode b (master_password opts) (Inr s) \<in> set es \<and> m_revision_id (meta s) = revision \<and>
     m_schema_version (meta s) = FIXED_SYNC_SNAPSHOT_SCHEMA_VERSION \<and>
     (\<forall>c. m_sync_clock (meta s) = Some c \<longrightarrow> (\<exists>n. strictly_dominates n c \<and> authenticated L opts known n es)))"

primrec collection_ok :: "lib \<Rightarrow> LocalCloudSyncOptions \<Rightarrow> RemoteSyncPointer option \<Rightarrow> event list \<Rightarrow> bool" where
  "collection_ok L opts known [] = True"
| "collection_ok L opts known (e # es) \<longleftrightarrow> collection_ok L opts known es \<and> (case e of
     EDelete path _ \<Rightarrow> (\<exists>revision. map_option p_revision_id known \<noteq> Some revision \<and>
       superseded L opts known path revision es \<and> unnamed L (remote_root opts) revision es)
   | _ \<Rightarrow> True)"

lemma seen_stable: "stable A (authenticated L opts known c)" "stable A (superseded L opts known path revision)"
proof -
  have a: "stable A (authenticated L opts known c)" for c
    unfolding stable_def authenticated_def commit_seen_def by (metis list.set_intros(2))
  then show "stable A (authenticated L opts known c)" .
  show "stable A (superseded L opts known path revision)"
    unfolding stable_def
  proof (intro allI impI)
    fix e es
    assume "A e" and "superseded L opts known path revision es"
    then obtain b s where "ERead path (Inr (Some b)) \<in> set es" "EDecode b (master_password opts) (Inr s) \<in> set es"
      "m_revision_id (meta s) = revision" "m_schema_version (meta s) = FIXED_SYNC_SNAPSHOT_SCHEMA_VERSION"
      "\<forall>c. m_sync_clock (meta s) = Some c \<longrightarrow> (\<exists>n. strictly_dominates n c \<and> authenticated L opts known n es)"
      unfolding superseded_def by blast
    moreover have "authenticated L opts known n es \<Longrightarrow> authenticated L opts known n (e # es)" for n
      using a [of n] \<open>A e\<close> by (simp add: stable_def)
    ultimately show "superseded L opts known path revision (e # es)"
      unfolding superseded_def by (intro exI [of _ b] exI [of _ s]) (auto; blast)
  qed
qed

lemma collection_stable: "stable harmless (collection_ok L opts known)"
  by (auto simp: stable_def harmless_def split: event.splits)

context scanning_parties
begin

lemma read_runs:
  assumes "r_read R p w = (Inr x, w')"
  shows "\<exists>gs. past w' = gs @ past w \<and> (\<forall>e \<in> set gs. reading e) \<and> ERead p (Inr x) \<in> set gs"
  using once_read assms
proof (cases rule: once_cases)
  case (logged a r' b)
  then show ?thesis by (intro exI [of _ "a @ ERead p r' # b"]) (auto simp: cancels_def)
qed simp

lemma decode_pointer_runs:
  assumes "s_decode_pointer S b w = (Inr x, w')"
  shows "\<exists>gs. past w' = gs @ past w \<and> (\<forall>e \<in> set gs. reading e) \<and> EDecodePointer b (Inr x) \<in> set gs"
  using once_decode_pointer assms
proof (cases rule: once_cases)
  case (logged a r' d)
  then show ?thesis by (intro exI [of _ "a @ EDecodePointer b r' # d"]) (auto simp: cancels_def)
qed simp

end

end
