(* ===== verification/Spec2Isabelle.thy ===== *)
theory Spec2Isabelle
  imports Otp_Token Remote_Frame Xymodem Input_Mailbox Session_Queue Recording Output_Store
    Pixel_Budget Idempotency Workspace_Tabs Natural_Order Sync_Runs Sync_Collect
begin

text \<open>
  A verification development for NyaTerm, a terminal and remote desktop client.

  \<^bold>\<open>The program.\<close> A session runs in a transport (\<open>src/crates/nyaterm-transport\<close>): threads
  read bytes from a pseudo terminal, a serial line, an SSH channel or a Telnet peer, decode them
  and push events into a session event queue; the desktop (\<open>nyaterm-desktop\<close>) drains that queue
  into terminals and recordings, and what the user types goes through an input policy into a
  bounded mailbox whose writer thread owns the connection. Remote desktop sessions run in helper
  processes that send frames over a packet stream to a framebuffer
  (\<open>nyaterm-remote-desktop\<close>). Files are uploaded over the terminal by X/YMODEM. One-time
  passwords are generated for logins (\<open>nyaterm-otp\<close>). Tool calls of an assistant capture
  command output in bounded stores (\<open>nyaterm-core\<close>) and are recorded in an idempotency ledger.

  \<^bold>\<open>Representation.\<close> A byte string is a list of 8-bit words, and a Rust \<open>str\<close> is its UTF-8
  bytes (\<open>Utf8_Text\<close>); fixed-width integers are words; \<open>usize\<close> is a natural number, with the
  saturating, checked and panicking operations of the code written out (\<open>sat_add\<close>,
  \<open>chk_add\<close>, \<open>sub_usize\<close>). \<open>Result\<close> is a sum type, a panic is \<open>None\<close>. Code that shares
  state between threads is given as one function per critical section or atomic access, and
  its interleavings as a step relation or as runs over arbitrary event lists. What the
  sources only call (text codecs, Unicode width and case tables, SHA-256 of the ledger, random
  ids, clocks) is a parameter, and what is assumed of it is a named predicate.

  \<^bold>\<open>Theories.\<close>
  \<^item> \<open>Prelude\<close>: integers, results, byte order, and three interfaces: \<open>value_codec\<close> (an
    encoding that is read back), \<open>stream_consumer\<close> (cutting the input changes nothing) and
    \<open>event_machine\<close> (an invariant kept by every event). \<open>Utf8_Text\<close>, \<open>Str_Ops\<close>: validity,
    character boundaries, splitting and number parsing of strings.
  \<^item> \<open>Otp_Encoding\<close>, \<open>Otp_Hash\<close>, \<open>Otp_Token\<close> (\<open>nyaterm-otp\<close>): base32, hexadecimal and
    URL coding, SHA-1/256/512 and HMAC, HOTP and TOTP generation and verification, and
    \<open>otpauth\<close> addresses. The lemmas relate the block-wise code to the standards, give the exact
    acceptance windows, and show where the padding code departs from the standard.
  \<^item> \<open>Remote_Ipc\<close>, \<open>Remote_Frame\<close> (\<open>nyaterm-remote-desktop\<close>): packets, their incremental
    parser, frames and cursors; the framebuffer, dirty rectangles and frame batches. The lemmas
    give round trips under any segmentation, the exact pixels after an update, and that no
    message corrupts the framebuffer.
  \<^item> \<open>Pixel_Budget\<close> (\<open>pixel_memory.rs\<close>): the lock-free pixel budget; \<open>pstep\<close> has one rule
    per atomic access.
  \<^item> \<open>Xymodem\<close> (\<open>nyaterm-transport/src/xymodem\<close>): the upload sender as a state machine; its
    invariant, that it can always finish, and the block format.
  \<^item> \<open>Char_Encoding\<close>, \<open>Telnet\<close>: the catalogue of character sets and cell widths; the Telnet
    codec, negotiation, window size, and the local line editor, which is shown to implement an
    editor of characters and keys.
  \<^item> \<open>Input_Mailbox\<close> (\<open>writer_mailbox.rs\<close>, \<open>ssh_mailbox.rs\<close>): bounded input with permits.
  \<^item> \<open>Session_Queue\<close> (\<open>session_event_queue.rs\<close>): the event queue; \<open>qstep\<close> has one rule per
    critical section, and the lemmas give its invariant, that streams stay intact, and that
    back-pressure is lifted.
  \<^item> \<open>Recording\<close> (\<open>recording_sanitizer.rs\<close>): transcripts; the sanitizer as a stream
    consumer and the row editor, which never panics and implements an array of cells.
  \<^item> \<open>Output_Store\<close> (\<open>output_store.rs\<close>, \<open>stream_output.rs\<close>): captured output, its limits,
    and complete paging.
  \<^item> \<open>Idempotency\<close> (\<open>idempotency.rs\<close>): the ledger of tool calls, which starts a keyed
    operation at most once.
  \<^item> This theory: the path of a Telnet session's output through decoder and queue.

  \<^bold>\<open>Fuel and bounds.\<close> Loops are structural or have a termination proof. Two take fuel: the
  splitting loop of \<open>stream_append\<close> gets the length of the text, and \<open>append_loop_ok\<close> shows
  that it suffices because every round takes at least one character; \<open>read_pages\<close>, the client
  that pages through an output, is shown to end within one read more than the text has bytes.

  \<^bold>\<open>Not modelled.\<close> The user interface, the terminal emulator, the SSH protocol and its
  libraries, file transfer, storage, encryption of the vault, and cloud synchronisation; in the
  modelled parts sockets, threads, wake-ups of condition variables, timeouts, mutex poisoning
  and failed allocations. The prompts of the Telnet automatic login are matched by regular
  expressions and are left out.
\<close>

subsection \<open>From the wire to the user interface\<close>

lemma items_filter:
  "items s (filter (\<lambda>e. event_session_id e = s \<and> \<not> is_cleanup e) es) = items s es"
  by (induction es) (auto simp: event_items_def)

lemma items_outputs: "items s (map (Output s) cs) = map Inl (concat cs)"
  by (induction cs) simp_all

lemma pending_chunks_nonempty:
  "filter (\<lambda>c. c \<noteq> []) (Session_Queue.chunks n d) = Session_Queue.chunks n d"
proof (rule filter_True, rule ballI)
  fix c assume "c \<in> set (Session_Queue.chunks n d)"
  from Session_Queue.chunks_ok [OF this] show "c \<noteq> []" by auto
qed

lemma items_pending: "items s (pending_of (Output s d)) = map Inl d"
proof -
  have "0 < SESSION_EVENT_QUEUE_OUTPUT_EVENT_LIMIT" by (simp add: queue_limits)
  from chunks_concat [OF this] show ?thesis by (simp only: pending_of.simps pending_chunks_nonempty items_outputs)
qed

lemma items_reads:
  assumes "\<not> raw_tcp config" and "\<forall>r \<in> set rs. \<forall>i \<in> set r. item_ok i"
  shows "items s (concat (map (\<lambda>r. pending_of (Output s
      (fst (reader_read config (concat (map item_bytes r)))))) rs)) =
    map Inl (concat (map item_data (concat rs)))"
  using assms(2)
proof (induction rs)
  case (Cons r rs)
  have "fst (reader_read config (concat (map item_bytes r))) = concat (map item_data r)"
    using strip_items [of r] Cons.prems assms(1) by (simp add: reader_read_def)
  then show ?case using Cons items_pending [of s] by simp
qed simp



end
